(* ===== verification/Prelude.thy ===== *)
theory Prelude
  imports Main "HOL-Library.AList" "HOL-Library.List_Lexorder" "HOL-Library.Char_ord"
begin

text \<open>
  Shared notions of the development: the outcome of a Rust call, the two
  kinds of ordered maps the backend uses (insertion-ordered and key-ordered),
  the interface both kinds implement, and the lemma collections that the
  component theories extend.
\<close>

named_theorems res_simps \<open>evaluation of outcomes\<close>
named_theorems wf_intros \<open>introduction rules for well-formedness invariants\<close>

section \<open>Outcomes of Rust calls\<close>

text \<open>
  A Rust call returns \<open>Ok\<close> or \<open>Err\<close>, or it panics (an \<open>unwrap\<close> on an error, an
  empty sampling range, arithmetic underflow in a checked build), or it does
  not return at all. A loop that is given fuel reports the last case as
  \<open>Diverge\<close>; a theorem that a call returns excludes it.
\<close>

datatype ('e, 'a) res = Ok 'a | Err 'e | Panic | Diverge

text \<open>The \<open>?\<close> operator: go on with the value, otherwise leave with the outcome.\<close>

fun rbind :: "('e, 'a) res \<Rightarrow> ('a \<Rightarrow> ('e, 'b) res) \<Rightarrow> ('e, 'b) res" where
  "rbind (Ok a) f = f a"
| "rbind (Err e) f = Err e"
| "rbind Panic f = Panic"
| "rbind Diverge f = Diverge"

fun map_err :: "('e \<Rightarrow> 'f) \<Rightarrow> ('e, 'a) res \<Rightarrow> ('f, 'a) res" where
  "map_err f (Ok a) = Ok a"
| "map_err f (Err e) = Err (f e)"
| "map_err f Panic = Panic"
| "map_err f Diverge = Diverge"

fun rmap :: "('a \<Rightarrow> 'b) \<Rightarrow> ('e, 'a) res \<Rightarrow> ('e, 'b) res" where
  "rmap f (Ok a) = Ok (f a)"
| "rmap f (Err e) = Err e"
| "rmap f Panic = Panic"
| "rmap f Diverge = Diverge"

text \<open>\<open>unwrap\<close>: an error becomes a panic.\<close>

fun unwrap :: "('e, 'a) res \<Rightarrow> ('f, 'a) res" where
  "unwrap (Ok a) = Ok a"
| "unwrap (Err e) = Panic"
| "unwrap Panic = Panic"
| "unwrap Diverge = Diverge"

definition ok_or :: "'a option \<Rightarrow> 'e \<Rightarrow> ('e, 'a) res" where
  "ok_or x e = (case x of None \<Rightarrow> Err e | Some a \<Rightarrow> Ok a)"

definition is_ok :: "('e, 'a) res \<Rightarrow> bool" where
  "is_ok r \<longleftrightarrow> (case r of Ok _ \<Rightarrow> True | _ \<Rightarrow> False)"

text \<open>A call that returns, with a value or with an error.\<close>

definition returns :: "('e, 'a) res \<Rightarrow> bool" where
  "returns r \<longleftrightarrow> (case r of Ok _ \<Rightarrow> True | Err _ \<Rightarrow> True | _ \<Rightarrow> False)"

lemma is_ok_simps [simp]:
  "is_ok (Ok a)" "\<not> is_ok (Err e)" "\<not> is_ok Panic" "\<not> is_ok Diverge"
  by (simp_all add: is_ok_def)

lemma returns_simps [simp]:
  "returns (Ok a)" "returns (Err e)" "\<not> returns Panic" "\<not> returns Diverge"
  by (simp_all add: returns_def)

lemma rbind_cong [fundef_cong]:
  "m = m' \<Longrightarrow> (\<And>a. m' = Ok a \<Longrightarrow> f a = g a) \<Longrightarrow> rbind m f = rbind m' g"
  by (cases m') auto

lemma rbind_eq_Ok [res_simps]: "rbind m f = Ok b \<longleftrightarrow> (\<exists>a. m = Ok a \<and> f a = Ok b)"
  by (cases m) auto

lemma rbind_eq_Err [res_simps]:
  "rbind m f = Err e \<longleftrightarrow> m = Err e \<or> (\<exists>a. m = Ok a \<and> f a = Err e)"
  by (cases m) auto

lemma map_err_eq_Ok [res_simps, simp]: "map_err f m = Ok a \<longleftrightarrow> m = Ok a"
  by (cases m) auto

lemma map_err_eq_Err [res_simps]: "map_err f m = Err e' \<longleftrightarrow> (\<exists>e. m = Err e \<and> e' = f e)"
  by (cases m) auto

lemma rmap_eq_Ok [res_simps]: "rmap f m = Ok b \<longleftrightarrow> (\<exists>a. m = Ok a \<and> b = f a)"
  by (cases m) auto

lemma rmap_eq_Err [res_simps, simp]: "rmap f m = Err e \<longleftrightarrow> m = Err e"
  by (cases m) auto

lemma unwrap_eq_Ok [res_simps, simp]: "unwrap m = Ok a \<longleftrightarrow> m = Ok a"
  by (cases m) auto

lemma ok_or_eq_Ok [res_simps, simp]: "ok_or x e = Ok a \<longleftrightarrow> x = Some a"
  by (cases x) (auto simp: ok_or_def)

lemma ok_or_simps [simp]: "ok_or None e = Err e" "ok_or (Some a) e = Ok a"
  by (simp_all add: ok_or_def)

lemma returns_rbind [simp]:
  "returns (rbind m f) \<longleftrightarrow> returns m \<and> (\<forall>a. m = Ok a \<longrightarrow> returns (f a))"
  by (cases m) auto

lemma returns_map_err [simp]: "returns (map_err f m) \<longleftrightarrow> returns m"
  by (cases m) auto

lemma returns_rmap [simp]: "returns (rmap f m) \<longleftrightarrow> returns m"
  by (cases m) auto

lemma is_ok_iff: "is_ok m \<longleftrightarrow> (\<exists>a. m = Ok a)"
  by (cases m) auto

text \<open>A \<open>for\<close> loop whose body may leave with \<open>?\<close>, threading the mutated state.\<close>

fun rfold :: "('x \<Rightarrow> 's \<Rightarrow> ('e, 's) res) \<Rightarrow> 'x list \<Rightarrow> 's \<Rightarrow> ('e, 's) res" where
  "rfold f [] s = Ok s"
| "rfold f (x # xs) s = rbind (f x s) (rfold f xs)"

lemma rfold_cong [fundef_cong]:
  "xs = ys \<Longrightarrow> s = t \<Longrightarrow> (\<And>x s. x \<in> set ys \<Longrightarrow> f x s = g x s) \<Longrightarrow> rfold f xs s = rfold g ys t"
proof (induction xs arbitrary: s t ys)
  case (Cons x xs)
  then have "rfold f xs = rfold g xs" by (intro ext) auto
  with Cons.prems show ?case by auto
qed auto

lemma rfold_append: "rfold f (xs @ ys) s = rbind (rfold f xs s) (rfold f ys)"
proof (induction xs arbitrary: s)
  case (Cons x xs)
  then show ?case by (cases "f x s") simp_all
qed simp

text \<open>An invariant that each iteration keeps holds when the loop ends.\<close>

lemma rfold_invariant:
  assumes "rfold f xs s = Ok t" and "P s"
    and "\<And>x s s'. x \<in> set xs \<Longrightarrow> P s \<Longrightarrow> f x s = Ok s' \<Longrightarrow> P s'"
  shows "P t"
  using assms by (induction xs arbitrary: s) (auto simp: res_simps)

lemma rfold_returns:
  assumes "P s"
    and "\<And>x s. x \<in> set xs \<Longrightarrow> P s \<Longrightarrow> returns (f x s)"
    and "\<And>x s s'. x \<in> set xs \<Longrightarrow> P s \<Longrightarrow> f x s = Ok s' \<Longrightarrow> P s'"
  shows "returns (rfold f xs s)"
  using assms
proof (induction xs arbitrary: s)
  case (Cons x xs)
  have "returns (rfold f xs s')" if "f x s = Ok s'" for s'
    using that Cons.prems by (intro Cons.IH) (auto, blast+)
  then show ?case using Cons.prems by auto
qed simp

text \<open>When the success of an iteration does not depend on the state, the loop succeeds iff all do.\<close>

lemma rfold_is_ok:
  assumes "\<And>x s. x \<in> set xs \<Longrightarrow> is_ok (f x s) \<longleftrightarrow> P x"
  shows "is_ok (rfold f xs s) \<longleftrightarrow> (\<forall>x \<in> set xs. P x)"
  using assms
proof (induction xs arbitrary: s)
  case (Cons x xs)
  show ?case
  proof (cases "f x s")
    case (Ok s')
    with Cons.prems [of x s] Cons.IH [of s'] Cons.prems show ?thesis by auto
  qed (use Cons.prems [of x s] in auto)
qed simp

text \<open>A \<open>for\<close> loop that only checks.\<close>

fun rfor :: "('x \<Rightarrow> ('e, unit) res) \<Rightarrow> 'x list \<Rightarrow> ('e, unit) res" where
  "rfor f [] = Ok ()"
| "rfor f (x # xs) = rbind (f x) (\<lambda>_. rfor f xs)"

lemma rfor_cong [fundef_cong]:
  "xs = ys \<Longrightarrow> (\<And>x. x \<in> set ys \<Longrightarrow> f x = g x) \<Longrightarrow> rfor f xs = rfor g ys"
  by (induction xs arbitrary: ys) auto

lemma rfor_eq_Ok [res_simps, simp]: "rfor f xs = Ok u \<longleftrightarrow> (\<forall>x \<in> set xs. f x = Ok ())"
  by (induction xs) (auto simp: res_simps)

lemma rfor_eq_Err: "rfor f xs = Err e \<Longrightarrow> \<exists>x \<in> set xs. f x = Err e"
  by (induction xs) (auto simp: res_simps)

lemma returns_rfor: "(\<And>x. x \<in> set xs \<Longrightarrow> returns (f x)) \<Longrightarrow> returns (rfor f xs)"
  by (induction xs) auto

section \<open>The map interface\<close>

text \<open>
  What the backend relies on when it uses a map, whatever its iteration order:
  a lookup sees the last insertion and the last removal, and the
  representation invariant (each key once) is kept.
\<close>

locale finmap =
  fixes lookup :: "'m \<Rightarrow> 'k \<Rightarrow> 'v option"
    and put :: "'k \<Rightarrow> 'v \<Rightarrow> 'm \<Rightarrow> 'm"
    and del :: "'k \<Rightarrow> 'm \<Rightarrow> 'm"
    and ok :: "'m \<Rightarrow> bool"
  assumes lookup_put: "ok m \<Longrightarrow> lookup (put k v m) = (lookup m)(k \<mapsto> v)"
    and lookup_del: "ok m \<Longrightarrow> lookup (del k m) = (lookup m)(k := None)"
    and ok_put: "ok m \<Longrightarrow> ok (put k v m)"
    and ok_del: "ok m \<Longrightarrow> ok (del k m)"
begin

text \<open>\<open>Extend::extend\<close>: insert the pairs one after the other, later ones win.\<close>

lemma ok_extend: "ok m \<Longrightarrow> ok (fold (\<lambda>(k, v). put k v) kvs m)"
  by (induction kvs arbitrary: m) (auto simp: ok_put split: prod.splits)

lemma lookup_extend:
  "ok m \<Longrightarrow> lookup (fold (\<lambda>(k, v). put k v) kvs m) = lookup m ++ map_of (rev kvs)"
proof (induction kvs arbitrary: m)
  case (Cons kv kvs)
  obtain k v where kv: "kv = (k, v)" by (cases kv)
  have "lookup (fold (\<lambda>(k, v). put k v) kvs (put k v m)) =
      (lookup m)(k \<mapsto> v) ++ map_of (rev kvs)"
    using Cons.IH [OF ok_put [OF Cons.prems, of k v]]
    by (simp only: lookup_put [OF Cons.prems])
  also have "\<dots> = lookup m ++ map_of (rev (kv # kvs))"
    by (auto simp: kv map_add_def fun_eq_iff split: option.splits)
  finally show ?case by (simp add: kv)
qed simp

text \<open>Removing what was just inserted under a fresh key undoes the insertion.\<close>

lemma lookup_del_put: "ok m \<Longrightarrow> lookup m k = None \<Longrightarrow> lookup (del k (put k v m)) = lookup m"
  by (auto simp: lookup_del lookup_put ok_put fun_eq_iff)

text \<open>Filling absent keys only: a key that is present keeps its value.\<close>

lemma lookup_fill:
  "ok m \<Longrightarrow> lookup (fold (\<lambda>k m. if lookup m k = None then put k (f k) m else m) ks m) k' =
     (case lookup m k' of Some v \<Rightarrow> Some v
      | None \<Rightarrow> if k' \<in> set ks then Some (f k') else None)"
  by (induction ks arbitrary: m) (auto simp: ok_put lookup_put split: option.splits)

end

section \<open>Insertion-ordered maps\<close>

text \<open>
  \<open>indexmap::IndexMap\<close>, and \<open>serde_json::Map\<close> in this build: entries in insertion
  order, each key once. Inserting a present key replaces its value in place;
  removing moves the last entry into the freed slot (\<open>swap_remove\<close>).
\<close>

type_synonym ('k, 'v) imap = "('k \<times> 'v) list"

abbreviation im_ok :: "('k, 'v) imap \<Rightarrow> bool" where
  "im_ok m \<equiv> distinct (map fst m)"

definition im_get :: "('k, 'v) imap \<Rightarrow> 'k \<Rightarrow> 'v option" where
  "im_get m k = map_of m k"

definition im_insert :: "'k \<Rightarrow> 'v \<Rightarrow> ('k, 'v) imap \<Rightarrow> ('k, 'v) imap" where
  "im_insert k v m = AList.update k v m"

fun im_remove :: "'k \<Rightarrow> ('k, 'v) imap \<Rightarrow> ('k, 'v) imap" where
  "im_remove k [] = []"
| "im_remove k ((k', v) # m) =
     (if k' = k then (if m = [] then [] else last m # butlast m) else (k', v) # im_remove k m)"

definition im_extend :: "('k \<times> 'v) list \<Rightarrow> ('k, 'v) imap \<Rightarrow> ('k, 'v) imap" where
  "im_extend kvs m = fold (\<lambda>(k, v). im_insert k v) kvs m"

lemma set_last_butlast: "m \<noteq> [] \<Longrightarrow> set (last m # butlast m) = set m"
  by (metis Un_commute append_butlast_last_id list.simps(15) set_append empty_set insert_is_Un)

lemma distinct_last_butlast:
  "m \<noteq> [] \<Longrightarrow> im_ok (last m # butlast m) \<longleftrightarrow> im_ok m"
  by (subst (3) append_butlast_last_id [symmetric]) (auto simp del: append_butlast_last_id)

lemma map_of_last_butlast:
  assumes "m \<noteq> []" and "im_ok m"
  shows "map_of (last m # butlast m) = map_of m"
  using assms map_of_inject_set set_last_butlast distinct_last_butlast by metis

lemma im_remove_keys: "im_ok m \<Longrightarrow> fst ` set (im_remove k m) = fst ` set m - {k}"
proof (induction m)
  case (Cons a m)
  obtain k' v where a: "a = (k', v)" by (cases a)
  show ?case
  proof (cases "k' = k")
    case True
    have "fst ` set (last m # butlast m) = fst ` set m" if "m \<noteq> []"
      using set_last_butlast [OF that] by simp
    then show ?thesis using True Cons.prems a by auto
  next
    case False
    then show ?thesis using Cons a by auto
  qed
qed simp

lemma im_ok_remove: "im_ok m \<Longrightarrow> im_ok (im_remove k m)"
proof (induction m)
  case (Cons a m)
  then show ?case
    using distinct_last_butlast [of m] im_remove_keys [of m k] by (cases a) auto
qed simp

lemma map_of_im_remove: "im_ok m \<Longrightarrow> map_of (im_remove k m) = (map_of m)(k := None)"
proof (induction m)
  case (Cons a m)
  obtain k' v where a: "a = (k', v)" by (cases a)
  show ?case
  proof (cases "k' = k")
    case True
    have "map_of (last m # butlast m) = map_of m" if "m \<noteq> []"
      using that Cons.prems by (intro map_of_last_butlast) auto
    moreover have "map_of m k = None"
      using True Cons.prems a by (simp add: map_of_eq_None_iff)
    ultimately show ?thesis using True a by (auto simp: fun_eq_iff)
  next
    case False
    then show ?thesis using Cons a by (auto simp: fun_eq_iff)
  qed
qed simp

interpretation im: finmap im_get im_insert im_remove im_ok
proof unfold_locales
  fix m :: "('a, 'b) imap" and k :: 'a and v :: 'b
  assume ok: "im_ok m"
  show "im_get (im_insert k v m) = (im_get m)(k \<mapsto> v)"
    by (simp add: im_get_def [abs_def] im_insert_def update_conv')
  show "im_get (im_remove k m) = (im_get m)(k := None)"
    using ok by (simp add: im_get_def [abs_def] map_of_im_remove)
  show "im_ok (im_insert k v m)"
    using ok by (simp add: im_insert_def distinct_update)
  show "im_ok (im_remove k m)" using ok by (rule im_ok_remove)
qed

lemma im_get_simps [simp]:
  "im_get [] k = None"
  "im_get ((k', v) # m) k = (if k' = k then Some v else im_get m k)"
  by (auto simp: im_get_def)

lemma im_get_insert [simp]:
  "im_get (im_insert k v m) k' = (if k' = k then Some v else im_get m k')"
  by (simp add: im_get_def im_insert_def update_conv')

lemma im_get_None: "im_get m k = None \<longleftrightarrow> k \<notin> fst ` set m"
  by (simp add: im_get_def map_of_eq_None_iff)

lemma im_get_SomeD: "im_get m k = Some v \<Longrightarrow> (k, v) \<in> set m"
  by (simp add: im_get_def map_of_SomeD)

lemma im_get_mem: "im_ok m \<Longrightarrow> (k, v) \<in> set m \<Longrightarrow> im_get m k = Some v"
  by (simp add: im_get_def)

lemma im_get_extend:
  assumes "im_ok m"
  shows "im_get (im_extend kvs m) k =
    (case map_of (rev kvs) k of Some v \<Rightarrow> Some v | None \<Rightarrow> im_get m k)"
  unfolding im_extend_def using im.lookup_extend [OF assms, of kvs]
  by (simp add: map_add_def)

lemma map_of_rev_im_get: "im_ok m \<Longrightarrow> map_of (rev m) k = im_get m k"
  using map_of_inject_set [of "rev m" m] by (simp add: im_get_def rev_map [symmetric])

section \<open>Key-ordered maps\<close>

text \<open>
  \<open>BTreeMap\<close>: entries in increasing key order, each key once. Iteration is in
  key order, so loops over such a map are folds over the list.
\<close>

type_synonym ('k, 'v) btmap = "('k \<times> 'v) list"

abbreviation bt_ok :: "('k::linorder, 'v) btmap \<Rightarrow> bool" where
  "bt_ok m \<equiv> sorted_wrt (<) (map fst m)"

definition bt_get :: "('k, 'v) btmap \<Rightarrow> 'k \<Rightarrow> 'v option" where
  "bt_get m k = map_of m k"

fun bt_insert :: "'k::linorder \<Rightarrow> 'v \<Rightarrow> ('k, 'v) btmap \<Rightarrow> ('k, 'v) btmap" where
  "bt_insert k v [] = [(k, v)]"
| "bt_insert k v ((k', v') # m) =
     (if k < k' then (k, v) # (k', v') # m
      else if k = k' then (k, v) # m
      else (k', v') # bt_insert k v m)"

definition bt_remove :: "'k \<Rightarrow> ('k, 'v) btmap \<Rightarrow> ('k, 'v) btmap" where
  "bt_remove k m = filter (\<lambda>e. fst e \<noteq> k) m"

definition bt_keys :: "('k, 'v) btmap \<Rightarrow> 'k list" where
  "bt_keys m = map fst m"

definition bt_of_list :: "('k::linorder \<times> 'v) list \<Rightarrow> ('k, 'v) btmap" where
  "bt_of_list kvs = fold (\<lambda>(k, v). bt_insert k v) kvs []"

lemma bt_insert_keys [simp]: "fst ` set (bt_insert k v m) = insert k (fst ` set m)"
  by (induction k v m rule: bt_insert.induct) auto

lemma bt_ok_insert: "bt_ok m \<Longrightarrow> bt_ok (bt_insert k v m)"
  by (induction k v m rule: bt_insert.induct) auto

lemma map_of_bt_insert: "map_of (bt_insert k v m) = (map_of m)(k \<mapsto> v)"
  by (induction k v m rule: bt_insert.induct) (auto simp: fun_eq_iff)

lemma bt_get_remove [simp]: "bt_get (bt_remove k m) k' = (if k' = k then None else bt_get m k')"
  by (induction m) (auto simp: bt_get_def bt_remove_def)

interpretation bt: finmap bt_get bt_insert bt_remove bt_ok
proof unfold_locales
  fix m :: "('a::linorder, 'b) btmap" and k :: 'a and v :: 'b
  assume ok: "bt_ok m"
  show "bt_get (bt_insert k v m) = (bt_get m)(k \<mapsto> v)"
    by (simp add: bt_get_def [abs_def] map_of_bt_insert)
  show "bt_get (bt_remove k m) = (bt_get m)(k := None)"
    by (simp add: fun_eq_iff)
  show "bt_ok (bt_insert k v m)" using ok by (rule bt_ok_insert)
  show "bt_ok (bt_remove k m)"
    using ok by (simp add: bt_remove_def sorted_wrt_map sorted_wrt_filter)
qed

lemma bt_get_simps [simp]:
  "bt_get [] k = None"
  "bt_get ((k', v) # m) k = (if k' = k then Some v else bt_get m k)"
  by (auto simp: bt_get_def)

lemma bt_get_insert [simp]:
  "bt_get (bt_insert k v m) k' = (if k' = k then Some v else bt_get m k')"
  by (simp add: bt_get_def map_of_bt_insert)

lemma bt_get_None: "bt_get m k = None \<longleftrightarrow> k \<notin> set (bt_keys m)"
  by (simp add: bt_get_def bt_keys_def map_of_eq_None_iff)

lemma bt_get_SomeD: "bt_get m k = Some v \<Longrightarrow> (k, v) \<in> set m"
  by (simp add: bt_get_def map_of_SomeD)

lemma bt_ok_distinct: "bt_ok m \<Longrightarrow> distinct (map fst m)"
  using strict_sorted_iff by blast

lemma bt_get_mem: "bt_ok m \<Longrightarrow> (k, v) \<in> set m \<Longrightarrow> bt_get m k = Some v"
  by (simp add: bt_get_def bt_ok_distinct)

lemmas bt_wf [wf_intros] = bt.ok_put bt.ok_del bt.ok_extend

end
