(* ===== verification/Json.thy ===== *)
theory Json
  imports Prelude Complex_Main
begin

text \<open>
  The values a service configuration is made of: \<open>serde_json::Value\<close> as the
  backend matches on it, \<open>TypeOf\<close> from \<^verbatim>\<open>config/mod.rs\<close>, the equality \<open>==\<close>
  on values, and \<open>MergeWith\<close> from \<^verbatim>\<open>config/util.rs\<close>.
\<close>

section \<open>Floating-point numbers\<close>

text \<open>
  A 64-bit float as far as comparisons, \<open>floor\<close> and conversion from integers go:
  a finite value is the rational it denotes.
\<close>

datatype f64 = Finite rat | Infinity | NegInfinity | NaN

fun f64_le :: "f64 \<Rightarrow> f64 \<Rightarrow> bool" where
  "f64_le NaN _ = False"
| "f64_le _ NaN = False"
| "f64_le (Finite a) (Finite b) = (a \<le> b)"
| "f64_le NegInfinity _ = True"
| "f64_le _ Infinity = True"
| "f64_le _ _ = False"

definition f64_lt :: "f64 \<Rightarrow> f64 \<Rightarrow> bool" where
  "f64_lt a b \<longleftrightarrow> f64_le a b \<and> \<not> f64_le b a"

text \<open>\<open>n.floor() != n\<close>\<close>

fun f64_has_fraction :: "f64 \<Rightarrow> bool" where
  "f64_has_fraction (Finite a) = (of_int \<lfloor>a\<rfloor> \<noteq> a)"
| "f64_has_fraction NaN = True"
| "f64_has_fraction _ = False"

text \<open>
  Integer to float, rounding to the nearest of the values with a 53-bit
  significand and to the even one on a tie.
\<close>

fun bit_len :: "nat \<Rightarrow> nat" where
  "bit_len n = (if n = 0 then 0 else Suc (bit_len (n div 2)))"

declare bit_len.simps [simp del]

definition round_f64 :: "nat \<Rightarrow> nat" where
  "round_f64 n =
     (let e = bit_len n - 53; q = n div 2 ^ e; r = n mod 2 ^ e
      in (if 2 * r < 2 ^ e \<or> (2 * r = 2 ^ e \<and> even q) then q else Suc q) * 2 ^ e)"

definition f64_of_int :: "int \<Rightarrow> f64" where
  "f64_of_int n = Finite (of_int (sgn n * int (round_f64 (nat \<bar>n\<bar>))))"

lemma bit_len_le: "n < 2 ^ k \<Longrightarrow> bit_len n \<le> k"
proof (induction k arbitrary: n)
  case 0
  then show ?case by (simp add: bit_len.simps)
next
  case (Suc k)
  then have "bit_len (n div 2) \<le> k" by simp
  then show ?case by (subst bit_len.simps) simp
qed

lemma round_f64_exact: "n < 2 ^ 53 \<Longrightarrow> round_f64 n = n"
  using bit_len_le [of n 53] by (simp add: round_f64_def)

section \<open>Numbers and values\<close>

text \<open>
  \<open>serde_json::Number\<close>: an integer in the range of \<open>i64\<close> or \<open>u64\<close>, or a finite
  float. An integer and a float are never equal.
\<close>

datatype number = NInt int | NFloat rat

fun as_f64 :: "number \<Rightarrow> f64" where
  "as_f64 (NInt n) = f64_of_int n"
| "as_f64 (NFloat r) = Finite r"

datatype json =
    JNull
  | JBool bool
  | JNumber number
  | JString string
  | JArray "json list"
  | JObject "(string \<times> json) list"

type_synonym config = "(string, json) imap"

fun type_of :: "json \<Rightarrow> string" where
  "type_of (JArray _) = ''list''"
| "type_of (JBool _) = ''boolean''"
| "type_of JNull = ''null''"
| "type_of (JNumber _) = ''number''"
| "type_of (JObject _) = ''object''"
| "type_of (JString _) = ''string''"

text \<open>Every object holds each key once: what the map type guarantees.\<close>

fun value_ok :: "json \<Rightarrow> bool" where
  "value_ok (JArray vs) = list_all value_ok vs"
| "value_ok (JObject m) = (im_ok m \<and> list_all (\<lambda>e. value_ok (snd e)) m)"
| "value_ok _ = True"

lemma snd_size_less [termination_simp]:
  "e \<in> set m \<Longrightarrow> size (snd e) < Suc (size_list (size_prod (\<lambda>_. 0) size) m)"
  by (induction m) (auto simp: less_Suc_eq_le)

text \<open>
  Equality of values. Objects are equal when they hold equal values under the
  same keys, in whatever order.
\<close>

function value_eq :: "json \<Rightarrow> json \<Rightarrow> bool"
  and values_eq :: "json list \<Rightarrow> json list \<Rightarrow> bool" where
  "value_eq JNull w = (w = JNull)"
| "value_eq (JBool a) w = (w = JBool a)"
| "value_eq (JNumber a) w = (w = JNumber a)"
| "value_eq (JString a) w = (w = JString a)"
| "value_eq (JArray xs) w = (case w of JArray ys \<Rightarrow> values_eq xs ys | _ \<Rightarrow> False)"
| "value_eq (JObject m) w =
     (case w of
        JObject m' \<Rightarrow> length m = length m' \<and>
          list_all (\<lambda>e. case im_get m' (fst e) of None \<Rightarrow> False | Some x \<Rightarrow> value_eq (snd e) x) m
      | _ \<Rightarrow> False)"
| "values_eq [] ys = (ys = [])"
| "values_eq (x # xs) ys =
     (case ys of [] \<Rightarrow> False | y # ys' \<Rightarrow> value_eq x y \<and> values_eq xs ys')"
  by pat_completeness auto
termination
  by (relation "measure (\<lambda>x. case x of Inl (v, _) \<Rightarrow> size v | Inr (vs, _) \<Rightarrow> size_list size vs)")
    (auto intro: snd_size_less)

lemma values_eq_conv: "values_eq xs ys \<longleftrightarrow> list_all2 value_eq xs ys"
  by (induction xs arbitrary: ys) (auto split: list.splits)

lemma values_eq_refl: "(\<And>x. x \<in> set xs \<Longrightarrow> value_eq x x) \<Longrightarrow> values_eq xs xs"
  by (simp add: values_eq_conv list_all2_same)

lemma value_eq_refl: "value_ok v \<Longrightarrow> value_eq v v"
proof (induction v)
  case (JObject m)
  have "value_eq (snd e) (snd e)" if "e \<in> set m" for e
    using that JObject.IH [of e "snd e"] JObject.prems
    by (auto simp: list_all_iff snds.simps)
  moreover have "im_get m (fst e) = Some (snd e)" if "e \<in> set m" for e
    using that JObject.prems by (cases e) (auto intro: im_get_mem)
  ultimately show ?case by (simp add: list_all_iff)
next
  case (JArray vs)
  then show ?case by (auto intro: values_eq_refl simp: list_all_iff)
qed auto

text \<open>Two maps of the same size where one's keys are the other's have the same keys.\<close>

lemma im_same_keys:
  assumes "im_ok m" and "im_ok m'" and "length m = length m'"
    and "\<And>k. im_get m k \<noteq> None \<Longrightarrow> im_get m' k \<noteq> None"
  shows "im_get m k = None \<longleftrightarrow> im_get m' k = None"
proof -
  have "fst ` set m \<subseteq> fst ` set m'"
    using assms(4) by (auto simp: im_get_None)
  moreover have "card (fst ` set m) = card (fst ` set m')"
    using assms(1-3) distinct_card [of "map fst m"] distinct_card [of "map fst m'"] by simp
  ultimately have "fst ` set m = fst ` set m'"
    by (intro card_subset_eq) auto
  then show ?thesis by (simp add: im_get_None)
qed

lemma value_eq_object:
  assumes "im_ok m"
  shows "value_eq (JObject m) (JObject m') \<longleftrightarrow> length m = length m' \<and>
    (\<forall>k v. im_get m k = Some v \<longrightarrow> (\<exists>w. im_get m' k = Some w \<and> value_eq v w))"
proof -
  have "(\<forall>e \<in> set m. \<exists>w. im_get m' (fst e) = Some w \<and> value_eq (snd e) w) \<longleftrightarrow>
      (\<forall>k v. im_get m k = Some v \<longrightarrow> (\<exists>w. im_get m' k = Some w \<and> value_eq v w))"
    (is "?L \<longleftrightarrow> ?R")
  proof
    assume ?L
    then show ?R using im_get_SomeD [of m] by fastforce
  next
    assume R: ?R
    show ?L
    proof
      fix e assume "e \<in> set m"
      then have "im_get m (fst e) = Some (snd e)" using im_get_mem [OF assms, of "fst e" "snd e"] by simp
      with R show "\<exists>w. im_get m' (fst e) = Some w \<and> value_eq (snd e) w" by blast
    qed
  qed
  then show ?thesis by (auto simp: list_all_iff split: option.splits)
qed

lemma value_eq_sym: "value_ok v \<Longrightarrow> value_ok w \<Longrightarrow> value_eq v w \<Longrightarrow> value_eq w v"
proof (induction v arbitrary: w)
  case (JArray vs)
  then show ?case
    by (auto simp: values_eq_conv list_all_iff list_all2_conv_all_nth split: json.splits)
next
  case (JObject m)
  then obtain m' where w: "w = JObject m'" by (auto split: json.splits)
  from JObject.prems w have ok: "im_ok m" "im_ok m'" by auto
  with JObject.prems(3) w have len: "length m = length m'"
    and fwd: "\<And>k v. im_get m k = Some v \<Longrightarrow> \<exists>x. im_get m' k = Some x \<and> value_eq v x"
    by (auto simp: value_eq_object simp del: value_eq.simps)
  have keys: "im_get m k = None \<longleftrightarrow> im_get m' k = None" for k
    using fwd by (intro im_same_keys ok len) fastforce
  have "\<exists>v. im_get m k = Some v \<and> value_eq x v" if x: "im_get m' k = Some x" for k x
  proof -
    from keys [of k] x obtain v where v: "im_get m k = Some v" by auto
    with fwd x have "value_eq v x" by fastforce
    moreover have "value_ok v" "value_ok x"
      using im_get_SomeD [OF v] im_get_SomeD [OF x] JObject.prems w by (auto simp: list_all_iff)
    ultimately have "value_eq x v"
      using JObject.IH [of "(k, v)" v x] im_get_SomeD [OF v] by simp
    with v show ?thesis by blast
  qed
  with ok len w show ?case by (simp add: value_eq_object del: value_eq.simps)
qed auto

section \<open>Merging values\<close>

text \<open>
  \<open>MergeWith::merge_with\<close>: the entries of the other object are added where the
  key is absent, objects under the same key are merged in turn, and everything
  else that is already there stays.
\<close>

function merge_with :: "json \<Rightarrow> json \<Rightarrow> json"
  and merge_entries :: "config \<Rightarrow> (string \<times> json) list \<Rightarrow> config" where
  "merge_with v other =
     (case (v, other) of
        (JObject orig, JObject other') \<Rightarrow> JObject (merge_entries orig other')
      | _ \<Rightarrow> v)"
| "merge_entries orig [] = orig"
| "merge_entries orig ((key, val) # rest) =
     merge_entries
       (case (im_get orig key, val) of
          (Some (JObject o'), JObject _) \<Rightarrow> im_insert key (merge_with (JObject o') val) orig
        | (None, _) \<Rightarrow> im_insert key val orig
        | _ \<Rightarrow> orig) rest"
  by pat_completeness auto
termination
  by (relation "measure (\<lambda>x. case x of Inl (_, w) \<Rightarrow> size w
      | Inr (_, es) \<Rightarrow> size_list (size_prod (\<lambda>_. 0) size) es)") auto

declare merge_with.simps [simp del]

lemma merge_with_simps [simp]:
  "merge_with (JObject m) (JObject m') = JObject (merge_entries m m')"
  "\<not> (\<exists>m. v = JObject m) \<Longrightarrow> merge_with v w = v"
  "\<not> (\<exists>m. w = JObject m) \<Longrightarrow> merge_with v w = v"
  by (auto simp: merge_with.simps split: json.splits)

lemma merge_entries_step:
  "im_get (case (im_get orig key, val) of
      (Some (JObject o'), JObject _) \<Rightarrow> im_insert key (merge_with (JObject o') val) orig
    | (None, _) \<Rightarrow> im_insert key val orig
    | _ \<Rightarrow> orig) k =
    (if k = key then Some (case im_get orig key of None \<Rightarrow> val | Some v \<Rightarrow> merge_with v val)
     else im_get orig k)"
  by (auto split: option.splits json.splits)

lemma merge_entries_get:
  "im_ok es \<Longrightarrow> im_get (merge_entries orig es) k =
     (case im_get es k of None \<Rightarrow> im_get orig k
      | Some w \<Rightarrow> Some (case im_get orig k of None \<Rightarrow> w | Some v \<Rightarrow> merge_with v w))"
proof (induction es arbitrary: orig)
  case (Cons e es)
  obtain key val where e: "e = (key, val)" by (cases e)
  define orig' where "orig' = (case (im_get orig key, val) of
      (Some (JObject o'), JObject _) \<Rightarrow> im_insert key (merge_with (JObject o') val) orig
    | (None, _) \<Rightarrow> im_insert key val orig
    | _ \<Rightarrow> orig)"
  have "im_get orig' k = (if k = key
      then Some (case im_get orig key of None \<Rightarrow> val | Some v \<Rightarrow> merge_with v val)
      else im_get orig k)"
    unfolding orig'_def by (rule merge_entries_step)
  moreover have "merge_entries orig (e # es) = merge_entries orig' es"
    by (simp add: e orig'_def)
  moreover have "im_get es key = None" using Cons.prems e by (simp add: im_get_None)
  ultimately show ?case using Cons by (auto simp: e split: option.splits)
qed simp

lemma im_ok_merge_entries: "im_ok orig \<Longrightarrow> im_ok (merge_entries orig es)"
proof (induction es arbitrary: orig)
  case (Cons e es)
  then show ?case
    by (cases e) (auto simp: im.ok_put split: option.splits json.splits)
qed simp

end
