(* ===== verification/Char_Set.thy ===== *)
theory Char_Set
  imports Prelude
begin

text \<open>
  Character sets of generated strings: \<open>CharSet\<close> of \<^verbatim>\<open>config/util.rs\<close>, its
  parser and printer and the choice of a random member. A Rust \<open>char\<close> is a
  Unicode scalar value, here its code point; the text form is a list of them.
\<close>

type_synonym codepoint = nat

definition is_char :: "codepoint \<Rightarrow> bool" where
  "is_char c \<longleftrightarrow> c < 0xD800 \<or> (0xE000 \<le> c \<and> c < 0x110000)"

abbreviation is_ascii :: "codepoint \<Rightarrow> bool" where
  "is_ascii c \<equiv> c < 128"

text \<open>The two characters the syntax gives a meaning to.\<close>

abbreviation comma :: codepoint where "comma \<equiv> 44"
abbreviation dash :: codepoint where "dash \<equiv> 45"

section \<open>The set\<close>

text \<open>Each inclusive range with its size, and the total of the sizes.\<close>

datatype char_set =
  CharSet (cs_ranges: "((codepoint \<times> codepoint) \<times> nat) list") (cs_total: nat)

fun char_set_contains :: "char_set \<Rightarrow> codepoint \<Rightarrow> bool" where
  "char_set_contains (CharSet rs n) c = list_ex (\<lambda>r. fst (fst r) \<le> c \<and> c \<le> snd (fst r)) rs"

definition char_set_default :: char_set where
  "char_set_default = CharSet [((33, 126), 94)] 94"

section \<open>Choosing a member\<close>

text \<open>
  The random source of the \<open>rand\<close> crate: \<open>gen_range ops n\<close> is \<open>rng.gen_range(0..n)\<close>,
  \<open>sample_incl ops lo hi\<close> is \<open>Uniform::new_inclusive(lo, hi).sample(rng)\<close>. Both
  panic on an empty range and otherwise return a member of the range.
\<close>

record 'r rng_ops =
  gen_range :: "nat \<Rightarrow> 'r \<Rightarrow> nat \<times> 'r"
  sample_incl :: "nat \<Rightarrow> nat \<Rightarrow> 'r \<Rightarrow> nat \<times> 'r"

definition rng_in_range :: "('r, 'z) rng_ops_scheme \<Rightarrow> bool" where
  "rng_in_range ops \<longleftrightarrow>
     (\<forall>n r. 0 < n \<longrightarrow> fst (gen_range ops n r) < n) \<and>
     (\<forall>lo hi r. lo \<le> hi \<longrightarrow> lo \<le> fst (sample_incl ops lo hi r) \<and> fst (sample_incl ops lo hi r) \<le> hi)"

text \<open>The loop over the ranges; \<open>None\<close> stands for its panics.\<close>

fun char_set_pick ::
  "('r, 'z) rng_ops_scheme \<Rightarrow> nat \<Rightarrow> ((codepoint \<times> codepoint) \<times> nat) list \<Rightarrow> 'r \<Rightarrow> (codepoint \<times> 'r) option" where
  "char_set_pick ops idx [] r = None"
| "char_set_pick ops idx (((lo, hi), l) # rs) r =
     (if idx < l then
        (if lo \<le> hi then
           (let (c, r') = sample_incl ops lo hi r in if is_char c then Some (c, r') else None)
         else None)
      else char_set_pick ops (idx - l) rs r)"

definition char_set_gen :: "('r, 'z) rng_ops_scheme \<Rightarrow> char_set \<Rightarrow> 'r \<Rightarrow> ('e, codepoint \<times> 'r) res" where
  "char_set_gen ops cs r =
     (if cs_total cs = 0 then Panic
      else let (idx, r') = gen_range ops (cs_total cs) r
           in case char_set_pick ops idx (cs_ranges cs) r' of None \<Rightarrow> Panic | Some x \<Rightarrow> Ok x)"

section \<open>Text form\<close>

text \<open>The variables of the parser's loop.\<close>

record cs_state =
  st_res :: "((codepoint \<times> codepoint) \<times> nat) list"
  st_len :: nat
  st_a :: "codepoint option"
  st_b :: "codepoint option"
  st_in_range :: bool

definition cs_init :: cs_state where
  "cs_init = \<lparr>st_res = [], st_len = 0, st_a = None, st_b = None, st_in_range = False\<rparr>"

text \<open>Closing a range, in the loop and at the end of the text.\<close>

definition cs_push_range :: "cs_state \<Rightarrow> codepoint \<Rightarrow> codepoint \<Rightarrow> (string, cs_state) res" where
  "cs_push_range st start e =
     (if \<not> is_ascii e then Err ''Invalid Character''
      else if e \<le> start then Err ''Invalid Bounds''
      else let l = e - start + 1
           in Ok (st\<lparr>st_res := st_res st @ [((start, e), l)], st_len := st_len st + l,
                     st_a := None, st_b := None, st_in_range := False\<rparr>))"

definition cs_push_char :: "cs_state \<Rightarrow> codepoint \<Rightarrow> cs_state" where
  "cs_push_char st start =
     st\<lparr>st_len := st_len st + 1, st_res := st_res st @ [((start, start), 1)], st_a := None\<rparr>"

definition cs_step :: "codepoint \<Rightarrow> cs_state \<Rightarrow> (string, cs_state) res" where
  "cs_step c st =
     (if c = comma then
        (case (st_a st, st_b st, st_in_range st) of
           (Some start, Some e, _) \<Rightarrow> cs_push_range st start e
         | (Some start, None, False) \<Rightarrow> Ok (cs_push_char st start)
         | (Some _, None, True) \<Rightarrow> Ok (st\<lparr>st_b := Some comma\<rparr>)
         | (None, None, False) \<Rightarrow> Ok (st\<lparr>st_a := Some comma\<rparr>)
         | _ \<Rightarrow> Err ''Syntax Error'')
      else if c = dash then
        (if st_a st = None then Ok (st\<lparr>st_a := Some dash\<rparr>)
         else if \<not> st_in_range st then Ok (st\<lparr>st_in_range := True\<rparr>)
         else if st_b st = None then Ok (st\<lparr>st_b := Some dash\<rparr>)
         else Err ''Syntax Error'')
      else
        (if st_a st = None then Ok (st\<lparr>st_a := Some c\<rparr>)
         else if st_in_range st \<and> st_b st = None then Ok (st\<lparr>st_b := Some c\<rparr>)
         else Err ''Syntax Error''))"

definition cs_finish :: "cs_state \<Rightarrow> (string, char_set) res" where
  "cs_finish st =
     (case (st_a st, st_b st) of
        (Some start, Some e) \<Rightarrow> rmap (\<lambda>st. CharSet (st_res st) (st_len st)) (cs_push_range st start e)
      | (Some c, None) \<Rightarrow> Ok (CharSet (st_res st @ [((c, c), 1)]) (st_len st + 1))
      | _ \<Rightarrow> Ok (CharSet (st_res st) (st_len st)))"

definition char_set_deserialize :: "codepoint list \<Rightarrow> (string, char_set) res" where
  "char_set_deserialize s = rbind (rfold cs_step s cs_init) cs_finish"

definition cs_entry_text :: "(codepoint \<times> codepoint) \<times> nat \<Rightarrow> codepoint list" where
  "cs_entry_text r = (if snd r = 1 then [fst (fst r)] else [fst (fst r), dash, snd (fst r)])"

text \<open>\<open>join(",")\<close>\<close>

fun join_comma :: "codepoint list list \<Rightarrow> codepoint list" where
  "join_comma [] = []"
| "join_comma [x] = x"
| "join_comma (x # xs) = x @ comma # join_comma xs"

definition char_set_serialize :: "char_set \<Rightarrow> codepoint list" where
  "char_set_serialize cs = join_comma (map cs_entry_text (cs_ranges cs))"

section \<open>The invariant of a parsed set\<close>

text \<open>A single character, or an ascending range that ends in ASCII; sizes are right.\<close>

fun cs_entry_ok :: "(codepoint \<times> codepoint) \<times> nat \<Rightarrow> bool" where
  "cs_entry_ok ((lo, hi), l) \<longleftrightarrow>
     is_char lo \<and> ((lo = hi \<and> l = 1) \<or> (lo < hi \<and> is_ascii hi \<and> l = hi - lo + 1))"

definition char_set_ok :: "char_set \<Rightarrow> bool" where
  "char_set_ok cs \<longleftrightarrow> list_all cs_entry_ok (cs_ranges cs) \<and> cs_total cs = sum_list (map snd (cs_ranges cs))"

definition cs_state_ok :: "cs_state \<Rightarrow> bool" where
  "cs_state_ok st \<longleftrightarrow> list_all cs_entry_ok (st_res st) \<and> st_len st = sum_list (map snd (st_res st)) \<and>
     pred_option is_char (st_a st) \<and> (st_a st = None \<longrightarrow> st_b st = None \<and> \<not> st_in_range st) \<and>
     (st_b st \<noteq> None \<longrightarrow> st_in_range st)"

lemma cs_push_range_ok:
  "cs_push_range st a b = Ok st' \<Longrightarrow> st_a st = Some a \<Longrightarrow> cs_state_ok st \<Longrightarrow> cs_state_ok st'"
  by (auto simp: cs_push_range_def cs_state_ok_def Let_def split: if_splits)

lemma cs_step_ok:
  "cs_step c st = Ok st' \<Longrightarrow> is_char c \<Longrightarrow> cs_state_ok st \<Longrightarrow> cs_state_ok st'"
  unfolding cs_step_def
  by (auto split: if_splits option.splits bool.splits dest: cs_push_range_ok)
    (auto simp: cs_state_ok_def cs_push_char_def is_char_def)

lemma cs_finish_ok: "cs_finish st = Ok cs \<Longrightarrow> cs_state_ok st \<Longrightarrow> char_set_ok cs"
  unfolding cs_finish_def
  by (auto split: option.splits simp: res_simps dest!: cs_push_range_ok)
    (auto simp: cs_state_ok_def char_set_ok_def)

lemma cs_run_ok:
  assumes "rfold cs_step s st = Ok st'" and "list_all is_char s" and "cs_state_ok st"
  shows "cs_state_ok st'"
  using assms by (auto intro: rfold_invariant [where P = cs_state_ok] cs_step_ok simp: list_all_iff)

section \<open>Printing and parsing\<close>

text \<open>What the parser holds after the text of one entry, before its separator.\<close>

definition cs_pending :: "cs_state \<Rightarrow> (codepoint \<times> codepoint) \<times> nat \<Rightarrow> cs_state" where
  "cs_pending st r =
     (if snd r = 1 then st\<lparr>st_a := Some (fst (fst r))\<rparr>
      else st\<lparr>st_a := Some (fst (fst r)), st_b := Some (snd (fst r)), st_in_range := True\<rparr>)"

definition cs_clean :: "cs_state \<Rightarrow> bool" where
  "cs_clean st \<longleftrightarrow> st_a st = None \<and> st_b st = None \<and> \<not> st_in_range st"

definition cs_add :: "cs_state \<Rightarrow> (codepoint \<times> codepoint) \<times> nat \<Rightarrow> cs_state" where
  "cs_add st r = st\<lparr>st_res := st_res st @ [r], st_len := st_len st + snd r\<rparr>"

lemma cs_entry_run:
  "cs_clean st \<Longrightarrow> rfold cs_step (cs_entry_text r) st = Ok (cs_pending st r)"
  by (cases st) (auto simp: cs_entry_text_def cs_step_def cs_pending_def cs_clean_def)

lemma cs_entry_close:
  "cs_clean st \<Longrightarrow> cs_entry_ok r \<Longrightarrow> cs_step comma (cs_pending st r) = Ok (cs_add st r)"
  by (cases st; cases r)
    (auto simp: cs_step_def cs_pending_def cs_clean_def cs_add_def cs_push_range_def cs_push_char_def Let_def)

lemma cs_entry_end:
  "cs_clean st \<Longrightarrow> cs_entry_ok r \<Longrightarrow>
     cs_finish (cs_pending st r) = Ok (CharSet (st_res st @ [r]) (st_len st + snd r))"
  by (cases st; cases r)
    (auto simp: cs_finish_def cs_pending_def cs_clean_def cs_push_range_def Let_def)

lemma cs_clean_add [simp]: "cs_clean (cs_add st r) \<longleftrightarrow> cs_clean st"
  by (simp add: cs_clean_def cs_add_def)

lemma cs_parse_entries:
  "cs_clean st \<Longrightarrow> list_all cs_entry_ok rs \<Longrightarrow>
     rbind (rfold cs_step (join_comma (map cs_entry_text rs)) st) cs_finish =
       Ok (CharSet (st_res st @ rs) (st_len st + sum_list (map snd rs)))"
proof (induction rs arbitrary: st)
  case Nil
  then show ?case by (simp add: cs_finish_def cs_clean_def)
next
  case (Cons r rs)
  show ?case
  proof (cases rs)
    case Nil
    with Cons.prems show ?thesis by (simp add: cs_entry_run cs_entry_end)
  next
    case more: (Cons r' rs')
    have "rfold cs_step (cs_entry_text r @ comma # t) st = rfold cs_step t (cs_add st r)" for t
      using Cons.prems by (simp add: rfold_append cs_entry_run cs_entry_close)
    with more Cons.IH [of "cs_add st r"] Cons.prems show ?thesis
      by (simp add: cs_add_def cs_clean_def)
  qed
qed

lemma char_set_pick_member:
  assumes "rng_in_range ops"
  shows "list_all cs_entry_ok rs \<Longrightarrow> idx < sum_list (map snd rs) \<Longrightarrow>
    \<exists>c r'. char_set_pick ops idx rs r = Some (c, r') \<and> char_set_contains (CharSet rs n) c"
proof (induction rs arbitrary: idx)
  case (Cons e rs)
  obtain lo hi l where e: "e = ((lo, hi), l)" by (cases e) auto
  show ?case
  proof (cases "idx < l")
    case True
    have le: "lo \<le> hi" using Cons.prems e by auto
    obtain c r' where c: "sample_incl ops lo hi r = (c, r')" by fastforce
    have in_range: "lo \<le> c \<and> c \<le> hi"
      using assms le c unfolding rng_in_range_def by (metis fst_conv)
    then have "is_char c" using Cons.prems e by (auto simp: is_char_def)
    with True le c in_range show ?thesis by (auto simp: e)
  next
    case False
    with Cons.prems e have "idx - l < sum_list (map snd rs)" by auto
    with Cons.IH [of "idx - l"] Cons.prems obtain c r' where
      "char_set_pick ops (idx - l) rs r = Some (c, r')" "char_set_contains (CharSet rs n) c"
      by auto
    with False show ?thesis by (auto simp: e)
  qed
qed simp

section \<open>Properties\<close>

text \<open>
  C35. Parsing the printed form of a character set gives the set back: for every
  set whose entries are single characters or ascending ASCII ranges with their
  right sizes, \<open>deserialize\<close> after \<open>serialize\<close> is the identity, also when the
  set holds the comma or the dash that the syntax uses.
\<close>

theorem char_set_roundtrip:
  "char_set_ok cs \<Longrightarrow> char_set_deserialize (char_set_serialize cs) = Ok cs"
  using cs_parse_entries [of cs_init "cs_ranges cs"]
  by (cases cs) (simp add: char_set_deserialize_def char_set_serialize_def char_set_ok_def
      cs_init_def cs_clean_def)

theorem char_set_roundtrip_witness:
  "char_set_deserialize (char_set_serialize (CharSet [((43, 44), 2), ((45, 45), 1), ((97, 122), 26)] 29)) =
     Ok (CharSet [((43, 44), 2), ((45, 45), 1), ((97, 122), 26)] 29)"
  by (rule char_set_roundtrip) (simp add: char_set_ok_def is_char_def)

text \<open>
  Every set the parser accepts satisfies the invariant: each entry is one
  character or an ascending range that ends in ASCII, the size of each entry is
  the number of its characters and the total is the sum of the sizes.
\<close>

theorem char_set_deserialize_ok:
  assumes "char_set_deserialize s = Ok cs" and "list_all is_char s"
  shows "char_set_ok cs"
proof -
  from assms(1) obtain st where st: "rfold cs_step s cs_init = Ok st" and fin: "cs_finish st = Ok cs"
    by (auto simp: char_set_deserialize_def res_simps)
  have "cs_state_ok cs_init" by (simp add: cs_state_ok_def cs_init_def)
  with st assms(2) have "cs_state_ok st" by (blast intro: cs_run_ok)
  with fin show ?thesis by (rule cs_finish_ok)
qed

theorem char_set_deserialize_ok_witness:
  "char_set_deserialize [97, 45, 122, 44, 95] = Ok (CharSet [((97, 122), 26), ((95, 95), 1)] 27) \<and>
   char_set_ok (CharSet [((97, 122), 26), ((95, 95), 1)] 27)"
proof -
  have run: "char_set_deserialize [97, 45, 122, 44, 95] = Ok (CharSet [((97, 122), 26), ((95, 95), 1)] 27)"
    by (simp add: char_set_deserialize_def cs_init_def cs_step_def cs_push_range_def cs_finish_def Let_def)
  show ?thesis using run char_set_deserialize_ok [OF run] by (simp add: is_char_def)
qed

lemma char_set_gen_in:
  assumes "rng_in_range ops" and "char_set_ok cs" and "0 < cs_total cs"
  shows "\<exists>c r'. char_set_gen ops cs r = Ok (c, r') \<and> char_set_contains cs c"
proof -
  obtain idx r1 where g: "gen_range ops (cs_total cs) r = (idx, r1)" by fastforce
  with assms(1,3) have "idx < cs_total cs" unfolding rng_in_range_def by (metis fst_conv)
  with assms(2) have "idx < sum_list (map snd (cs_ranges cs))" by (simp add: char_set_ok_def)
  with assms obtain c r' where "char_set_pick ops idx (cs_ranges cs) r1 = Some (c, r')"
    and "char_set_contains (CharSet (cs_ranges cs) (cs_total cs)) c"
    using char_set_pick_member unfolding char_set_ok_def by metis
  with assms(3) g show ?thesis by (simp add: char_set_gen_def)
qed

text \<open>
  Choosing a character never fails on a non-empty set: with a random source
  that stays in the ranges it is asked for, \<open>CharSet::gen\<close> reaches neither the
  \<open>unreachable!()\<close> nor the conversion panic, and what it returns is in the set.
\<close>

theorem char_set_gen_member:
  assumes "rng_in_range ops" and "char_set_ok cs" and "0 < cs_total cs"
  shows "\<exists>c r'. char_set_gen ops cs r = Ok (c, r') \<and> char_set_contains cs c"
  using assms by (rule char_set_gen_in)

theorem char_set_gen_member_witness:
  "\<exists>c r'. char_set_gen \<lparr>gen_range = \<lambda>n r. (r mod n, Suc r), sample_incl = \<lambda>lo hi r. (lo, Suc r)\<rparr>
      char_set_default (3::nat) = Ok (c, r') \<and> char_set_contains char_set_default c"
  by (rule char_set_gen_member)
    (auto simp: rng_in_range_def char_set_ok_def char_set_default_def is_char_def)

text \<open>
  The empty text is accepted as a character set, and choosing a character
  from the resulting empty set panics whatever the random source does.
\<close>

theorem char_set_empty_panics:
  "\<exists>cs. char_set_deserialize [] = Ok cs \<and> char_set_gen ops cs r = Panic"
  by (simp add: char_set_deserialize_def cs_init_def cs_finish_def char_set_gen_def)

end
