(* ===== verification/Num_Range.thy ===== *)
theory Num_Range
  imports Char_Set
begin

text \<open>
  Numeric ranges of the configuration specs: \<open>NumRange\<close> of \<^verbatim>\<open>config/util.rs\<close>
  with its parser, its printer and \<open>RangeBounds::contains\<close>. The number type is
  a parameter: the parser and the printer of numbers are an interface, provided
  here by the decimal text of \<open>usize\<close>. Text is a list of code points.
\<close>

type_synonym utext = "codepoint list"

datatype 'a bound = Included 'a | Excluded 'a | Unbounded

type_synonym 'a num_range = "'a bound \<times> 'a bound"

text \<open>\<open>RangeBounds::contains\<close>, over the comparisons of the number type.\<close>

definition range_contains ::
  "('a \<Rightarrow> 'a \<Rightarrow> bool) \<Rightarrow> ('a \<Rightarrow> 'a \<Rightarrow> bool) \<Rightarrow> 'a num_range \<Rightarrow> 'a \<Rightarrow> bool" where
  "range_contains le lt r x \<longleftrightarrow>
     (case fst r of Included s \<Rightarrow> le s x | Excluded s \<Rightarrow> lt s x | Unbounded \<Rightarrow> True) \<and>
     (case snd r of Included e \<Rightarrow> le x e | Excluded e \<Rightarrow> lt x e | Unbounded \<Rightarrow> True)"

section \<open>Parsing and printing\<close>

abbreviation lparen :: codepoint where "lparen \<equiv> 40"
abbreviation rparen :: codepoint where "rparen \<equiv> 41"
abbreviation star :: codepoint where "star \<equiv> 42"
abbreviation lbracket :: codepoint where "lbracket \<equiv> 91"
abbreviation rbracket :: codepoint where "rbracket \<equiv> 93"

definition is_whitespace :: "codepoint \<Rightarrow> bool" where
  "is_whitespace c \<longleftrightarrow> (9 \<le> c \<and> c \<le> 13) \<or> c = 32 \<or> c = 0x85 \<or> c = 0xA0 \<or> c = 0x1680 \<or>
     (0x2000 \<le> c \<and> c \<le> 0x200A) \<or> c = 0x2028 \<or> c = 0x2029 \<or> c = 0x202F \<or> c = 0x205F \<or> c = 0x3000"

definition trim :: "utext \<Rightarrow> utext" where
  "trim s = rev (dropWhile is_whitespace (rev (dropWhile is_whitespace s)))"

text \<open>The first two pieces of \<open>s.split(",")\<close>.\<close>

definition split_comma :: "utext \<Rightarrow> utext \<times> utext option" where
  "split_comma s =
     (let a = takeWhile (\<lambda>c. c \<noteq> comma) s; rest = dropWhile (\<lambda>c. c \<noteq> comma) s
      in (a, case rest of [] \<Rightarrow> None | _ # t \<Rightarrow> Some (takeWhile (\<lambda>c. c \<noteq> comma) t)))"

definition parse_num :: "(utext \<Rightarrow> 'a option) \<Rightarrow> utext \<Rightarrow> (string, 'a) res" where
  "parse_num parse s = ok_or (parse (trim s)) ''invalid number''"

definition parse_left :: "(utext \<Rightarrow> 'a option) \<Rightarrow> utext \<Rightarrow> (string, 'a bound) res" where
  "parse_left parse s =
     (case s of
        [] \<Rightarrow> Err ''Could not parse left bound''
      | c # t \<Rightarrow>
          if c = lparen then
            (if t \<noteq> [] \<and> hd t = star then Ok Unbounded
             else rmap Excluded (parse_num parse t))
          else if c = lbracket then rmap Included (parse_num parse t)
          else Err ''Could not parse left bound'')"

text \<open>
  The right bound is read from the end of its piece. On the empty piece and on
  \<open>)\<close> alone the index arithmetic wraps around and the slice is absent.
\<close>

definition parse_right :: "(utext \<Rightarrow> 'a option) \<Rightarrow> utext \<Rightarrow> (string, 'a bound) res" where
  "parse_right parse s =
     (if s = [] then Err ''Could not parse right bound''
      else if last s = rparen then
        (if butlast s \<noteq> [] \<and> last (butlast s) = star then Ok Unbounded
         else rmap Excluded (parse_num parse (butlast s)))
      else if last s = rbracket then rmap Included (parse_num parse (butlast s))
      else Err ''Could not parse right bound'')"

definition num_range_deserialize :: "(utext \<Rightarrow> 'a option) \<Rightarrow> utext \<Rightarrow> (string, 'a num_range) res" where
  "num_range_deserialize parse s =
     (let (l, r) = split_comma s in
      rbind (parse_left parse l) (\<lambda>start.
      rbind (case r of None \<Rightarrow> Ok Unbounded | Some t \<Rightarrow> parse_right parse t) (\<lambda>e.
      Ok (start, e))))"

definition num_range_display :: "('a \<Rightarrow> utext) \<Rightarrow> 'a num_range \<Rightarrow> utext" where
  "num_range_display show_num r =
     (case fst r of
        Excluded n \<Rightarrow> lparen # show_num n @ [comma]
      | Included n \<Rightarrow> lbracket # show_num n @ [comma]
      | Unbounded \<Rightarrow> [lparen, star, comma]) @
     (case snd r of
        Excluded n \<Rightarrow> show_num n @ [rparen]
      | Included n \<Rightarrow> show_num n @ [rbracket]
      | Unbounded \<Rightarrow> [star, rparen])"

section \<open>The interface of the number type\<close>

text \<open>
  What the ranges need of \<open>FromStr\<close> and \<open>Display\<close> of the number type: printing
  then parsing is the identity on valid numbers, and the printed form has no
  comma, star or whitespace in it.
\<close>

locale num_text =
  fixes parse :: "utext \<Rightarrow> 'a option"
    and show_num :: "'a \<Rightarrow> utext"
    and valid :: "'a \<Rightarrow> bool"
  assumes parse_show: "valid n \<Longrightarrow> parse (show_num n) = Some n"
    and show_plain: "valid n \<Longrightarrow> c \<in> set (show_num n) \<Longrightarrow> c \<noteq> comma \<and> c \<noteq> star \<and> \<not> is_whitespace c"
    and show_nonempty: "valid n \<Longrightarrow> show_num n \<noteq> []"
begin

lemma trim_show: "valid n \<Longrightarrow> trim (show_num n) = show_num n"
proof -
  assume n: "valid n"
  have "\<forall>c \<in> set (show_num n). \<not> is_whitespace c" using show_plain [OF n] by blast
  then have "dropWhile is_whitespace (show_num n) = show_num n"
    and "dropWhile is_whitespace (rev (show_num n)) = rev (show_num n)"
    by (auto simp: dropWhile_eq_self_iff hd_rev)
  then show ?thesis by (simp add: trim_def)
qed

lemma comma_not_in_show: "valid n \<Longrightarrow> comma \<notin> set (show_num n)"
  using show_plain by blast

lemma parse_num_show: "valid n \<Longrightarrow> parse_num parse (show_num n) = Ok n"
  by (simp add: parse_num_def trim_show parse_show)

lemma left_excluded: "valid n \<Longrightarrow> parse_left parse (lparen # show_num n) = Ok (Excluded n)"
  using show_plain [of n "hd (show_num n)"] show_nonempty [of n]
  by (simp add: parse_left_def parse_num_show)

lemma left_included: "valid n \<Longrightarrow> parse_left parse (lbracket # show_num n) = Ok (Included n)"
  by (simp add: parse_left_def parse_num_show)

lemma right_excluded: "valid n \<Longrightarrow> parse_right parse (show_num n @ [rparen]) = Ok (Excluded n)"
  using show_plain [of n "last (show_num n)"] show_nonempty [of n]
  by (simp add: parse_right_def parse_num_show)

lemma right_included: "valid n \<Longrightarrow> parse_right parse (show_num n @ [rbracket]) = Ok (Included n)"
  by (simp add: parse_right_def parse_num_show)

lemma split_pieces:
  "comma \<notin> set a \<Longrightarrow> comma \<notin> set b \<Longrightarrow> split_comma (a @ comma # b) = (a, Some b)"
proof -
  assume a: "comma \<notin> set a" and b: "comma \<notin> set b"
  have "takeWhile (\<lambda>c. c \<noteq> comma) (a @ comma # b) = a"
    using a by (subst takeWhile_append2) auto
  moreover have "dropWhile (\<lambda>c. c \<noteq> comma) (a @ comma # b) = comma # b"
    using a by (subst dropWhile_append2) auto
  moreover have "takeWhile (\<lambda>c. c \<noteq> comma) b = b"
    using b by (auto simp: takeWhile_eq_all_conv)
  ultimately show ?thesis by (simp add: split_comma_def)
qed

lemma range_roundtrip:
  assumes "pred_bound valid (fst r)" and "pred_bound valid (snd r)"
  shows "num_range_deserialize parse (num_range_display show_num r) = Ok r"
proof -
  obtain s e where r: "r = (s, e)" by (cases r)
  define l where "l = (case s of Excluded n \<Rightarrow> lparen # show_num n
    | Included n \<Rightarrow> lbracket # show_num n | Unbounded \<Rightarrow> [lparen, star])"
  define t where "t = (case e of Excluded n \<Rightarrow> show_num n @ [rparen]
    | Included n \<Rightarrow> show_num n @ [rbracket] | Unbounded \<Rightarrow> [star, rparen])"
  have "num_range_display show_num r = l @ comma # t"
    by (simp add: num_range_display_def r l_def t_def split: bound.splits)
  moreover have "comma \<notin> set l" "comma \<notin> set t"
    using assms comma_not_in_show by (auto simp: r l_def t_def split: bound.splits)
  moreover have "parse_left parse l = Ok s"
    using assms(1) left_excluded left_included
    by (cases s) (auto simp: r l_def parse_left_def)
  moreover have "parse_right parse t = Ok e"
    using assms(2) right_excluded right_included
    by (cases e) (auto simp: r t_def parse_right_def)
  ultimately show ?thesis by (simp add: num_range_deserialize_def split_pieces r)
qed

end

section \<open>Decimal text of unsigned sizes\<close>

text \<open>\<open>usize\<close> on the 64-bit targets the system is built for.\<close>

definition usize_ok :: "nat \<Rightarrow> bool" where
  "usize_ok n \<longleftrightarrow> n < 2 ^ 64"

fun show_usize :: "nat \<Rightarrow> utext" where
  "show_usize n = (if n < 10 then [48 + n] else show_usize (n div 10) @ [48 + n mod 10])"

declare show_usize.simps [simp del]

fun parse_digits :: "nat \<Rightarrow> utext \<Rightarrow> nat option" where
  "parse_digits acc [] = Some acc"
| "parse_digits acc (c # cs) =
     (if 48 \<le> c \<and> c \<le> 57 \<and> acc * 10 + (c - 48) < 2 ^ 64
      then parse_digits (acc * 10 + (c - 48)) cs else None)"

text \<open>\<open>usize::from_str\<close>: an optional plus sign, at least one digit, no overflow.\<close>

definition parse_usize :: "utext \<Rightarrow> nat option" where
  "parse_usize s =
     (let ds = (if s \<noteq> [] \<and> hd s = 43 then tl s else s)
      in if ds = [] then None else parse_digits 0 ds)"

lemma parse_digits_snoc:
  "parse_digits acc (cs @ [c]) =
     (case parse_digits acc cs of None \<Rightarrow> None | Some n \<Rightarrow> parse_digits n [c])"
  by (induction acc cs rule: parse_digits.induct) auto

lemma parse_digits_show: "n < 2 ^ 64 \<Longrightarrow> parse_digits 0 (show_usize n) = Some n"
proof (induction n rule: show_usize.induct)
  case (1 n)
  show ?case
  proof (cases "n < 10")
    case True
    then show ?thesis by (subst show_usize.simps) simp
  next
    case False
    have "n div 10 < 2 ^ 64" using "1.prems" by simp
    with "1.IH" [OF False] have "parse_digits 0 (show_usize (n div 10)) = Some (n div 10)" .
    then show ?thesis using False "1.prems"
      by (subst show_usize.simps) (simp add: parse_digits_snoc div_mult_mod_eq)
  qed
qed

lemma show_usize_digits: "c \<in> set (show_usize n) \<Longrightarrow> 48 \<le> c \<and> c \<le> 57"
proof (induction n rule: show_usize.induct)
  case (1 n)
  then show ?case by (subst (asm) show_usize.simps) (auto split: if_splits)
qed

lemma show_usize_nonempty [simp]: "show_usize n \<noteq> []"
  by (subst show_usize.simps) simp

interpretation usize: num_text parse_usize show_usize usize_ok
proof unfold_locales
  fix n c
  assume n: "usize_ok n"
  have "hd (show_usize n) \<noteq> 43"
    using show_usize_digits [of "hd (show_usize n)" n] by simp
  then show "parse_usize (show_usize n) = Some n"
    using n by (simp add: parse_usize_def parse_digits_show usize_ok_def)
  show "show_usize n \<noteq> []" by simp
  assume "c \<in> set (show_usize n)"
  then show "c \<noteq> comma \<and> c \<noteq> star \<and> \<not> is_whitespace c"
    using show_usize_digits [of c n] by (auto simp: is_whitespace_def)
qed

section \<open>Properties\<close>

text \<open>
  A range of sizes survives printing and parsing: for every pair of bounds
  that are \<open>usize\<close> values, included, excluded or absent, \<open>deserialize\<close> of the
  displayed range gives the same range.
\<close>

theorem num_range_usize_roundtrip:
  "pred_bound usize_ok (fst r) \<Longrightarrow> pred_bound usize_ok (snd r) \<Longrightarrow>
     num_range_deserialize parse_usize (num_range_display show_usize r) = Ok r"
  by (rule usize.range_roundtrip)

theorem num_range_usize_roundtrip_witness:
  "num_range_deserialize parse_usize (num_range_display show_usize (Included 1, Excluded 100)) =
     Ok (Included 1, Excluded 100)"
  by (rule num_range_usize_roundtrip) (simp_all add: usize_ok_def)

end
