(* ===== verification/Errors.thy ===== *)
theory Errors
  imports Main
begin

text \<open>
  The kinds of errors (\<^verbatim>\<open>libs/models/src/errors.rs\<close>), the codes and messages under which they
  are reported over RPC, and that a client can tell the kinds apart by either.
\<close>

datatype error_kind =
    Unknown
  | Filesystem
  | Docker
  | ConfigSpecViolation
  | ConfigRulesViolation
  | NotFound
  | IncorrectPassword
  | VersionIncompatible
  | Network
  | Registry
  | Serialization
  | Deserialization
  | Utf8
  | ParseVersion
  | IncorrectDisk
  | Dependency
  | ParseS9pk
  | ParseUrl
  | DiskNotAvailable
  | BlockDevice
  | InvalidOnionAddress
  | Pack
  | ValidateS9pk
  | DiskCorrupted
  | Tor
  | ConfigGen
  | ParseNumber
  | Database
  | InvalidPackageId
  | InvalidSignature
  | Backup
  | Restore
  | Authorization
  | AutoConfigure
  | Action
  | RateLimited
  | InvalidRequest
  | MigrationFailed
  | Uninitialized
  | ParseNetAddress
  | ParseSshKey
  | SoundError
  | ParseTimestamp
  | ParseSysInfo
  | Wifi
  | Journald
  | DiskManagement
  | OpenSsl
  | PasswordHashGeneration
  | DiagnosticMode
  | ParseDbField
  | Duplicate
  | MultipleErrors
  | Incoherent
  | InvalidBackupTargetId
  | ProductKeyMismatch
  | LanPortConflict
  | Javascript
  | Pem
  | TLSInit
  | Ascii
  | MissingHeader
  | Grub
  | Systemd
  | OpenSsh
  | Zram
  | Lshw

text \<open>The discriminants, which are the RPC error codes, and the messages.\<close>

primrec error_code :: "error_kind \<Rightarrow> int" where
  "error_code Unknown = 1"
| "error_code Filesystem = 2"
| "error_code Docker = 3"
| "error_code ConfigSpecViolation = 4"
| "error_code ConfigRulesViolation = 5"
| "error_code NotFound = 6"
| "error_code IncorrectPassword = 7"
| "error_code VersionIncompatible = 8"
| "error_code Network = 9"
| "error_code Registry = 10"
| "error_code Serialization = 11"
| "error_code Deserialization = 12"
| "error_code Utf8 = 13"
| "error_code ParseVersion = 14"
| "error_code IncorrectDisk = 15"
| "error_code Dependency = 17"
| "error_code ParseS9pk = 18"
| "error_code ParseUrl = 19"
| "error_code DiskNotAvailable = 20"
| "error_code BlockDevice = 21"
| "error_code InvalidOnionAddress = 22"
| "error_code Pack = 23"
| "error_code ValidateS9pk = 24"
| "error_code DiskCorrupted = 25"
| "error_code Tor = 26"
| "error_code ConfigGen = 27"
| "error_code ParseNumber = 28"
| "error_code Database = 29"
| "error_code InvalidPackageId = 30"
| "error_code InvalidSignature = 31"
| "error_code Backup = 32"
| "error_code Restore = 33"
| "error_code Authorization = 34"
| "error_code AutoConfigure = 35"
| "error_code Action = 36"
| "error_code RateLimited = 37"
| "error_code InvalidRequest = 38"
| "error_code MigrationFailed = 39"
| "error_code Uninitialized = 40"
| "error_code ParseNetAddress = 41"
| "error_code ParseSshKey = 42"
| "error_code SoundError = 43"
| "error_code ParseTimestamp = 44"
| "error_code ParseSysInfo = 45"
| "error_code Wifi = 46"
| "error_code Journald = 47"
| "error_code DiskManagement = 48"
| "error_code OpenSsl = 49"
| "error_code PasswordHashGeneration = 50"
| "error_code DiagnosticMode = 51"
| "error_code ParseDbField = 52"
| "error_code Duplicate = 53"
| "error_code MultipleErrors = 54"
| "error_code Incoherent = 55"
| "error_code InvalidBackupTargetId = 56"
| "error_code ProductKeyMismatch = 57"
| "error_code LanPortConflict = 58"
| "error_code Javascript = 59"
| "error_code Pem = 60"
| "error_code TLSInit = 61"
| "error_code Ascii = 62"
| "error_code MissingHeader = 63"
| "error_code Grub = 64"
| "error_code Systemd = 65"
| "error_code OpenSsh = 66"
| "error_code Zram = 67"
| "error_code Lshw = 68"

primrec error_kind_str :: "error_kind \<Rightarrow> string" where
  "error_kind_str Unknown = ''Unknown Error''"
| "error_kind_str Filesystem = ''Filesystem I/O Error''"
| "error_kind_str Docker = ''Docker Error''"
| "error_kind_str ConfigSpecViolation = ''Config Spec Violation''"
| "error_kind_str ConfigRulesViolation = ''Config Rules Violation''"
| "error_kind_str NotFound = ''Not Found''"
| "error_kind_str IncorrectPassword = ''Incorrect Password''"
| "error_kind_str VersionIncompatible = ''Version Incompatible''"
| "error_kind_str Network = ''Network Error''"
| "error_kind_str Registry = ''Registry Error''"
| "error_kind_str Serialization = ''Serialization Error''"
| "error_kind_str Deserialization = ''Deserialization Error''"
| "error_kind_str Utf8 = ''UTF-8 Parse Error''"
| "error_kind_str ParseVersion = ''Version Parsing Error''"
| "error_kind_str IncorrectDisk = ''Incorrect Disk''"
| "error_kind_str Dependency = ''Dependency Error''"
| "error_kind_str ParseS9pk = ''S9PK Parsing Error''"
| "error_kind_str ParseUrl = ''URL Parsing Error''"
| "error_kind_str DiskNotAvailable = ''Disk Not Available''"
| "error_kind_str BlockDevice = ''Block Device Error''"
| "error_kind_str InvalidOnionAddress = ''Invalid Onion Address''"
| "error_kind_str Pack = ''Pack Error''"
| "error_kind_str ValidateS9pk = ''S9PK Validation Error''"
| "error_kind_str DiskCorrupted = ''Disk Corrupted''"
| "error_kind_str Tor = ''Tor Daemon Error''"
| "error_kind_str ConfigGen = ''Config Generation Error''"
| "error_kind_str ParseNumber = ''Number Parsing Error''"
| "error_kind_str Database = ''Database Error''"
| "error_kind_str InvalidPackageId = ''Invalid Package ID''"
| "error_kind_str InvalidSignature = ''Invalid Signature''"
| "error_kind_str Backup = ''Backup Error''"
| "error_kind_str Restore = ''Restore Error''"
| "error_kind_str Authorization = ''Unauthorized''"
| "error_kind_str AutoConfigure = ''Auto-Configure Error''"
| "error_kind_str Action = ''Action Failed''"
| "error_kind_str RateLimited = ''Rate Limited''"
| "error_kind_str InvalidRequest = ''Invalid Request''"
| "error_kind_str MigrationFailed = ''Migration Failed''"
| "error_kind_str Uninitialized = ''Uninitialized''"
| "error_kind_str ParseNetAddress = ''Net Address Parsing Error''"
| "error_kind_str ParseSshKey = ''SSH Key Parsing Error''"
| "error_kind_str SoundError = ''Sound Interface Error''"
| "error_kind_str ParseTimestamp = ''Timestamp Parsing Error''"
| "error_kind_str ParseSysInfo = ''System Info Parsing Error''"
| "error_kind_str Wifi = ''WiFi Internal Error''"
| "error_kind_str Journald = ''Journald Error''"
| "error_kind_str DiskManagement = ''Disk Management Error''"
| "error_kind_str OpenSsl = ''OpenSSL Internal Error''"
| "error_kind_str PasswordHashGeneration = ''Password Hash Generation Error''"
| "error_kind_str DiagnosticMode = ''Server is in Diagnostic Mode''"
| "error_kind_str ParseDbField = ''Database Field Parse Error''"
| "error_kind_str Duplicate = ''Duplication Error''"
| "error_kind_str MultipleErrors = ''Multiple Errors''"
| "error_kind_str Incoherent = ''Incoherent''"
| "error_kind_str InvalidBackupTargetId = ''Invalid Backup Target ID''"
| "error_kind_str ProductKeyMismatch = ''Incompatible Product Keys''"
| "error_kind_str LanPortConflict = ''Incompatible LAN Port Configuration''"
| "error_kind_str Javascript = ''Javascript Engine Error''"
| "error_kind_str Pem = ''PEM Encoding Error''"
| "error_kind_str TLSInit = ''TLS Backend Initialization Error''"
| "error_kind_str Ascii = ''ASCII Parse Error''"
| "error_kind_str MissingHeader = ''Missing Header''"
| "error_kind_str Grub = ''Grub Error''"
| "error_kind_str Systemd = ''Systemd Error''"
| "error_kind_str OpenSsh = ''OpenSSH Error''"
| "error_kind_str Zram = ''Zram Error''"
| "error_kind_str Lshw = ''LSHW Error''"

definition error_kinds :: "error_kind list" where
  "error_kinds =
     [Unknown, Filesystem, Docker, ConfigSpecViolation, ConfigRulesViolation, NotFound,
      IncorrectPassword, VersionIncompatible, Network, Registry, Serialization, Deserialization, Utf8,
      ParseVersion, IncorrectDisk, Dependency, ParseS9pk, ParseUrl, DiskNotAvailable, BlockDevice,
      InvalidOnionAddress, Pack, ValidateS9pk, DiskCorrupted, Tor, ConfigGen, ParseNumber, Database,
      InvalidPackageId, InvalidSignature, Backup, Restore, Authorization, AutoConfigure, Action,
      RateLimited, InvalidRequest, MigrationFailed, Uninitialized, ParseNetAddress, ParseSshKey,
      SoundError, ParseTimestamp, ParseSysInfo, Wifi, Journald, DiskManagement, OpenSsl,
      PasswordHashGeneration, DiagnosticMode, ParseDbField, Duplicate, MultipleErrors, Incoherent,
      InvalidBackupTargetId, ProductKeyMismatch, LanPortConflict, Javascript, Pem, TLSInit, Ascii,
      MissingHeader, Grub, Systemd, OpenSsh, Zram, Lshw]"

definition kind_of_code :: "int \<Rightarrow> error_kind option" where
  "kind_of_code c = find (\<lambda>k. error_code k = c) error_kinds"

lemma kind_of_code: "kind_of_code (error_code k) = Some k"
  by (cases k) (simp_all add: kind_of_code_def error_kinds_def)

lemma error_code_inj: "error_code k = error_code k' \<longleftrightarrow> k = k'"
  by (metis kind_of_code option.inject)

lemma error_kinds_all: "k \<in> set error_kinds"
  using kind_of_code [of k] by (auto simp: kind_of_code_def find_Some_iff)

lemma error_kind_strs_distinct: "distinct (map error_kind_str error_kinds)"
  by (simp add: error_kinds_def)

lemma error_kind_str_inj: "error_kind_str k = error_kind_str k' \<longleftrightarrow> k = k'"
  using error_kind_strs_distinct error_kinds_all [of k] error_kinds_all [of k']
  by (auto simp: distinct_map inj_on_def)

end
