(* ===== verification/Config_Types.thy ===== *)
theory Config_Types
  imports Json Num_Range Errors "HOL-Library.Product_Lexorder"
begin

text \<open>
  The data of configuration specs (\<^verbatim>\<open>config/spec.rs\<close>) and of the errors that
  matching against them reports (\<^verbatim>\<open>config/mod.rs\<close>): the wrappers
  \<open>WithDefault\<close>, \<open>WithNullable\<close>, \<open>WithDescription\<close> and \<open>ListSpec\<close>, one datatype per
  kind of value spec, pointers to other packages with their order, and
  \<open>UniqueBy\<close> of \<^verbatim>\<open>config/util.rs\<close>.
\<close>

type_synonym package_id = string
type_synonym interface_id = string

section \<open>Pointers\<close>

text \<open>
  \<open>PackagePointerSpec\<close>. A config pointer holds the source of its selector and
  whether it selects every match.
\<close>

datatype package_pointer_spec =
    TorKey package_id interface_id
  | TorAddress package_id interface_id
  | LanAddress package_id interface_id
  | ConfigPtr package_id string bool

text \<open>\<open>SystemPointerSpec\<close> has no variant, so a pointer is a package pointer.\<close>

datatype value_spec_pointer = Package package_pointer_spec

fun pointer_package_id :: "package_pointer_spec \<Rightarrow> package_id" where
  "pointer_package_id (TorKey p _) = p"
| "pointer_package_id (TorAddress p _) = p"
| "pointer_package_id (LanAddress p _) = p"
| "pointer_package_id (ConfigPtr p _ _) = p"

text \<open>The derived order: by variant, then by the fields in turn.\<close>

fun pointer_key :: "package_pointer_spec \<Rightarrow> nat \<times> string \<times> string \<times> bool" where
  "pointer_key (TorKey p i) = (0, p, i, False)"
| "pointer_key (TorAddress p i) = (1, p, i, False)"
| "pointer_key (LanAddress p i) = (2, p, i, False)"
| "pointer_key (ConfigPtr p s m) = (3, p, s, m)"

lemma pointer_key_inject: "pointer_key a = pointer_key b \<Longrightarrow> a = b"
  by (cases a; cases b) auto

instantiation package_pointer_spec :: linorder
begin

definition less_eq_package_pointer_spec :: "package_pointer_spec \<Rightarrow> package_pointer_spec \<Rightarrow> bool" where
  "less_eq_package_pointer_spec a b = (pointer_key a \<le> pointer_key b)"

definition less_package_pointer_spec :: "package_pointer_spec \<Rightarrow> package_pointer_spec \<Rightarrow> bool" where
  "less_package_pointer_spec a b = (pointer_key a < pointer_key b)"

instance
  by standard
    (auto simp: less_eq_package_pointer_spec_def less_package_pointer_spec_def
      intro: pointer_key_inject antisym)

end

instantiation value_spec_pointer :: linorder
begin

fun less_eq_value_spec_pointer :: "value_spec_pointer \<Rightarrow> value_spec_pointer \<Rightarrow> bool" where
  "less_eq_value_spec_pointer (Package a) (Package b) = (a \<le> b)"

fun less_value_spec_pointer :: "value_spec_pointer \<Rightarrow> value_spec_pointer \<Rightarrow> bool" where
  "less_value_spec_pointer (Package a) (Package b) = (a < b)"

instance
proof
  fix x y z :: value_spec_pointer
  obtain a where x: "x = Package a" by (cases x)
  obtain b where y: "y = Package b" by (cases y)
  obtain c where z: "z = Package c" by (cases z)
  show "(x < y) = (x \<le> y \<and> \<not> y \<le> x)" by (auto simp: x y)
  show "x \<le> x" by (simp add: x)
  show "x \<le> y \<Longrightarrow> y \<le> z \<Longrightarrow> x \<le> z" by (simp add: x y z)
  show "x \<le> y \<Longrightarrow> y \<le> x \<Longrightarrow> x = y" by (simp add: x y)
  show "x \<le> y \<or> y \<le> x" by (auto simp: x y)
qed

end

text \<open>A \<open>BTreeSet\<close>: an ascending list; insertion and union keep the order.\<close>

definition bs_insert :: "'a::linorder \<Rightarrow> 'a list \<Rightarrow> 'a list" where
  "bs_insert x xs = (if x \<in> set xs then xs else insort x xs)"

definition bs_union :: "'a::linorder list \<Rightarrow> 'a list \<Rightarrow> 'a list" where
  "bs_union xs ys = fold bs_insert ys xs"

lemma set_bs_insert [simp]: "set (bs_insert x xs) = insert x (set xs)"
  by (auto simp: bs_insert_def set_insort_key)

lemma set_bs_union [simp]: "set (bs_union xs ys) = set xs \<union> set ys"
  by (induction ys arbitrary: xs) (auto simp: bs_union_def)

lemma bs_insert_sorted: "sorted xs \<Longrightarrow> distinct xs \<Longrightarrow> sorted (bs_insert x xs) \<and> distinct (bs_insert x xs)"
  by (simp add: bs_insert_def sorted_insort distinct_insort)

lemma bs_union_sorted: "sorted xs \<Longrightarrow> distinct xs \<Longrightarrow> sorted (bs_union xs ys) \<and> distinct (bs_union xs ys)"
  by (induction ys arbitrary: xs) (auto simp: bs_union_def bs_insert_sorted)

section \<open>Errors\<close>

datatype match_error =
    EPattern string string
  | EEnum string "string list"
  | ENotNullable
  | ELengthMismatch "nat num_range" nat
  | EInvalidType string string
  | EOutOfRange "f64 num_range" f64
  | ENonIntegral f64
  | EUnion string "string list"
  | EMissingTag string
  | EPropertyMatchesUnionTag string string
  | EPropertyNameMatchesMapTag string
  | EInvalidPointer value_spec_pointer
  | EInvalidKey string
  | EListUniquenessViolation

text \<open>The path is kept innermost segment first: \<open>prepend\<close> pushes at the end.\<close>

record no_match =
  nm_path :: "string list"
  nm_error :: match_error

definition no_match_new :: "match_error \<Rightarrow> no_match" where
  "no_match_new e = \<lparr>nm_path = [], nm_error = e\<rparr>"

definition prepend :: "string \<Rightarrow> no_match \<Rightarrow> no_match" where
  "prepend seg e = e\<lparr>nm_path := nm_path e @ [seg]\<rparr>"

text \<open>
  \<open>crate::Error\<close> with its kind and its source, which is a message or a
  configuration error; the latter may in turn wrap a system error.
\<close>

datatype configuration_error =
    TimeoutError
  | NoMatch no_match
  | SystemError error
  | PermissionDenied value_spec_pointer
and error = Error (err_kind: error_kind) (err_source: error_source)
and error_source = Msg string | Cfg configuration_error

text \<open>\<open>impl From<ConfigurationError> for Error\<close>.\<close>

fun error_of_configuration :: "configuration_error \<Rightarrow> error" where
  "error_of_configuration (SystemError e) = Error (err_kind e) (Cfg (SystemError e))"
| "error_of_configuration e = Error ConfigGen (Cfg e)"

text \<open>The \<open>not_found!\<close> macro, less the source location in its message.\<close>

definition not_found :: "string \<Rightarrow> error" where
  "not_found x = Error Incoherent (Msg (''Could not find '' @ x))"

section \<open>Uniqueness\<close>

datatype unique_by =
    UniqueAny "unique_by list"
  | UniqueAll "unique_by list"
  | Exactly string
  | NotUnique

fun opt_value_eq :: "json option \<Rightarrow> json option \<Rightarrow> bool" where
  "opt_value_eq None None = True"
| "opt_value_eq (Some v) (Some w) = value_eq v w"
| "opt_value_eq _ _ = False"

fun unique_by_eq :: "unique_by \<Rightarrow> config \<Rightarrow> config \<Rightarrow> bool" where
  "unique_by_eq (UniqueAny us) l r = list_ex (\<lambda>u. unique_by_eq u l r) us"
| "unique_by_eq (UniqueAll us) l r = list_all (\<lambda>u. unique_by_eq u l r) us"
| "unique_by_eq (Exactly key) l r = opt_value_eq (im_get l key) (im_get r key)"
| "unique_by_eq NotUnique l r = False"

section \<open>Value specs\<close>

datatype ('t, 'd) with_default = WithDefault (wdf_inner: 't) (wdf_default: 'd)

datatype 't with_nullable = WithNullable (wn_inner: 't) (wn_nullable: bool)

datatype 't with_description =
  WithDescription (wds_inner: 't) (wds_description: "string option") (wds_name: string)
    (wds_warning: "string option")

datatype 't list_spec = ListSpec (ls_spec: 't) (ls_range: "nat num_range")

datatype value_spec_boolean = ValueSpecBoolean

datatype value_spec_enum =
  ValueSpecEnum (enum_values: "string list") (enum_value_names: "(string, string) btmap")

datatype value_spec_number =
  ValueSpecNumber (num_range_opt: "f64 num_range option") (num_integral: bool)
    (num_units: "string option") (num_placeholder: "number option")

text \<open>A regular expression is kept by its source text.\<close>

datatype pattern = Pattern (pat_regex: string) (pat_description: string)

datatype value_spec_string =
  ValueSpecString (str_pattern: "pattern option") (str_textarea: bool) (str_copyable: bool)
    (str_masked: bool) (str_placeholder: "string option")

datatype entropy = Entropy (ent_charset: "char_set option") (ent_len: nat)

datatype default_string = DLiteral string | DEntropy entropy

datatype union_tag =
  UnionTag (tag_id: string) (tag_name: string) (tag_description: "string option")
    (tag_variant_names: "(string, string) btmap")

datatype value_spec_any =
    SBoolean "(value_spec_boolean, bool) with_default with_description"
  | SEnum "(value_spec_enum, string) with_default with_description"
  | SList value_spec_list
  | SNumber "(value_spec_number with_nullable, number option) with_default with_description"
  | SObject "value_spec_object with_description"
  | SString "(value_spec_string with_nullable, default_string option) with_default with_description"
  | SUnion "(value_spec_union, string) with_default with_description"
  | SPointer "value_spec_pointer with_description"
and value_spec_list =
    LEnum "(value_spec_enum list_spec, string list) with_default with_description"
  | LNumber "(value_spec_number list_spec, number option list) with_default with_description"
  | LObject "(value_spec_object list_spec, config list) with_default with_description"
  | LString "(value_spec_string list_spec, default_string option list) with_default with_description"
  | LUnion "((value_spec_union, string) with_default list_spec, string list) with_default with_description"
and value_spec_object =
    ValueSpecObject (obj_spec: config_spec) (obj_display_as: "string option") (obj_unique_by: unique_by)
and value_spec_union =
    ValueSpecUnion (uni_tag: union_tag) (uni_variants: "(string \<times> config_spec) list")
      (uni_display_as: "string option") (uni_unique_by: unique_by)
and config_spec = ConfigSpec (spec_entries: "(string \<times> value_spec_any) list")

fun list_name :: "value_spec_list \<Rightarrow> string" where
  "list_name (LEnum e) = wds_name e"
| "list_name (LNumber n) = wds_name n"
| "list_name (LObject ob) = wds_name ob"
| "list_name (LString s) = wds_name s"
| "list_name (LUnion u) = wds_name u"

fun any_name :: "value_spec_any \<Rightarrow> string" where
  "any_name (SBoolean b) = wds_name b"
| "any_name (SEnum e) = wds_name e"
| "any_name (SList l) = list_name l"
| "any_name (SNumber n) = wds_name n"
| "any_name (SObject ob) = wds_name ob"
| "any_name (SPointer p) = wds_name p"
| "any_name (SString s) = wds_name s"
| "any_name (SUnion u) = wds_name u"

end
