(* ===== verification/Manifest.thy ===== *)
theory Manifest
  imports Config_Types "HOL-Library.Word"
begin

text \<open>
  The parts of a package manifest (\<^verbatim>\<open>s9pk/manifest.rs\<close>) that configuration,
  dependency management and installation read, with \<open>DepInfo\<close> and \<open>Dependencies\<close> of
  \<^verbatim>\<open>dependencies.rs\<close>, \<open>Volume\<close> of \<^verbatim>\<open>volume.rs\<close>, \<open>Interface\<close> of
  \<^verbatim>\<open>net/interface.rs\<close> and \<open>Migrations\<close> of \<^verbatim>\<open>migration.rs\<close>. The procedures a
  package ships are opaque: running them is an argument of the operations that do so.
\<close>

type_synonym version = string
type_synonym version_range = string
type_synonym procedure = string
type_synonym health_check_id = string

datatype volume =
    VData bool
  | VAssets
  | VPointer package_id string string bool
  | VCertificate interface_id
  | VBackup bool

type_synonym volumes = "(string, volume) btmap"

datatype dependency_requirement = OptIn string | OptOut string | Required

fun required :: "dependency_requirement \<Rightarrow> bool" where
  "required Required = True"
| "required _ = False"

record dependency_config =
  dc_check :: procedure
  dc_auto_configure :: procedure

record dep_info =
  di_version :: version_range
  di_requirement :: dependency_requirement
  di_description :: "string option"
  di_config :: "dependency_config option"

record config_actions =
  ca_get :: procedure
  ca_set :: procedure

text \<open>Port numbers are 16-bit words; \<open>TorConfig\<close> holds a map between them.\<close>

type_synonym port = "16 word"

record lan_port_config =
  lp_ssl :: bool
  lp_internal :: port

record interface =
  if_name :: string
  if_description :: string
  if_tor_config :: "(port, port) btmap option"
  if_lan_config :: "(port, lan_port_config) btmap option"
  if_ui :: bool
  if_protocols :: "string list"

type_synonym interfaces = "(interface_id, interface) btmap"

record migrations =
  mig_from :: "(version_range, procedure) imap"
  mig_to :: "(version_range, procedure) imap"

record backup_actions =
  ba_create :: procedure
  ba_restore :: procedure

record manifest =
  m_id :: package_id
  m_version :: version
  m_config :: "config_actions option"
  m_volumes :: volumes
  m_dependencies :: "(package_id, dep_info) btmap"
  m_containers :: "procedure option"
  m_interfaces :: interfaces
  m_migrations :: migrations
  m_health_checks :: "(health_check_id, procedure) btmap"
  m_backup :: backup_actions

text \<open>No interfaces, migrations and health checks, for sample manifests.\<close>

abbreviation no_migrations :: migrations where
  "no_migrations \<equiv> \<lparr>mig_from = [], mig_to = []\<rparr>"

abbreviation no_backup :: backup_actions where
  "no_backup \<equiv> \<lparr>ba_create = [], ba_restore = []\<rparr>"

end
