(* ===== verification/Status.thy ===== *)
theory Status
  imports Manifest
begin

text \<open>
  The status of an installed package: \<^verbatim>\<open>status/mod.rs\<close>, \<^verbatim>\<open>status/health_check.rs\<close> and
  the dependency errors of \<^verbatim>\<open>dependencies.rs\<close> with their priority order.
\<close>

section \<open>Health checks\<close>

datatype health_check_result =
    HSuccess
  | HDisabled
  | HStarting
  | HLoading string
  | HFailure string

text \<open>\<open>HealthCheck::check\<close>: what the exit code of a health check procedure stands for.\<close>

fun health_check_of :: "(int \<times> string) + unit \<Rightarrow> health_check_result" where
  "health_check_of (Inr ()) = HSuccess"
| "health_check_of (Inl (code, message)) =
     (if code = 59 then HDisabled
      else if code = 60 then HStarting
      else if code = 61 then HLoading message
      else HFailure message)"

type_synonym health = "(health_check_id, health_check_result) btmap"

section \<open>Dependency errors\<close>

datatype dependency_error =
    NotInstalled
  | IncorrectVersion version_range version
  | ConfigUnsatisfied string
  | NotRunning
  | HealthChecksFailed health
  | Transitive

datatype ordering = Less | Equal | Greater

fun cmp_priority :: "dependency_error \<Rightarrow> dependency_error \<Rightarrow> ordering" where
  "cmp_priority NotInstalled NotInstalled = Equal"
| "cmp_priority NotInstalled _ = Greater"
| "cmp_priority _ NotInstalled = Less"
| "cmp_priority (IncorrectVersion _ _) (IncorrectVersion _ _) = Equal"
| "cmp_priority (IncorrectVersion _ _) _ = Greater"
| "cmp_priority _ (IncorrectVersion _ _) = Less"
| "cmp_priority (ConfigUnsatisfied _) (ConfigUnsatisfied _) = Equal"
| "cmp_priority (ConfigUnsatisfied _) _ = Greater"
| "cmp_priority _ (ConfigUnsatisfied _) = Less"
| "cmp_priority NotRunning NotRunning = Equal"
| "cmp_priority NotRunning _ = Greater"
| "cmp_priority _ NotRunning = Less"
| "cmp_priority (HealthChecksFailed _) (HealthChecksFailed _) = Equal"
| "cmp_priority (HealthChecksFailed _) _ = Greater"
| "cmp_priority _ (HealthChecksFailed _) = Less"
| "cmp_priority Transitive Transitive = Equal"

fun dep_error_merge :: "dependency_error \<Rightarrow> dependency_error \<Rightarrow> dependency_error" where
  "dep_error_merge NotInstalled _ = NotInstalled"
| "dep_error_merge _ NotInstalled = NotInstalled"
| "dep_error_merge (IncorrectVersion e r) _ = IncorrectVersion e r"
| "dep_error_merge _ (IncorrectVersion e r) = IncorrectVersion e r"
| "dep_error_merge (ConfigUnsatisfied e0) (ConfigUnsatisfied e1) = ConfigUnsatisfied (e0 @ [CHR 0x0A] @ e1)"
| "dep_error_merge (ConfigUnsatisfied e) _ = ConfigUnsatisfied e"
| "dep_error_merge _ (ConfigUnsatisfied e) = ConfigUnsatisfied e"
| "dep_error_merge NotRunning _ = NotRunning"
| "dep_error_merge _ NotRunning = NotRunning"
| "dep_error_merge (HealthChecksFailed f0) (HealthChecksFailed f1) =
     HealthChecksFailed (bt_of_list (f0 @ f1))"
| "dep_error_merge (HealthChecksFailed f) _ = HealthChecksFailed f"
| "dep_error_merge _ (HealthChecksFailed f) = HealthChecksFailed f"
| "dep_error_merge Transitive _ = Transitive"

type_synonym dependency_errors = "(package_id, dependency_error) btmap"

text \<open>The position of an error in the priority order.\<close>

fun rank :: "dependency_error \<Rightarrow> nat" where
  "rank NotInstalled = 6"
| "rank (IncorrectVersion _ _) = 5"
| "rank (ConfigUnsatisfied _) = 4"
| "rank NotRunning = 3"
| "rank (HealthChecksFailed _) = 2"
| "rank Transitive = 1"

lemma rank_bounds: "0 < rank e" "rank e \<le> 6"
  by (cases e; simp)+

lemma cmp_priority_rank:
  "cmp_priority a b = (if rank a = rank b then Equal else if rank b < rank a then Greater else Less)"
  by (cases a; cases b) simp_all

lemma rank_merge [simp]: "rank (dep_error_merge a b) = max (rank a) (rank b)"
  by (cases a; cases b) simp_all

section \<open>Main status\<close>

datatype main_status =
    Stopped
  | Restarting
  | Stopping
  | Starting bool
  | Running string health
  | BackingUp "string option" health

fun running :: "main_status \<Rightarrow> bool" where
  "running (Starting _) = True"
| "running (Running _ _) = True"
| "running (BackingUp (Some _) _) = True"
| "running Stopped = False"
| "running Stopping = False"
| "running Restarting = False"
| "running (BackingUp None _) = False"

fun stop :: "main_status \<Rightarrow> main_status" where
  "stop (Starting _) = Stopping"
| "stop (Running _ _) = Stopping"
| "stop (BackingUp _ health) = BackingUp None health"
| "stop Stopped = Stopped"
| "stop Stopping = Stopping"
| "stop Restarting = Restarting"

fun started :: "main_status \<Rightarrow> string option" where
  "started (Running t _) = Some t"
| "started (BackingUp t _) = t"
| "started Stopped = None"
| "started Restarting = None"
| "started Stopping = None"
| "started (Starting _) = None"

record status =
  configured :: bool
  main :: main_status
  dependency_errors :: dependency_errors

section \<open>Properties\<close>

text \<open>
  \<open>cmp_priority\<close> is a total preorder and \<open>merge_with\<close> takes an upper bound in it: the
  comparison is antisymmetric and transitive, and the merge of two errors is at
  least as severe as each of them and exactly as severe as one of them.
\<close>

theorem merge_is_most_severe:
  "(cmp_priority a b = Greater \<longleftrightarrow> cmp_priority b a = Less) \<and>
   (cmp_priority a b = Equal \<longleftrightarrow> cmp_priority b a = Equal) \<and>
   \<not> (cmp_priority a b \<noteq> Less \<and> cmp_priority b c \<noteq> Less \<and> cmp_priority a c = Less) \<and>
   cmp_priority (dep_error_merge a b) a \<noteq> Less \<and> cmp_priority (dep_error_merge a b) b \<noteq> Less \<and>
   (cmp_priority (dep_error_merge a b) a = Equal \<or> cmp_priority (dep_error_merge a b) b = Equal)"
  by (auto simp: cmp_priority_rank)

text \<open>
  After \<open>stop\<close> a package is not running and has no start time, and stopping again
  changes nothing; a backup in progress and a pending restart are kept.
\<close>

lemma stop_stops:
  "\<not> running (stop m) \<and> started (stop m) = None \<and> stop (stop m) = stop m \<and>
   (stop m = Restarting \<longleftrightarrow> m = Restarting) \<and> ((\<exists>t h. stop m = BackingUp t h) \<longleftrightarrow> (\<exists>t h. m = BackingUp t h))"
  by (cases m) simp_all

end
