(* ===== verification/State_Res.thy ===== *)
theory State_Res
  imports Prelude
begin

text \<open>
  Computations over a mutable state that return an outcome. A Rust function that
  takes \<open>&mut\<close> arguments and leaves with \<open>?\<close> keeps the changes it made before
  the error, so the state comes back beside the outcome, whatever it is. The
  second half holds the rules by which the components prove that such a
  computation keeps a relation between its states, and that it ends.
\<close>

type_synonym ('s, 'e, 'a) st = "'s \<Rightarrow> ('e, 'a) res \<times> 's"

definition st_return :: "'a \<Rightarrow> ('s, 'e, 'a) st" where
  "st_return a s = (Ok a, s)"

definition st_lift :: "('e, 'a) res \<Rightarrow> ('s, 'e, 'a) st" where
  "st_lift r s = (r, s)"

definition st_get :: "('s \<Rightarrow> 'a) \<Rightarrow> ('s, 'e, 'a) st" where
  "st_get f s = (Ok (f s), s)"

definition st_modify :: "('s \<Rightarrow> 's) \<Rightarrow> ('s, 'e, unit) st" where
  "st_modify f s = (Ok (), f s)"

definition st_bind :: "('s, 'e, 'a) st \<Rightarrow> ('a \<Rightarrow> ('s, 'e, 'b) st) \<Rightarrow> ('s, 'e, 'b) st" where
  "st_bind m f s =
     (case m s of
        (Ok a, s') \<Rightarrow> f a s'
      | (Err e, s') \<Rightarrow> (Err e, s')
      | (Panic, s') \<Rightarrow> (Panic, s')
      | (Diverge, s') \<Rightarrow> (Diverge, s'))"

text \<open>An error that is inspected instead of being passed on.\<close>

definition st_catch :: "('s, 'e, 'a) st \<Rightarrow> ('e \<Rightarrow> ('s, 'e, 'a) st) \<Rightarrow> ('s, 'e, 'a) st" where
  "st_catch m h s = (case m s of (Err e, s') \<Rightarrow> h e s' | r \<Rightarrow> r)"

definition st_map_err :: "('e \<Rightarrow> 'f) \<Rightarrow> ('s, 'e, 'a) st \<Rightarrow> ('s, 'f, 'a) st" where
  "st_map_err g m s = (case m s of (r, s') \<Rightarrow> (map_err g r, s'))"

fun st_for :: "('x \<Rightarrow> ('s, 'e, unit) st) \<Rightarrow> 'x list \<Rightarrow> ('s, 'e, unit) st" where
  "st_for f [] = st_return ()"
| "st_for f (x # xs) = st_bind (f x) (\<lambda>_. st_for f xs)"

text \<open>A loop that carries a local accumulator.\<close>

fun st_fold :: "('x \<Rightarrow> 'a \<Rightarrow> ('s, 'e, 'a) st) \<Rightarrow> 'x list \<Rightarrow> 'a \<Rightarrow> ('s, 'e, 'a) st" where
  "st_fold f [] a = st_return a"
| "st_fold f (x # xs) a = st_bind (f x a) (st_fold f xs)"

lemma st_simps:
  "st_return a s = (Ok a, s)"
  "st_lift r s = (r, s)"
  "st_get g s = (Ok (g s), s)"
  "st_modify h s = (Ok (), h s)"
  by (simp_all add: st_return_def st_lift_def st_get_def st_modify_def)

lemma st_bind_outcomes [simp]:
  "m s = (Ok a, s') \<Longrightarrow> st_bind m f s = f a s'"
  "m s = (Err e, s') \<Longrightarrow> st_bind m f s = (Err e, s')"
  "m s = (Panic, s') \<Longrightarrow> st_bind m f s = (Panic, s')"
  "m s = (Diverge, s') \<Longrightarrow> st_bind m f s = (Diverge, s')"
  by (simp_all add: st_bind_def)

lemma st_bind_step:
  "st_bind (st_return a) f s = f a s"
  "st_bind (st_get g) f s = f (g s) s"
  "st_bind (st_modify h) k s = k () (h s)"
  "st_bind (st_lift (Ok a)) f s = f a s"
  "st_bind (st_lift (Err e)) f s = (Err e, s)"
  by (simp_all add: st_bind_def st_simps)

text \<open>Evaluation on a given state. These rewrite applied computations only when asked to.\<close>

lemmas st_eval = st_simps st_bind_step

lemma st_bind_eq_Ok:
  "st_bind m f s = (Ok b, t) \<longleftrightarrow> (\<exists>a s'. m s = (Ok a, s') \<and> f a s' = (Ok b, t))"
  by (auto simp: st_bind_def split: prod.splits res.splits)

lemma st_return_eq: "st_return a s = (r, t) \<longleftrightarrow> r = Ok a \<and> t = s"
  by (auto simp: st_return_def)

lemma st_bind_cong [fundef_cong]:
  "m = m' \<Longrightarrow> (\<And>a. f a = g a) \<Longrightarrow> st_bind m f = st_bind m' g"
  by (simp add: st_bind_def fun_eq_iff split: prod.splits res.splits)

lemma st_for_cong [fundef_cong]:
  "xs = ys \<Longrightarrow> (\<And>x. x \<in> set ys \<Longrightarrow> f x = g x) \<Longrightarrow> st_for f xs = st_for g ys"
  by (induction xs arbitrary: ys) auto

lemma st_fold_cong [fundef_cong]:
  "xs = ys \<Longrightarrow> a = b \<Longrightarrow> (\<And>x c. x \<in> set ys \<Longrightarrow> f x c = g x c) \<Longrightarrow> st_fold f xs a = st_fold g ys b"
proof (induction xs arbitrary: a b ys)
  case (Cons x xs)
  then have "st_fold f xs = st_fold g xs" by (intro ext) (metis list.set_intros(2))
  with Cons.prems show ?case by auto
qed auto

lemma st_map_err_eq_Ok: "st_map_err g m s = (Ok a, t) \<longleftrightarrow> m s = (Ok a, t)"
  by (auto simp: st_map_err_def split: prod.splits)

lemma st_for_invariant:
  assumes "st_for f xs s = (Ok u, t)" and "P s"
    and "\<And>x s s'. x \<in> set xs \<Longrightarrow> P s \<Longrightarrow> f x s = (Ok (), s') \<Longrightarrow> P s'"
  shows "P t"
  using assms by (induction xs arbitrary: s) (auto simp: st_bind_eq_Ok st_simps)

lemma st_for_append: "st_for f (xs @ ys) = st_bind (st_for f xs) (\<lambda>_. st_for f ys)"
  by (induction xs) (auto simp: fun_eq_iff st_bind_def st_simps split: prod.splits res.splits)

section \<open>Relations that computations keep\<close>

text \<open>
  A reflexive and transitive relation between the state before and the state
  after. Every outcome counts, errors included: what an early return leaves
  behind is related to the start as well.
\<close>

locale state_rel =
  fixes R :: "'s \<Rightarrow> 's \<Rightarrow> bool"
  assumes rel_refl: "R s s"
    and rel_trans: "R s t \<Longrightarrow> R t u \<Longrightarrow> R s u"
begin

definition keeps :: "('s, 'e, 'a) st \<Rightarrow> bool" where
  "keeps m \<longleftrightarrow> (\<forall>s. R s (snd (m s)))"

lemma keepsD: "keeps m \<Longrightarrow> m s = (r, s') \<Longrightarrow> R s s'"
  by (metis keeps_def snd_conv)

lemma keeps_basic: "keeps (st_return a)" "keeps (st_lift r)" "keeps (st_get g)"
  by (simp_all add: keeps_def rel_refl st_simps)

lemma keeps_modify: "(\<And>s. R s (f s)) \<Longrightarrow> keeps (st_modify f)"
  by (simp add: keeps_def st_simps)

lemma keeps_bind:
  assumes "keeps m" and "\<And>a. keeps (f a)"
  shows "keeps (st_bind m f)"
  unfolding keeps_def
proof
  fix s
  obtain r s' where m: "m s = (r, s')" by fastforce
  have "R s s'" using assms(1) m by (rule keepsD)
  moreover have "R s' (snd (f a s'))" for a using assms(2) by (simp add: keeps_def)
  ultimately show "R s (snd (st_bind m f s))"
    using m by (cases r) (auto intro: rel_trans)
qed

text \<open>The same for a given start, where the second part may rely on what the first returned.\<close>

lemma rel_bind:
  assumes "R s (snd (m s))" and "\<And>a s'. m s = (Ok a, s') \<Longrightarrow> R s' (snd (f a s'))"
  shows "R s (snd (st_bind m f s))"
proof -
  obtain r s' where m: "m s = (r, s')" by fastforce
  then show ?thesis using assms by (cases r) (auto intro: rel_trans)
qed

lemma keepsR: "keeps m \<Longrightarrow> R s (snd (m s))"
  by (simp add: keeps_def)

lemma keeps_catch:
  assumes "keeps m" and "\<And>e. keeps (h e)"
  shows "keeps (st_catch m h)"
  unfolding keeps_def
proof
  fix s
  obtain r s' where m: "m s = (r, s')" by fastforce
  have "R s s'" using assms(1) m by (rule keepsD)
  moreover have "R s' (snd (h e s'))" for e using assms(2) by (simp add: keeps_def)
  ultimately show "R s (snd (st_catch m h s))"
    using m by (cases r) (auto simp: st_catch_def intro: rel_trans)
qed

lemma keeps_map_err: "keeps m \<Longrightarrow> keeps (st_map_err g m)"
  by (auto simp: keeps_def st_map_err_def split: prod.splits) (metis snd_conv)

lemma keeps_for: "(\<And>x. x \<in> set xs \<Longrightarrow> keeps (f x)) \<Longrightarrow> keeps (st_for f xs)"
  by (induction xs) (auto intro: keeps_basic keeps_bind)

lemma keeps_fold: "(\<And>x a. x \<in> set xs \<Longrightarrow> keeps (f x a)) \<Longrightarrow> keeps (st_fold f xs a)"
  by (induction xs arbitrary: a) (auto intro: keeps_basic keeps_bind)

lemmas keeps_rules = keeps_basic keeps_modify keeps_bind keeps_catch keeps_for keeps_fold keeps_map_err

end

section \<open>Computations that end\<close>

text \<open>
  \<open>tame P m\<close>: from a state in \<open>P\<close> the computation ends, and in a state of \<open>P\<close>. With
  a bound on a measure of the state as \<open>P\<close> this is the shape in which a recursion
  whose depth the measure bounds composes with loops.
\<close>

definition tame :: "('s \<Rightarrow> bool) \<Rightarrow> ('s, 'e, 'a) st \<Rightarrow> bool" where
  "tame P m \<longleftrightarrow> (\<forall>s. P s \<longrightarrow> fst (m s) \<noteq> Diverge \<and> P (snd (m s)))"

lemma tameD: "tame P m \<Longrightarrow> P s \<Longrightarrow> m s = (r, s') \<Longrightarrow> r \<noteq> Diverge \<and> P s'"
  unfolding tame_def by (metis fst_conv snd_conv)

lemma tame_basic: "tame P (st_return a)" "tame P (st_get g)" "r \<noteq> Diverge \<Longrightarrow> tame P (st_lift r)"
  by (simp_all add: tame_def st_simps)

lemma tame_modify: "(\<And>s. P s \<Longrightarrow> P (f s)) \<Longrightarrow> tame P (st_modify f)"
  by (simp add: tame_def st_simps)

lemma tame_bind:
  assumes "tame P m" and "\<And>a. tame P (f a)"
  shows "tame P (st_bind m f)"
  unfolding tame_def
proof (intro allI impI)
  fix s assume P: "P s"
  obtain r s' where m: "m s = (r, s')" by fastforce
  then have "r \<noteq> Diverge" "P s'" using tameD [OF assms(1) P m] by auto
  moreover have "fst (f a s') \<noteq> Diverge \<and> P (snd (f a s'))" if "P s'" for a
    using assms(2) that by (simp add: tame_def)
  ultimately show "fst (st_bind m f s) \<noteq> Diverge \<and> P (snd (st_bind m f s))"
    using m by (cases r) auto
qed

lemma tame_catch:
  assumes "tame P m" and "\<And>e. tame P (h e)"
  shows "tame P (st_catch m h)"
  unfolding tame_def
proof (intro allI impI)
  fix s assume P: "P s"
  obtain r s' where m: "m s = (r, s')" by fastforce
  then have "r \<noteq> Diverge" "P s'" using tameD [OF assms(1) P m] by auto
  moreover have "fst (h e s') \<noteq> Diverge \<and> P (snd (h e s'))" if "P s'" for e
    using assms(2) that by (simp add: tame_def)
  ultimately show "fst (st_catch m h s) \<noteq> Diverge \<and> P (snd (st_catch m h s))"
    using m by (cases r) (auto simp: st_catch_def)
qed

lemma tame_for: "(\<And>x. x \<in> set xs \<Longrightarrow> tame P (f x)) \<Longrightarrow> tame P (st_for f xs)"
  by (induction xs) (auto intro: tame_basic tame_bind)

lemma tame_fold: "(\<And>x a. x \<in> set xs \<Longrightarrow> tame P (f x a)) \<Longrightarrow> tame P (st_fold f xs a)"
  by (induction xs arbitrary: a) (auto intro: tame_basic tame_bind)

lemmas tame_rules = tame_basic tame_modify tame_bind tame_catch tame_for tame_fold

text \<open>A loop that keeps an invariant and whose iterations each establish something that later ones keep.\<close>

lemma st_for_each:
  assumes "st_for f xs s = (Ok u, t)" and "P s"
    and "\<And>x s t. x \<in> set xs \<Longrightarrow> P s \<Longrightarrow> f x s = (Ok (), t) \<Longrightarrow> P t \<and> Q x t"
    and "\<And>x y s t. x \<in> set xs \<Longrightarrow> y \<in> set xs \<Longrightarrow> P s \<Longrightarrow> Q x s \<Longrightarrow> f y s = (Ok (), t) \<Longrightarrow> Q x t"
  shows "P t \<and> (\<forall>x \<in> set xs. Q x t)"
  using assms
proof (induction xs arbitrary: s)
  case (Cons x xs)
  obtain s1 where s1: "f x s = (Ok (), s1)" "st_for f xs s1 = (Ok u, t)"
    using Cons.prems(1) by (auto simp: st_bind_eq_Ok)
  have x: "P s1 \<and> Q x s1" using Cons.prems(3) [OF _ Cons.prems(2) s1(1)] by simp
  have "P t \<and> (\<forall>y \<in> set xs. Q y t)"
  proof (rule Cons.IH [OF s1(2) conjunct1 [OF x]])
    show "P t \<and> Q y t" if "y \<in> set xs" "P s" "f y s = (Ok (), t)" for y s t
      using Cons.prems(3) [of y s t] that by simp
    show "Q y t" if "y \<in> set xs" "z \<in> set xs" "P s" "Q y s" "f z s = (Ok (), t)" for y z s t
      using Cons.prems(4) [of y z s t] that by simp
  qed
  moreover have "P t \<and> Q x t"
  proof (rule st_for_invariant [where P = "\<lambda>t. P t \<and> Q x t", OF s1(2) x])
    show "P t \<and> Q x t" if "y \<in> set xs" "P s \<and> Q x s" "f y s = (Ok (), t)" for y s t
      using Cons.prems(3) [of y s t] Cons.prems(4) [of x y s t] that by simp
  qed
  ultimately show ?case by simp
next
  case Nil
  show ?case using Nil.prems(1,2) by (simp add: st_simps)
qed


end
