(* ===== verification/Config_Spec.thy ===== *)
theory Config_Spec
  imports Manifest
begin

text \<open>
  The trait \<open>ValueSpec\<close> of \<^verbatim>\<open>config/spec.rs\<close>, without the part that talks to the
  database: \<open>matches\<close>, \<open>validate\<close>, \<open>pointers\<close>, \<open>requires\<close> and \<open>eq\<close> for every kind of
  spec. Regular expressions are a parameter \<open>rx\<close>: \<open>rx p s\<close> is
  \<open>Regex::is_match\<close> for the expression with source \<open>p\<close>.
\<close>

type_synonym match_res = "(no_match, unit) res"

abbreviation mismatch :: "match_error \<Rightarrow> (no_match, 'a) res" where
  "mismatch e \<equiv> Err (no_match_new e)"

text \<open>\<open>format!("{}", i)\<close> of an index.\<close>

definition idx_text :: "nat \<Rightarrow> string" where
  "idx_text i = map char_of (show_usize i)"

section \<open>The wrappers\<close>

text \<open>
  \<open>WithDefault\<close> and \<open>WithDescription\<close> pass every method on to the wrapped spec;
  \<open>WithNullable\<close> does so for every method but \<open>matches\<close>.
\<close>

definition with_default_spec :: "('t \<Rightarrow> 'r) \<Rightarrow> ('t, 'd) with_default \<Rightarrow> 'r" where
  "with_default_spec f w = f (wdf_inner w)"

definition with_description_spec :: "('t \<Rightarrow> 'r) \<Rightarrow> 't with_description \<Rightarrow> 'r" where
  "with_description_spec f w = f (wds_inner w)"

definition with_nullable_spec :: "('t \<Rightarrow> 'r) \<Rightarrow> 't with_nullable \<Rightarrow> 'r" where
  "with_nullable_spec f w = f (wn_inner w)"

definition with_nullable_matches :: "('t \<Rightarrow> json \<Rightarrow> match_res) \<Rightarrow> 't with_nullable \<Rightarrow> json \<Rightarrow> match_res" where
  "with_nullable_matches f w v = (if wn_nullable w \<and> v = JNull then Ok () else f (wn_inner w) v)"

lemma with_default_cong [fundef_cong]:
  "w = w' \<Longrightarrow> f (wdf_inner w') = g (wdf_inner w') \<Longrightarrow> with_default_spec f w = with_default_spec g w'"
  by (simp add: with_default_spec_def)

lemma with_description_cong [fundef_cong]:
  "w = w' \<Longrightarrow> f (wds_inner w') = g (wds_inner w') \<Longrightarrow>
     with_description_spec f w = with_description_spec g w'"
  by (simp add: with_description_spec_def)

lemmas wrapper_defs = with_default_spec_def with_description_spec_def with_nullable_spec_def

section \<open>Uniqueness\<close>

fun boolean_eq :: "value_spec_boolean \<Rightarrow> json \<Rightarrow> json \<Rightarrow> bool" where
  "boolean_eq _ (JBool l) (JBool r) = (l = r)"
| "boolean_eq _ _ _ = False"

fun enum_eq :: "value_spec_enum \<Rightarrow> json \<Rightarrow> json \<Rightarrow> bool" where
  "enum_eq _ (JString l) (JString r) = (l = r)"
| "enum_eq _ _ _ = False"

fun number_eq :: "value_spec_number \<Rightarrow> json \<Rightarrow> json \<Rightarrow> bool" where
  "number_eq _ (JNumber l) (JNumber r) = (l = r)"
| "number_eq _ _ _ = False"

fun string_eq :: "value_spec_string \<Rightarrow> json \<Rightarrow> json \<Rightarrow> bool" where
  "string_eq _ (JString l) (JString r) = (l = r)"
| "string_eq _ _ _ = False"

fun object_eq :: "value_spec_object \<Rightarrow> json \<Rightarrow> json \<Rightarrow> bool" where
  "object_eq s (JObject l) (JObject r) = unique_by_eq (obj_unique_by s) l r"
| "object_eq _ _ _ = False"

fun union_eq :: "value_spec_union \<Rightarrow> json \<Rightarrow> json \<Rightarrow> bool" where
  "union_eq s (JObject l) (JObject r) = unique_by_eq (uni_unique_by s) l r"
| "union_eq _ _ _ = False"

text \<open>\<open>zip_longest\<close> with equality of the pairs: arrays of the same length, member by member.\<close>

fun list_spec_eq :: "'t list_spec \<Rightarrow> json \<Rightarrow> json \<Rightarrow> bool" where
  "list_spec_eq _ (JArray l) (JArray r) = values_eq l r"
| "list_spec_eq _ _ _ = False"

definition pointer_eq :: "value_spec_pointer \<Rightarrow> json \<Rightarrow> json \<Rightarrow> bool" where
  "pointer_eq p l r = False"

fun list_eq :: "value_spec_list \<Rightarrow> json \<Rightarrow> json \<Rightarrow> bool" where
  "list_eq (LEnum a) = with_description_spec (with_default_spec list_spec_eq) a"
| "list_eq (LNumber a) = with_description_spec (with_default_spec list_spec_eq) a"
| "list_eq (LObject a) = with_description_spec (with_default_spec list_spec_eq) a"
| "list_eq (LString a) = with_description_spec (with_default_spec list_spec_eq) a"
| "list_eq (LUnion a) = with_description_spec (with_default_spec list_spec_eq) a"

fun any_eq :: "value_spec_any \<Rightarrow> json \<Rightarrow> json \<Rightarrow> bool" where
  "any_eq (SBoolean a) = with_description_spec (with_default_spec boolean_eq) a"
| "any_eq (SEnum a) = with_description_spec (with_default_spec enum_eq) a"
| "any_eq (SList a) = list_eq a"
| "any_eq (SNumber a) = with_description_spec (with_default_spec (with_nullable_spec number_eq)) a"
| "any_eq (SObject a) = with_description_spec object_eq a"
| "any_eq (SString a) = with_description_spec (with_default_spec (with_nullable_spec string_eq)) a"
| "any_eq (SUnion a) = with_description_spec (with_default_spec union_eq) a"
| "any_eq (SPointer a) = with_description_spec pointer_eq a"

section \<open>Matching\<close>

definition boolean_matches :: "value_spec_boolean \<Rightarrow> json \<Rightarrow> match_res" where
  "boolean_matches s v =
     (case v of
        JBool _ \<Rightarrow> Ok ()
      | JNull \<Rightarrow> mismatch ENotNullable
      | a \<Rightarrow> mismatch (EInvalidType ''boolean'' (type_of a)))"

definition enum_matches :: "value_spec_enum \<Rightarrow> json \<Rightarrow> match_res" where
  "enum_matches s v =
     (case v of
        JString b \<Rightarrow> if b \<in> set (enum_values s) then Ok () else mismatch (EEnum b (enum_values s))
      | JNull \<Rightarrow> mismatch ENotNullable
      | a \<Rightarrow> mismatch (EInvalidType ''string'' (type_of a)))"

definition number_matches :: "value_spec_number \<Rightarrow> json \<Rightarrow> match_res" where
  "number_matches s v =
     (case v of
        JNumber m \<Rightarrow>
          let n = as_f64 m in
          if num_integral s \<and> f64_has_fraction n then mismatch (ENonIntegral n)
          else (case num_range_opt s of
                  Some r \<Rightarrow> if range_contains f64_le f64_lt r n then Ok ()
                            else mismatch (EOutOfRange r n)
                | None \<Rightarrow> Ok ())
      | JNull \<Rightarrow> mismatch ENotNullable
      | a \<Rightarrow> mismatch (EInvalidType ''object'' (type_of a)))"

definition string_matches :: "(string \<Rightarrow> string \<Rightarrow> bool) \<Rightarrow> value_spec_string \<Rightarrow> json \<Rightarrow> match_res" where
  "string_matches rx s v =
     (case v of
        JString t \<Rightarrow>
          (case str_pattern s of
             Some p \<Rightarrow> if rx (pat_regex p) t then Ok () else mismatch (EPattern t (pat_regex p))
           | None \<Rightarrow> Ok ())
      | JNull \<Rightarrow> mismatch ENotNullable
      | a \<Rightarrow> mismatch (EInvalidType ''string'' (type_of a)))"

definition pointer_matches :: "value_spec_pointer \<Rightarrow> json \<Rightarrow> match_res" where
  "pointer_matches p v = Ok ()"

text \<open>
  A list: its length is in the range, each member matches, and no other member
  equals it for the purpose of uniqueness. The index is added to the error.
\<close>

definition list_spec_matches ::
  "('t \<Rightarrow> json \<Rightarrow> match_res) \<Rightarrow> ('t \<Rightarrow> json \<Rightarrow> json \<Rightarrow> bool) \<Rightarrow> 't list_spec \<Rightarrow> json \<Rightarrow> match_res" where
  "list_spec_matches f eq s v =
     (case v of
        JArray l \<Rightarrow>
          if \<not> range_contains (\<le>) (<) (ls_range s) (length l)
          then mismatch (ELengthMismatch (ls_range s) (length l))
          else rfor (\<lambda>(i, x).
            rbind (map_err (prepend (idx_text i)) (f (ls_spec s) x)) (\<lambda>_.
              if list_ex (\<lambda>(i2, x2). i \<noteq> i2 \<and> eq (ls_spec s) x x2) (List.enumerate 0 l)
              then Err (prepend (idx_text i) (no_match_new EListUniquenessViolation))
              else Ok ())) (List.enumerate 0 l)
      | JNull \<Rightarrow> mismatch ENotNullable
      | a \<Rightarrow> mismatch (EInvalidType ''list'' (type_of a)))"

lemma list_spec_matches_cong [fundef_cong]:
  "s = s' \<Longrightarrow> v = v' \<Longrightarrow> eq = eq' \<Longrightarrow> (\<And>x. f (ls_spec s') x = g (ls_spec s') x) \<Longrightarrow>
     list_spec_matches f eq s v = list_spec_matches g eq' s' v'"
proof -
  assume eqs: "s = s'" "v = v'" "eq = eq'" and "\<And>x. f (ls_spec s') x = g (ls_spec s') x"
  then have "f (ls_spec s') = g (ls_spec s')" by blast
  with eqs show ?thesis by (simp only: list_spec_matches_def)
qed

text \<open>The sub-specs of a spec are smaller.\<close>

lemma spec_size_simps [termination_simp]:
  "size (wds_inner a) < Suc (size_with_description size a)"
  "size (wdf_inner (wds_inner b)) < Suc (size_with_description (size_with_default size (\<lambda>_. 0)) b)"
  "size (ls_spec (wdf_inner (wds_inner c))) <
     Suc (size_with_description (size_with_default (size_list_spec size) g) c)"
  "size (wdf_inner (ls_spec (wdf_inner (wds_inner d)))) <
     Suc (size_with_description (size_with_default (size_list_spec (size_with_default size (\<lambda>_. 0))) h) d)"
  subgoal by (cases a) simp
  subgoal by (cases b; cases "wds_inner b") auto
  subgoal by (cases c; cases "wds_inner c"; cases "wdf_inner (wds_inner c)") auto
  subgoal by (cases d; cases "wds_inner d"; cases "wdf_inner (wds_inner d)";
        cases "ls_spec (wdf_inner (wds_inner d))") auto
  done

lemma obj_spec_size [termination_simp]: "size (obj_spec s) < size s"
  by (cases s) simp

lemma entry_size_less [termination_simp]:
  "e \<in> set (spec_entries s) \<Longrightarrow> size (snd e) < size s"
  by (cases s) (auto dest: snd_size_less [of _ _])

lemma variant_size_less [termination_simp]:
  "bt_get (uni_variants s) t = Some c \<Longrightarrow> size c < size s"
  by (cases s) (auto dest!: bt_get_SomeD snd_size_less)

function any_matches :: "(string \<Rightarrow> string \<Rightarrow> bool) \<Rightarrow> value_spec_any \<Rightarrow> json \<Rightarrow> match_res"
  and list_matches :: "(string \<Rightarrow> string \<Rightarrow> bool) \<Rightarrow> value_spec_list \<Rightarrow> json \<Rightarrow> match_res"
  and object_matches :: "(string \<Rightarrow> string \<Rightarrow> bool) \<Rightarrow> value_spec_object \<Rightarrow> json \<Rightarrow> match_res"
  and union_matches :: "(string \<Rightarrow> string \<Rightarrow> bool) \<Rightarrow> value_spec_union \<Rightarrow> json \<Rightarrow> match_res"
  and config_spec_matches :: "(string \<Rightarrow> string \<Rightarrow> bool) \<Rightarrow> config_spec \<Rightarrow> config \<Rightarrow> match_res" where
  "any_matches rx (SBoolean a) v = with_description_spec (with_default_spec boolean_matches) a v"
| "any_matches rx (SEnum a) v = with_description_spec (with_default_spec enum_matches) a v"
| "any_matches rx (SList a) v = list_matches rx a v"
| "any_matches rx (SNumber a) v =
     with_description_spec (with_default_spec (with_nullable_matches number_matches)) a v"
| "any_matches rx (SObject a) v = with_description_spec (\<lambda>s. object_matches rx s v) a"
| "any_matches rx (SString a) v =
     with_description_spec (with_default_spec (with_nullable_matches (string_matches rx))) a v"
| "any_matches rx (SUnion a) v =
     with_description_spec (with_default_spec (\<lambda>s. union_matches rx s v)) a"
| "any_matches rx (SPointer a) v = with_description_spec pointer_matches a v"
| "list_matches rx (LEnum a) v =
     with_description_spec (with_default_spec (\<lambda>l. list_spec_matches enum_matches enum_eq l v)) a"
| "list_matches rx (LNumber a) v =
     with_description_spec (with_default_spec (\<lambda>l. list_spec_matches number_matches number_eq l v)) a"
| "list_matches rx (LObject a) v =
     with_description_spec (with_default_spec
       (\<lambda>l. list_spec_matches (\<lambda>s x. object_matches rx s x) object_eq l v)) a"
| "list_matches rx (LString a) v =
     with_description_spec (with_default_spec
       (\<lambda>l. list_spec_matches (string_matches rx) string_eq l v)) a"
| "list_matches rx (LUnion a) v =
     with_description_spec (with_default_spec
       (\<lambda>l. list_spec_matches (\<lambda>w x. with_default_spec (\<lambda>s. union_matches rx s x) w)
          (with_default_spec union_eq) l v)) a"
| "object_matches rx s v =
     (case v of
        JObject ob \<Rightarrow> config_spec_matches rx (obj_spec s) ob
      | JNull \<Rightarrow> mismatch ENotNullable
      | a \<Rightarrow> mismatch (EInvalidType ''object'' (type_of a)))"
| "union_matches rx s v =
     (case v of
        JObject ob \<Rightarrow>
          (case im_get ob (tag_id (uni_tag s)) of
             Some (JString tag) \<Rightarrow>
               (case bt_get (uni_variants s) tag of
                  Some c \<Rightarrow> config_spec_matches rx c (im_remove (tag_id (uni_tag s)) ob)
                | None \<Rightarrow> mismatch (EUnion tag (map fst (uni_variants s))))
           | _ \<Rightarrow> mismatch (EMissingTag (tag_id (uni_tag s))))
      | JNull \<Rightarrow> mismatch ENotNullable
      | a \<Rightarrow> mismatch (EInvalidType ''object'' (type_of a)))"
| "config_spec_matches rx s cfg =
     rfor (\<lambda>e. map_err (prepend (fst e))
        (any_matches rx (snd e) (case im_get cfg (fst e) of Some v \<Rightarrow> v | None \<Rightarrow> JNull)))
       (spec_entries s)"
  by pat_completeness auto
termination
  by (relation "measure (\<lambda>x. case x of
      Inl (Inl (_, s, _)) \<Rightarrow> size s
    | Inl (Inr (_, s, _)) \<Rightarrow> size s
    | Inr (Inl (_, s, _)) \<Rightarrow> size s
    | Inr (Inr (Inl (_, s, _))) \<Rightarrow> size s
    | Inr (Inr (Inr (_, s, _))) \<Rightarrow> size s)")
    (auto simp: termination_simp)

section \<open>Validation\<close>

text \<open>
  \<open>validate\<close>: a spec is consistent with its manifest. A pointer names the package
  itself or a declared dependency, and no variant of a union has a property
  with the name of the tag.
\<close>

fun pointer_validate :: "manifest \<Rightarrow> value_spec_pointer \<Rightarrow> match_res" where
  "pointer_validate m (Package p) =
     (if m_id m \<noteq> pointer_package_id p \<and> bt_get (m_dependencies m) (pointer_package_id p) = None
      then mismatch (EInvalidPointer (Package p)) else Ok ())"

definition boolean_validate :: "manifest \<Rightarrow> value_spec_boolean \<Rightarrow> match_res" where
  [simp]: "boolean_validate m s = Ok ()"

definition enum_validate :: "manifest \<Rightarrow> value_spec_enum \<Rightarrow> match_res" where
  [simp]: "enum_validate m s = Ok ()"

definition number_validate :: "manifest \<Rightarrow> value_spec_number \<Rightarrow> match_res" where
  [simp]: "number_validate m s = Ok ()"

definition string_validate :: "manifest \<Rightarrow> value_spec_string \<Rightarrow> match_res" where
  [simp]: "string_validate m s = Ok ()"

definition list_spec_validate :: "('t \<Rightarrow> match_res) \<Rightarrow> 't list_spec \<Rightarrow> match_res" where
  "list_spec_validate f s = f (ls_spec s)"

lemma list_spec_validate_cong [fundef_cong]:
  "s = s' \<Longrightarrow> f (ls_spec s') = g (ls_spec s') \<Longrightarrow> list_spec_validate f s = list_spec_validate g s'"
  by (simp add: list_spec_validate_def)

lemma variants_size_less [termination_simp]: "e \<in> set (uni_variants s) \<Longrightarrow> size (snd e) < size s"
  by (cases s) (auto dest: snd_size_less)

function any_validate :: "manifest \<Rightarrow> value_spec_any \<Rightarrow> match_res"
  and list_validate :: "manifest \<Rightarrow> value_spec_list \<Rightarrow> match_res"
  and object_validate :: "manifest \<Rightarrow> value_spec_object \<Rightarrow> match_res"
  and union_validate :: "manifest \<Rightarrow> value_spec_union \<Rightarrow> match_res"
  and config_spec_validate :: "manifest \<Rightarrow> config_spec \<Rightarrow> match_res" where
  "any_validate m (SBoolean a) =
     with_description_spec (with_default_spec (boolean_validate m)) a"
| "any_validate m (SEnum a) =
     with_description_spec (with_default_spec (enum_validate m)) a"
| "any_validate m (SList a) = list_validate m a"
| "any_validate m (SNumber a) =
     with_description_spec (with_default_spec (with_nullable_spec (number_validate m))) a"
| "any_validate m (SObject a) = with_description_spec (\<lambda>s. object_validate m s) a"
| "any_validate m (SString a) =
     with_description_spec (with_default_spec (with_nullable_spec (string_validate m))) a"
| "any_validate m (SUnion a) = with_description_spec (with_default_spec (\<lambda>s. union_validate m s)) a"
| "any_validate m (SPointer a) = with_description_spec (pointer_validate m) a"
| "list_validate m (LEnum a) =
     with_description_spec (with_default_spec (list_spec_validate (enum_validate m))) a"
| "list_validate m (LNumber a) =
     with_description_spec (with_default_spec (list_spec_validate (number_validate m))) a"
| "list_validate m (LObject a) =
     with_description_spec (with_default_spec (list_spec_validate (\<lambda>s. object_validate m s))) a"
| "list_validate m (LString a) =
     with_description_spec (with_default_spec (list_spec_validate (string_validate m))) a"
| "list_validate m (LUnion a) =
     with_description_spec (with_default_spec (list_spec_validate
       (with_default_spec (\<lambda>s. union_validate m s)))) a"
| "object_validate m s = config_spec_validate m (obj_spec s)"
| "union_validate m s =
     rfor (\<lambda>e.
       if im_get (spec_entries (snd e)) (tag_id (uni_tag s)) \<noteq> None
       then mismatch (EPropertyMatchesUnionTag (tag_id (uni_tag s)) (fst e))
       else config_spec_validate m (snd e)) (uni_variants s)"
| "config_spec_validate m s =
     rfor (\<lambda>e. map_err (prepend (fst e)) (any_validate m (snd e))) (spec_entries s)"
  by pat_completeness auto
termination
  by (relation "measure (\<lambda>x. case x of
      Inl (Inl (_, s)) \<Rightarrow> size s
    | Inl (Inr (_, s)) \<Rightarrow> size s
    | Inr (Inl (_, s)) \<Rightarrow> size s
    | Inr (Inr (Inl (_, s))) \<Rightarrow> size s
    | Inr (Inr (Inr (_, s))) \<Rightarrow> size s)")
    (auto simp: termination_simp)

section \<open>Live pointers\<close>

type_synonym pointers_res = "(no_match, value_spec_pointer list) res"

definition boolean_pointers :: "value_spec_boolean \<Rightarrow> json \<Rightarrow> pointers_res" where
  [simp]: "boolean_pointers s v = Ok []"

definition enum_pointers :: "value_spec_enum \<Rightarrow> json \<Rightarrow> pointers_res" where
  [simp]: "enum_pointers s v = Ok []"

definition number_pointers :: "value_spec_number \<Rightarrow> json \<Rightarrow> pointers_res" where
  [simp]: "number_pointers s v = Ok []"

definition string_pointers :: "value_spec_string \<Rightarrow> json \<Rightarrow> pointers_res" where
  [simp]: "string_pointers s v = Ok []"

definition pointer_pointers :: "value_spec_pointer \<Rightarrow> json \<Rightarrow> pointers_res" where
  "pointer_pointers p v = Ok (bs_insert p [])"

definition list_spec_pointers :: "'t list_spec \<Rightarrow> json \<Rightarrow> pointers_res" where
  "list_spec_pointers s v = Ok []"

fun list_pointers :: "value_spec_list \<Rightarrow> json \<Rightarrow> pointers_res" where
  "list_pointers (LEnum a) v = with_description_spec (with_default_spec list_spec_pointers) a v"
| "list_pointers (LNumber a) v = with_description_spec (with_default_spec list_spec_pointers) a v"
| "list_pointers (LObject a) v = with_description_spec (with_default_spec list_spec_pointers) a v"
| "list_pointers (LString a) v = with_description_spec (with_default_spec list_spec_pointers) a v"
| "list_pointers (LUnion a) v = with_description_spec (with_default_spec list_spec_pointers) a v"

lemma entry_get_size_less [termination_simp]:
  "im_get (spec_entries s) k = Some vs \<Longrightarrow> size vs < size s"
  using entry_size_less [of "(k, vs)" s] by (auto dest: im_get_SomeD)

function any_pointers :: "value_spec_any \<Rightarrow> json \<Rightarrow> pointers_res"
  and object_pointers :: "value_spec_object \<Rightarrow> json \<Rightarrow> pointers_res"
  and union_pointers :: "value_spec_union \<Rightarrow> json \<Rightarrow> pointers_res"
  and config_spec_pointers :: "config_spec \<Rightarrow> config \<Rightarrow> pointers_res" where
  "any_pointers (SBoolean a) v =
     with_description_spec (with_default_spec boolean_pointers) a v"
| "any_pointers (SEnum a) v =
     with_description_spec (with_default_spec enum_pointers) a v"
| "any_pointers (SList a) v = list_pointers a v"
| "any_pointers (SNumber a) v =
     with_description_spec (with_default_spec (with_nullable_spec number_pointers)) a v"
| "any_pointers (SObject a) v = with_description_spec (\<lambda>s. object_pointers s v) a"
| "any_pointers (SString a) v =
     with_description_spec (with_default_spec (with_nullable_spec string_pointers)) a v"
| "any_pointers (SUnion a) v = with_description_spec (with_default_spec (\<lambda>s. union_pointers s v)) a"
| "any_pointers (SPointer a) v = with_description_spec pointer_pointers a v"
| "object_pointers s v =
     (case v of
        JObject ob \<Rightarrow> config_spec_pointers (obj_spec s) ob
      | a \<Rightarrow> mismatch (EInvalidType ''object'' (type_of a)))"
| "union_pointers s v =
     (case v of
        JObject ob \<Rightarrow>
          (case im_get ob (tag_id (uni_tag s)) of
             None \<Rightarrow> mismatch (EMissingTag (tag_id (uni_tag s)))
           | Some (JString tag) \<Rightarrow>
               (case bt_get (uni_variants s) tag of
                  None \<Rightarrow> mismatch (EUnion tag (map fst (uni_variants s)))
                | Some c \<Rightarrow> config_spec_pointers c ob)
           | Some other \<Rightarrow> Err (prepend (tag_id (uni_tag s))
               (no_match_new (EInvalidType ''string'' (type_of other)))))
      | a \<Rightarrow> mismatch (EInvalidType ''object'' (type_of a)))"
| "config_spec_pointers s cfg =
     rfold (\<lambda>kv acc.
       case im_get (spec_entries s) (fst kv) of
         None \<Rightarrow> Ok acc
       | Some vs \<Rightarrow> rbind (map_err (prepend (fst kv)) (any_pointers vs (snd kv)))
           (\<lambda>s1. Ok (bs_union acc s1))) cfg []"
  by pat_completeness auto
termination
  by (relation "measure (\<lambda>x. case x of
      Inl (Inl (s, _)) \<Rightarrow> size s
    | Inl (Inr (s, _)) \<Rightarrow> size s
    | Inr (Inl (s, _)) \<Rightarrow> size s
    | Inr (Inr (s, _)) \<Rightarrow> size s)")
    (auto simp: termination_simp)

section \<open>Required packages\<close>

fun pointer_requires :: "package_id \<Rightarrow> value_spec_pointer \<Rightarrow> json \<Rightarrow> bool" where
  "pointer_requires pid (Package p) v = (pointer_package_id p = pid)"

definition boolean_requires :: "package_id \<Rightarrow> value_spec_boolean \<Rightarrow> json \<Rightarrow> bool" where
  [simp]: "boolean_requires pid s v = False"

definition enum_requires :: "package_id \<Rightarrow> value_spec_enum \<Rightarrow> json \<Rightarrow> bool" where
  [simp]: "enum_requires pid s v = False"

definition number_requires :: "package_id \<Rightarrow> value_spec_number \<Rightarrow> json \<Rightarrow> bool" where
  [simp]: "number_requires pid s v = False"

definition string_requires :: "package_id \<Rightarrow> value_spec_string \<Rightarrow> json \<Rightarrow> bool" where
  [simp]: "string_requires pid s v = False"

definition list_spec_requires :: "('t \<Rightarrow> json \<Rightarrow> bool) \<Rightarrow> 't list_spec \<Rightarrow> json \<Rightarrow> bool" where
  "list_spec_requires f s v = (case v of JArray l \<Rightarrow> list_ex (f (ls_spec s)) l | _ \<Rightarrow> False)"

lemma list_spec_requires_cong [fundef_cong]:
  "s = s' \<Longrightarrow> v = v' \<Longrightarrow> (\<And>x. f (ls_spec s') x = g (ls_spec s') x) \<Longrightarrow>
     list_spec_requires f s v = list_spec_requires g s' v'"
  by (auto simp: list_spec_requires_def list_ex_iff split: json.splits)

function any_requires :: "package_id \<Rightarrow> value_spec_any \<Rightarrow> json \<Rightarrow> bool"
  and list_requires :: "package_id \<Rightarrow> value_spec_list \<Rightarrow> json \<Rightarrow> bool"
  and object_requires :: "package_id \<Rightarrow> value_spec_object \<Rightarrow> json \<Rightarrow> bool"
  and union_requires :: "package_id \<Rightarrow> value_spec_union \<Rightarrow> json \<Rightarrow> bool"
  and config_spec_requires :: "package_id \<Rightarrow> config_spec \<Rightarrow> config \<Rightarrow> bool" where
  "any_requires pid (SBoolean a) v =
     with_description_spec (with_default_spec (boolean_requires pid)) a v"
| "any_requires pid (SEnum a) v =
     with_description_spec (with_default_spec (enum_requires pid)) a v"
| "any_requires pid (SList a) v = list_requires pid a v"
| "any_requires pid (SNumber a) v =
     with_description_spec (with_default_spec (with_nullable_spec (number_requires pid))) a v"
| "any_requires pid (SObject a) v = with_description_spec (\<lambda>s. object_requires pid s v) a"
| "any_requires pid (SString a) v =
     with_description_spec (with_default_spec (with_nullable_spec (string_requires pid))) a v"
| "any_requires pid (SUnion a) v =
     with_description_spec (with_default_spec (\<lambda>s. union_requires pid s v)) a"
| "any_requires pid (SPointer a) v = with_description_spec (pointer_requires pid) a v"
| "list_requires pid (LEnum a) v =
     with_description_spec (with_default_spec (list_spec_requires (enum_requires pid))) a v"
| "list_requires pid (LNumber a) v =
     with_description_spec (with_default_spec (list_spec_requires (number_requires pid))) a v"
| "list_requires pid (LObject a) v =
     with_description_spec (with_default_spec
       (\<lambda>l. list_spec_requires (\<lambda>s x. object_requires pid s x) l v)) a"
| "list_requires pid (LString a) v =
     with_description_spec (with_default_spec (list_spec_requires (string_requires pid))) a v"
| "list_requires pid (LUnion a) v =
     with_description_spec (with_default_spec
       (\<lambda>l. list_spec_requires (\<lambda>w x. with_default_spec (\<lambda>s. union_requires pid s x) w) l v)) a"
| "object_requires pid s v =
     (case v of JObject ob \<Rightarrow> config_spec_requires pid (obj_spec s) ob | _ \<Rightarrow> False)"
| "union_requires pid s v =
     (case v of
        JObject ob \<Rightarrow>
          (case im_get ob (tag_id (uni_tag s)) of
             Some (JString tag) \<Rightarrow>
               (case bt_get (uni_variants s) tag of
                  None \<Rightarrow> False
                | Some c \<Rightarrow> config_spec_requires pid c ob)
           | _ \<Rightarrow> False)
      | _ \<Rightarrow> False)"
| "config_spec_requires pid s cfg =
     list_ex (\<lambda>e. any_requires pid (snd e)
       (case im_get cfg (fst e) of Some v \<Rightarrow> v | None \<Rightarrow> JNull)) (spec_entries s)"
  by pat_completeness auto
termination
  by (relation "measure (\<lambda>x. case x of
      Inl (Inl (_, s, _)) \<Rightarrow> size s
    | Inl (Inr (_, s, _)) \<Rightarrow> size s
    | Inr (Inl (_, s, _)) \<Rightarrow> size s
    | Inr (Inr (Inl (_, s, _))) \<Rightarrow> size s
    | Inr (Inr (Inr (_, s, _))) \<Rightarrow> size s)")
    (auto simp: termination_simp)

declare config_spec_matches.simps [simp del] config_spec_validate.simps [simp del]
  config_spec_pointers.simps [simp del] config_spec_requires.simps [simp del]

end
