(* ===== verification/Db_Model.thy ===== *)
theory Db_Model
  imports Status State_Res Config_Spec
begin

text \<open>
  The package data of the database (\<^verbatim>\<open>db/model.rs\<close>), read and written through
  receipts. A receipt stands for a path of the form
  \<^verbatim>\<open>/package-data/*/installed/...\<close>: the wildcard is filled in on access, a read
  finds nothing when the package is absent or not installed, and a write
  replaces what is at the path.
\<close>

section \<open>Package data\<close>

text \<open>\<open>SystemPointerSpec\<close> has no variants, so the list of system pointers is always empty.\<close>

datatype system_pointer_spec = NoSystemPointer

record current_dependency_info =
  cdi_pointers :: "package_pointer_spec list"
  cdi_health_checks :: "health_check_id list"

definition current_dependency_info_default :: current_dependency_info where
  "current_dependency_info_default = \<lparr>cdi_pointers = [], cdi_health_checks = []\<rparr>"

type_synonym current_dependencies = "(package_id, current_dependency_info) btmap"
type_synonym current_dependents = "(package_id, current_dependency_info) btmap"

record interface_addresses =
  tor_address :: "string option"
  lan_address :: "string option"

record installed_package_data_entry =
  ip_status :: status
  ip_manifest :: manifest
  ip_system_pointers :: "system_pointer_spec list"
  ip_current_dependents :: current_dependents
  ip_current_dependencies :: current_dependencies
  ip_interface_addresses :: "(interface_id, interface_addresses) btmap"

datatype package_data_entry =
    Installing manifest
  | Updating manifest installed_package_data_entry
  | Restoring manifest
  | Removing manifest installed_package_data_entry
  | Installed manifest installed_package_data_entry

type_synonym db = "(package_id, package_data_entry) btmap"

fun pde_installed :: "package_data_entry \<Rightarrow> installed_package_data_entry option" where
  "pde_installed (Installing _) = None"
| "pde_installed (Restoring _) = None"
| "pde_installed (Removing _ _) = None"
| "pde_installed (Updating _ i) = Some i"
| "pde_installed (Installed _ i) = Some i"

fun pde_removing :: "package_data_entry \<Rightarrow> installed_package_data_entry option" where
  "pde_removing (Removing _ i) = Some i"
| "pde_removing _ = None"

fun pde_manifest :: "package_data_entry \<Rightarrow> manifest" where
  "pde_manifest (Installing m) = m"
| "pde_manifest (Updating m _) = m"
| "pde_manifest (Restoring m) = m"
| "pde_manifest (Removing m _) = m"
| "pde_manifest (Installed m _) = m"

text \<open>The variant of an entry with its manifest, without the installed data.\<close>

datatype stage =
    IsInstalling manifest
  | IsUpdating manifest
  | IsRestoring manifest
  | IsRemoving manifest
  | IsInstalled manifest

fun pde_stage :: "package_data_entry \<Rightarrow> stage" where
  "pde_stage (Installing m) = IsInstalling m"
| "pde_stage (Updating m _) = IsUpdating m"
| "pde_stage (Restoring m) = IsRestoring m"
| "pde_stage (Removing m _) = IsRemoving m"
| "pde_stage (Installed m _) = IsInstalled m"

text \<open>\<open>installed_mut\<close>: change the installed data in place.\<close>

fun pde_map_installed ::
  "(installed_package_data_entry \<Rightarrow> installed_package_data_entry) \<Rightarrow> package_data_entry \<Rightarrow> package_data_entry" where
  "pde_map_installed f (Updating m i) = Updating m (f i)"
| "pde_map_installed f (Installed m i) = Installed m (f i)"
| "pde_map_installed f e = e"

lemma pde_installed_map [simp]: "pde_installed (pde_map_installed f e) = map_option f (pde_installed e)"
  by (cases e) simp_all

section \<open>Receipts\<close>

definition installed_get :: "db \<Rightarrow> package_id \<Rightarrow> installed_package_data_entry option" where
  "installed_get db pid = Option.bind (bt_get db pid) pde_installed"

definition installed_map ::
  "(installed_package_data_entry \<Rightarrow> installed_package_data_entry) \<Rightarrow> package_id \<Rightarrow> db \<Rightarrow> db" where
  "installed_map f pid db = map (\<lambda>(k, e). (k, if k = pid then pde_map_installed f e else e)) db"

lemma bt_get_installed_map:
  "bt_get (installed_map f pid db) k = (if k = pid then map_option (pde_map_installed f) (bt_get db k) else bt_get db k)"
  by (induction db) (auto simp: installed_map_def)

lemma installed_get_map [simp]:
  "installed_get (installed_map f pid db) k =
     (if k = pid then map_option f (installed_get db k) else installed_get db k)"
  by (cases "bt_get db k") (auto simp: installed_get_def bt_get_installed_map)

text \<open>The data of a package that is being removed; no receipt for installed packages sees them.\<close>

definition removing_get :: "db \<Rightarrow> package_id \<Rightarrow> installed_package_data_entry option" where
  "removing_get db pid = Option.bind (bt_get db pid) pde_removing"

lemma pde_removing_map [simp]: "pde_removing (pde_map_installed f e) = pde_removing e"
  by (cases e) simp_all

lemma removing_get_map [simp]: "removing_get (installed_map f pid db) = removing_get db"
  by (rule ext) (auto simp: removing_get_def bt_get_installed_map map_option_case split: option.splits)

definition stage_get :: "db \<Rightarrow> package_id \<Rightarrow> stage option" where
  "stage_get db pid = map_option pde_stage (bt_get db pid)"

lemma stage_get_map [simp]: "stage_get (installed_map f pid db) = stage_get db"
proof -
  have "pde_stage (pde_map_installed f e) = pde_stage e" for e by (cases e) simp_all
  then show ?thesis
    by (intro ext) (auto simp: stage_get_def bt_get_installed_map map_option_case split: option.splits)
qed

lemma bt_keys_installed_map [simp]: "bt_keys (installed_map f pid db) = bt_keys db"
  by (induction db) (auto simp: installed_map_def bt_keys_def)

lemma bt_ok_installed_map [simp]: "bt_ok (installed_map f pid db) \<longleftrightarrow> bt_ok db"
  using bt_keys_installed_map [of f pid db] by (simp add: bt_keys_def)

text \<open>
  The contract of a receipt for one field of the installed packages: a package
  has the field exactly when it is installed, a write is seen by the next read
  of the same package and by no read of another one, and it changes neither
  which packages are installed nor any other field.
\<close>

locale receipt =
  fixes fetch :: "db \<Rightarrow> package_id \<Rightarrow> 'v option"
    and store :: "'v \<Rightarrow> package_id \<Rightarrow> db \<Rightarrow> db"
  assumes fetch_None: "fetch db k = None \<longleftrightarrow> installed_get db k = None"
    and fetch_store: "fetch (store v pid db) k = (if k = pid \<and> fetch db pid \<noteq> None then Some v else fetch db k)"
    and installed_store: "installed_get (store v pid db) k = None \<longleftrightarrow> installed_get db k = None"
    and keys_store: "bt_keys (store v pid db) = bt_keys db"
begin

text \<open>A loop that rewrites the field of the packages it visits, and of no others.\<close>

definition rewrite_all :: "(package_id \<Rightarrow> 'v \<Rightarrow> 'v) \<Rightarrow> package_id list \<Rightarrow> db \<Rightarrow> db" where
  "rewrite_all g ks db = fold (\<lambda>k db. case fetch db k of Some v \<Rightarrow> store (g k v) k db | None \<Rightarrow> db) ks db"

lemma fetch_rewrite_all:
  "distinct ks \<Longrightarrow>
   fetch (rewrite_all g ks db) k = (if k \<in> set ks then map_option (g k) (fetch db k) else fetch db k)"
  unfolding rewrite_all_def
proof (induction ks arbitrary: db)
  case (Cons k' ks)
  then show ?case by (cases "fetch db k'") (auto simp: fetch_store)
qed simp

lemma installed_rewrite_all: "installed_get (rewrite_all g ks db) k = None \<longleftrightarrow> installed_get db k = None"
  unfolding rewrite_all_def by (induction ks arbitrary: db) (auto simp: installed_store split: option.splits)

end

definition status_get :: "db \<Rightarrow> package_id \<Rightarrow> status option" where
  "status_get db pid = map_option ip_status (installed_get db pid)"

definition status_set :: "status \<Rightarrow> package_id \<Rightarrow> db \<Rightarrow> db" where
  "status_set v pid db = installed_map (\<lambda>i. i\<lparr>ip_status := v\<rparr>) pid db"

definition errors_get :: "db \<Rightarrow> package_id \<Rightarrow> dependency_errors option" where
  "errors_get db pid = map_option (\<lambda>i. dependency_errors (ip_status i)) (installed_get db pid)"

definition errors_set :: "dependency_errors \<Rightarrow> package_id \<Rightarrow> db \<Rightarrow> db" where
  "errors_set v pid db =
     installed_map (\<lambda>i. i\<lparr>ip_status := (ip_status i)\<lparr>dependency_errors := v\<rparr>\<rparr>) pid db"

definition configured_set :: "bool \<Rightarrow> package_id \<Rightarrow> db \<Rightarrow> db" where
  "configured_set v pid db =
     installed_map (\<lambda>i. i\<lparr>ip_status := (ip_status i)\<lparr>configured := v\<rparr>\<rparr>) pid db"

definition manifest_get :: "db \<Rightarrow> package_id \<Rightarrow> manifest option" where
  "manifest_get db pid = map_option ip_manifest (installed_get db pid)"

definition dependents_get :: "db \<Rightarrow> package_id \<Rightarrow> current_dependents option" where
  "dependents_get db pid = map_option ip_current_dependents (installed_get db pid)"

definition dependents_set :: "current_dependents \<Rightarrow> package_id \<Rightarrow> db \<Rightarrow> db" where
  "dependents_set v pid db = installed_map (\<lambda>i. i\<lparr>ip_current_dependents := v\<rparr>) pid db"

definition dependencies_get :: "db \<Rightarrow> package_id \<Rightarrow> current_dependencies option" where
  "dependencies_get db pid = map_option ip_current_dependencies (installed_get db pid)"

definition dependencies_set :: "current_dependencies \<Rightarrow> package_id \<Rightarrow> db \<Rightarrow> db" where
  "dependencies_set v pid db = installed_map (\<lambda>i. i\<lparr>ip_current_dependencies := v\<rparr>) pid db"

definition system_pointers_get :: "db \<Rightarrow> package_id \<Rightarrow> system_pointer_spec list option" where
  "system_pointers_get db pid = map_option ip_system_pointers (installed_get db pid)"

definition system_pointers_set :: "system_pointer_spec list \<Rightarrow> package_id \<Rightarrow> db \<Rightarrow> db" where
  "system_pointers_set v pid db = installed_map (\<lambda>i. i\<lparr>ip_system_pointers := v\<rparr>) pid db"

lemmas receipt_defs = status_get_def status_set_def errors_get_def errors_set_def configured_set_def
  manifest_get_def dependents_get_def dependents_set_def dependencies_get_def dependencies_set_def
  system_pointers_get_def system_pointers_set_def

text \<open>\<open>status().main()\<close>.\<close>

definition main_set :: "main_status \<Rightarrow> package_id \<Rightarrow> db \<Rightarrow> db" where
  "main_set v pid db = installed_map (\<lambda>i. i\<lparr>ip_status := (ip_status i)\<lparr>main := v\<rparr>\<rparr>) pid db"

lemma removing_get_store [simp]:
  "removing_get (status_set v pid db) = removing_get db"
  "removing_get (errors_set es pid db) = removing_get db"
  "removing_get (configured_set b pid db) = removing_get db"
  "removing_get (dependents_set ds pid db) = removing_get db"
  "removing_get (dependencies_set ds pid db) = removing_get db"
  "removing_get (system_pointers_set ps pid db) = removing_get db"
  "removing_get (main_set m pid db) = removing_get db"
  by (simp_all add: receipt_defs main_set_def)

lemma stage_get_store [simp]:
  "stage_get (status_set v pid db) = stage_get db"
  "stage_get (errors_set es pid db) = stage_get db"
  "stage_get (configured_set b pid db) = stage_get db"
  "stage_get (dependents_set ds pid db) = stage_get db"
  "stage_get (dependencies_set ds pid db) = stage_get db"
  "stage_get (system_pointers_set ps pid db) = stage_get db"
  "stage_get (main_set m pid db) = stage_get db"
  by (simp_all add: receipt_defs main_set_def)

interpretation status: receipt status_get status_set
  by unfold_locales (auto simp: receipt_defs)

interpretation errors: receipt errors_get errors_set
  by unfold_locales (auto simp: receipt_defs)

interpretation dependents: receipt dependents_get dependents_set
  by unfold_locales (auto simp: receipt_defs)

interpretation dependencies: receipt dependencies_get dependencies_set
  by unfold_locales (auto simp: receipt_defs)

interpretation system_pointers: receipt system_pointers_get system_pointers_set
  by unfold_locales (auto simp: receipt_defs)

text \<open>A write through one receipt is not seen through the receipts of the other fields.\<close>

lemma receipt_frames [simp]:
  "manifest_get (errors_set v pid db) k = manifest_get db k"
  "manifest_get (status_set st pid db) k = manifest_get db k"
  "manifest_get (dependents_set ds pid db) k = manifest_get db k"
  "dependents_get (errors_set v pid db) k = dependents_get db k"
  "dependents_get (status_set st pid db) k = dependents_get db k"
  "dependents_get (dependencies_set ds pid db) k = dependents_get db k"
  "dependencies_get (errors_set v pid db) k = dependencies_get db k"
  "dependencies_get (status_set st pid db) k = dependencies_get db k"
  "dependencies_get (dependents_set ds pid db) k = dependencies_get db k"
  "errors_get (dependents_set ds pid db) k = errors_get db k"
  "errors_get (dependencies_set ds pid db) k = errors_get db k"
  by (auto simp: receipt_defs option.map_comp o_def map_option_case split: option.splits)

lemma errors_status: "errors_get db k = map_option dependency_errors (status_get db k)"
  by (simp add: receipt_defs option.map_comp o_def)

end
