(* ===== verification/Config_Spec_Laws.thy ===== *)
theory Config_Spec_Laws
  imports Config_Spec
begin

text \<open>
  What \<open>matches\<close>, \<open>validate\<close>, \<open>pointers\<close> and \<open>requires\<close> promise each other: the
  exact meaning of a list spec, the legality of the pointers of a validated
  spec, the agreement of \<open>pointers\<close> with \<open>requires\<close>, and that a matching
  configuration never makes \<open>pointers\<close> fail.
\<close>

lemmas spec_induct_pointers =
  any_pointers_object_pointers_union_pointers_config_spec_pointers.induct

lemmas list_pointers_defs = list_spec_pointers_def wrapper_defs

lemma list_pointers_empty [simp]: "list_pointers l v = Ok []"
  by (cases l) (simp_all add: list_pointers_defs)

section \<open>Lists\<close>

lemma ball_enumerate: "(\<forall>x \<in> set (List.enumerate 0 l). P x) \<longleftrightarrow> (\<forall>i < length l. P (i, l ! i))"
  by (force simp: in_set_enumerate_eq)

lemma bex_enumerate: "(\<exists>x \<in> set (List.enumerate 0 l). P x) \<longleftrightarrow> (\<exists>i < length l. P (i, l ! i))"
  by (force simp: in_set_enumerate_eq)

lemma list_spec_matches_Ok:
  "list_spec_matches f eq s (JArray l) = Ok () \<longleftrightarrow>
     range_contains (\<le>) (<) (ls_range s) (length l) \<and>
     (\<forall>x \<in> set l. f (ls_spec s) x = Ok ()) \<and>
     (\<forall>i < length l. \<forall>j < length l. i \<noteq> j \<longrightarrow> \<not> eq (ls_spec s) (l ! i) (l ! j))"
  by (auto simp: list_spec_matches_def res_simps list_ex_iff ball_enumerate bex_enumerate
      all_set_conv_all_nth nth_enumerate_eq split: if_splits)

lemma list_spec_matches_array: "list_spec_matches f eq s v = Ok () \<Longrightarrow> \<exists>l. v = JArray l"
  by (auto simp: list_spec_matches_def split: json.splits)

section \<open>Configurations\<close>

definition cfg_value :: "config \<Rightarrow> string \<Rightarrow> json" where
  "cfg_value cfg k = (case im_get cfg k of Some v \<Rightarrow> v | None \<Rightarrow> JNull)"

lemma config_spec_matches_Ok:
  "config_spec_matches rx s cfg = Ok () \<longleftrightarrow>
     (\<forall>(k, vs) \<in> set (spec_entries s). any_matches rx vs (cfg_value cfg k) = Ok ())"
  by (auto simp: config_spec_matches.simps cfg_value_def)

text \<open>Only the values under the keys of the spec matter.\<close>

lemma config_spec_matches_cong:
  "(\<And>k. k \<in> fst ` set (spec_entries s) \<Longrightarrow> im_get c k = im_get c' k) \<Longrightarrow>
     config_spec_matches rx s c = config_spec_matches rx s c'"
proof -
  assume eq: "\<And>k. k \<in> fst ` set (spec_entries s) \<Longrightarrow> im_get c k = im_get c' k"
  show ?thesis
    unfolding config_spec_matches.simps by (rule rfor_cong) (simp_all add: eq)
qed

section \<open>Pointers\<close>

text \<open>The state of the fold over the configuration: every pointer comes from some entry.\<close>

lemma config_spec_pointers_mem:
  assumes "config_spec_pointers s cfg = Ok ps"
  shows "p \<in> set ps \<longleftrightarrow> (\<exists>kv \<in> set cfg. \<exists>vs qs. im_get (spec_entries s) (fst kv) = Some vs \<and>
    any_pointers vs (snd kv) = Ok qs \<and> p \<in> set qs)"
proof -
  define step where "step = (\<lambda>kv acc. case im_get (spec_entries s) (fst kv) of
      None \<Rightarrow> Ok acc
    | Some vs \<Rightarrow> rbind (map_err (prepend (fst kv)) (any_pointers vs (snd kv)))
        (\<lambda>s1. Ok (bs_union acc s1)))"
  define hit where "hit kv \<longleftrightarrow> (\<exists>vs qs. im_get (spec_entries s) (fst kv) = Some vs \<and>
    any_pointers vs (snd kv) = Ok qs \<and> p \<in> set qs)" for kv
  have one: "p \<in> set acc' \<longleftrightarrow> p \<in> set acc \<or> hit kv" if "step kv acc = Ok acc'" for kv acc acc'
    using that by (auto simp: step_def hit_def res_simps split: option.splits)
  have "rfold step xs acc = Ok qs \<Longrightarrow> p \<in> set qs \<longleftrightarrow> p \<in> set acc \<or> (\<exists>kv \<in> set xs. hit kv)" for xs acc qs
    by (induction xs arbitrary: acc) (fastforce simp: res_simps dest: one)+
  from this [of cfg "[]" ps] assms show ?thesis
    by (simp add: config_spec_pointers.simps step_def hit_def)
qed

lemma config_spec_pointers_Ok:
  "is_ok (config_spec_pointers s cfg) \<longleftrightarrow>
     (\<forall>kv \<in> set cfg. \<forall>vs. im_get (spec_entries s) (fst kv) = Some vs \<longrightarrow> is_ok (any_pointers vs (snd kv)))"
  unfolding config_spec_pointers.simps
  by (rule rfold_is_ok) (auto simp: is_ok_iff res_simps split: option.splits)

text \<open>A pointer the manifest allows.\<close>

definition legal_pointer :: "manifest \<Rightarrow> value_spec_pointer \<Rightarrow> bool" where
  "legal_pointer m p \<longleftrightarrow> pointer_validate m p = Ok ()"

lemma union_validate_variant:
  assumes "union_validate m u = Ok ()" and "bt_get (uni_variants u) t = Some c"
  shows "config_spec_validate m c = Ok ()" and "im_get (spec_entries c) (tag_id (uni_tag u)) = None"
  using bt_get_SomeD [OF assms(2)] assms(1) by (force split: if_splits)+

lemma validate_pointers_legal:
  "any_validate m vs = Ok () \<Longrightarrow> any_pointers vs v = Ok ps \<Longrightarrow> p \<in> set ps \<Longrightarrow> legal_pointer m p"
  "object_validate m ob = Ok () \<Longrightarrow> object_pointers ob v = Ok ps \<Longrightarrow> p \<in> set ps \<Longrightarrow> legal_pointer m p"
  "union_validate m u = Ok () \<Longrightarrow> union_pointers u v = Ok ps \<Longrightarrow> p \<in> set ps \<Longrightarrow> legal_pointer m p"
  "config_spec_validate m s = Ok () \<Longrightarrow> config_spec_pointers s cfg = Ok ps \<Longrightarrow> p \<in> set ps \<Longrightarrow>
     legal_pointer m p"
proof (induction vs v and ob v and u v and s cfg arbitrary: ps and ps and ps and ps
    rule: spec_induct_pointers)
  case (11 s cfg)
  then obtain kv vs qs where kv: "kv \<in> set cfg" and vs: "im_get (spec_entries s) (fst kv) = Some vs"
    and qs: "any_pointers vs (snd kv) = Ok qs" "p \<in> set qs"
    by (auto simp: config_spec_pointers_mem)
  have "any_validate m vs = Ok ()"
    using "11.prems"(1) im_get_SomeD [OF vs] by (force simp: config_spec_validate.simps)
  then show ?case using "11.IH" kv vs qs by blast
qed (auto simp: wrapper_defs pointer_pointers_def legal_pointer_def simp del: union_validate.simps
    split: json.splits option.splits dest: union_validate_variant(1))

text \<open>A spec that accepts a missing value never makes \<open>pointers\<close> fail, whatever the value is.\<close>

lemma list_matches_array: "list_matches rx l v = Ok () \<Longrightarrow> \<exists>xs. v = JArray xs"
  by (cases l) (auto simp: wrapper_defs dest!: list_spec_matches_array)

lemma nullable_pointers_ok: "any_matches rx vs JNull = Ok () \<Longrightarrow> is_ok (any_pointers vs v)"
  by (cases vs) (auto simp: wrapper_defs pointer_pointers_def)

lemma matches_pointers_ok:
  "any_matches rx vs v = Ok () \<Longrightarrow> value_ok v \<Longrightarrow> is_ok (any_pointers vs v)"
  "object_matches rx ob v = Ok () \<Longrightarrow> value_ok v \<Longrightarrow> is_ok (object_pointers ob v)"
  "union_matches rx u v = Ok () \<Longrightarrow> value_ok v \<Longrightarrow> is_ok (union_pointers u v)"
  "(\<And>k vs. im_get (spec_entries s) k = Some vs \<Longrightarrow>
      any_matches rx vs (cfg_value cfg k) = Ok () \<or> any_matches rx vs JNull = Ok ()) \<Longrightarrow>
    value_ok (JObject cfg) \<Longrightarrow> is_ok (config_spec_pointers s cfg)"
proof (induction vs v and ob v and u v and s cfg rule: spec_induct_pointers)
  case (9 s v)
  then show ?case
    by (force simp: config_spec_matches_Ok dest: im_get_SomeD split: json.splits)
next
  case (10 s v)
  then obtain ob tag c where v: "v = JObject ob"
    and tag: "im_get ob (tag_id (uni_tag s)) = Some (JString tag)"
    and c: "bt_get (uni_variants s) tag = Some c"
    and m: "config_spec_matches rx c (im_remove (tag_id (uni_tag s)) ob) = Ok ()"
    by (auto split: json.splits option.splits)
  have "im_ok ob" using "10.prems" v by simp
  then have "cfg_value (im_remove (tag_id (uni_tag s)) ob) k =
      (if k = tag_id (uni_tag s) then JNull else cfg_value ob k)" for k
    by (simp add: cfg_value_def im.lookup_del)
  with m have "any_matches rx vs (cfg_value ob k) = Ok () \<or> any_matches rx vs JNull = Ok ()"
    if "im_get (spec_entries c) k = Some vs" for k vs
    using im_get_SomeD [OF that] by (force simp: config_spec_matches_Ok split: if_splits)
  then have "is_ok (config_spec_pointers c ob)"
    using "10.IH" [OF v tag refl c] "10.prems" v by blast
  with v tag c show ?case by simp
next
  case (11 s cfg)
  have "is_ok (any_pointers vs (snd kv))" if kv: "kv \<in> set cfg"
    and vs: "im_get (spec_entries s) (fst kv) = Some vs" for kv vs
  proof -
    have "im_get cfg (fst kv) = Some (snd kv)" "value_ok (snd kv)"
      using "11.prems"(2) kv im_get_mem [of cfg "fst kv" "snd kv"] by (auto simp: list_all_iff)
    then show ?thesis
      using "11.prems"(1) [OF vs] "11.IH" [OF kv vs] nullable_pointers_ok by (auto simp: cfg_value_def)
  qed
  then show ?case by (simp add: config_spec_pointers_Ok)
qed (auto simp: wrapper_defs pointer_pointers_def)

text \<open>Every live pointer is a requirement.\<close>

lemma pointers_requires:
  "any_pointers vs v = Ok ps \<Longrightarrow> value_ok v \<Longrightarrow> Package p \<in> set ps \<Longrightarrow>
     any_requires (pointer_package_id p) vs v"
  "object_pointers ob v = Ok ps \<Longrightarrow> value_ok v \<Longrightarrow> Package p \<in> set ps \<Longrightarrow>
     object_requires (pointer_package_id p) ob v"
  "union_pointers u v = Ok ps \<Longrightarrow> value_ok v \<Longrightarrow> Package p \<in> set ps \<Longrightarrow>
     union_requires (pointer_package_id p) u v"
  "config_spec_pointers s cfg = Ok ps \<Longrightarrow> value_ok (JObject cfg) \<Longrightarrow> Package p \<in> set ps \<Longrightarrow>
     config_spec_requires (pointer_package_id p) s cfg"
proof (induction vs v and ob v and u v and s cfg arbitrary: ps and ps and ps and ps
    rule: spec_induct_pointers)
  case (8 a v)
  then show ?case by (cases "wds_inner a") (auto simp: wrapper_defs pointer_pointers_def)
next
  case (11 s cfg)
  then obtain kv vs qs where kv: "kv \<in> set cfg" and vs: "im_get (spec_entries s) (fst kv) = Some vs"
    and qs: "any_pointers vs (snd kv) = Ok qs" "Package p \<in> set qs"
    by (auto simp: config_spec_pointers_mem)
  have "im_get cfg (fst kv) = Some (snd kv)" "value_ok (snd kv)"
    using "11.prems"(2) kv im_get_mem [of cfg "fst kv" "snd kv"] by (auto simp: list_all_iff)
  moreover have "any_requires (pointer_package_id p) vs (snd kv)"
    using "11.IH" [OF kv vs qs(1) _ qs(2)] calculation by blast
  ultimately show ?case
    using im_get_SomeD [OF vs] by (force simp: config_spec_requires.simps list_ex_iff)
qed (auto simp: wrapper_defs pointer_pointers_def split: json.splits option.splits)

section \<open>Checks return\<close>

text \<open>Checking a configuration against a spec and collecting its pointers never panics.\<close>

lemma leaf_matches_returns [simp]:
  "returns (boolean_matches s1 v)" "returns (enum_matches s2 v)" "returns (number_matches s3 v)"
  "returns (string_matches rx s4 v)" "returns (pointer_matches s5 v)"
  by (auto simp: boolean_matches_def enum_matches_def number_matches_def string_matches_def pointer_matches_def Let_def
      split: json.splits option.splits number.splits)

lemma list_spec_matches_returns:
  "(\<And>x. returns (f (ls_spec s) x)) \<Longrightarrow> returns (list_spec_matches f eq s v)"
  by (auto simp: list_spec_matches_def intro!: returns_rfor split: json.splits)

lemma matches_returns:
  "returns (any_matches rx vs v)"
  "returns (list_matches rx l v)"
  "returns (object_matches rx ob v)"
  "returns (union_matches rx u v)"
  "returns (config_spec_matches rx s cfg)"
proof (induction rx vs v and rx l v and rx ob v and rx u v and rx s cfg
    rule: any_matches_list_matches_object_matches_union_matches_config_spec_matches.induct)
  case (14 rx s v)
  then show ?case by (auto split: json.splits)
next
  case (15 rx s v)
  then show ?case by (auto split: json.splits option.splits)
next
  case (16 rx s cfg)
  then show ?case unfolding config_spec_matches.simps by (intro returns_rfor) auto
qed (auto simp: wrapper_defs with_nullable_matches_def simp del: object_matches.simps union_matches.simps intro!: list_spec_matches_returns split: json.splits option.splits)

lemma validate_returns:
  "returns (any_validate m vs)"
  "returns (list_validate m l)"
  "returns (object_validate m ob)"
  "returns (union_validate m u)"
  "returns (config_spec_validate m s)"
proof (induction m vs and m l and m ob and m u and m s
    rule: any_validate_list_validate_object_validate_union_validate_config_spec_validate.induct)
  case (8 m a)
  then show ?case by (cases "wds_inner a") (simp add: wrapper_defs)
next
  case (15 m s)
  then show ?case unfolding union_validate.simps by (intro returns_rfor) auto
next
  case (16 m s)
  then show ?case unfolding config_spec_validate.simps by (intro returns_rfor) auto
qed (auto simp: wrapper_defs list_spec_validate_def simp del: union_validate.simps)

lemma pointers_returns:
  "returns (any_pointers vs v)"
  "returns (object_pointers ob v)"
  "returns (union_pointers u v)"
  "returns (config_spec_pointers s cfg)"
proof (induction vs v and ob v and u v and s cfg rule: spec_induct_pointers)
  case (9 s v)
  then show ?case by (auto split: json.splits)
next
  case (10 s v)
  then show ?case by (auto split: json.splits option.splits)
next
  case (11 s cfg)
  then show ?case unfolding config_spec_pointers.simps
    by (intro rfold_returns [where P = "\<lambda>_. True"]) (auto split: option.splits)
qed (auto simp: wrapper_defs pointer_pointers_def simp del: object_pointers.simps union_pointers.simps)

section \<open>Properties\<close>

text \<open>
  Sample specs used to apply the properties: a pointer to another package's
  Tor address, a number with a range, and a list of objects that hold a pointer.
\<close>

definition sample_pointer :: value_spec_any where
  "sample_pointer = SPointer (WithDescription (Package (TorAddress ''bitcoind'' ''main'')) None ''Node'' None)"

definition sample_number :: value_spec_any where
  "sample_number = SNumber (WithDescription (WithDefault (WithNullable
     (ValueSpecNumber (Some (Included (Finite 1), Excluded (Finite 100))) True None None) False)
     (Some (NInt 8))) None ''Peers'' None)"

definition sample_spec :: config_spec where
  "sample_spec = ConfigSpec [(''node'', sample_pointer), (''peers'', sample_number)]"

definition sample_list_spec :: config_spec where
  "sample_list_spec = ConfigSpec [(''nodes'', SList (LObject (WithDescription (WithDefault
     (ListSpec (ValueSpecObject (ConfigSpec [(''node'', sample_pointer)]) None NotUnique) (Included 0, Unbounded))
     []) None ''Nodes'' None)))]"

definition sample_manifest :: manifest where
  "sample_manifest = \<lparr>m_id = ''lnd'', m_version = ''0.15.0'', m_config = None, m_volumes = [],
     m_dependencies = [(''bitcoind'', \<lparr>di_version = ''>=0.21'', di_requirement = Required,
       di_description = None, di_config = None\<rparr>)], m_containers = None, m_interfaces = [], m_migrations = no_migrations,
     m_health_checks = [], m_backup = no_backup\<rparr>"

lemmas sample_defs = sample_spec_def sample_pointer_def sample_number_def sample_list_spec_def
  sample_manifest_def

lemmas spec_eval = wrapper_defs with_nullable_matches_def number_matches_def pointer_matches_def
  range_contains_def f64_lt_def f64_of_int_def round_f64_exact config_spec_matches.simps
  config_spec_validate.simps config_spec_pointers.simps config_spec_requires.simps
  pointer_pointers_def bs_insert_def bs_union_def list_spec_pointers_def list_spec_matches_def
  list_spec_requires_def list_spec_validate_def

text \<open>
  A list spec accepts a value exactly when it is an array whose length lies in
  the range, whose members all match the member spec, and in which no two
  members at different positions are equal for the purpose of uniqueness.
\<close>

theorem list_spec_matches_exact:
  "list_spec_matches f eq s v = Ok () \<longleftrightarrow>
     (\<exists>l. v = JArray l \<and> range_contains (\<le>) (<) (ls_range s) (length l) \<and>
       (\<forall>x \<in> set l. f (ls_spec s) x = Ok ()) \<and>
       (\<forall>i < length l. \<forall>j < length l. i \<noteq> j \<longrightarrow> \<not> eq (ls_spec s) (l ! i) (l ! j)))"
proof
  assume m: "list_spec_matches f eq s v = Ok ()"
  then obtain l where "v = JArray l" by (blast dest: list_spec_matches_array)
  with m show "\<exists>l. v = JArray l \<and> range_contains (\<le>) (<) (ls_range s) (length l) \<and>
       (\<forall>x \<in> set l. f (ls_spec s) x = Ok ()) \<and>
       (\<forall>i < length l. \<forall>j < length l. i \<noteq> j \<longrightarrow> \<not> eq (ls_spec s) (l ! i) (l ! j))"
    by (auto simp: list_spec_matches_Ok)
qed (auto simp: list_spec_matches_Ok)

theorem list_spec_matches_exact_witness:
  "list_spec_matches enum_matches enum_eq (ListSpec (ValueSpecEnum [''a'', ''b''] []) (Included 1, Included 2))
     (JArray [JString ''a'', JString ''b'']) = Ok ()"
  by (subst list_spec_matches_exact)
    (simp add: range_contains_def enum_matches_def less_Suc_eq numeral_2_eq_2)

text \<open>
  When a spec passes \<open>validate\<close> for a manifest, every pointer that is live in a
  configuration targets the package itself or a dependency the manifest declares.
\<close>

theorem validated_pointers_declared:
  assumes "config_spec_validate m s = Ok ()" and "config_spec_pointers s cfg = Ok ps"
    and "Package p \<in> set ps"
  shows "pointer_package_id p = m_id m \<or> bt_get (m_dependencies m) (pointer_package_id p) \<noteq> None"
  using validate_pointers_legal(4) [OF assms]
  by (auto simp: legal_pointer_def split: if_splits)

theorem validated_pointers_declared_witness:
  "config_spec_validate sample_manifest sample_spec = Ok () \<and>
   config_spec_pointers sample_spec [(''node'', JNull)] = Ok [Package (TorAddress ''bitcoind'' ''main'')] \<and>
   (\<exists>i. bt_get (m_dependencies sample_manifest) ''bitcoind'' = Some i)"
proof -
  have v: "config_spec_validate sample_manifest sample_spec = Ok ()"
    by (simp add: sample_defs spec_eval)
  have p: "config_spec_pointers sample_spec [(''node'', JNull)] = Ok [Package (TorAddress ''bitcoind'' ''main'')]"
    by (simp add: sample_defs spec_eval)
  have "''bitcoind'' \<noteq> m_id sample_manifest" by (simp add: sample_defs)
  then show ?thesis using v p validated_pointers_declared [OF v p, of "TorAddress ''bitcoind'' ''main''"] by simp
qed

text \<open>
  C34. For a configuration that matches its spec, collecting the live pointers
  cannot fail, and each collected pointer makes \<open>requires\<close> true for its package.
\<close>

theorem matching_config_pointers:
  assumes "config_spec_matches rx s cfg = Ok ()" and "value_ok (JObject cfg)"
  shows "\<exists>ps. config_spec_pointers s cfg = Ok ps \<and>
    (\<forall>p. Package p \<in> set ps \<longrightarrow> config_spec_requires (pointer_package_id p) s cfg)"
proof -
  have "is_ok (config_spec_pointers s cfg)"
  proof (rule matches_pointers_ok(4) [OF _ assms(2)])
    fix k vs assume "im_get (spec_entries s) k = Some vs"
    then show "any_matches rx vs (cfg_value cfg k) = Ok () \<or> any_matches rx vs JNull = Ok ()"
      using assms(1) im_get_SomeD by (force simp: config_spec_matches_Ok)
  qed
  then obtain ps where "config_spec_pointers s cfg = Ok ps" by (auto simp: is_ok_iff)
  with assms(2) show ?thesis by (auto intro: pointers_requires(4))
qed

theorem matching_config_pointers_witness:
  "config_spec_pointers sample_spec [(''peers'', JNumber (NInt 8)), (''node'', JString ''x.onion'')] =
     Ok [Package (TorAddress ''bitcoind'' ''main'')] \<and>
   config_spec_requires ''bitcoind'' sample_spec [(''peers'', JNumber (NInt 8)), (''node'', JString ''x.onion'')]"
proof -
  have p: "config_spec_pointers sample_spec [(''peers'', JNumber (NInt 8)), (''node'', JString ''x.onion'')] =
      Ok [Package (TorAddress ''bitcoind'' ''main'')]"
    by (simp add: sample_defs spec_eval)
  have "config_spec_matches (\<lambda>_ _. True) sample_spec
      [(''peers'', JNumber (NInt 8)), (''node'', JString ''x.onion'')] = Ok ()"
    by (simp add: sample_defs spec_eval)
  from matching_config_pointers [OF this] p show ?thesis by fastforce
qed

text \<open>
  The pointers inside the members of a list are not collected: there is a spec
  with a configuration that matches it and requires another package, for which
  \<open>pointers\<close> reports none, although its comment promises all live pointers.
\<close>

theorem list_pointers_not_collected:
  "\<exists>s cfg pid. config_spec_matches rx s cfg = Ok () \<and> config_spec_requires pid s cfg \<and>
     config_spec_pointers s cfg = Ok []"
  by (rule exI [of _ sample_list_spec],
      rule exI [of _ "[(''nodes'', JArray [JObject [(''node'', JString ''x.onion'')]])]"],
      rule exI [of _ "''bitcoind''"])
    (simp add: sample_defs spec_eval)

text \<open>
  Checking a spec against its manifest, checking a configuration against a spec and collecting
  the pointers of a configuration return a value or an error on every input: none of them panics.
\<close>

theorem checks_return:
  "returns (config_spec_validate m s) \<and> returns (config_spec_matches rx s cfg) \<and> returns (config_spec_pointers s cfg)"
  by (simp add: validate_returns matches_returns pointers_returns)

end
