(* ===== verification/Config_Gen.thy ===== *)
theory Config_Gen
  imports Config_Spec_Laws
begin

text \<open>
  Default generation: the traits \<open>DefaultableWith\<close>, \<open>HasDefaultSpec\<close> and \<open>Defaultable\<close>
  of \<^verbatim>\<open>config/spec.rs\<close>. The outside world, the random source and the clock, is
  a state that each draw and each reading of the clock changes. The only loop
  that need not end, the search for a string that matches its pattern, takes
  fuel and reports \<open>Diverge\<close> when it runs out.
\<close>

record 'w gen_ops = "'w rng_ops" +
  read_clock :: "'w \<Rightarrow> nat \<times> 'w"

type_synonym ('w, 'a) gen_res = "(configuration_error, 'a \<times> 'w) res"

section \<open>Strings\<close>

text \<open>Appending a \<open>char\<close> to a \<open>String\<close>: its UTF-8 bytes.\<close>

definition utf8_encode :: "codepoint \<Rightarrow> string" where
  "utf8_encode c =
     map char_of
       (if c < 0x80 then [c]
        else if c < 0x800 then [0xC0 + c div 64, 0x80 + c mod 64]
        else if c < 0x10000 then [0xE0 + c div 4096, 0x80 + c div 64 mod 64, 0x80 + c mod 64]
        else [0xF0 + c div 262144, 0x80 + c div 4096 mod 64, 0x80 + c div 64 mod 64, 0x80 + c mod 64])"

fun gen_chars :: "('w, 'z) rng_ops_scheme \<Rightarrow> char_set \<Rightarrow> nat \<Rightarrow> 'w \<Rightarrow> ('w, codepoint list) gen_res" where
  "gen_chars ops cs 0 w = Ok ([], w)"
| "gen_chars ops cs (Suc n) w =
     rbind (char_set_gen ops cs w) (\<lambda>(c, w1).
     rbind (gen_chars ops cs n w1) (\<lambda>(s, w2). Ok (c # s, w2)))"

definition entropy_gen :: "('w, 'z) rng_ops_scheme \<Rightarrow> entropy \<Rightarrow> 'w \<Rightarrow> ('w, string) gen_res" where
  "entropy_gen ops e w =
     rmap (\<lambda>(s, w'). (concat (map utf8_encode s), w'))
       (gen_chars ops (case ent_charset e of Some cs \<Rightarrow> cs | None \<Rightarrow> char_set_default) (ent_len e) w)"

fun default_string_gen :: "('w, 'z) rng_ops_scheme \<Rightarrow> default_string \<Rightarrow> 'w \<Rightarrow> ('w, string) gen_res" where
  "default_string_gen ops (DLiteral s) w = Ok (s, w)"
| "default_string_gen ops (DEntropy e) w = entropy_gen ops e w"

text \<open>A candidate is tried again when it was drawn at random and misses the pattern.\<close>

fun must_retry :: "(string \<Rightarrow> string \<Rightarrow> bool) \<Rightarrow> default_string \<Rightarrow> pattern option \<Rightarrow> string \<Rightarrow> bool" where
  "must_retry rx (DEntropy _) (Some p) candidate = (\<not> rx (pat_regex p) candidate)"
| "must_retry rx _ _ candidate = False"

fun string_gen_loop ::
  "nat \<Rightarrow> 'w gen_ops \<Rightarrow> (string \<Rightarrow> string \<Rightarrow> bool) \<Rightarrow> default_string \<Rightarrow> pattern option \<Rightarrow>
    (nat \<times> nat) option \<Rightarrow> 'w \<Rightarrow> ('w, json) gen_res" where
  "string_gen_loop 0 ops rx spec pat deadline w = Diverge"
| "string_gen_loop (Suc fuel) ops rx spec pat deadline w =
     rbind (default_string_gen ops spec w) (\<lambda>(candidate, w1).
       if must_retry rx spec pat candidate then
         (case deadline of
            Some (now, timeout) \<Rightarrow>
              let (t, w2) = read_clock ops w1 in
              if timeout < t - now then Err TimeoutError
              else string_gen_loop fuel ops rx spec pat deadline w2
          | None \<Rightarrow> Ok (JString candidate, w1))
       else Ok (JString candidate, w1))"

definition string_gen_with ::
  "nat \<Rightarrow> 'w gen_ops \<Rightarrow> (string \<Rightarrow> string \<Rightarrow> bool) \<Rightarrow> nat option \<Rightarrow> value_spec_string \<Rightarrow>
    default_string option \<Rightarrow> 'w \<Rightarrow> ('w, json) gen_res" where
  "string_gen_with fuel ops rx timeout s spec w =
     (case spec of
        None \<Rightarrow> Ok (JNull, w)
      | Some d \<Rightarrow>
          (case timeout of
             None \<Rightarrow> string_gen_loop fuel ops rx d (str_pattern s) None w
           | Some t \<Rightarrow> let (now, w1) = read_clock ops w in
               string_gen_loop fuel ops rx d (str_pattern s) (Some (now, t)) w1))"

section \<open>The other leaf specs and the wrappers\<close>

definition boolean_gen_with :: "value_spec_boolean \<Rightarrow> bool \<Rightarrow> 'w \<Rightarrow> ('w, json) gen_res" where
  "boolean_gen_with s d w = Ok (JBool d, w)"

definition enum_gen_with :: "value_spec_enum \<Rightarrow> string \<Rightarrow> 'w \<Rightarrow> ('w, json) gen_res" where
  "enum_gen_with s d w = Ok (JString d, w)"

definition number_gen_with :: "value_spec_number \<Rightarrow> number option \<Rightarrow> 'w \<Rightarrow> ('w, json) gen_res" where
  "number_gen_with s d w = Ok (case d of Some n \<Rightarrow> JNumber n | None \<Rightarrow> JNull, w)"

definition object_gen_with :: "value_spec_object \<Rightarrow> config \<Rightarrow> 'w \<Rightarrow> ('w, json) gen_res" where
  "object_gen_with s d w = Ok (JObject d, w)"

definition pointer_gen :: "value_spec_pointer \<Rightarrow> 'w \<Rightarrow> ('w, json) gen_res" where
  "pointer_gen p w = Ok (JNull, w)"

text \<open>\<open>Defaultable for T: HasDefaultSpec + DefaultableWith\<close>, at \<open>WithDefault\<close>.\<close>

definition with_default_gen :: "('t \<Rightarrow> 'd \<Rightarrow> 'r) \<Rightarrow> ('t, 'd) with_default \<Rightarrow> 'r" where
  "with_default_gen f wd = f (wdf_inner wd) (wdf_default wd)"

lemma with_default_gen_cong [fundef_cong]:
  "w = w' \<Longrightarrow> f (wdf_inner w') (wdf_default w') = g (wdf_inner w') (wdf_default w') \<Longrightarrow>
     with_default_gen f w = with_default_gen g w'"
  by (simp add: with_default_gen_def)

definition list_spec_gen_with ::
  "('t \<Rightarrow> 'd \<Rightarrow> 'w \<Rightarrow> ('w, json) gen_res) \<Rightarrow> 't list_spec \<Rightarrow> 'd list \<Rightarrow> 'w \<Rightarrow> ('w, json) gen_res" where
  "list_spec_gen_with f s ds w =
     rmap (\<lambda>(res, w'). (JArray res, w'))
       (rfold (\<lambda>d (res, w). rmap (\<lambda>(v, w'). (res @ [v], w')) (f (ls_spec s) d w)) ds ([], w))"

lemma list_spec_gen_with_cong [fundef_cong]:
  "s = s' \<Longrightarrow> ds = ds' \<Longrightarrow> w = w' \<Longrightarrow> (\<And>d x. f (ls_spec s') d x = g (ls_spec s') d x) \<Longrightarrow>
     list_spec_gen_with f s ds w = list_spec_gen_with g s' ds' w'"
proof -
  assume eqs: "s = s'" "ds = ds'" "w = w'" and "\<And>d x. f (ls_spec s') d x = g (ls_spec s') d x"
  then have "f (ls_spec s') = g (ls_spec s')" by blast
  with eqs show ?thesis by (simp only: list_spec_gen_with_def)
qed

text \<open>The loop that pads a list of objects up to the start of its range.\<close>

fun fill_gap :: "nat bound \<Rightarrow> nat \<Rightarrow> nat" where
  "fill_gap (Included n) len = n - len"
| "fill_gap (Excluded n) len = Suc n - len"
| "fill_gap Unbounded len = 0"

function fill_list ::
  "('w \<Rightarrow> ('w, json) gen_res) \<Rightarrow> nat bound \<Rightarrow> json list \<Rightarrow> 'w \<Rightarrow> ('w, json list) gen_res" where
  "fill_list f start ret w =
     (if range_contains (\<le>) (<) (start, Unbounded) (length ret) then Ok (ret, w)
      else rbind (f w) (\<lambda>(v, w'). fill_list f start (ret @ [v]) w'))"
  by pat_completeness auto
termination
  by (relation "measure (\<lambda>(f, start, ret, w). fill_gap start (length ret))")
    (auto simp: range_contains_def split: bound.splits)

declare fill_list.simps [simp del]

lemma fill_list_ext: "(\<And>w. f w = g w) \<Longrightarrow> fill_list f start ret w = fill_list g start ret w"
  by (metis ext)

lemma fill_list_cong [fundef_cong]:
  "s = s' \<Longrightarrow> r = r' \<Longrightarrow> w = w' \<Longrightarrow> (\<And>x. f x = g x) \<Longrightarrow> fill_list f s r w = fill_list g s' r' w'"
  by (metis ext)

section \<open>Composite specs\<close>

text \<open>Inserting the generated value of one entry.\<close>

definition gen_entry :: "string \<Rightarrow> ('w, json) gen_res \<Rightarrow> config \<Rightarrow> ('w, config) gen_res" where
  "gen_entry k r cfg = rmap (\<lambda>(v, w). (im_insert k v cfg, w)) r"

function any_gen ::
  "nat \<Rightarrow> 'w gen_ops \<Rightarrow> (string \<Rightarrow> string \<Rightarrow> bool) \<Rightarrow> nat option \<Rightarrow> value_spec_any \<Rightarrow> 'w \<Rightarrow> ('w, json) gen_res"
  and list_gen ::
  "nat \<Rightarrow> 'w gen_ops \<Rightarrow> (string \<Rightarrow> string \<Rightarrow> bool) \<Rightarrow> nat option \<Rightarrow> value_spec_list \<Rightarrow> 'w \<Rightarrow> ('w, json) gen_res"
  and object_gen ::
  "nat \<Rightarrow> 'w gen_ops \<Rightarrow> (string \<Rightarrow> string \<Rightarrow> bool) \<Rightarrow> nat option \<Rightarrow> value_spec_object \<Rightarrow> 'w \<Rightarrow> ('w, json) gen_res"
  and union_gen_with ::
  "nat \<Rightarrow> 'w gen_ops \<Rightarrow> (string \<Rightarrow> string \<Rightarrow> bool) \<Rightarrow> nat option \<Rightarrow> value_spec_union \<Rightarrow> string \<Rightarrow> 'w \<Rightarrow> ('w, json) gen_res"
  and config_spec_gen ::
  "nat \<Rightarrow> 'w gen_ops \<Rightarrow> (string \<Rightarrow> string \<Rightarrow> bool) \<Rightarrow> nat option \<Rightarrow> config_spec \<Rightarrow> 'w \<Rightarrow> ('w, config) gen_res" where
  "any_gen fuel ops rx to (SBoolean a) w =
     with_description_spec (\<lambda>d. with_default_gen boolean_gen_with d w) a"
| "any_gen fuel ops rx to (SEnum a) w =
     with_description_spec (\<lambda>d. with_default_gen enum_gen_with d w) a"
| "any_gen fuel ops rx to (SList a) w = list_gen fuel ops rx to a w"
| "any_gen fuel ops rx to (SNumber a) w =
     with_description_spec (\<lambda>d. with_default_gen (with_nullable_spec number_gen_with) d w) a"
| "any_gen fuel ops rx to (SObject a) w = with_description_spec (\<lambda>s. object_gen fuel ops rx to s w) a"
| "any_gen fuel ops rx to (SString a) w =
     with_description_spec (\<lambda>d. with_default_gen
       (with_nullable_spec (string_gen_with fuel ops rx to)) d w) a"
| "any_gen fuel ops rx to (SUnion a) w =
     with_description_spec (with_default_gen (\<lambda>s t. union_gen_with fuel ops rx to s t w)) a"
| "any_gen fuel ops rx to (SPointer a) w = with_description_spec (\<lambda>p. pointer_gen p w) a"
| "list_gen fuel ops rx to (LEnum a) w =
     with_description_spec (\<lambda>d. with_default_gen (list_spec_gen_with enum_gen_with) d w) a"
| "list_gen fuel ops rx to (LNumber a) w =
     with_description_spec (\<lambda>d. with_default_gen (list_spec_gen_with number_gen_with) d w) a"
| "list_gen fuel ops rx to (LObject a) w =
     rbind (unwrap (with_description_spec (\<lambda>d. with_default_gen (list_spec_gen_with object_gen_with) d w) a))
       (\<lambda>(v, w1).
         case v of
           JArray ret \<Rightarrow>
             rmap (\<lambda>(l, w2). (JArray l, w2))
               (with_description_spec (with_default_spec (\<lambda>ls.
                  fill_list (\<lambda>x. object_gen fuel ops rx to (ls_spec ls) x) (fst (ls_range ls)) ret w1)) a)
         | other \<Rightarrow> Err (NoMatch (no_match_new (EInvalidType ''list'' (type_of other)))))"
| "list_gen fuel ops rx to (LString a) w =
     with_description_spec (\<lambda>d. with_default_gen
       (list_spec_gen_with (string_gen_with fuel ops rx to)) d w) a"
| "list_gen fuel ops rx to (LUnion a) w =
     with_description_spec (with_default_gen (\<lambda>ls ts. list_spec_gen_with
       (\<lambda>wd t x. with_default_spec (\<lambda>s. union_gen_with fuel ops rx to s t x) wd) ls ts w)) a"
| "object_gen fuel ops rx to s w =
     rmap (\<lambda>(cfg, w'). (JObject cfg, w')) (config_spec_gen fuel ops rx to (obj_spec s) w)"
| "union_gen_with fuel ops rx to s t w =
     (case bt_get (uni_variants s) t of
        None \<Rightarrow> Err (NoMatch (no_match_new (EUnion t (map fst (uni_variants s)))))
      | Some variant \<Rightarrow>
          rmap (\<lambda>(cfg_res, w').
              (JObject (im_extend cfg_res (im_insert (tag_id (uni_tag s)) (JString t) [])), w'))
            (config_spec_gen fuel ops rx to variant w))"
| "config_spec_gen fuel ops rx to s w =
     rfold (\<lambda>e (res, w). gen_entry (fst e) (any_gen fuel ops rx to (snd e) w) res) (spec_entries s) ([], w)"
  by pat_completeness auto
termination
  by (relation "measure (\<lambda>x. case x of
      Inl (Inl (_, _, _, _, s, _)) \<Rightarrow> size s
    | Inl (Inr (_, _, _, _, s, _)) \<Rightarrow> size s
    | Inr (Inl (_, _, _, _, s, _)) \<Rightarrow> size s
    | Inr (Inr (Inl (_, _, _, _, s, _, _))) \<Rightarrow> size s
    | Inr (Inr (Inr (_, _, _, _, s, _))) \<Rightarrow> size s)")
    (auto simp: termination_simp)

declare config_spec_gen.simps [simp del]

section \<open>Defaults that satisfy their spec\<close>

text \<open>
  When the declared defaults are consistent with the spec they belong to: the
  default of an enum is one of its values, a missing default is allowed only
  where null is, the default of a union names a variant that does not reuse the
  tag, and the lists are long enough and carry no uniqueness rule that
  generated members could break. A random string with a pattern needs a timeout:
  without one the first candidate is taken as it is.
\<close>

definition number_value :: "number option \<Rightarrow> json" where
  "number_value d = (case d of Some n \<Rightarrow> JNumber n | None \<Rightarrow> JNull)"

fun literal_value :: "default_string option \<Rightarrow> json" where
  "literal_value (Some (DLiteral t)) = JString t"
| "literal_value _ = JNull"

fun is_literal :: "default_string option \<Rightarrow> bool" where
  "is_literal (Some (DEntropy _)) = False"
| "is_literal _ = True"

fun string_default_ok ::
  "(string \<Rightarrow> string \<Rightarrow> bool) \<Rightarrow> nat option \<Rightarrow> value_spec_string with_nullable \<Rightarrow> default_string option \<Rightarrow> bool" where
  "string_default_ok rx to s (Some (DEntropy _)) = (str_pattern (wn_inner s) = None \<or> to \<noteq> None)"
| "string_default_ok rx to s d =
     (with_nullable_matches (string_matches rx) s (literal_value d) = Ok ())"

function any_defaults_ok :: "(string \<Rightarrow> string \<Rightarrow> bool) \<Rightarrow> nat option \<Rightarrow> value_spec_any \<Rightarrow> bool"
  and list_defaults_ok :: "(string \<Rightarrow> string \<Rightarrow> bool) \<Rightarrow> nat option \<Rightarrow> value_spec_list \<Rightarrow> bool"
  and object_defaults_ok :: "(string \<Rightarrow> string \<Rightarrow> bool) \<Rightarrow> nat option \<Rightarrow> value_spec_object \<Rightarrow> bool"
  and union_defaults_ok :: "(string \<Rightarrow> string \<Rightarrow> bool) \<Rightarrow> nat option \<Rightarrow> value_spec_union \<Rightarrow> string \<Rightarrow> bool"
  and config_defaults_ok :: "(string \<Rightarrow> string \<Rightarrow> bool) \<Rightarrow> nat option \<Rightarrow> config_spec \<Rightarrow> bool" where
  "any_defaults_ok rx to (SBoolean a) = True"
| "any_defaults_ok rx to (SEnum a) =
     (wdf_default (wds_inner a) \<in> set (enum_values (wdf_inner (wds_inner a))))"
| "any_defaults_ok rx to (SList a) = list_defaults_ok rx to a"
| "any_defaults_ok rx to (SNumber a) =
     (with_nullable_matches number_matches (wdf_inner (wds_inner a))
        (number_value (wdf_default (wds_inner a))) = Ok ())"
| "any_defaults_ok rx to (SObject a) = object_defaults_ok rx to (wds_inner a)"
| "any_defaults_ok rx to (SString a) =
     string_default_ok rx to (wdf_inner (wds_inner a)) (wdf_default (wds_inner a))"
| "any_defaults_ok rx to (SUnion a) =
     union_defaults_ok rx to (wdf_inner (wds_inner a)) (wdf_default (wds_inner a))"
| "any_defaults_ok rx to (SPointer a) = True"
| "list_defaults_ok rx to (LEnum a) =
     (list_spec_matches enum_matches enum_eq (wdf_inner (wds_inner a))
        (JArray (map JString (wdf_default (wds_inner a)))) = Ok ())"
| "list_defaults_ok rx to (LNumber a) =
     (list_spec_matches number_matches number_eq (wdf_inner (wds_inner a))
        (JArray (map number_value (wdf_default (wds_inner a)))) = Ok ())"
| "list_defaults_ok rx to (LObject a) =
     (let ls = wdf_inner (wds_inner a); ds = wdf_default (wds_inner a) in
      obj_unique_by (ls_spec ls) = NotUnique \<and> object_defaults_ok rx to (ls_spec ls) \<and>
      list_all (\<lambda>d. object_matches rx (ls_spec ls) (JObject d) = Ok ()) ds \<and>
      range_contains (\<le>) (<) (ls_range ls) (length ds + fill_gap (fst (ls_range ls)) (length ds)))"
| "list_defaults_ok rx to (LString a) =
     (list_all is_literal (wdf_default (wds_inner a)) \<and>
      list_spec_matches (string_matches rx) string_eq (wdf_inner (wds_inner a))
        (JArray (map literal_value (wdf_default (wds_inner a)))) = Ok ())"
| "list_defaults_ok rx to (LUnion a) =
     (let ls = wdf_inner (wds_inner a); ds = wdf_default (wds_inner a) in
      uni_unique_by (wdf_inner (ls_spec ls)) = NotUnique \<and>
      list_all (\<lambda>t. union_defaults_ok rx to (wdf_inner (ls_spec ls)) t) ds \<and>
      range_contains (\<le>) (<) (ls_range ls) (length ds))"
| "object_defaults_ok rx to s = config_defaults_ok rx to (obj_spec s)"
| "union_defaults_ok rx to s t =
     (case bt_get (uni_variants s) t of
        None \<Rightarrow> False
      | Some c \<Rightarrow> im_get (spec_entries c) (tag_id (uni_tag s)) = None \<and> config_defaults_ok rx to c)"
| "config_defaults_ok rx to s =
     (im_ok (spec_entries s) \<and> list_all (\<lambda>e. any_defaults_ok rx to (snd e)) (spec_entries s))"
  by pat_completeness auto
termination
  by (relation "measure (\<lambda>x. case x of
      Inl (Inl (_, _, s)) \<Rightarrow> size s
    | Inl (Inr (_, _, s)) \<Rightarrow> size s
    | Inr (Inl (_, _, s)) \<Rightarrow> size s
    | Inr (Inr (Inl (_, _, s, _))) \<Rightarrow> size s
    | Inr (Inr (Inr (_, _, s))) \<Rightarrow> size s)")
    (auto simp: termination_simp)

section \<open>What the loops produce\<close>

lemma string_gen_loop_Ok:
  "string_gen_loop fuel ops rx d pat dl w = Ok (v, w') \<Longrightarrow>
     \<exists>t. v = JString t \<and> (must_retry rx d pat t \<longrightarrow> dl = None) \<and> (\<forall>s. d = DLiteral s \<longrightarrow> t = s)"
proof (induction fuel arbitrary: w)
  case (Suc fuel)
  from Suc.prems obtain cand w1 where c: "default_string_gen ops d w = Ok (cand, w1)"
    by (auto simp: res_simps)
  show ?case
  proof (cases "must_retry rx d pat cand \<and> dl \<noteq> None")
    case True
    then obtain now t0 where dl: "dl = Some (now, t0)" by auto
    with Suc.prems c True obtain w2 where "string_gen_loop fuel ops rx d pat dl w2 = Ok (v, w')"
      by (auto split: prod.splits if_splits)
    then show ?thesis by (rule Suc.IH)
  next
    case False
    have "v = JString cand" using Suc.prems c False by (cases dl) (auto split: if_splits)
    moreover have "\<forall>s. d = DLiteral s \<longrightarrow> cand = s" using c by auto
    ultimately show ?thesis using False by (cases dl) auto
  qed
qed simp

lemma string_gen_with_Ok:
  assumes "string_gen_with fuel ops rx to s d w = Ok (v, w')"
  shows "is_literal d \<Longrightarrow> v = literal_value d"
    and "d = Some (DEntropy e) \<Longrightarrow> str_pattern s = None \<or> to \<noteq> None \<Longrightarrow> string_matches rx s v = Ok ()"
  using assms
  by (cases d; auto simp: string_gen_with_def string_matches_def split: option.splits prod.splits
      dest!: string_gen_loop_Ok elim!: is_literal.elims)+

lemma list_spec_gen_with_Ok:
  assumes "list_spec_gen_with f s ds w = Ok (v, w')"
  shows "\<exists>vs. v = JArray vs \<and> list_all2 (\<lambda>d x. \<exists>w1 w2. f (ls_spec s) d w1 = Ok (x, w2)) ds vs"
proof -
  have "rfold (\<lambda>d (res, w). rmap (\<lambda>(v, w'). (res @ [v], w')) (f (ls_spec s) d w)) ds (acc, w) = Ok (vs, w') \<Longrightarrow>
      \<exists>vs'. vs = acc @ vs' \<and> list_all2 (\<lambda>d x. \<exists>w1 w2. f (ls_spec s) d w1 = Ok (x, w2)) ds vs'" for acc w vs
  proof (induction ds arbitrary: acc w)
    case (Cons d ds)
    then obtain x w1 where x: "f (ls_spec s) d w = Ok (x, w1)" by (auto simp: res_simps)
    with Cons.prems have "rfold (\<lambda>d (res, w). rmap (\<lambda>(v, w'). (res @ [v], w')) (f (ls_spec s) d w)) ds
        (acc @ [x], w1) = Ok (vs, w')" by simp
    from Cons.IH [OF this] x show ?case by (fastforce simp: list_all2_Cons1)
  qed simp
  with assms show ?thesis by (fastforce simp: list_spec_gen_with_def res_simps)
qed

lemma fill_list_Ok:
  assumes "\<And>w v w1. f w = Ok (v, w1) \<Longrightarrow> Q v"
  shows "fill_list f start ret w = Ok (l, w') \<Longrightarrow>
    \<exists>ext. l = ret @ ext \<and> (\<forall>v \<in> set ext. Q v) \<and> length ext = fill_gap start (length ret)"
proof (induction "fill_gap start (length ret)" arbitrary: ret w rule: less_induct)
  case less
  show ?case
  proof (cases "range_contains (\<le>) (<) (start, Unbounded) (length ret)")
    case True
    with less.prems have "l = ret" by (subst (asm) fill_list.simps) simp
    moreover have "fill_gap start (length ret) = 0"
      using True by (cases start) (auto simp: range_contains_def)
    ultimately show ?thesis by simp
  next
    case False
    with less.prems obtain v w1 where v: "f w = Ok (v, w1)"
      and rest: "fill_list f start (ret @ [v]) w1 = Ok (l, w')"
      by (subst (asm) fill_list.simps) (auto simp: res_simps)
    have gap: "fill_gap start (length ret) = Suc (fill_gap start (length (ret @ [v])))"
      using False by (cases start) (auto simp: range_contains_def)
    from less.hyps [OF _ rest] gap obtain ext where "l = (ret @ [v]) @ ext"
      "\<forall>v \<in> set ext. Q v" "length ext = fill_gap start (length (ret @ [v]))" by auto
    with v gap assms show ?thesis by (intro exI [of _ "v # ext"]) auto
  qed
qed

lemma gen_entries_Ok:
  assumes "rfold (\<lambda>e (res, w). gen_entry (fst e) (f e w) res) es (res0, w0) = Ok (cfg, w')"
    and "im_ok res0" and "im_ok es"
    and "\<And>e w v w1. e \<in> set es \<Longrightarrow> f e w = Ok (v, w1) \<Longrightarrow> Q e v"
  shows "im_ok cfg \<and> (\<forall>k. k \<notin> fst ` set es \<longrightarrow> im_get cfg k = im_get res0 k) \<and>
    (\<forall>e \<in> set es. \<exists>v. im_get cfg (fst e) = Some v \<and> Q e v)"
  using assms
proof (induction es arbitrary: res0 w0)
  case (Cons e es)
  then obtain v w1 where v: "f e w0 = Ok (v, w1)"
    and rest: "rfold (\<lambda>e (res, w). gen_entry (fst e) (f e w) res) es (im_insert (fst e) v res0, w1) = Ok (cfg, w')"
    by (auto simp: res_simps gen_entry_def)
  have "im_ok cfg \<and> (\<forall>k. k \<notin> fst ` set es \<longrightarrow> im_get cfg k = im_get (im_insert (fst e) v res0) k) \<and>
      (\<forall>e \<in> set es. \<exists>v. im_get cfg (fst e) = Some v \<and> Q e v)"
    using Cons.prems rest by (intro Cons.IH) (auto intro: im.ok_put)
  moreover have "Q e v" using Cons.prems(4) v by simp
  ultimately show ?case using Cons.prems(3) by auto
qed simp

section \<open>Generated values match\<close>

lemma object_eq_not_unique: "obj_unique_by s = NotUnique \<Longrightarrow> \<not> object_eq s v w"
  by (cases v; cases w) auto

lemma union_eq_not_unique: "uni_unique_by s = NotUnique \<Longrightarrow> \<not> union_eq s v w"
  by (cases v; cases w) auto

lemma list_gen_with_values:
  assumes "list_spec_gen_with f s ds w = Ok (v, w')"
    and "\<And>d x w1 w2. d \<in> set ds \<Longrightarrow> f (ls_spec s) d w1 = Ok (x, w2) \<Longrightarrow> x = h d"
  shows "v = JArray (map h ds)"
proof -
  obtain vs where v: "v = JArray vs"
    and all: "list_all2 (\<lambda>d x. \<exists>w1 w2. f (ls_spec s) d w1 = Ok (x, w2)) ds vs"
    using list_spec_gen_with_Ok [OF assms(1)] by blast
  have "vs = map h ds"
    using all assms(2) by (auto simp: list_all2_conv_all_nth intro!: nth_equalityI)
  with v show ?thesis by simp
qed

lemma list_gen_with_members:
  assumes "list_spec_gen_with f s ds w = Ok (v, w')"
    and "\<And>d x w1 w2. d \<in> set ds \<Longrightarrow> f (ls_spec s) d w1 = Ok (x, w2) \<Longrightarrow> Q x"
  shows "\<exists>vs. v = JArray vs \<and> length vs = length ds \<and> (\<forall>x \<in> set vs. Q x)"
proof -
  obtain vs where v: "v = JArray vs"
    and all: "list_all2 (\<lambda>d x. \<exists>w1 w2. f (ls_spec s) d w1 = Ok (x, w2)) ds vs"
    using list_spec_gen_with_Ok [OF assms(1)] by blast
  have "Q x" if x: "x \<in> set vs" for x
  proof -
    from x obtain i where i: "i < length vs" "x = vs ! i" by (auto simp: in_set_conv_nth)
    with all have "i < length ds" by (simp add: list_all2_lengthD)
    moreover from all i obtain w1 w2 where "f (ls_spec s) (ds ! i) w1 = Ok (x, w2)"
      by (auto simp: list_all2_conv_all_nth)
    ultimately show ?thesis using assms(2) nth_mem by blast
  qed
  with v all show ?thesis by (auto dest: list_all2_lengthD)
qed

text \<open>The tagged configuration of a union matches the variant once the tag is taken off.\<close>

lemma union_tagged_matches:
  assumes "bt_get (uni_variants s) t = Some c" and "im_get (spec_entries c) (tag_id (uni_tag s)) = None"
    and "im_ok cfg" and "config_spec_matches rx c cfg = Ok ()"
    and keys: "\<And>k. im_get cfg k \<noteq> None \<Longrightarrow> im_get (spec_entries c) k \<noteq> None"
  shows "union_matches rx s (JObject (im_extend cfg (im_insert (tag_id (uni_tag s)) (JString t) []))) = Ok ()"
proof -
  define tag where "tag = tag_id (uni_tag s)"
  define tagged where "tagged = im_extend cfg (im_insert tag (JString t) [])"
  have no_tag: "im_get cfg tag = None" using keys assms(2) tag_def by blast
  have ok: "im_ok (im_insert tag (JString t) [])" by (rule im.ok_put) simp
  have get: "im_get tagged k = (if k = tag then Some (JString t) else im_get cfg k)" for k
    using no_tag by (auto simp: tagged_def im_get_extend [OF ok] map_of_rev_im_get [OF assms(3)] split: option.splits)
  have ok_tagged: "im_ok tagged"
    unfolding tagged_def im_extend_def by (rule im.ok_extend) (rule ok)
  have "config_spec_matches rx c (im_remove tag tagged) = config_spec_matches rx c cfg"
  proof (rule config_spec_matches_cong)
    fix k assume "k \<in> fst ` set (spec_entries c)"
    then have "k \<noteq> tag" using assms(2) im_get_None tag_def by metis
    then show "im_get (im_remove tag tagged) k = im_get cfg k"
      by (simp add: im.lookup_del [OF ok_tagged] get)
  qed
  with assms get [of tag] show ?thesis by (simp add: tagged_def tag_def)
qed

lemmas gen_induct = any_gen_list_gen_object_gen_union_gen_with_config_spec_gen.induct

lemmas gen_wrappers = wrapper_defs with_default_gen_def with_nullable_matches_def
  boolean_gen_with_def enum_gen_with_def number_gen_with_def object_gen_with_def pointer_gen_def
  boolean_matches_def enum_matches_def pointer_matches_def number_value_def

text \<open>What \<open>ConfigSpec::gen\<close> returns: exactly the keys of the spec, each with a matching value.\<close>

definition cfg_generated :: "(string \<Rightarrow> string \<Rightarrow> bool) \<Rightarrow> config_spec \<Rightarrow> config \<Rightarrow> bool" where
  "cfg_generated rx s cfg \<longleftrightarrow> im_ok cfg \<and> config_spec_matches rx s cfg = Ok () \<and>
     (\<forall>k. im_get cfg k \<noteq> None \<longrightarrow> im_get (spec_entries s) k \<noteq> None)"

lemma gen_matches:
  "any_gen fuel ops rx to vs w = Ok (v, w') \<Longrightarrow> any_defaults_ok rx to vs \<Longrightarrow> any_matches rx vs v = Ok ()"
  "list_gen fuel ops rx to l w = Ok (v, w') \<Longrightarrow> list_defaults_ok rx to l \<Longrightarrow> list_matches rx l v = Ok ()"
  "object_gen fuel ops rx to ob w = Ok (v, w') \<Longrightarrow> object_defaults_ok rx to ob \<Longrightarrow> object_matches rx ob v = Ok ()"
  "union_gen_with fuel ops rx to u t w = Ok (v, w') \<Longrightarrow> union_defaults_ok rx to u t \<Longrightarrow> union_matches rx u v = Ok ()"
  "config_spec_gen fuel ops rx to s w = Ok (cfg, w') \<Longrightarrow> config_defaults_ok rx to s \<Longrightarrow> cfg_generated rx s cfg"
proof (induction fuel ops rx to vs w and fuel ops rx to l w and fuel ops rx to ob w
    and fuel ops rx to u t w and fuel ops rx to s w
    arbitrary: v w' and v w' and v w' and v w' and cfg w' rule: gen_induct)
  case (6 fuel ops rx to a w)
  then show ?case
    by (cases "wdf_default (wds_inner a)" rule: is_literal.cases)
      (auto simp: gen_wrappers dest: string_gen_with_Ok)
next
  case (9 fuel ops rx to a w)
  have "v = JArray (map JString (wdf_default (wds_inner a)))"
    using "9.prems" by (intro list_gen_with_values [where h = JString]) (auto simp: gen_wrappers)
  with "9.prems" show ?case by (simp add: gen_wrappers)
next
  case (10 fuel ops rx to a w)
  have "v = JArray (map number_value (wdf_default (wds_inner a)))"
    using "10.prems" by (intro list_gen_with_values [where h = number_value]) (auto simp: gen_wrappers)
  with "10.prems" show ?case by (simp add: gen_wrappers)
next
  case (11 fuel ops rx to a w)
  define ls ds where "ls = wdf_inner (wds_inner a)" and "ds = wdf_default (wds_inner a)"
  note dok = "11.prems"(2) [unfolded list_defaults_ok.simps Let_def, folded ls_def ds_def]
  obtain v0 w1 where v0: "list_spec_gen_with object_gen_with ls ds w = Ok (v0, w1)"
    using "11.prems"(1) by (auto simp: gen_wrappers res_simps ls_def ds_def)
  then have v0_eq: "v0 = JArray (map JObject ds)"
    by (rule list_gen_with_values) (simp add: object_gen_with_def)
  obtain l w2 where v: "v = JArray l"
    and fill: "fill_list (object_gen fuel ops rx to (ls_spec ls)) (fst (ls_range ls)) (map JObject ds) w1 = Ok (l, w2)"
    using "11.prems"(1) v0 v0_eq
    by (auto simp: gen_wrappers res_simps ls_def ds_def simp del: object_gen.simps)
  have un: "unwrap (with_description_spec
      (\<lambda>d. with_default_gen (list_spec_gen_with object_gen_with) d w) a) =
      (Ok (v0, w1) :: ('a, json) gen_res)"
    using v0 by (simp add: gen_wrappers ls_def ds_def)
  have member: "object_matches rx (ls_spec ls) x = Ok ()"
    if "object_gen fuel ops rx to (ls_spec ls) y = Ok (x, z)" for x y z
    using "11.IH" [OF un refl v0_eq that [unfolded ls_def]] dok unfolding ls_def by blast
  have "\<exists>ext. l = map JObject ds @ ext \<and> (\<forall>x \<in> set ext. object_matches rx (ls_spec ls) x = Ok ()) \<and>
      length ext = fill_gap (fst (ls_range ls)) (length (map JObject ds))"
    by (rule fill_list_Ok [OF _ fill]) (rule member)
  then obtain ext where
    "l = map JObject ds @ ext" "\<forall>x \<in> set ext. object_matches rx (ls_spec ls) x = Ok ()"
    "length ext = fill_gap (fst (ls_range ls)) (length ds)" by (auto simp del: object_matches.simps)
  with dok have "list_spec_matches (object_matches rx) object_eq ls (JArray l) = Ok ()"
    by (auto simp: list_spec_matches_Ok list_all_iff object_eq_not_unique simp del: object_matches.simps)
  with v show ?case by (simp add: gen_wrappers ls_def)
next
  case (12 fuel ops rx to a w)
  have "v = JArray (map literal_value (wdf_default (wds_inner a)))"
    using "12.prems" by (intro list_gen_with_values [where h = literal_value])
      (auto simp: gen_wrappers list_all_iff intro: string_gen_with_Ok(1))
  with "12.prems" show ?case by (simp add: gen_wrappers)
next
  case (13 fuel ops rx to a w)
  define ls ds where "ls = wdf_inner (wds_inner a)" and "ds = wdf_default (wds_inner a)"
  note dok = "13.prems"(2) [unfolded list_defaults_ok.simps Let_def, folded ls_def ds_def]
  have gen: "list_spec_gen_with (\<lambda>wd t x. with_default_spec (\<lambda>s. union_gen_with fuel ops rx to s t x) wd)
      ls ds w = Ok (v, w')"
    using "13.prems"(1) by (simp add: gen_wrappers ls_def ds_def)
  have member: "union_matches rx (wdf_inner (ls_spec ls)) x = Ok ()"
    if "t \<in> set ds" and "with_default_spec (\<lambda>s. union_gen_with fuel ops rx to s t w1) (ls_spec ls) = Ok (x, w2)"
    for t x w1 w2
    using "13.IH" that dok by (auto simp: wrapper_defs ls_def ds_def list_all_iff)
  have "\<exists>vs. v = JArray vs \<and> length vs = length ds \<and>
      (\<forall>x \<in> set vs. union_matches rx (wdf_inner (ls_spec ls)) x = Ok ())"
    by (rule list_gen_with_members [OF gen]) (rule member)
  then obtain vs where "v = JArray vs" "length vs = length ds"
    "\<forall>x \<in> set vs. union_matches rx (wdf_inner (ls_spec ls)) x = Ok ()" by blast
  with dok show ?case
    by (simp add: gen_wrappers list_spec_matches_Ok union_eq_not_unique del: union_matches.simps flip: ls_def)
next
  case (15 fuel ops rx to s t w)
  then obtain c cfg where c: "bt_get (uni_variants s) t = Some c"
    and cfg: "config_spec_gen fuel ops rx to c w = Ok (cfg, w')"
    and v: "v = JObject (im_extend cfg (im_insert (tag_id (uni_tag s)) (JString t) []))"
    by (auto simp: res_simps split: option.splits)
  have "cfg_generated rx c cfg" using "15.IH" [OF c cfg] "15.prems"(2) c by simp
  with "15.prems"(2) c show ?case
    unfolding v cfg_generated_def by (intro union_tagged_matches) auto
next
  case (16 fuel ops rx to s w)
  have ok: "im_ok (spec_entries s)" using "16.prems"(2) by simp
  have q: "any_matches rx (snd e) v = Ok ()"
    if "e \<in> set (spec_entries s)" and "any_gen fuel ops rx to (snd e) w = Ok (v, w1)" for e w v w1
    using that "16.prems"(2) by (intro "16.IH" [OF that(1) refl that(2)]) (simp add: list_all_iff)
  have fin: "im_ok cfg \<and> (\<forall>k. k \<notin> fst ` set (spec_entries s) \<longrightarrow> im_get cfg k = im_get [] k) \<and>
      (\<forall>e \<in> set (spec_entries s). \<exists>v. im_get cfg (fst e) = Some v \<and> any_matches rx (snd e) v = Ok ())"
    using "16.prems"(1) by (intro gen_entries_Ok [OF _ _ ok]) (auto simp: config_spec_gen.simps intro: q)
  then have "config_spec_matches rx s cfg = Ok ()"
    by (force simp: config_spec_matches_Ok cfg_value_def)
  with fin show ?case by (auto simp: cfg_generated_def im_get_None)
qed (auto simp: gen_wrappers res_simps cfg_generated_def split: option.splits)

section \<open>Generation without a timeout ends\<close>

lemma rbind_Diverge: "rbind m f = Diverge \<longleftrightarrow> m = Diverge \<or> (\<exists>a. m = Ok a \<and> f a = Diverge)"
  by (cases m) auto

lemma rmap_Diverge [simp]: "rmap f m = Diverge \<longleftrightarrow> m = Diverge"
  by (cases m) auto

lemma unwrap_Diverge [simp]: "unwrap m = Diverge \<longleftrightarrow> m = Diverge"
  by (cases m) auto

lemmas diverge_simps = rbind_Diverge rmap_Diverge unwrap_Diverge

lemma rfold_not_Diverge:
  "(\<And>x s. x \<in> set xs \<Longrightarrow> f x s \<noteq> Diverge) \<Longrightarrow> rfold f xs s \<noteq> Diverge"
  by (induction xs arbitrary: s) (auto simp: diverge_simps)

lemma char_set_gen_not_Diverge: "char_set_gen ops cs w \<noteq> Diverge"
  by (auto simp: char_set_gen_def split: option.splits prod.splits)

lemma gen_chars_not_Diverge: "gen_chars ops cs n w \<noteq> Diverge"
  by (induction n arbitrary: w) (auto simp: diverge_simps char_set_gen_not_Diverge)

lemma string_gen_with_not_Diverge: "string_gen_with (Suc fuel) ops rx None s d w \<noteq> Diverge"
proof (cases d)
  case (Some ds)
  have "default_string_gen ops ds w \<noteq> Diverge"
    by (cases ds) (simp_all add: entropy_gen_def gen_chars_not_Diverge)
  with Some show ?thesis by (auto simp: string_gen_with_def diverge_simps split: if_splits)
qed (simp add: string_gen_with_def)

lemma list_spec_gen_with_not_Diverge:
  "(\<And>d w. d \<in> set ds \<Longrightarrow> f (ls_spec s) d w \<noteq> Diverge) \<Longrightarrow> list_spec_gen_with f s ds w \<noteq> Diverge"
  by (auto simp: list_spec_gen_with_def intro!: rfold_not_Diverge)

lemma fill_list_not_Diverge: "(\<And>w. f w \<noteq> Diverge) \<Longrightarrow> fill_list f start ret w \<noteq> Diverge"
proof (induction f start ret w rule: fill_list.induct)
  case (1 f start ret w)
  then show ?case by (subst fill_list.simps) (auto simp: diverge_simps)
qed

lemma leaf_lists_not_Diverge:
  "list_spec_gen_with enum_gen_with es ts w \<noteq> Diverge"
  "list_spec_gen_with number_gen_with ns ds w \<noteq> Diverge"
  "list_spec_gen_with object_gen_with os cs w \<noteq> Diverge"
  "list_spec_gen_with (string_gen_with (Suc fuel) ops rx None) ss us w \<noteq> Diverge"
  by (auto simp: enum_gen_with_def number_gen_with_def object_gen_with_def
    string_gen_with_not_Diverge intro!: list_spec_gen_with_not_Diverge)

lemma gen_not_Diverge:
  "f0 = Suc fuel \<Longrightarrow> to = None \<Longrightarrow> any_gen f0 ops rx to vs w \<noteq> Diverge"
  "f0 = Suc fuel \<Longrightarrow> to = None \<Longrightarrow> list_gen f0 ops rx to l w \<noteq> Diverge"
  "f0 = Suc fuel \<Longrightarrow> to = None \<Longrightarrow> object_gen f0 ops rx to ob w \<noteq> Diverge"
  "f0 = Suc fuel \<Longrightarrow> to = None \<Longrightarrow> union_gen_with f0 ops rx to u t w \<noteq> Diverge"
  "f0 = Suc fuel \<Longrightarrow> to = None \<Longrightarrow> config_spec_gen f0 ops rx to s w \<noteq> Diverge"
proof (induction f0 ops rx to vs w and f0 ops rx to l w and f0 ops rx to ob w
    and f0 ops rx to u t w and f0 ops rx to s w rule: gen_induct)
  case (11 f0 ops rx to a w)
  have "fill_list (object_gen f0 ops rx to (ls_spec (wdf_inner (wds_inner a)))) st ret w1 \<noteq> Diverge"
    if "with_description_spec (\<lambda>d. with_default_gen (list_spec_gen_with object_gen_with) d w) a = Ok (JArray ret, w1)"
    for st ret w1
    by (rule fill_list_not_Diverge) (use that 11 in \<open>auto simp del: object_gen.simps\<close>)
  then show ?case
    by (auto simp: wrapper_defs with_default_gen_def diverge_simps leaf_lists_not_Diverge
      split: json.splits simp del: object_gen.simps)
next
  case (13 f0 ops rx to a w)
  then show ?case
    by (simp add: wrapper_defs with_default_gen_def list_spec_gen_with_not_Diverge del: union_gen_with.simps)
next
  case (16 f0 ops rx to s w)
  then show ?case
    by (auto simp: config_spec_gen.simps gen_entry_def intro!: rfold_not_Diverge)
qed (auto simp: gen_wrappers string_gen_with_not_Diverge leaf_lists_not_Diverge split: option.splits)

section \<open>Properties\<close>

text \<open>A spec with a union whose default variant holds a random password, and a number.\<close>

definition sample_union_spec :: config_spec where
  "sample_union_spec = ConfigSpec
     [(''rpc'', SUnion (WithDescription (WithDefault (ValueSpecUnion (UnionTag ''type'' ''Type'' None [])
         [(''internal'', ConfigSpec [(''password'', SString (WithDescription (WithDefault (WithNullable
             (ValueSpecString None False True True None) False)
             (Some (DEntropy (Entropy None 1)))) None ''Password'' None))])] None NotUnique)
         ''internal'') None ''RPC'' None)),
      (''peers'', sample_number)]"

definition sample_ops :: "nat gen_ops" where
  "sample_ops = \<lparr>gen_range = \<lambda>n r. (r mod n, Suc r), sample_incl = \<lambda>lo hi r. (lo, Suc r), read_clock = \<lambda>r. (r, Suc r)\<rparr>"

definition sample_union_config :: config where
  "sample_union_config =
     [(''rpc'', JObject [(''type'', JString ''internal''), (''password'', JString ''!'')]),
      (''peers'', JNumber (NInt 8))]"

lemmas sample_union_defs = sample_union_spec_def sample_ops_def sample_union_config_def sample_number_def

lemmas gen_eval = config_spec_gen.simps string_gen_with_def entropy_gen_def gen_entry_def
  char_set_gen_def char_set_default_def utf8_encode_def im_insert_def im_extend_def with_default_gen_def
  number_gen_with_def bt_get_def is_char_def char_of_def bit_0

text \<open>
  C31. When generation succeeds and the declared defaults are consistent with the
  spec, the generated configuration matches the spec: what \<open>gen\<close> produces is
  accepted by \<open>matches\<close>, for every random source, clock and regular expression engine.
\<close>

theorem generated_config_matches:
  assumes "config_spec_gen fuel ops rx to s w = Ok (cfg, w')" and "config_defaults_ok rx to s"
  shows "config_spec_matches rx s cfg = Ok ()"
  using gen_matches(5) [OF assms] by (simp add: cfg_generated_def)

theorem generated_config_matches_witness:
  "config_spec_gen 1 sample_ops (\<lambda>_ _. True) None sample_union_spec 0 = Ok (sample_union_config, 2) \<and>
   config_spec_matches (\<lambda>_ _. True) sample_union_spec sample_union_config = Ok ()"
proof -
  have g: "config_spec_gen 1 sample_ops (\<lambda>_ _. True) None sample_union_spec 0 = Ok (sample_union_config, 2)"
    by (simp add: sample_union_defs spec_eval gen_eval)
  have "config_defaults_ok (\<lambda>_ _. True) None sample_union_spec"
    by (simp add: sample_union_defs spec_eval gen_eval number_value_def)
  with g generated_config_matches [OF g] show ?thesis by simp
qed

text \<open>
  Without a timeout generation always ends: one unit of fuel is enough for every
  spec, random source and regular expression engine. The search for a string that
  matches its pattern is the only loop that depends on the clock.
\<close>

theorem generation_ends: "config_spec_gen (Suc fuel) ops rx None s w \<noteq> Diverge"
  by (rule gen_not_Diverge(5)) (rule refl)+

end
