(* ===== verification/Config_Action.thy ===== *)
theory Config_Action
  imports Db_Model Config_Gen
begin

text \<open>
  What the backend reaches through its context: the procedures a package ships
  (run in its container), the version library, the secret store and the running
  managers. They are an argument of the operations, over a state of the outside
  world that each call may change. The second part is \<^verbatim>\<open>config/action.rs\<close>.
\<close>

section \<open>The context\<close>

record config_res =
  cr_config :: "config option"
  cr_spec :: config_spec

record set_result =
  sr_signal :: "string option"
  sr_depends_on :: "(package_id, health_check_id list) btmap"

text \<open>A procedure fails to run, or exits with a code and a message, or gives its output.\<close>

type_synonym ('w, 'a) call = "'w \<Rightarrow> (error + 'a) \<times> 'w"
type_synonym 'a exit = "(int \<times> string) + 'a"

record 'w ctx_ops =
  satisfies :: "version \<Rightarrow> version_range \<Rightarrow> bool"
  default_version :: version
  exec_get_config :: "procedure \<Rightarrow> package_id \<Rightarrow> version \<Rightarrow> volumes \<Rightarrow> ('w, config_res exit) call"
  exec_set_config :: "procedure \<Rightarrow> package_id \<Rightarrow> version \<Rightarrow> volumes \<Rightarrow> config \<Rightarrow> ('w, set_result exit) call"
  exec_check :: "procedure \<Rightarrow> procedure option \<Rightarrow> package_id \<Rightarrow> version \<Rightarrow> volumes \<Rightarrow> package_id \<Rightarrow> config \<Rightarrow>
    ('w, unit exit) call"
  exec_auto_configure :: "procedure \<Rightarrow> procedure option \<Rightarrow> package_id \<Rightarrow> version \<Rightarrow> volumes \<Rightarrow> package_id \<Rightarrow> config \<Rightarrow>
    ('w, config exit) call"
  manager_signal :: "package_id \<Rightarrow> version \<Rightarrow> string \<Rightarrow> ('w, unit) call option"
  tor_key :: "package_id \<Rightarrow> interface_id \<Rightarrow> ('w, string) call"
  json_path :: "string \<Rightarrow> json \<Rightarrow> json list"
  regex_match :: "string \<Rightarrow> string \<Rightarrow> bool"
  gen_world :: "'w gen_ops"
  show_error :: "error \<Rightarrow> string"

record tagged_dependency_error =
  te_dependency :: package_id
  te_error :: dependency_error

text \<open>The mutable arguments that the operations pass along.\<close>

record 'w sys =
  sys_db :: db
  sys_breakages :: "(package_id, tagged_dependency_error) btmap"
  sys_overrides :: "(package_id, config) btmap"
  sys_world :: 'w

type_synonym ('w, 'a) act = "('w sys, error, 'a) st"

definition map_db :: "(db \<Rightarrow> db) \<Rightarrow> ('w, unit) act" where
  "map_db f = st_modify (\<lambda>s. s\<lparr>sys_db := f (sys_db s)\<rparr>)"

definition call_world :: "('w, 'a) call \<Rightarrow> ('w, 'a) act" where
  "call_world f s =
     (case f (sys_world s) of
        (Inl e, w) \<Rightarrow> (Err e, s\<lparr>sys_world := w\<rparr>)
      | (Inr a, w) \<Rightarrow> (Ok a, s\<lparr>sys_world := w\<rparr>))"

lemma call_world_db [simp]: "sys_db (snd (call_world f s)) = sys_db s"
  by (auto simp: call_world_def split: prod.splits sum.splits)

lemma call_world_not_Diverge [simp]: "fst (call_world f s) \<noteq> Diverge"
  by (auto simp: call_world_def split: prod.splits sum.splits)

section \<open>Config actions\<close>

definition exit_or :: "error_kind \<Rightarrow> 'a exit \<Rightarrow> ('w, 'a) act" where
  "exit_or kind r = (case r of Inl e \<Rightarrow> st_lift (Err (Error kind (Msg (snd e)))) | Inr a \<Rightarrow> st_return a)"

definition config_actions_get ::
  "'w ctx_ops \<Rightarrow> config_actions \<Rightarrow> package_id \<Rightarrow> version \<Rightarrow> volumes \<Rightarrow> ('w, config_res) act" where
  "config_actions_get ctx a pkg_id pkg_version volumes =
     st_bind (call_world (exec_get_config ctx (ca_get a) pkg_id pkg_version volumes)) (exit_or ConfigGen)"

definition config_actions_set ::
  "'w ctx_ops \<Rightarrow> config_actions \<Rightarrow> package_id \<Rightarrow> version \<Rightarrow> (package_id, dep_info) btmap \<Rightarrow> volumes \<Rightarrow>
    config \<Rightarrow> ('w, set_result) act" where
  "config_actions_set ctx a pkg_id pkg_version dependencies volumes input =
     st_bind (call_world (exec_set_config ctx (ca_set a) pkg_id pkg_version volumes input)) (\<lambda>r.
     st_bind (exit_or ConfigRulesViolation r) (\<lambda>res.
     st_return \<lparr>sr_signal = sr_signal res,
       sr_depends_on = filter (\<lambda>e. bt_get dependencies (fst e) \<noteq> None) (sr_depends_on res)\<rparr>))"

text \<open>\<open>DependencyConfig::check\<close>: the message of a failed check.\<close>

definition dependency_config_check ::
  "'w ctx_ops \<Rightarrow> dependency_config \<Rightarrow> procedure option \<Rightarrow> package_id \<Rightarrow> version \<Rightarrow> volumes \<Rightarrow> package_id \<Rightarrow>
    config \<Rightarrow> ('w, string + unit) act" where
  "dependency_config_check ctx c container dependent_id dependent_version dependent_volumes dependency_id cfg =
     st_bind (call_world (exec_check ctx (dc_check c) container dependent_id dependent_version
       dependent_volumes dependency_id cfg))
       (\<lambda>r. st_return (case r of Inl e \<Rightarrow> Inl (snd e) | Inr u \<Rightarrow> Inr u))"

definition dependency_auto_configure ::
  "'w ctx_ops \<Rightarrow> dependency_config \<Rightarrow> procedure option \<Rightarrow> package_id \<Rightarrow> version \<Rightarrow> volumes \<Rightarrow> package_id \<Rightarrow>
    config \<Rightarrow> ('w, config) act" where
  "dependency_auto_configure ctx c container dependent_id dependent_version dependent_volumes name old =
     st_bind (call_world (exec_auto_configure ctx (dc_auto_configure c) container dependent_id dependent_version
       dependent_volumes name old)) (exit_or AutoConfigure)"

text \<open>\<open>spec.gen\<close> with the random source and the clock of the outside world.\<close>

definition config_spec_generate :: "nat \<Rightarrow> 'w ctx_ops \<Rightarrow> nat option \<Rightarrow> config_spec \<Rightarrow> ('w, config) act" where
  "config_spec_generate fuel ctx to spec s =
     (case config_spec_gen fuel (gen_world ctx) (regex_match ctx) to spec (sys_world s) of
        Ok (cfg, w) \<Rightarrow> (Ok cfg, s\<lparr>sys_world := w\<rparr>)
      | Err e \<Rightarrow> (Err (error_of_configuration e), s)
      | Panic \<Rightarrow> (Panic, s)
      | Diverge \<Rightarrow> (Diverge, s))"

section \<open>Relations that calls to the outside world keep\<close>

locale world_rel = state_rel R for R :: "'w sys \<Rightarrow> 'w sys \<Rightarrow> bool" +
  assumes rel_world: "R s (s\<lparr>sys_world := w\<rparr>)"
begin

lemma keeps_call_world: "keeps (call_world f)"
  by (auto simp: keeps_def call_world_def rel_world split: prod.splits sum.splits)

lemma keeps_exit_or: "keeps (exit_or k r)"
  by (auto simp: exit_or_def intro: keeps_basic split: sum.splits)

lemma keeps_generate: "keeps (config_spec_generate fuel ctx to spec)"
  by (auto simp: keeps_def config_spec_generate_def rel_refl rel_world split: res.splits)

lemma keeps_actions:
  "keeps (config_actions_get ctx a i ver vols)"
  "keeps (config_actions_set ctx a i ver deps vols cfg)"
  "keeps (dependency_config_check ctx dc c i ver vols d cfg)"
  "keeps (dependency_auto_configure ctx dc c i ver vols d cfg)"
  unfolding config_actions_get_def config_actions_set_def dependency_config_check_def dependency_auto_configure_def
  by (auto intro!: keeps_bind keeps_basic keeps_call_world keeps_exit_or)

lemmas world_rules = keeps_bind keeps_basic keeps_for keeps_fold keeps_catch keeps_map_err
  keeps_call_world keeps_exit_or keeps_actions keeps_generate

end

text \<open>A relation between databases, read on the states that hold them.\<close>

definition on_db :: "(db \<Rightarrow> db \<Rightarrow> bool) \<Rightarrow> 'w sys \<Rightarrow> 'w sys \<Rightarrow> bool" where
  "on_db R s t \<longleftrightarrow> R (sys_db s) (sys_db t)"

locale db_rel =
  fixes R :: "db \<Rightarrow> db \<Rightarrow> bool"
  assumes db_refl: "R d d"
    and db_trans: "R d e \<Longrightarrow> R e f \<Longrightarrow> R d f"

sublocale db_rel \<subseteq> rel: world_rel "on_db R"
  by unfold_locales (auto simp: on_db_def intro: db_refl db_trans)

context db_rel
begin

lemma keeps_map_db: "(\<And>d. R d (f d)) \<Longrightarrow> rel.keeps (map_db f)"
  unfolding map_db_def by (rule rel.keeps_modify) (simp add: on_db_def)

end

text \<open>Computations that leave the database as it is.\<close>

interpretation same_db: db_rel "(=)"
  by unfold_locales simp_all

text \<open>Computations that change nothing but the outside world.\<close>

definition world_only :: "'w sys \<Rightarrow> 'w sys \<Rightarrow> bool" where
  "world_only s t \<longleftrightarrow> sys_db t = sys_db s \<and> sys_breakages t = sys_breakages s \<and> sys_overrides t = sys_overrides s"

interpretation world: world_rel world_only
  by unfold_locales (auto simp: world_only_def)

section \<open>Properties\<close>

text \<open>
  What \<open>ConfigActions::set\<close> reports as dependencies is restricted to the
  dependencies the manifest declares, and a rules violation is reported when
  the procedure rejects the configuration. The database is not touched.
\<close>

theorem set_action_declared:
  assumes "config_actions_set ctx a pkg ver deps vols cfg s = (r, s')"
  shows "sys_db s' = sys_db s \<and>
    (case r of
       Ok res \<Rightarrow> (\<forall>p hs. (p, hs) \<in> set (sr_depends_on res) \<longrightarrow> bt_get deps p \<noteq> None)
     | Err e \<Rightarrow> err_kind e = ConfigRulesViolation \<or>
         (\<exists>w. exec_set_config ctx (ca_set a) pkg ver vols cfg (sys_world s) = (Inl e, w))
     | _ \<Rightarrow> False)"
proof -
  have "sys_db s' = sys_db s"
    using same_db.rel.keepsD [OF same_db.rel.keeps_actions(2) assms] by (simp add: on_db_def)
  with assms show ?thesis
    by (auto simp: config_actions_set_def exit_or_def call_world_def st_bind_def st_simps
      split: prod.splits sum.splits res.splits)
qed

text \<open>A context in which every procedure succeeds and every version is accepted.\<close>

definition sample_ctx :: "nat ctx_ops" where
  "sample_ctx = \<lparr>satisfies = \<lambda>_ _. True, default_version = ''0.0.0'',
     exec_get_config = \<lambda>_ _ _ _ w. (Inr (Inr \<lparr>cr_config = None, cr_spec = ConfigSpec []\<rparr>), Suc w),
     exec_set_config = \<lambda>_ _ _ _ _ w.
       (Inr (Inr \<lparr>sr_signal = None, sr_depends_on = [(''a'', [''rpc'']), (''x'', [])]\<rparr>), Suc w),
     exec_check = \<lambda>_ _ _ _ _ _ _ w. (Inr (Inr ()), Suc w),
     exec_auto_configure = \<lambda>_ _ _ _ _ _ cfg w. (Inr (Inr cfg), Suc w),
     manager_signal = \<lambda>_ _ _. None, tor_key = \<lambda>_ _ w. (Inr ''KEY'', w), json_path = \<lambda>_ v. [v],
     regex_match = \<lambda>_ _. True, gen_world = sample_ops, show_error = \<lambda>_. []\<rparr>"

definition sample_deps :: "package_id list \<Rightarrow> (package_id, dep_info) btmap" where
  "sample_deps ps = map (\<lambda>p. (p, \<lparr>di_version = ''*'', di_requirement = Required, di_description = None, di_config = None\<rparr>)) ps"

theorem set_action_declared_witness:
  "fst (config_actions_set sample_ctx \<lparr>ca_get = [], ca_set = []\<rparr> ''b'' ''1.0.0'' (sample_deps [''a'']) [] []
      \<lparr>sys_db = [], sys_breakages = [], sys_overrides = [], sys_world = 0\<rparr>) =
     Ok \<lparr>sr_signal = None, sr_depends_on = [(''a'', [''rpc''])]\<rparr> \<and> bt_get (sample_deps [''a'']) ''a'' \<noteq> None"
proof -
  let ?s = "\<lparr>sys_db = [], sys_breakages = [], sys_overrides = [], sys_world = 0\<rparr> :: nat sys"
  have run: "config_actions_set sample_ctx \<lparr>ca_get = [], ca_set = []\<rparr> ''b'' ''1.0.0'' (sample_deps [''a'']) [] [] ?s =
      (Ok \<lparr>sr_signal = None, sr_depends_on = [(''a'', [''rpc''])]\<rparr>, ?s\<lparr>sys_world := 1\<rparr>)"
    by (simp add: config_actions_set_def call_world_def exit_or_def sample_ctx_def sample_deps_def st_bind_def st_simps)
  show ?thesis using run set_action_declared [OF run] by simp
qed

end
