(* ===== verification/Config_Update.thy ===== *)
theory Config_Update
  imports Config_Action
begin

text \<open>
  Filling in pointers: \<open>update\<close> of the specs and \<open>deref\<close> of the pointers in
  \<^verbatim>\<open>config/spec.rs\<close>. The value that the code updates in place is returned.
\<close>

type_synonym ('w, 'a) cfg_act = "('w sys, configuration_error, 'a) st"

section \<open>Dereferencing pointers\<close>

definition str_or_null :: "string option \<Rightarrow> json" where
  "str_or_null x = (case x of Some t \<Rightarrow> JString t | None \<Rightarrow> JNull)"

definition interface_addresses_get :: "db \<Rightarrow> package_id \<Rightarrow> interface_id \<Rightarrow> interface_addresses option" where
  "interface_addresses_get db p i = Option.bind (installed_get db p) (\<lambda>e. bt_get (ip_interface_addresses e) i)"

definition tor_address_deref :: "package_id \<Rightarrow> interface_id \<Rightarrow> ('w, json) cfg_act" where
  "tor_address_deref p i =
     st_get (\<lambda>s. str_or_null (Option.bind (interface_addresses_get (sys_db s) p i) tor_address))"

definition lan_address_deref :: "package_id \<Rightarrow> interface_id \<Rightarrow> ('w, json) cfg_act" where
  "lan_address_deref p i =
     st_get (\<lambda>s. str_or_null (Option.bind (interface_addresses_get (sys_db s) p i) lan_address))"

definition config_selector_select :: "'w ctx_ops \<Rightarrow> string \<Rightarrow> bool \<Rightarrow> json \<Rightarrow> json" where
  "config_selector_select ctx selector multi val =
     (let selected = json_path ctx selector val in
      if multi then JArray selected
      else case selected of v # _ \<Rightarrow> v | [] \<Rightarrow> JNull)"

definition config_pointer_deref :: "'w ctx_ops \<Rightarrow> package_id \<Rightarrow> string \<Rightarrow> bool \<Rightarrow> ('w, json) cfg_act" where
  "config_pointer_deref ctx p selector multi =
     st_bind (st_get (\<lambda>s. bt_get (sys_overrides s) p)) (\<lambda>over.
     case over of
       Some cfg \<Rightarrow> st_return (config_selector_select ctx selector multi (JObject cfg))
     | None \<Rightarrow>
         st_bind (st_get (\<lambda>s. manifest_get (sys_db s) p)) (\<lambda>m.
         case m of
           None \<Rightarrow> st_return JNull
         | Some man \<Rightarrow>
             (case m_config man of
                None \<Rightarrow> st_return JNull
              | Some cfg_actions \<Rightarrow>
                  st_bind (st_map_err SystemError
                    (config_actions_get ctx cfg_actions p (m_version man) (m_volumes man))) (\<lambda>cfg_res.
                  st_return (case cr_config cfg_res of
                    Some cfg \<Rightarrow> config_selector_select ctx selector multi (JObject cfg)
                  | None \<Rightarrow> JNull)))))"

definition tor_key_deref :: "'w ctx_ops \<Rightarrow> package_id \<Rightarrow> package_id \<Rightarrow> interface_id \<Rightarrow> ('w, json) cfg_act" where
  "tor_key_deref ctx source_package p i =
     (if p \<noteq> source_package then st_lift (Err (PermissionDenied (Package (TorKey p i))))
      else st_bind (st_map_err SystemError (call_world (tor_key ctx p i))) (\<lambda>k. st_return (JString k)))"

fun package_pointer_deref :: "'w ctx_ops \<Rightarrow> manifest \<Rightarrow> package_pointer_spec \<Rightarrow> ('w, json) cfg_act" where
  "package_pointer_deref ctx m (TorKey p i) = tor_key_deref ctx (m_id m) p i"
| "package_pointer_deref ctx m (TorAddress p i) = tor_address_deref p i"
| "package_pointer_deref ctx m (LanAddress p i) = lan_address_deref p i"
| "package_pointer_deref ctx m (ConfigPtr p selector multi) = config_pointer_deref ctx p selector multi"

fun pointer_update :: "'w ctx_ops \<Rightarrow> manifest \<Rightarrow> value_spec_pointer \<Rightarrow> json \<Rightarrow> ('w, json) cfg_act" where
  "pointer_update ctx m (Package p) v = package_pointer_deref ctx m p"

section \<open>Updating values\<close>

definition boolean_update :: "value_spec_boolean \<Rightarrow> json \<Rightarrow> ('w, json) cfg_act" where
  "boolean_update s v = st_return v"

definition enum_update :: "value_spec_enum \<Rightarrow> json \<Rightarrow> ('w, json) cfg_act" where
  "enum_update s v = st_return v"

definition number_update :: "value_spec_number \<Rightarrow> json \<Rightarrow> ('w, json) cfg_act" where
  "number_update s v = st_return v"

definition string_update :: "value_spec_string \<Rightarrow> json \<Rightarrow> ('w, json) cfg_act" where
  "string_update s v = st_return v"

fun prepend_no_match :: "string \<Rightarrow> configuration_error \<Rightarrow> configuration_error" where
  "prepend_no_match seg (NoMatch e) = NoMatch (prepend seg e)"
| "prepend_no_match seg e = e"

definition list_spec_update ::
  "('t \<Rightarrow> json \<Rightarrow> ('w, json) cfg_act) \<Rightarrow> 't list_spec \<Rightarrow> json \<Rightarrow> ('w, json) cfg_act" where
  "list_spec_update f s v =
     (case v of
        JArray ls \<Rightarrow>
          st_bind (st_fold (\<lambda>(i, x) acc.
              st_bind (st_map_err (prepend_no_match (idx_text i)) (f (ls_spec s) x)) (\<lambda>x'. st_return (acc @ [x'])))
            (List.enumerate 0 ls) []) (\<lambda>ls'. st_return (JArray ls'))
      | _ \<Rightarrow> st_lift (Err (NoMatch (no_match_new (EInvalidType ''list'' (type_of v))))))"

lemma list_spec_update_cong [fundef_cong]:
  "s = s' \<Longrightarrow> v = v' \<Longrightarrow> (\<And>x. f (ls_spec s') x = g (ls_spec s') x) \<Longrightarrow>
     list_spec_update f s v = list_spec_update g s' v'"
proof -
  assume eqs: "s = s'" "v = v'" and "\<And>x. f (ls_spec s') x = g (ls_spec s') x"
  then have "f (ls_spec s') = g (ls_spec s')" by blast
  with eqs show ?thesis by (simp only: list_spec_update_def)
qed

text \<open>One entry of a \<open>ConfigSpec\<close>: a missing value starts as null.\<close>

definition update_entry :: "string \<Rightarrow> (json \<Rightarrow> ('w, json) cfg_act) \<Rightarrow> config \<Rightarrow> ('w, config) cfg_act" where
  "update_entry k f cfg =
     (case im_get cfg k of
        None \<Rightarrow> st_bind (f JNull) (\<lambda>v. st_return (im_insert k v cfg))
      | Some v \<Rightarrow> st_bind (st_map_err (prepend_no_match k) (f v)) (\<lambda>v'. st_return (im_insert k v' cfg)))"

lemma update_entry_cong [fundef_cong]:
  "k = k' \<Longrightarrow> c = c' \<Longrightarrow> (\<And>x. f x = g x) \<Longrightarrow> update_entry k f c = update_entry k' g c'"
  by (metis ext)

function any_update :: "'w ctx_ops \<Rightarrow> manifest \<Rightarrow> value_spec_any \<Rightarrow> json \<Rightarrow> ('w, json) cfg_act"
  and value_list_update :: "'w ctx_ops \<Rightarrow> manifest \<Rightarrow> value_spec_list \<Rightarrow> json \<Rightarrow> ('w, json) cfg_act"
  and object_update :: "'w ctx_ops \<Rightarrow> manifest \<Rightarrow> value_spec_object \<Rightarrow> json \<Rightarrow> ('w, json) cfg_act"
  and union_update :: "'w ctx_ops \<Rightarrow> manifest \<Rightarrow> value_spec_union \<Rightarrow> json \<Rightarrow> ('w, json) cfg_act"
  and config_spec_update :: "'w ctx_ops \<Rightarrow> manifest \<Rightarrow> config_spec \<Rightarrow> config \<Rightarrow> ('w, config) cfg_act" where
  "any_update ctx m (SBoolean a) v = with_description_spec (with_default_spec (\<lambda>s. boolean_update s v)) a"
| "any_update ctx m (SEnum a) v = with_description_spec (with_default_spec (\<lambda>s. enum_update s v)) a"
| "any_update ctx m (SList a) v = value_list_update ctx m a v"
| "any_update ctx m (SNumber a) v =
     with_description_spec (with_default_spec (with_nullable_spec (\<lambda>s. number_update s v))) a"
| "any_update ctx m (SObject a) v = with_description_spec (\<lambda>s. object_update ctx m s v) a"
| "any_update ctx m (SString a) v =
     with_description_spec (with_default_spec (with_nullable_spec (\<lambda>s. string_update s v))) a"
| "any_update ctx m (SUnion a) v = with_description_spec (with_default_spec (\<lambda>s. union_update ctx m s v)) a"
| "any_update ctx m (SPointer a) v = with_description_spec (\<lambda>p. pointer_update ctx m p v) a"
| "value_list_update ctx m (LEnum a) v =
     with_description_spec (with_default_spec (\<lambda>ls. list_spec_update enum_update ls v)) a"
| "value_list_update ctx m (LNumber a) v =
     with_description_spec (with_default_spec (\<lambda>ls. list_spec_update number_update ls v)) a"
| "value_list_update ctx m (LObject a) v =
     with_description_spec (with_default_spec (\<lambda>ls. list_spec_update (\<lambda>s x. object_update ctx m s x) ls v)) a"
| "value_list_update ctx m (LString a) v =
     with_description_spec (with_default_spec (\<lambda>ls. list_spec_update string_update ls v)) a"
| "value_list_update ctx m (LUnion a) v =
     with_description_spec (with_default_spec (\<lambda>ls.
       list_spec_update (\<lambda>wd x. with_default_spec (\<lambda>s. union_update ctx m s x) wd) ls v)) a"
| "object_update ctx m s v =
     (case v of
        JObject o' \<Rightarrow> st_bind (config_spec_update ctx m (obj_spec s) o') (\<lambda>c. st_return (JObject c))
      | _ \<Rightarrow> st_lift (Err (NoMatch (no_match_new (EInvalidType ''object'' (type_of v))))))"
| "union_update ctx m s v =
     (case v of
        JObject o' \<Rightarrow>
          (case im_get o' (tag_id (uni_tag s)) of
             None \<Rightarrow> st_lift (Err (NoMatch (no_match_new (EMissingTag (tag_id (uni_tag s))))))
           | Some (JString tag) \<Rightarrow>
               (case bt_get (uni_variants s) tag of
                  None \<Rightarrow> st_lift (Err (NoMatch (no_match_new (EUnion tag (map fst (uni_variants s))))))
                | Some spec \<Rightarrow> st_bind (config_spec_update ctx m spec o') (\<lambda>c. st_return (JObject c)))
           | Some other \<Rightarrow>
               st_lift (Err (NoMatch (prepend (tag_id (uni_tag s))
                 (no_match_new (EInvalidType ''string'' (type_of other)))))))
      | _ \<Rightarrow> st_lift (Err (NoMatch (no_match_new (EInvalidType ''object'' (type_of v))))))"
| "config_spec_update ctx m s cfg =
     st_fold (\<lambda>e c. update_entry (fst e) (\<lambda>v. any_update ctx m (snd e) v) c) (spec_entries s) cfg"
  by pat_completeness auto
termination
  by (relation "measure (\<lambda>x. case x of
      Inl (Inl (_, _, s, _)) \<Rightarrow> size s
    | Inl (Inr (_, _, s, _)) \<Rightarrow> size s
    | Inr (Inl (_, _, s, _)) \<Rightarrow> size s
    | Inr (Inr (Inl (_, _, s, _))) \<Rightarrow> size s
    | Inr (Inr (Inr (_, _, s, _))) \<Rightarrow> size s)")
    (auto simp: termination_simp)

declare config_spec_update.simps [simp del]

lemmas update_induct = any_update_value_list_update_object_update_union_update_config_spec_update.induct

section \<open>What updating leaves alone\<close>

context world_rel
begin

lemma keeps_config_pointer_deref: "keeps (config_pointer_deref ctx p sel multi)"
  unfolding config_pointer_deref_def by (auto intro!: world_rules split: option.splits)

lemma keeps_pointer_deref: "keeps (package_pointer_deref ctx m p)"
  by (cases p) (auto simp: tor_key_deref_def tor_address_deref_def lan_address_deref_def
    intro!: world_rules keeps_config_pointer_deref)

lemma keeps_pointer_update: "keeps (pointer_update ctx m p v)"
  by (cases p) (simp add: keeps_pointer_deref)

lemma keeps_list_spec_update:
  "(\<And>x. keeps (f (ls_spec s) x)) \<Longrightarrow> keeps (list_spec_update f s v)"
  unfolding list_spec_update_def by (auto intro!: world_rules split: json.splits prod.splits)

lemma keeps_update_entry: "(\<And>v. keeps (f v)) \<Longrightarrow> keeps (update_entry k f cfg)"
  unfolding update_entry_def by (auto intro!: world_rules split: option.splits)

lemma keeps_update:
  "keeps (any_update ctx m vs v)"
  "keeps (value_list_update ctx m l v)"
  "keeps (object_update ctx m ob v)"
  "keeps (union_update ctx m u v)"
  "keeps (config_spec_update ctx m s cfg)"
proof (induction ctx m vs v and ctx m l v and ctx m ob v and ctx m u v and ctx m s cfg rule: update_induct)
  case (11 ctx m a v)
  then show ?case by (auto simp: wrapper_defs simp del: object_update.simps intro!: keeps_list_spec_update)
next
  case (13 ctx m a v)
  then show ?case by (auto simp: wrapper_defs simp del: union_update.simps intro!: keeps_list_spec_update)
next
  case (16 ctx m s cfg)
  then show ?case unfolding config_spec_update.simps by (intro keeps_fold keeps_update_entry) auto
qed (auto simp: wrapper_defs boolean_update_def enum_update_def number_update_def string_update_def
    intro!: world_rules keeps_pointer_update keeps_list_spec_update split: json.splits option.splits)

end

section \<open>What updating does to a configuration\<close>

lemma update_entry_Ok:
  "update_entry k f cfg s = (Ok cfg', s') \<longleftrightarrow> (\<exists>v'. f (cfg_value cfg k) s = (Ok v', s') \<and> cfg' = im_insert k v' cfg)"
  by (auto simp: update_entry_def cfg_value_def st_bind_eq_Ok st_map_err_eq_Ok st_simps split: option.splits)

lemma update_entries_Ok:
  assumes "st_fold (\<lambda>e c. update_entry (fst e) (f e) c) es cfg s = (Ok cfg', s')" and "im_ok es"
  shows "(im_ok cfg \<longrightarrow> im_ok cfg') \<and> (\<forall>k. k \<notin> fst ` set es \<longrightarrow> im_get cfg' k = im_get cfg k) \<and>
    (\<forall>e \<in> set es. \<exists>u u' v'. f e (cfg_value cfg (fst e)) u = (Ok v', u') \<and> im_get cfg' (fst e) = Some v')"
  using assms
proof (induction es arbitrary: cfg s)
  case (Cons e es)
  then obtain v' s1 where v': "f e (cfg_value cfg (fst e)) s = (Ok v', s1)"
    and rest: "st_fold (\<lambda>e c. update_entry (fst e) (f e) c) es (im_insert (fst e) v' cfg) s1 = (Ok cfg', s')"
    by (auto simp: st_bind_eq_Ok update_entry_Ok)
  have fresh: "fst e \<notin> fst ` set es" "im_ok es" using Cons.prems(2) by auto
  note ih = Cons.IH [OF rest fresh(2)]
  have same: "cfg_value (im_insert (fst e) v' cfg) (fst x) = cfg_value cfg (fst x)" if "x \<in> set es" for x
  proof -
    have "fst x \<noteq> fst e" using that fresh(1) by (metis imageI)
    then show ?thesis by (simp add: cfg_value_def)
  qed
  have "im_get cfg' (fst e) = im_get (im_insert (fst e) v' cfg) (fst e)" using ih fresh(1) by blast
  then have e: "im_get cfg' (fst e) = Some v'" by simp
  have ok: "im_ok cfg \<longrightarrow> im_ok cfg'" 
    by (intro impI) (rule ih [THEN conjunct1, rule_format, OF im.ok_put])
  have frame: "im_get cfg' k = im_get cfg k" if "k \<notin> fst ` set (e # es)" for k
  proof -
    have "im_get cfg' k = im_get (im_insert (fst e) v' cfg) k" using ih that by simp
    then show ?thesis using that by simp
  qed
  have "\<exists>u u' w. f x (cfg_value cfg (fst x)) u = (Ok w, u') \<and> im_get cfg' (fst x) = Some w" if "x \<in> set es" for x
    using ih same [OF that] that by metis
  then show ?case using v' e ok frame by auto
qed (auto simp: st_simps)

lemma list_update_members:
  assumes "list_spec_update f ls (JArray xs) s = (Ok v, s')"
  shows "\<exists>ys. v = JArray ys \<and> list_all2 (\<lambda>x y. \<exists>u u'. f (ls_spec ls) x u = (Ok y, u')) xs ys"
proof -
  have "\<exists>ys. r = acc @ ys \<and> list_all2 (\<lambda>x y. \<exists>u u'. f (ls_spec ls) x u = (Ok y, u')) xs ys"
    if "st_fold (\<lambda>(i, x) acc. st_bind (st_map_err (prepend_no_match (idx_text i)) (f (ls_spec ls) x))
        (\<lambda>x'. st_return (acc @ [x']))) (List.enumerate n xs) acc s = (Ok r, s')" for n acc r s s'
    using that
  proof (induction xs arbitrary: n acc s)
    case (Cons x xs)
    then obtain y s1 where y: "f (ls_spec ls) x s = (Ok y, s1)"
      and rest: "st_fold (\<lambda>(i, x) acc. st_bind (st_map_err (prepend_no_match (idx_text i)) (f (ls_spec ls) x))
        (\<lambda>x'. st_return (acc @ [x']))) (List.enumerate (Suc n) xs) (acc @ [y]) s1 = (Ok r, s')"
      by (auto simp: st_bind_eq_Ok st_map_err_eq_Ok st_return_eq)
    from Cons.IH [OF rest] y show ?case by fastforce
  qed (auto simp: st_return_eq)
  with assms show ?thesis by (fastforce simp: list_spec_update_def st_bind_eq_Ok st_return_eq)
qed

text \<open>
  Specs in which no list of objects or unions asks for unique members, and no variant of a union
  reuses its tag.
\<close>

function any_plain :: "value_spec_any \<Rightarrow> bool"
  and list_plain :: "value_spec_list \<Rightarrow> bool"
  and object_plain :: "value_spec_object \<Rightarrow> bool"
  and union_plain :: "value_spec_union \<Rightarrow> bool"
  and config_plain :: "config_spec \<Rightarrow> bool" where
  "any_plain (SBoolean a) = True"
| "any_plain (SEnum a) = True"
| "any_plain (SList a) = list_plain a"
| "any_plain (SNumber a) = True"
| "any_plain (SObject a) = object_plain (wds_inner a)"
| "any_plain (SString a) = True"
| "any_plain (SUnion a) = union_plain (wdf_inner (wds_inner a))"
| "any_plain (SPointer a) = True"
| "list_plain (LEnum a) = True"
| "list_plain (LNumber a) = True"
| "list_plain (LObject a) =
     (let s = ls_spec (wdf_inner (wds_inner a)) in obj_unique_by s = NotUnique \<and> object_plain s)"
| "list_plain (LString a) = True"
| "list_plain (LUnion a) =
     (let s = wdf_inner (ls_spec (wdf_inner (wds_inner a))) in uni_unique_by s = NotUnique \<and> union_plain s)"
| "object_plain s = config_plain (obj_spec s)"
| "union_plain s =
     list_all (\<lambda>e. im_get (spec_entries (snd e)) (tag_id (uni_tag s)) = None \<and> config_plain (snd e)) (uni_variants s)"
| "config_plain s = (im_ok (spec_entries s) \<and> list_all (\<lambda>e. any_plain (snd e)) (spec_entries s))"
  by pat_completeness auto
termination
  by (relation "measure (\<lambda>x. case x of
      Inl (Inl s) \<Rightarrow> size s
    | Inl (Inr s) \<Rightarrow> size s
    | Inr (Inl s) \<Rightarrow> size s
    | Inr (Inr (Inl s)) \<Rightarrow> size s
    | Inr (Inr (Inr s)) \<Rightarrow> size s)")
    (auto simp: termination_simp)

lemma list_all2_setD: "list_all2 P xs ys \<Longrightarrow> y \<in> set ys \<Longrightarrow> \<exists>x \<in> set xs. P x y"
  by (induction rule: list_all2_induct) auto

lemma plain_list_update_matches:
  assumes "list_spec_matches f eq ls v = Ok ()" and "list_spec_update g ls v s = (Ok v', s')"
    and "\<And>x y. \<not> eq (ls_spec ls) x y"
    and "\<And>x y u u' l. v = JArray l \<Longrightarrow> x \<in> set l \<Longrightarrow> f (ls_spec ls) x = Ok () \<Longrightarrow> g (ls_spec ls) x u = (Ok y, u') \<Longrightarrow>
      f (ls_spec ls) y = Ok ()"
  shows "list_spec_matches f eq ls v' = Ok ()"
proof -
  obtain l where l: "v = JArray l" using assms(1) by (blast dest: list_spec_matches_array)
  obtain ys where ys: "v' = JArray ys" "list_all2 (\<lambda>x y. \<exists>u u'. g (ls_spec ls) x u = (Ok y, u')) l ys"
    using list_update_members [OF assms(2) [unfolded l]] by blast
  have "f (ls_spec ls) y = Ok ()" if y: "y \<in> set ys" for y
  proof -
    obtain x u u' where "x \<in> set l" "g (ls_spec ls) x u = (Ok y, u')"
      using list_all2_setD [OF ys(2) y] by blast
    moreover have "f (ls_spec ls) x = Ok ()" if "x \<in> set l" for x
      using assms(1) that by (simp add: l list_spec_matches_Ok)
    ultimately show ?thesis using assms(4) [OF l] by blast
  qed
  moreover have "length ys = length l" using ys(2) by (simp add: list_all2_lengthD)
  ultimately show ?thesis
    using assms(1,3) by (simp add: l ys(1) list_spec_matches_Ok)
qed

lemma leaf_list_update: "list_spec_update (\<lambda>_ v. st_return v) ls v (s :: 'w sys) = (Ok v', s') \<Longrightarrow> v' = v"
proof -
  assume run: "list_spec_update (\<lambda>_ v. st_return v) ls v (s :: 'w sys) = (Ok v', s')"
  then obtain l where l: "v = JArray l" by (auto simp: list_spec_update_def st_simps split: json.splits)
  obtain ys where "v' = JArray ys" "list_all2 (\<lambda>x y. y = x) l ys"
    using list_update_members [OF run [unfolded l]] by (auto simp: st_return_eq)
  then show "v' = v" by (simp add: l list_all2_conv_all_nth list_eq_iff_nth_eq)
qed

lemma leaf_lists_update:
  "list_spec_update enum_update es v s = (Ok v', s') \<Longrightarrow> v' = v"
  "list_spec_update number_update ns v s = (Ok v', s') \<Longrightarrow> v' = v"
  "list_spec_update string_update ss v s = (Ok v', s') \<Longrightarrow> v' = v"
  by (simp_all add: enum_update_def [abs_def] number_update_def [abs_def] string_update_def [abs_def] leaf_list_update)

lemma union_update_matches:
  assumes "union_matches rx s (JObject o') = Ok ()" and "im_ok o'" and "im_ok c'"
    and tag: "im_get o' (tag_id (uni_tag s)) = Some (JString t)" and variant: "bt_get (uni_variants s) t = Some c"
    and fresh: "im_get (spec_entries c) (tag_id (uni_tag s)) = None"
    and keep: "im_get c' (tag_id (uni_tag s)) = im_get o' (tag_id (uni_tag s))"
    and step: "config_spec_matches rx c o' = Ok () \<Longrightarrow> config_spec_matches rx c c' = Ok ()"
  shows "union_matches rx s (JObject c') = Ok ()"
proof -
  let ?tag = "tag_id (uni_tag s)"
  have drop: "config_spec_matches rx c (im_remove ?tag m) = config_spec_matches rx c m" if "im_ok m" for m
  proof (rule config_spec_matches_cong)
    fix k assume "k \<in> fst ` set (spec_entries c)"
    then have "k \<noteq> ?tag" using fresh im_get_None by metis
    then show "im_get (im_remove ?tag m) k = im_get m k" by (simp add: im.lookup_del [OF that])
  qed
  show ?thesis using assms(1) tag variant keep step drop [OF assms(2)] drop [OF assms(3)] by simp
qed

lemma update_matches:
  "any_update ctx m vs v s = (Ok v', s') \<Longrightarrow> any_plain vs \<Longrightarrow> value_ok v \<Longrightarrow> any_matches rx vs v = Ok () \<Longrightarrow>
     any_matches rx vs v' = Ok ()"
  "value_list_update ctx m l v s = (Ok v', s') \<Longrightarrow> list_plain l \<Longrightarrow> value_ok v \<Longrightarrow> list_matches rx l v = Ok () \<Longrightarrow>
     list_matches rx l v' = Ok ()"
  "object_update ctx m ob v s = (Ok v', s') \<Longrightarrow> object_plain ob \<Longrightarrow> value_ok v \<Longrightarrow> object_matches rx ob v = Ok () \<Longrightarrow>
     object_matches rx ob v' = Ok ()"
  "union_update ctx m u v s = (Ok v', s') \<Longrightarrow> union_plain u \<Longrightarrow> value_ok v \<Longrightarrow> union_matches rx u v = Ok () \<Longrightarrow>
     union_matches rx u v' = Ok ()"
  "config_spec_update ctx m cs cfg s = (Ok cfg', s') \<Longrightarrow> config_plain cs \<Longrightarrow> value_ok (JObject cfg) \<Longrightarrow>
     im_ok cfg' \<and> (\<forall>k. im_get (spec_entries cs) k = None \<longrightarrow> im_get cfg' k = im_get cfg k) \<and>
     (config_spec_matches rx cs cfg = Ok () \<longrightarrow> config_spec_matches rx cs cfg' = Ok ())"
proof (induction ctx m vs v and ctx m l v and ctx m ob v and ctx m u v and ctx m cs cfg
    arbitrary: s v' s' and s v' s' and s v' s' and s v' s' and s cfg' s' rule: update_induct)
  case (11 ctx m a v)
  define ls where "ls = wdf_inner (wds_inner a)"
  have plain: "obj_unique_by (ls_spec ls) = NotUnique" "object_plain (ls_spec ls)"
    using "11.prems"(2) by (auto simp: Let_def ls_def)
  have "list_spec_matches (object_matches rx) object_eq ls v' = Ok ()"
  proof (rule plain_list_update_matches)
    show "list_spec_matches (object_matches rx) object_eq ls v = Ok ()"
      using "11.prems"(4) by (simp add: wrapper_defs ls_def del: object_matches.simps)
    show "list_spec_update (object_update ctx m) ls v s = (Ok v', s')"
      using "11.prems"(1) by (simp add: wrapper_defs ls_def del: object_update.simps)
    show "object_matches rx (ls_spec ls) y = Ok ()"
      if "v = JArray l" "x \<in> set l" "object_matches rx (ls_spec ls) x = Ok ()"
        "object_update ctx m (ls_spec ls) x w = (Ok y, w')" for x y w w' l
      using that "11.IH" [of x w y w'] plain(2) "11.prems"(3) by (simp add: ls_def list_all_iff del: object_matches.simps object_update.simps object_plain.simps)
  qed (simp add: object_eq_not_unique plain(1))
  then show ?case by (simp add: wrapper_defs ls_def del: object_matches.simps)
next
  case (13 ctx m a v)
  define ls where "ls = wdf_inner (wds_inner a)"
  have plain: "uni_unique_by (wdf_inner (ls_spec ls)) = NotUnique" "union_plain (wdf_inner (ls_spec ls))"
    using "13.prems"(2) by (auto simp: Let_def ls_def)
  have "list_spec_matches (\<lambda>w x. with_default_spec (\<lambda>s. union_matches rx s x) w) (with_default_spec union_eq) ls v' = Ok ()"
  proof (rule plain_list_update_matches)
    show "list_spec_matches (\<lambda>w x. with_default_spec (\<lambda>s. union_matches rx s x) w) (with_default_spec union_eq) ls v = Ok ()"
      using "13.prems"(4) by (simp add: wrapper_defs ls_def del: union_matches.simps)
    show "list_spec_update (\<lambda>wd x. with_default_spec (\<lambda>s. union_update ctx m s x) wd) ls v s = (Ok v', s')"
      using "13.prems"(1) by (simp add: wrapper_defs ls_def del: union_update.simps)
    show "with_default_spec (\<lambda>s. union_matches rx s y) (ls_spec ls) = Ok ()"
      if "v = JArray l" "x \<in> set l" "with_default_spec (\<lambda>s. union_matches rx s x) (ls_spec ls) = Ok ()"
        "with_default_spec (\<lambda>s. union_update ctx m s x) (ls_spec ls) w = (Ok y, w')" for x y w w' l
      using that "13.IH" [of x w y w'] plain(2) "13.prems"(3)
      by (simp add: wrapper_defs ls_def list_all_iff del: union_matches.simps union_update.simps union_plain.simps)
  qed (simp add: with_default_spec_def union_eq_not_unique plain(1))
  then show ?case by (simp add: wrapper_defs ls_def del: union_matches.simps)
next
  case (14 ctx m ob v)
  then obtain o' where v: "v = JObject o'" by (auto simp: st_simps split: json.splits)
  with "14.prems"(1) obtain c where c: "config_spec_update ctx m (obj_spec ob) o' s = (Ok c, s')" "v' = JObject c"
    by (auto simp: st_bind_eq_Ok st_return_eq)
  with "14.IH" [OF v c(1)] "14.prems"(2-) v show ?case by simp
next
  case (15 ctx m u v)
  then obtain o' where v: "v = JObject o'" by (auto simp: st_simps split: json.splits)
  with "15.prems"(1) obtain t where t: "im_get o' (tag_id (uni_tag u)) = Some (JString t)"
    by (auto simp: st_simps split: option.splits json.splits)
  with "15.prems"(1) v obtain c where c: "bt_get (uni_variants u) t = Some c"
    by (auto simp: st_simps split: option.splits)
  with "15.prems"(1) v t obtain c' where c': "config_spec_update ctx m c o' s = (Ok c', s')" "v' = JObject c'"
    by (auto simp: st_bind_eq_Ok st_return_eq)
  have plain: "im_get (spec_entries c) (tag_id (uni_tag u)) = None" "config_plain c"
    using "15.prems"(2) bt_get_SomeD [OF c] by (auto simp: list_all_iff)
  note ih = "15.IH" [OF v t refl c c'(1) plain(2) "15.prems"(3) [unfolded v]]
  show ?case
    unfolding c'(2)
    using "15.prems"(4) [unfolded v] _ _ t c plain(1)
  proof (rule union_update_matches)
    show "im_ok o'" using "15.prems"(3) v by simp
  qed (use ih plain(1) in blast)+
next
  case (16 ctx m cs cfg)
  have ok: "im_ok (spec_entries cs)" using "16.prems"(2) by simp
  note es = update_entries_Ok [OF "16.prems"(1) [unfolded config_spec_update.simps] ok]
  have "any_matches rx vs (cfg_value cfg' k) = Ok ()"
    if e: "(k, vs) \<in> set (spec_entries cs)" and mt: "any_matches rx vs (cfg_value cfg k) = Ok ()" for k vs
  proof -
    obtain u u' w where w: "any_update ctx m vs (cfg_value cfg k) u = (Ok w, u')" "im_get cfg' k = Some w"
      using es e by fastforce
    have "value_ok (cfg_value cfg k)"
      using "16.prems"(3) im_get_SomeD by (fastforce simp: cfg_value_def list_all_iff split: option.splits)
    moreover have "any_plain vs" using "16.prems"(2) e by (auto simp: list_all_iff)
    ultimately have "any_matches rx vs w = Ok ()" using "16.IH" e w(1) mt by fastforce
    with w(2) show ?thesis by (simp add: cfg_value_def)
  qed
  then have "config_spec_matches rx cs cfg = Ok () \<longrightarrow> config_spec_matches rx cs cfg' = Ok ()"
    by (auto simp: config_spec_matches_Ok)
  with es "16.prems"(3) show ?case by (simp add: im_get_None)
qed (auto simp: wrapper_defs boolean_update_def enum_update_def number_update_def string_update_def st_return_eq
  pointer_matches_def with_nullable_matches_def dest: leaf_lists_update)

section \<open>Properties\<close>

text \<open>A list of objects that are unique by the address they point to.\<close>

definition sample_unique_spec :: config_spec where
  "sample_unique_spec = ConfigSpec [(''nodes'', SList (LObject (WithDescription (WithDefault
     (ListSpec (ValueSpecObject (ConfigSpec [(''node'', sample_pointer)]) None (Exactly ''node'')) (Included 0, Unbounded))
     []) None ''Nodes'' None)))]"

definition sample_unique_config :: config where
  "sample_unique_config = [(''nodes'', JArray [JObject [(''node'', JString ''a'')], JObject [(''node'', JString ''b'')]])]"

text \<open>
  Filling in pointers keeps a configuration valid: when it matches its spec before, it matches afterwards,
  for specs in which no list of objects or unions asks for unique members. Only the outside world
  may change on the way, the database, the overrides and the breakages stay as they are.
\<close>

theorem update_preserves_matches:
  assumes "config_spec_update ctx m cs cfg s = (Ok cfg', s')" and "config_plain cs" and "value_ok (JObject cfg)"
    and "config_spec_matches rx cs cfg = Ok ()"
  shows "config_spec_matches rx cs cfg' = Ok () \<and> world_only s s'"
  using update_matches(5) [OF assms(1-3)] assms(4) world.keepsD [OF world.keeps_update(5) assms(1)] by blast

theorem update_preserves_matches_witness:
  "fst (config_spec_update sample_ctx sample_manifest sample_spec [(''peers'', JNumber (NInt 8))]
      \<lparr>sys_db = [], sys_breakages = [], sys_overrides = [], sys_world = 0\<rparr>) =
     Ok [(''peers'', JNumber (NInt 8)), (''node'', JNull)] \<and>
   config_spec_matches (\<lambda>_ _. True) sample_spec [(''peers'', JNumber (NInt 8)), (''node'', JNull)] = Ok ()"
proof -
  let ?s = "\<lparr>sys_db = [], sys_breakages = [], sys_overrides = [], sys_world = 0\<rparr> :: nat sys"
  have run: "config_spec_update sample_ctx sample_manifest sample_spec [(''peers'', JNumber (NInt 8))] ?s =
      (Ok [(''peers'', JNumber (NInt 8)), (''node'', JNull)], ?s)"
    by (simp add: config_spec_update.simps sample_defs update_entry_def wrapper_defs tor_address_deref_def number_update_def
      interface_addresses_get_def installed_get_def str_or_null_def st_eval st_bind_def st_map_err_def im_insert_def)
  have "config_spec_matches (\<lambda>_ _. True) sample_spec [(''peers'', JNumber (NInt 8))] = Ok ()" "config_plain sample_spec"
    by (simp_all add: sample_defs spec_eval)
  with run update_preserves_matches [OF run] show ?thesis by simp
qed

text \<open>
  Uniqueness is only checked before the pointers are filled in: there are a spec and a configuration that
  matches it, for which \<open>update\<close> succeeds and yields a configuration that no longer matches.
\<close>

theorem update_can_break_uniqueness:
  "\<exists>cs cfg cfg'. config_spec_matches rx cs cfg = Ok () \<and>
     fst (config_spec_update ctx m cs cfg \<lparr>sys_db = [], sys_breakages = [], sys_overrides = [], sys_world = w\<rparr>) = Ok cfg' \<and>
     config_spec_matches rx cs cfg' \<noteq> Ok ()"
  by (rule exI [of _ sample_unique_spec], rule exI [of _ sample_unique_config],
      rule exI [of _ "[(''nodes'', JArray [JObject [(''node'', JNull)], JObject [(''node'', JNull)]])]"])
    (simp add: sample_unique_spec_def sample_unique_config_def sample_pointer_def spec_eval config_spec_update.simps
      update_entry_def wrapper_defs tor_address_deref_def interface_addresses_get_def installed_get_def str_or_null_def
      list_spec_update_def st_eval st_bind_def st_map_err_def im_insert_def list_ex_iff)

text \<open>
  A package never gets the Tor secret key of another package: when the spec has a pointer to
  such a key, filling in the pointers does not succeed, whatever the database and the secret store hold.
\<close>

theorem foreign_tor_key_denied:
  assumes "im_get (spec_entries cs) k = Some (SPointer (WithDescription (Package (TorKey p i)) d n w))"
    and "im_ok (spec_entries cs)" and "p \<noteq> m_id m"
  shows "\<nexists>cfg' s'. config_spec_update ctx m cs cfg s = (Ok cfg', s')"
proof
  assume "\<exists>cfg' s'. config_spec_update ctx m cs cfg s = (Ok cfg', s')"
  then obtain cfg' s' where run: "config_spec_update ctx m cs cfg s = (Ok cfg', s')" by blast
  obtain u u' v' where "any_update ctx m (SPointer (WithDescription (Package (TorKey p i)) d n w)) (cfg_value cfg k) u = (Ok v', u')"
    using update_entries_Ok [OF run [unfolded config_spec_update.simps] assms(2)] im_get_SomeD [OF assms(1)] by fastforce
  then show False using assms(3) by (simp add: wrapper_defs tor_key_deref_def st_simps)
qed

theorem foreign_tor_key_denied_witness:
  "\<nexists>cfg' s'. config_spec_update sample_ctx sample_manifest
      (ConfigSpec [(''key'', SPointer (WithDescription (Package (TorKey ''bitcoind'' ''main'')) None ''Key'' None))]) []
      \<lparr>sys_db = [], sys_breakages = [], sys_overrides = [], sys_world = 0\<rparr> = (Ok cfg', s')"
  by (rule foreign_tor_key_denied [where k = "''key''" and p = "''bitcoind''" and i = "''main''" and d = None and n = "''Key''"
    and w = None]) (simp_all add: sample_manifest_def)

end
