(* ===== verification/Dependencies.thy ===== *)
theory Dependencies
  imports Config_Action
begin

text \<open>
  Dependency management, \<^verbatim>\<open>dependencies.rs\<close>, with the functions of
  \<^verbatim>\<open>install/cleanup.rs\<close> that maintain the same data: whether a dependency is
  satisfied, how an error spreads to the dependents and how it is healed, and
  the lists of current dependents.
\<close>

section \<open>Checking a dependency\<close>

text \<open>The health checks of the dependency that the dependent relies on and that do not succeed.\<close>

definition needs_check :: "db \<Rightarrow> package_id \<Rightarrow> package_id \<Rightarrow> health_check_id \<Rightarrow> (error, bool) res" where
  "needs_check db pid dependency check =
     rbind (ok_or (dependencies_get db pid) (not_found pid)) (\<lambda>cds.
       Ok (case bt_get cds dependency of
             Some x \<Rightarrow> check \<in> set (cdi_health_checks x)
           | None \<Rightarrow> False))"

definition health_failures :: "db \<Rightarrow> package_id \<Rightarrow> package_id \<Rightarrow> health \<Rightarrow> (error, health) res" where
  "health_failures db pid dependency health =
     rfold (\<lambda>(check, res) failures.
       if res \<noteq> HSuccess then
         rbind (needs_check db pid dependency check) (\<lambda>b.
           Ok (if b then bt_insert check res failures else failures))
       else Ok failures) health []"

text \<open>The configuration of the dependency: the one given, or what its procedure reports.\<close>

definition dependency_config_or_get ::
  "'w ctx_ops \<Rightarrow> package_id \<Rightarrow> manifest \<Rightarrow> config option \<Rightarrow> ('w, config) act" where
  "dependency_config_or_get ctx dependency m given =
     (case given of
        Some cfg \<Rightarrow> st_return cfg
      | None \<Rightarrow>
          (case m_config m of
             Some cfg_info \<Rightarrow>
               st_bind (config_actions_get ctx cfg_info dependency (m_version m) (m_volumes m)) (\<lambda>r.
                 st_return (case cr_config r of Some c \<Rightarrow> c | None \<Rightarrow> []))
           | None \<Rightarrow> st_return []))"

function try_heal ::
  "'w ctx_ops \<Rightarrow> dependency_error \<Rightarrow> package_id \<Rightarrow> package_id \<Rightarrow> config option \<Rightarrow> dep_info \<Rightarrow>
    ('w, dependency_error option) act" where
  "try_heal ctx NotInstalled pid dependency cfg info =
     st_bind (st_get sys_db) (\<lambda>db.
       case status_get db dependency of
         Some _ \<Rightarrow> try_heal ctx (IncorrectVersion (di_version info) (default_version ctx)) pid dependency cfg info
       | None \<Rightarrow> st_return (Some NotInstalled))"
| "try_heal ctx (IncorrectVersion expected received) pid dependency cfg info =
     st_bind (st_get sys_db) (\<lambda>db.
       let version = (case manifest_get db dependency of Some m \<Rightarrow> m_version m | None \<Rightarrow> default_version ctx) in
       if satisfies ctx version expected then try_heal ctx (ConfigUnsatisfied []) pid dependency cfg info
       else st_return (Some (IncorrectVersion expected version)))"
| "try_heal ctx (ConfigUnsatisfied err) pid dependency cfg info =
     st_bind (st_get sys_db) (\<lambda>db.
     st_bind (st_lift (ok_or (manifest_get db pid) (not_found pid))) (\<lambda>dependent_manifest.
     st_bind (st_lift (ok_or (manifest_get db dependency) (not_found dependency))) (\<lambda>dependency_manifest.
     st_bind (dependency_config_or_get ctx dependency dependency_manifest cfg) (\<lambda>dependency_config.
     st_bind
       (case di_config info of
          Some cfg_req \<Rightarrow>
            dependency_config_check ctx cfg_req (m_containers dependent_manifest) pid
              (m_version dependent_manifest) (m_volumes dependent_manifest) dependency dependency_config
        | None \<Rightarrow> st_return (Inr ())) (\<lambda>check.
     case check of
       Inl error \<Rightarrow> st_return (Some (ConfigUnsatisfied error))
     | Inr _ \<Rightarrow> try_heal ctx NotRunning pid dependency (Some dependency_config) info)))))"
| "try_heal ctx NotRunning pid dependency cfg info =
     st_bind (st_get sys_db) (\<lambda>db.
     st_bind (st_lift (ok_or (status_get db dependency) (not_found dependency))) (\<lambda>status.
       if running (main status) then try_heal ctx (HealthChecksFailed []) pid dependency cfg info
       else st_return (Some NotRunning)))"
| "try_heal ctx (HealthChecksFailed fs) pid dependency cfg info =
     st_bind (st_get sys_db) (\<lambda>db.
     st_bind (st_lift (ok_or (status_get db dependency) (not_found dependency))) (\<lambda>status.
     let checked = (\<lambda>health.
       st_bind (st_lift (health_failures db pid dependency health)) (\<lambda>failures.
         if failures \<noteq> [] then st_return (Some (HealthChecksFailed failures))
         else try_heal ctx Transitive pid dependency cfg info)) in
     case main status of
       BackingUp (Some _) health \<Rightarrow> checked health
     | Running _ health \<Rightarrow> checked health
     | Starting _ \<Rightarrow> try_heal ctx Transitive pid dependency cfg info
     | Restarting \<Rightarrow> try_heal ctx Transitive pid dependency cfg info
     | _ \<Rightarrow> st_return (Some NotRunning)))"
| "try_heal ctx Transitive pid dependency cfg info =
     st_bind (st_get sys_db) (\<lambda>db.
       st_return
         (if (case errors_get db dependency of Some es \<Rightarrow> es | None \<Rightarrow> []) = [] then None else Some Transitive))"
  by pat_completeness auto
termination
  by (relation "measure (\<lambda>(ctx, e, _). rank e)") auto

declare try_heal.simps [simp del]

definition dep_info_satisfied ::
  "'w ctx_ops \<Rightarrow> dep_info \<Rightarrow> package_id \<Rightarrow> config option \<Rightarrow> package_id \<Rightarrow> ('w, dependency_error option) act" where
  "dep_info_satisfied ctx info dependency_id dependency_config dependent_id =
     try_heal ctx NotInstalled dependent_id dependency_id dependency_config info"

definition dependency_errors_init ::
  "'w ctx_ops \<Rightarrow> manifest \<Rightarrow> current_dependencies \<Rightarrow> ('w, dependency_errors) act" where
  "dependency_errors_init ctx m cds =
     st_fold (\<lambda>dependency_id res.
       case bt_get (m_dependencies m) dependency_id of
         None \<Rightarrow> st_return res
       | Some info \<Rightarrow>
           st_bind (dep_info_satisfied ctx info dependency_id None (m_id m)) (\<lambda>r.
             st_return (case r of Some e \<Rightarrow> bt_insert dependency_id e res | None \<Rightarrow> res)))
       (bt_keys cds) []"

section \<open>Spreading errors\<close>

fun break_transitive ::
  "nat \<Rightarrow> package_id \<Rightarrow> package_id \<Rightarrow> dependency_error \<Rightarrow> ('w, unit) act"
  and break_all_dependents_transitive ::
  "nat \<Rightarrow> package_id \<Rightarrow> dependency_error \<Rightarrow> ('w, unit) act" where
  "break_transitive 0 pid dependency error = st_lift Diverge"
| "break_transitive (Suc fuel) pid dependency error =
     st_bind (st_get sys_db) (\<lambda>db.
     st_bind (st_lift (ok_or (errors_get db pid) (not_found pid))) (\<lambda>errs.
     let old = bt_get errs dependency;
         newly_broken = (case old of Some e \<Rightarrow> cmp_priority error e = Greater | None \<Rightarrow> True);
         errs' = bt_insert dependency (case old of Some o' \<Rightarrow> dep_error_merge o' error | None \<Rightarrow> error)
           (bt_remove dependency errs) in
     if newly_broken then
       st_bind (st_modify (\<lambda>s. s\<lparr>sys_breakages :=
         bt_insert pid \<lparr>te_dependency = dependency, te_error = error\<rparr> (sys_breakages s)\<rparr>)) (\<lambda>_.
       st_bind (map_db (errors_set errs' pid)) (\<lambda>_.
       break_all_dependents_transitive fuel pid Transitive))
     else map_db (errors_set errs' pid)))"
| "break_all_dependents_transitive fuel pid error =
     st_bind (st_get sys_db) (\<lambda>db.
     st_for (\<lambda>dependent. break_transitive fuel dependent pid error)
       (filter (\<lambda>dependent. pid \<noteq> dependent)
         (case dependents_get db pid of Some x \<Rightarrow> bt_keys x | None \<Rightarrow> [])))"

declare break_transitive.simps [simp del] break_all_dependents_transitive.simps [simp del]

section \<open>Healing errors\<close>

fun heal_transitive :: "nat \<Rightarrow> 'w ctx_ops \<Rightarrow> package_id \<Rightarrow> package_id \<Rightarrow> ('w, unit) act"
  and heal_all_dependents_transitive :: "nat \<Rightarrow> 'w ctx_ops \<Rightarrow> package_id \<Rightarrow> ('w, unit) act" where
  "heal_transitive 0 ctx pid dependency = st_lift Diverge"
| "heal_transitive (Suc fuel) ctx pid dependency =
     st_bind (st_get sys_db) (\<lambda>db.
     st_bind (st_lift (ok_or (status_get db pid) (not_found pid))) (\<lambda>status.
     let status' = status\<lparr>dependency_errors := bt_remove dependency (dependency_errors status)\<rparr> in
     case bt_get (dependency_errors status) dependency of
       None \<Rightarrow> st_return ()
     | Some old \<Rightarrow>
         st_bind (st_lift (ok_or (Option.bind (manifest_get db pid) (\<lambda>m. bt_get (m_dependencies m) dependency))
           (not_found (pid @ '''s dependency: '' @ dependency)))) (\<lambda>info.
         st_bind (try_heal ctx old pid dependency None info) (\<lambda>r.
         case r of
           Some new \<Rightarrow>
             map_db (status_set (status'\<lparr>dependency_errors :=
               bt_insert dependency new (dependency_errors status')\<rparr>) pid)
         | None \<Rightarrow>
             st_bind (map_db (status_set status' pid)) (\<lambda>_.
             heal_all_dependents_transitive fuel ctx pid)))))"
| "heal_all_dependents_transitive fuel ctx pid =
     st_bind (st_get sys_db) (\<lambda>db.
     st_bind (st_lift (ok_or (dependents_get db pid) (not_found pid))) (\<lambda>dependents.
     st_for (\<lambda>dependent. heal_transitive fuel ctx dependent pid)
       (filter (\<lambda>dependent. pid \<noteq> dependent) (bt_keys dependents))))"

declare heal_transitive.simps [simp del] heal_all_dependents_transitive.simps [simp del]

section \<open>The lists of current dependents\<close>

definition add_dependent :: "package_id \<Rightarrow> package_id \<times> current_dependency_info \<Rightarrow> db \<Rightarrow> db" where
  "add_dependent dependent_id e db =
     (case dependents_get db (fst e) of
        Some ds \<Rightarrow> dependents_set (bt_insert dependent_id (snd e) ds) (fst e) db
      | None \<Rightarrow> db)"

definition add_dependent_to_current_dependents_lists ::
  "package_id \<Rightarrow> current_dependencies \<Rightarrow> ('w, unit) act" where
  "add_dependent_to_current_dependents_lists dependent_id cds =
     st_for (\<lambda>e. map_db (add_dependent dependent_id e)) cds"

definition remove_dependent :: "package_id \<Rightarrow> package_id \<Rightarrow> db \<Rightarrow> db" where
  "remove_dependent pid dep db =
     (case dependents_get db dep of
        Some ds \<Rightarrow> if bt_get ds pid \<noteq> None then dependents_set (bt_remove pid ds) dep db else db
      | None \<Rightarrow> db)"

definition remove_from_current_dependents_lists ::
  "package_id \<Rightarrow> current_dependencies \<Rightarrow> ('w, unit) act" where
  "remove_from_current_dependents_lists pid cds =
     st_for (\<lambda>dep. map_db (remove_dependent pid dep)) (bt_keys cds @ [pid])"

definition update_dependency_errors_of_dependents ::
  "'w ctx_ops \<Rightarrow> package_id \<Rightarrow> current_dependents \<Rightarrow> ('w, unit) act" where
  "update_dependency_errors_of_dependents ctx pid deps =
     st_for (\<lambda>dep.
       st_bind (st_get sys_db) (\<lambda>db.
       case manifest_get db dep of
         None \<Rightarrow> st_return ()
       | Some man \<Rightarrow>
           st_bind
             (case bt_get (m_dependencies man) pid of
                Some info \<Rightarrow> dep_info_satisfied ctx info pid None dep
              | None \<Rightarrow> st_return None) (\<lambda>r.
           st_bind (st_get sys_db) (\<lambda>db.
           st_bind (st_lift (ok_or (errors_get db dep) (not_found dep))) (\<lambda>errs.
           map_db (errors_set
             (case r of Some e \<Rightarrow> bt_insert pid e errs | None \<Rightarrow> bt_remove pid errs) dep))))))
       (bt_keys deps)"

end
