(* ===== verification/Dependency_Spread.thy ===== *)
theory Dependency_Spread
  imports Dependencies
begin

text \<open>
  What spreading a dependency error does to the database: it ends on every
  graph of dependents, cyclic ones included, it never lowers an error, it
  reaches every dependent and it reports every package it breaks.
\<close>

section \<open>What try_heal does\<close>

context world_rel
begin

lemma keeps_dependency_config_or_get: "keeps (dependency_config_or_get ctx d m cfg)"
  by (auto simp: dependency_config_or_get_def split: option.splits intro!: world_rules)

lemma keeps_try_heal: "keeps (try_heal ctx e pid d cfg info)"
proof (induction ctx e pid d cfg info rule: try_heal.induct)
  case (5 ctx fs pid d cfg info)
  then show ?case
    by (auto simp: try_heal.simps Let_def intro!: world_rules split: main_status.splits option.splits)
qed (auto simp: try_heal.simps Let_def intro!: world_rules keeps_dependency_config_or_get split: option.splits sum.splits)

lemma keeps_satisfied: "keeps (dep_info_satisfied ctx info d cfg pid)"
  by (simp add: dep_info_satisfied_def keeps_try_heal)

lemma keeps_init: "keeps (dependency_errors_init ctx m cds)"
  by (auto simp: dependency_errors_init_def intro!: world_rules keeps_satisfied split: option.splits)

end

lemma try_heal_same_db: "try_heal ctx e pid d cfg info s = (r, s') \<Longrightarrow> sys_db s' = sys_db s"
  by (drule same_db.rel.keepsD [OF same_db.rel.keeps_try_heal]) (simp add: on_db_def)

text \<open>Conditions on the database alone: calls to the outside world do not affect them.\<close>

abbreviation db_tame :: "(db \<Rightarrow> bool) \<Rightarrow> ('w, 'a) act \<Rightarrow> bool" where
  "db_tame P \<equiv> tame (\<lambda>s. P (sys_db s))"

lemma db_tame_call_world: "db_tame P (call_world f)"
  by (simp add: tame_def)

lemma db_tame_exit_or: "tame P (exit_or c r)"
  by (auto simp: exit_or_def intro!: tame_rules split: sum.splits)

lemma db_tame_actions:
  "db_tame P (config_actions_get ctx a i ver vols)"
  "db_tame P (dependency_config_check ctx dc c i ver vols d cfg)"
  unfolding config_actions_get_def dependency_config_check_def
  by (auto intro!: tame_rules db_tame_call_world db_tame_exit_or)

lemma ok_or_not_Diverge [simp]: "ok_or x e \<noteq> Diverge"
  by (cases x) auto

lemma health_failures_not_Diverge: "health_failures db pid d health \<noteq> Diverge"
  unfolding health_failures_def
  by (rule rfold_not_Diverge) (auto simp: needs_check_def diverge_simps split: prod.splits)

lemma tame_try_heal: "db_tame P (try_heal ctx e pid d cfg info)"
proof (induction ctx e pid d cfg info rule: try_heal.induct)
  case (3 ctx err pid d cfg info)
  then show ?case
    by (auto simp: try_heal.simps dependency_config_or_get_def intro!: tame_rules db_tame_actions split: option.splits sum.splits)
next
  case (5 ctx fs pid d cfg info)
  then show ?case
    by (auto simp: try_heal.simps Let_def health_failures_not_Diverge intro!: tame_rules split: main_status.splits option.splits)
qed (auto simp: try_heal.simps Let_def intro!: tame_rules split: option.splits)

section \<open>Errors only rise while they spread\<close>

text \<open>The errors of a package, and the severity of its error for one dependency (0 when it has none).\<close>

definition errs :: "db \<Rightarrow> package_id \<Rightarrow> dependency_errors" where
  "errs db p = (case errors_get db p of Some es \<Rightarrow> es | None \<Rightarrow> [])"

definition severity :: "db \<Rightarrow> package_id \<Rightarrow> package_id \<Rightarrow> nat" where
  "severity db p d = (case bt_get (errs db p) d of Some e \<Rightarrow> rank e | None \<Rightarrow> 0)"

text \<open>Nothing but the dependency errors differs: same packages, same manifests, same dependents.\<close>

definition same_packages :: "db \<Rightarrow> db \<Rightarrow> bool" where
  "same_packages d e \<longleftrightarrow> bt_keys e = bt_keys d \<and> manifest_get e = manifest_get d \<and>
     dependents_get e = dependents_get d \<and> dependencies_get e = dependencies_get d \<and>
     removing_get e = removing_get d \<and> stage_get e = stage_get d \<and>
     (\<forall>p. map_option main (status_get e p) = map_option main (status_get d p)) \<and>
     (\<forall>p. map_option configured (status_get e p) = map_option configured (status_get d p))"

definition errors_rise :: "db \<Rightarrow> db \<Rightarrow> bool" where
  "errors_rise d e \<longleftrightarrow> same_packages d e \<and> (\<forall>p q. severity d p q \<le> severity e p q)"

interpretation packages: db_rel same_packages
  by unfold_locales (auto simp: same_packages_def)

interpretation rise: db_rel errors_rise
  by unfold_locales
    (auto simp: errors_rise_def intro: packages.db_refl packages.db_trans, meson le_trans)

lemma errs_set: "errs (errors_set v pid db) k = (if k = pid \<and> errors_get db pid \<noteq> None then v else errs db k)"
  by (auto simp: errs_def errors.fetch_store)

lemma same_packages_set: "same_packages db (errors_set v pid db)"
  by (auto simp: same_packages_def fun_eq_iff errors.keys_store)
     (auto simp: receipt_defs option.map_comp o_def map_option_case split: option.splits)


text \<open>The database after \<open>break_transitive\<close> has recorded its error, and the state it goes on with.\<close>

definition raised :: "package_id \<Rightarrow> package_id \<Rightarrow> dependency_error \<Rightarrow> db \<Rightarrow> db" where
  "raised pid d err db =
     errors_set (bt_insert d (case bt_get (errs db pid) d of Some old \<Rightarrow> dep_error_merge old err | None \<Rightarrow> err)
       (bt_remove d (errs db pid))) pid db"

definition breakage :: "package_id \<Rightarrow> package_id \<Rightarrow> dependency_error \<Rightarrow> 'w sys \<Rightarrow> 'w sys" where
  "breakage pid d err s =
     s\<lparr>sys_breakages := bt_insert pid \<lparr>te_dependency = d, te_error = err\<rparr> (sys_breakages s),
       sys_db := raised pid d err (sys_db s)\<rparr>"

lemma severity_raised:
  assumes "errors_get db pid \<noteq> None"
  shows "severity (raised pid d err db) p q =
    (if p = pid \<and> q = d then max (severity db p q) (rank err) else severity db p q)"
  using assms by (auto simp: severity_def raised_def errs_set split: option.splits)

lemma raised_rise: "errors_get db pid \<noteq> None \<Longrightarrow> errors_rise db (raised pid d err db)"
  by (auto simp: errors_rise_def severity_raised) (simp add: raised_def same_packages_set)

lemma newly_broken:
  "(case bt_get (errs db pid) d of Some e \<Rightarrow> cmp_priority err e = Greater | None \<Rightarrow> True) \<longleftrightarrow>
     severity db pid d < rank err"
  using rank_bounds(1) [of err] by (auto simp: severity_def cmp_priority_rank split: option.splits)

lemma break_step:
  "break_transitive (Suc fuel) pid d err s =
     (if errors_get (sys_db s) pid = None then (Err (not_found pid), s)
      else if severity (sys_db s) pid d < rank err
      then break_all_dependents_transitive fuel pid Transitive (breakage pid d err s)
      else (Ok (), s\<lparr>sys_db := raised pid d err (sys_db s)\<rparr>))"
proof (cases "errors_get (sys_db s) pid")
  case (Some es)
  then have es: "errs (sys_db s) pid = es" by (simp add: errs_def)
  note eval = break_transitive.simps st_eval Some map_db_def Let_def newly_broken [where db = "sys_db s" and pid = pid, unfolded es]
  show ?thesis using Some by (auto simp: eval breakage_def raised_def es)
qed (simp add: break_transitive.simps st_eval)

lemma break_all_step:
  "break_all_dependents_transitive fuel pid err s =
     st_for (\<lambda>q. break_transitive fuel q pid err)
       (filter (\<lambda>q. pid \<noteq> q) (case dependents_get (sys_db s) pid of Some x \<Rightarrow> bt_keys x | None \<Rightarrow> [])) s"
  by (simp add: break_all_dependents_transitive.simps st_eval)

lemma break_all_rise:
  "(\<And>q. rise.rel.keeps (break_transitive fuel q pid err :: ('w, unit) act)) \<Longrightarrow>
     rise.rel.keeps (break_all_dependents_transitive fuel pid err :: ('w, unit) act)"
  unfolding break_all_dependents_transitive.simps by (intro rise.rel.world_rules) auto

lemma break_transitive_rise: "rise.rel.keeps (break_transitive fuel pid d err :: ('w, unit) act)"
proof (induction fuel arbitrary: pid d err)
  case (Suc fuel)
  have "errors_rise (sys_db s) (sys_db (snd (break_all_dependents_transitive fuel pid Transitive (breakage pid d err s))))"
    if "errors_get (sys_db s) pid \<noteq> None" for s :: "'w sys"
  proof (rule rise.db_trans)
    show "errors_rise (sys_db s) (sys_db (breakage pid d err s))"
      using that by (simp add: breakage_def raised_rise)
  qed (use break_all_rise [OF Suc] in \<open>auto simp: rise.rel.keeps_def on_db_def\<close>)
  then show ?case
    unfolding rise.rel.keeps_def by (auto simp: on_db_def break_step rise.db_refl raised_rise)
qed (simp add: break_transitive.simps rise.rel.keeps_basic)

section \<open>Spreading an error ends\<close>

text \<open>
  The distance to a database in which every package has the most severe error for
  every possible dependency: the installed packages, and the one the spreading
  started from.
\<close>

definition room :: "package_id set \<Rightarrow> db \<Rightarrow> nat" where
  "room ds db = (\<Sum>p \<in> set (bt_keys db). \<Sum>d \<in> ds. 6 - severity db p d)"

lemma severity_le: "severity db p d \<le> 6"
  using rank_bounds(2) by (simp add: severity_def split: option.splits)

lemma room_rise:
  assumes "errors_rise d e"
  shows "room ds e \<le> room ds d"
proof -
  have keys: "bt_keys e = bt_keys d" using assms by (simp add: errors_rise_def same_packages_def)
  show ?thesis unfolding room_def keys
    using assms by (intro sum_mono diff_le_mono2) (simp add: errors_rise_def)
qed

lemma room_raised:
  assumes "errors_get db pid \<noteq> None" and "severity db pid d < rank err" and "finite ds" and "d \<in> ds"
  shows "room ds (raised pid d err db) < room ds db"
proof -
  define db' where "db' = raised pid d err db"
  have rise: "errors_rise db db'" using assms(1) by (simp add: db'_def raised_rise)
  then have keys: "bt_keys db' = bt_keys db" by (simp add: errors_rise_def same_packages_def)
  have le: "6 - severity db' p q \<le> 6 - severity db p q" for p q
    using rise by (intro diff_le_mono2) (simp add: errors_rise_def)
  have lt: "6 - severity db' pid d < 6 - severity db pid d"
    using assms(2) rank_bounds(2) [of err] by (simp add: db'_def severity_raised [OF assms(1)])
  have "(\<Sum>q\<in>ds. 6 - severity db' pid q) < (\<Sum>q\<in>ds. 6 - severity db pid q)"
    using lt le assms(3,4) by (intro sum_strict_mono_ex1) auto
  moreover have "pid \<in> set (bt_keys db)"
    using assms(1) bt_get_None [of db pid] by (auto simp: receipt_defs installed_get_def)
  ultimately have "room ds db' < room ds db"
    unfolding room_def keys using le by (intro sum_strict_mono_ex1) (auto intro!: sum_mono)
  then show ?thesis by (simp add: db'_def)
qed

text \<open>
  Each level of the recursion that goes deeper has raised a severity, so fuel
  beyond the room that is left is never used up. The dependencies met on the way
  are installed packages.
\<close>

definition bounded_room :: "package_id set \<Rightarrow> nat \<Rightarrow> db \<Rightarrow> bool" where
  "bounded_room ds k db \<longleftrightarrow> finite ds \<and> set (bt_keys db) \<subseteq> ds \<and> room ds db < k"

lemma bounded_room_rise: "errors_rise d e \<Longrightarrow> bounded_room ds k d \<Longrightarrow> bounded_room ds k e"
  using room_rise [of d e ds] by (auto simp: bounded_room_def errors_rise_def same_packages_def)

lemma break_rise: "errors_rise (sys_db s) (sys_db (snd (break_transitive fuel pid d err s)))"
  using break_transitive_rise unfolding rise.rel.keeps_def on_db_def by blast

lemma break_transitive_ends:
  "d \<in> ds \<Longrightarrow> bounded_room ds fuel (sys_db s) \<Longrightarrow> fst (break_transitive fuel pid d err (s :: 'w sys)) \<noteq> Diverge"
proof (induction fuel arbitrary: pid d err s)
  case (Suc fuel)
  let ?s = "breakage pid d err s"
  have "fst (break_all_dependents_transitive fuel pid Transitive ?s) \<noteq> Diverge"
    if inst: "errors_get (sys_db s) pid \<noteq> None" and sev: "severity (sys_db s) pid d < rank err"
  proof -
    have mem: "pid \<in> ds"
      using inst Suc.prems(2) bt_get_None [of "sys_db s" pid]
      by (auto simp: receipt_defs installed_get_def bounded_room_def)
    have "bounded_room ds fuel (sys_db ?s)"
      using room_raised [OF inst sev, of ds] Suc.prems raised_rise [OF inst, of d err]
      by (auto simp: bounded_room_def breakage_def errors_rise_def same_packages_def)
    moreover have "db_tame (bounded_room ds fuel) (break_transitive fuel q pid Transitive :: ('w, unit) act)" for q
      unfolding tame_def using Suc.IH [OF mem] bounded_room_rise [OF break_rise] by blast
    then have "db_tame (bounded_room ds fuel) (st_for (\<lambda>q. break_transitive fuel q pid Transitive :: ('w, unit) act) qs)" for qs
      by (rule tame_for)
    ultimately show ?thesis unfolding break_all_step tame_def by blast
  qed
  then show ?case by (auto simp: break_step)
qed (simp add: bounded_room_def)

lemma room_bound: "finite ds \<Longrightarrow> room ds db \<le> 6 * card ds * card (set (bt_keys db))"
proof -
  assume "finite ds"
  have "room ds db \<le> (\<Sum>p \<in> set (bt_keys db). \<Sum>d \<in> ds. 6)"
    unfolding room_def by (intro sum_mono) simp
  then show ?thesis by (simp add: mult.commute mult.left_commute)
qed

lemma bounded_room_start:
  assumes "6 * (length db + 1) * length db < fuel"
  shows "bounded_room (insert d (set (bt_keys db))) fuel db"
proof -
  let ?ds = "insert d (set (bt_keys db))"
  have k: "card (set (bt_keys db)) \<le> length db"
    using card_length [of "bt_keys db"] by (simp add: bt_keys_def)
  then have "card ?ds \<le> length db + 1" using card_insert_le_m1 by (metis List.finite_set card_insert_if add.commute add_mono le_SucI plus_1_eq_Suc Suc_le_mono)
  then have "6 * card ?ds * card (set (bt_keys db)) \<le> 6 * (length db + 1) * length db"
    using k by (intro mult_le_mono) auto
  with room_bound [of ?ds db] assms show ?thesis by (auto simp: bounded_room_def)
qed

section \<open>Errors reach every dependent\<close>

text \<open>
  When the severity of some error of a package has risen, each of its dependents
  has an error for the package.
\<close>

definition spread :: "db \<Rightarrow> db \<Rightarrow> bool" where
  "spread d e \<longleftrightarrow> errors_rise d e \<and>
     (\<forall>p q r ds. severity d p q < severity e p q \<longrightarrow> dependents_get d p = Some ds \<longrightarrow>
        r \<in> set (bt_keys ds) \<longrightarrow> r \<noteq> p \<longrightarrow> 0 < severity e r p)"

lemma spread_refl: "spread d d"
  by (simp add: spread_def rise.db_refl)

lemma spread_trans:
  assumes "spread d e" and "spread e f"
  shows "spread d f"
proof -
  have rise: "errors_rise d e" "errors_rise e f" "dependents_get e = dependents_get d"
    using assms by (auto simp: spread_def errors_rise_def same_packages_def)
  have "0 < severity f r p"
    if "severity d p q < severity f p q" "dependents_get d p = Some ds" "r \<in> set (bt_keys ds)" "r \<noteq> p" for p q r ds
  proof (cases "severity d p q < severity e p q")
    case True
    then have "0 < severity e r p" using assms(1) that unfolding spread_def by blast
    then show ?thesis using rise(2) unfolding errors_rise_def by (meson order_less_le_trans)
  next
    case False
    then have "severity e p q < severity f p q" using that(1) by simp
    then show ?thesis using assms(2) that(2-) rise(3) unfolding spread_def by metis
  qed
  then show ?thesis using rise rise.db_trans unfolding spread_def by blast
qed

lemma break_all_spread:
  assumes "\<And>q s t. break_transitive fuel q pid err s = (Ok (), t) \<Longrightarrow>
      spread (sys_db s) (sys_db (t :: 'w sys)) \<and> rank err \<le> severity (sys_db t) q pid"
    and "break_all_dependents_transitive fuel pid err s = (Ok (), t :: 'w sys)"
  shows "spread (sys_db s) (sys_db t) \<and>
    (\<forall>ds r. dependents_get (sys_db s) pid = Some ds \<longrightarrow> r \<in> set (bt_keys ds) \<longrightarrow> r \<noteq> pid \<longrightarrow>
       rank err \<le> severity (sys_db t) r pid)"
proof -
  let ?qs = "filter (\<lambda>q. pid \<noteq> q) (case dependents_get (sys_db s) pid of Some x \<Rightarrow> bt_keys x | None \<Rightarrow> [])"
  have run: "st_for (\<lambda>q. break_transitive fuel q pid err) ?qs s = (Ok (), t)"
    using assms(2) by (simp add: break_all_step)
  have "spread (sys_db s) (sys_db t) \<and> (\<forall>q \<in> set ?qs. rank err \<le> severity (sys_db t) q pid)"
  proof (rule st_for_each [OF run spread_refl])
    show "spread (sys_db s) (sys_db v) \<and> rank err \<le> severity (sys_db v) q pid"
      if "spread (sys_db s) (sys_db u)" "break_transitive fuel q pid err u = (Ok (), v)" for q and u v :: "'w sys"
      using assms(1) [OF that(2)] spread_trans [OF that(1)] by blast
    show "rank err \<le> severity (sys_db v) q pid"
      if "rank err \<le> severity (sys_db u) q pid" "break_transitive fuel q' pid err u = (Ok (), v)"
      for q q' and u v :: "'w sys"
      using assms(1) [OF that(2)] that(1) le_trans unfolding spread_def errors_rise_def by blast
  qed
  then show ?thesis by auto
qed

lemma break_transitive_spread:
  "break_transitive fuel pid d err s = (Ok (), t) \<Longrightarrow>
     spread (sys_db s) (sys_db (t :: 'w sys)) \<and> rank err \<le> severity (sys_db t) pid d"
proof (induction fuel arbitrary: pid d err s t)
  case (Suc fuel)
  have inst: "errors_get (sys_db s) pid \<noteq> None" using Suc.prems by (auto simp: break_step split: if_splits)
  have raised: "errors_rise (sys_db s) (raised pid d err (sys_db s))" by (rule raised_rise [OF inst])
  have others: "severity (raised pid d err (sys_db s)) p q = severity (sys_db s) p q"
    if "\<not> severity (sys_db s) pid d < rank err \<or> (p, q) \<noteq> (pid, d)" for p q
    using that by (auto simp: severity_raised [OF inst])
  show ?case
  proof (cases "severity (sys_db s) pid d < rank err")
    case True
    have run: "break_all_dependents_transitive fuel pid Transitive (breakage pid d err s) = (Ok (), t)"
      using Suc.prems inst True by (simp add: break_step)
    have deps: "dependents_get (sys_db (breakage pid d err s)) = dependents_get (sys_db s)"
      using raised by (simp add: breakage_def errors_rise_def same_packages_def)
    note all = break_all_spread [OF Suc.IH run, unfolded deps]
    have rise: "errors_rise (sys_db s) (sys_db t)"
      using all raised rise.db_trans by (auto simp: spread_def breakage_def)
    have "0 < severity (sys_db t) r p"
      if "severity (sys_db s) p q < severity (sys_db t) p q" "dependents_get (sys_db s) p = Some ds"
        "r \<in> set (bt_keys ds)" "r \<noteq> p" for p q r ds
    proof (cases "(p, q) = (pid, d)")
      case True
      then have "rank Transitive \<le> severity (sys_db t) r p" using all that by auto
      then show ?thesis by simp
    next
      case False
      then have "severity (sys_db (breakage pid d err s)) p q < severity (sys_db t) p q"
        using that(1) others by (simp add: breakage_def)
      with all that(2-) deps show ?thesis unfolding spread_def by metis
    qed
    moreover have "rank err \<le> severity (sys_db t) pid d"
    proof -
      have "severity (sys_db (breakage pid d err s)) pid d \<le> severity (sys_db t) pid d"
        using all by (simp add: spread_def errors_rise_def)
      then show ?thesis by (simp add: breakage_def severity_raised [OF inst])
    qed
    ultimately show ?thesis using rise unfolding spread_def by blast
  next
    case False
    then have t: "t = s\<lparr>sys_db := raised pid d err (sys_db s)\<rparr>"
      using Suc.prems inst by (simp add: break_step)
    show ?thesis using False raised others by (simp add: t spread_def)
  qed
qed (simp add: break_transitive.simps st_eval)

section \<open>Every package that is broken is reported\<close>

definition recorded :: "'w sys \<Rightarrow> 'w sys \<Rightarrow> bool" where
  "recorded s t \<longleftrightarrow> errors_rise (sys_db s) (sys_db t) \<and>
     (\<forall>p. bt_get (sys_breakages s) p \<noteq> None \<longrightarrow> bt_get (sys_breakages t) p \<noteq> None) \<and>
     (\<forall>p q. severity (sys_db s) p q < severity (sys_db t) p q \<longrightarrow> bt_get (sys_breakages t) p \<noteq> None)"

lemma recorded_trans:
  assumes "recorded s t" and "recorded t u"
  shows "recorded s u"
proof -
  have "bt_get (sys_breakages u) p \<noteq> None"
    if "severity (sys_db s) p q < severity (sys_db u) p q" for p q
  proof (cases "severity (sys_db s) p q < severity (sys_db t) p q")
    case True
    then show ?thesis using assms unfolding recorded_def by blast
  next
    case False
    then have "severity (sys_db t) p q < severity (sys_db u) p q" using that by simp
    then show ?thesis using assms unfolding recorded_def by blast
  qed
  then show ?thesis using assms rise.db_trans unfolding recorded_def by blast
qed

interpretation recorded: state_rel recorded
proof unfold_locales
  show "recorded s s" for s :: "'a sys" by (simp add: recorded_def rise.db_refl)
qed (rule recorded_trans)

lemma breakage_recorded:
  "errors_get (sys_db s) pid \<noteq> None \<Longrightarrow> recorded s (breakage pid d err s)"
  by (auto simp: recorded_def breakage_def raised_rise severity_raised split: if_splits)

lemma raised_recorded:
  "errors_get (sys_db s) pid \<noteq> None \<Longrightarrow> \<not> severity (sys_db s) pid d < rank err \<Longrightarrow>
     recorded s (s\<lparr>sys_db := raised pid d err (sys_db s)\<rparr>)"
  by (auto simp: recorded_def raised_rise severity_raised split: if_splits)

lemma break_transitive_recorded: "recorded.keeps (break_transitive fuel pid d err :: ('w, unit) act)"
proof (induction fuel arbitrary: pid d err)
  case (Suc fuel)
  have "recorded.keeps (break_all_dependents_transitive fuel pid Transitive :: ('w, unit) act)"
    unfolding break_all_dependents_transitive.simps using Suc by (intro recorded.keeps_rules) auto
  then have "recorded s (snd (break_all_dependents_transitive fuel pid Transitive (breakage pid d err s)))"
    if "errors_get (sys_db s) pid \<noteq> None" for s :: "'w sys"
    using that recorded_trans [OF breakage_recorded] unfolding recorded.keeps_def by blast
  then show ?case
    unfolding recorded.keeps_def by (auto simp: break_step recorded.rel_refl raised_recorded)
qed (simp add: break_transitive.simps recorded.keeps_basic)

section \<open>Properties\<close>

text \<open>
  Three installed packages: \<open>b\<close> depends on \<open>a\<close>, \<open>c\<close> depends on \<open>b\<close>, and \<open>b\<close> is listed as a
  dependent of \<open>c\<close> as well, so that the graph of dependents has a cycle.
\<close>

definition sample_installed :: "package_id \<Rightarrow> package_id list \<Rightarrow> package_data_entry" where
  "sample_installed p dependents =
     (let m = \<lparr>m_id = p, m_version = ''1.0.0'', m_config = None, m_volumes = [], m_dependencies = [],
        m_containers = None, m_interfaces = [], m_migrations = no_migrations,
     m_health_checks = [], m_backup = no_backup\<rparr> in
      Installed m \<lparr>ip_status = \<lparr>configured = True, main = Restarting, dependency_errors = []\<rparr>, ip_manifest = m,
        ip_system_pointers = [], ip_current_dependents = map (\<lambda>q. (q, current_dependency_info_default)) dependents,
        ip_current_dependencies = [], ip_interface_addresses = []\<rparr>)"

definition sample_db :: db where
  "sample_db = [(''a'', sample_installed ''a'' [''b'']), (''b'', sample_installed ''b'' [''c'']),
     (''c'', sample_installed ''c'' [''b''])]"

definition sample_sys :: "nat sys" where
  "sample_sys = \<lparr>sys_db = sample_db, sys_breakages = [], sys_overrides = [], sys_world = 0\<rparr>"

lemmas sample_sys_defs = sample_sys_def sample_db_def sample_installed_def Let_def

lemmas break_eval = break_step break_all_step st_eval sample_sys_defs breakage_def raised_def severity_def
  errs_def receipt_defs installed_get_def installed_map_def bt_keys_def bt_remove_def

text \<open>
  Spreading a dependency error ends: with fuel beyond \<open>6 * (n + 1) * n\<close> for \<open>n\<close> packages
  in the database, \<open>break_transitive\<close> returns, whatever the graph of dependents is, because each
  step that goes deeper has raised the severity of an error.
\<close>

theorem break_transitive_terminates:
  assumes "6 * (length (sys_db s) + 1) * length (sys_db s) < fuel"
  shows "fst (break_transitive fuel pid d err s) \<noteq> Diverge"
  by (rule break_transitive_ends [OF insertI1 bounded_room_start [OF assms]])

theorem break_transitive_terminates_witness:
  "fst (break_transitive 73 ''b'' ''a'' NotRunning sample_sys) \<noteq> Diverge"
  by (rule break_transitive_terminates) (simp add: sample_sys_defs)

text \<open>
  C19. When \<open>break_transitive\<close> succeeds, the package has an error for the dependency that is at
  least as severe as the given one, and the damage is complete: if any error of any package
  became more severe, then each of that package's dependents has an error for it.
\<close>

theorem break_transitive_reaches_dependents:
  assumes "break_transitive fuel pid d err s = (Ok (), t)"
  shows "rank err \<le> severity (sys_db t) pid d \<and>
    (\<forall>p q r ds. severity (sys_db s) p q < severity (sys_db t) p q \<longrightarrow>
       dependents_get (sys_db s) p = Some ds \<longrightarrow> r \<in> set (bt_keys ds) \<longrightarrow> r \<noteq> p \<longrightarrow>
       0 < severity (sys_db t) r p)"
  using break_transitive_spread [OF assms] unfolding spread_def by blast

theorem break_transitive_reaches_dependents_witness:
  "fst (break_transitive 4 ''b'' ''a'' NotRunning sample_sys) = Ok () \<and>
   3 \<le> severity (sys_db (snd (break_transitive 4 ''b'' ''a'' NotRunning sample_sys))) ''b'' ''a'' \<and>
   0 < severity (sys_db (snd (break_transitive 4 ''b'' ''a'' NotRunning sample_sys))) ''c'' ''b'' \<and>
   0 < severity (sys_db (snd (break_transitive 4 ''b'' ''a'' NotRunning sample_sys))) ''b'' ''c''"
proof -
  define t where "t = snd (break_transitive 4 ''b'' ''a'' NotRunning sample_sys)"
  have "fst (break_transitive 4 ''b'' ''a'' NotRunning sample_sys) = Ok ()" by code_simp
  then have run: "break_transitive 4 ''b'' ''a'' NotRunning sample_sys = (Ok (), t)"
    by (simp add: t_def prod_eq_iff)
  note reach = break_transitive_reaches_dependents [OF run]
  have b: "severity (sys_db sample_sys) ''b'' ''a'' < severity (sys_db t) ''b'' ''a''"
    "dependents_get (sys_db sample_sys) ''b'' = Some [(''c'', current_dependency_info_default)]"
    unfolding t_def by code_simp+
  have c: "severity (sys_db sample_sys) ''c'' ''b'' < severity (sys_db t) ''c'' ''b''"
    "dependents_get (sys_db sample_sys) ''c'' = Some [(''b'', current_dependency_info_default)]"
    unfolding t_def by code_simp+
  have "0 < severity (sys_db t) ''c'' ''b''" "0 < severity (sys_db t) ''b'' ''c''"
    using reach [THEN conjunct2, rule_format, OF b] reach [THEN conjunct2, rule_format, OF c]
    by (simp_all add: bt_keys_def)
  moreover have "3 \<le> severity (sys_db t) ''b'' ''a''" using reach [THEN conjunct1] by simp
  ultimately show ?thesis unfolding run snd_conv fst_conv by blast
qed

text \<open>
  Spreading an error changes nothing but dependency errors, never makes one less severe, and
  reports in the breakages every package with an error that became more severe. This holds of the
  state it leaves behind on every outcome, errors included.
\<close>

theorem break_transitive_reports:
  assumes "break_transitive fuel pid d err s = (r, t)"
  shows "same_packages (sys_db s) (sys_db t) \<and> severity (sys_db s) p q \<le> severity (sys_db t) p q \<and>
    (severity (sys_db s) p q < severity (sys_db t) p q \<longrightarrow> bt_get (sys_breakages t) p \<noteq> None)"
  using recorded.keepsD [OF break_transitive_recorded assms]
  by (auto simp: recorded_def errors_rise_def)

theorem break_transitive_reports_witness:
  "break_transitive 1 ''x'' ''a'' NotRunning sample_sys = (Err (not_found ''x''), sample_sys) \<and>
   same_packages (sys_db sample_sys) (sys_db sample_sys)"
proof -
  have run: "break_transitive 1 ''x'' ''a'' NotRunning sample_sys = (Err (not_found ''x''), sample_sys)"
    using break_step [of 0 "''x''" "''a''" NotRunning sample_sys] by (simp add: break_eval)
  show ?thesis using run break_transitive_reports [OF run] by simp
qed

end
