(* ===== verification/Dependency_Heal.thy ===== *)
theory Dependency_Heal
  imports Dependency_Spread
begin

text \<open>
  What checking and healing a dependency does: the verdict of \<open>satisfied\<close> agrees with the
  database, healing ends, it only removes errors or replaces them, and it leaves no
  transitive error behind on the dependents of a package that it cleared.
\<close>

section \<open>The verdict\<close>

lemma health_failures_empty:
  assumes "health_failures db pid d health = Ok fs"
  shows "fs = [] \<longleftrightarrow> (\<forall>(check, res) \<in> set health. res = HSuccess \<or> needs_check db pid d check = Ok False)"
proof -
  define step where "step = (\<lambda>(check, res) failures.
       if res \<noteq> HSuccess then
         rbind (needs_check db pid d check) (\<lambda>b. Ok (if b then bt_insert check res failures else failures))
       else Ok failures)"
  have ne: "bt_insert k v m \<noteq> []" for k :: health_check_id and v :: health_check_result and m
    by (cases m) (auto split: if_splits)
  have "(fs = [] \<longleftrightarrow> acc = [] \<and> (\<forall>(check, res) \<in> set h. res = HSuccess \<or> needs_check db pid d check = Ok False))"
    if "rfold step h acc = Ok fs" for h acc
    using that
  proof (induction h arbitrary: acc)
    case (Cons x h)
    obtain c r where x: "x = (c, r)" by (cases x)
    with Cons.prems obtain acc' where a: "step (c, r) acc = Ok acc'" "rfold step h acc' = Ok fs"
      by (auto simp: res_simps)
    have "acc' = [] \<longleftrightarrow> acc = [] \<and> (r = HSuccess \<or> needs_check db pid d c = Ok False)"
      using a(1) ne by (auto simp: step_def res_simps split: if_splits)
    with Cons.IH [OF a(2)] show ?case by (auto simp: x)
  qed auto
  from this [of health "[]"] assms show ?thesis by (simp add: health_failures_def step_def)
qed

text \<open>What a dependency has to fulfil, read off the database.\<close>

definition dependency_healthy :: "db \<Rightarrow> package_id \<Rightarrow> package_id \<Rightarrow> bool" where
  "dependency_healthy db pid d \<longleftrightarrow>
     (case status_get db d of
        None \<Rightarrow> False
      | Some st \<Rightarrow>
          dependency_errors st = [] \<and>
          (case main st of
             Running _ health \<Rightarrow> \<forall>(check, res) \<in> set health. res = HSuccess \<or> needs_check db pid d check = Ok False
           | BackingUp (Some _) health \<Rightarrow> \<forall>(check, res) \<in> set health. res = HSuccess \<or> needs_check db pid d check = Ok False
           | Starting _ \<Rightarrow> True
           | Restarting \<Rightarrow> True
           | _ \<Rightarrow> False))"

lemma errs_status: "status_get db d = Some st \<Longrightarrow> errs db d = dependency_errors st"
  by (simp add: errs_def errors_status)

lemma try_heal_Transitive:
  "try_heal ctx Transitive pid d cfg info s = (Ok (if errs (sys_db s) d = [] then None else Some Transitive), s)"
  by (simp add: try_heal.simps st_eval errs_def)

lemma try_heal_HealthChecksFailed_None:
  assumes "try_heal ctx (HealthChecksFailed fs) pid d cfg info s = (Ok None, s')"
  shows "dependency_healthy (sys_db s) pid d"
proof -
  obtain st where st: "status_get (sys_db s) d = Some st"
    using assms by (cases "status_get (sys_db s) d") (auto simp: try_heal.simps st_eval)
  have "dependency_errors st = [] \<and>
    (\<forall>(check, res) \<in> set h. res = HSuccess \<or> needs_check (sys_db s) pid d check = Ok False)"
    if "st_bind (st_lift (health_failures (sys_db s) pid d h)) (\<lambda>failures.
          if failures \<noteq> [] then st_return (Some (HealthChecksFailed failures))
          else try_heal ctx Transitive pid d cfg info) s = (Ok None, s')" for h
    using that health_failures_empty [of "sys_db s" pid d h] errs_status [OF st]
    by (cases "health_failures (sys_db s) pid d h") (auto simp: st_eval try_heal_Transitive st_bind_def split: if_splits)
  note h = this
  show ?thesis
    using assms st errs_status [OF st]
    by (auto simp: try_heal.simps(5) st_eval Let_def dependency_healthy_def try_heal_Transitive
        split: main_status.splits option.splits if_splits dest!: h)
qed

lemma try_heal_NotRunning_None:
  assumes "try_heal ctx NotRunning pid d cfg info s = (Ok None, s')"
  shows "dependency_healthy (sys_db s) pid d \<and> (\<exists>st. status_get (sys_db s) d = Some st \<and> running (main st))"
proof -
  obtain st where st: "status_get (sys_db s) d = Some st"
    using assms by (cases "status_get (sys_db s) d") (auto simp: try_heal.simps st_eval)
  then show ?thesis
    using assms try_heal_HealthChecksFailed_None by (auto simp: try_heal.simps(4) st_eval split: if_splits)
qed

lemma try_heal_config_stage:
  assumes "try_heal ctx (ConfigUnsatisfied err) pid d cfg info s = (Ok r, s')"
  shows "(\<exists>e. r = Some (ConfigUnsatisfied e)) \<or>
    (\<exists>cfg' s1. try_heal ctx NotRunning pid d cfg' info s1 = (Ok r, s') \<and> sys_db s1 = sys_db s)"
proof -
  obtain m m' :: manifest and c s1 chk s2 where 1: "dependency_config_or_get ctx d m' cfg s = (Ok c, s1)"
    and 2: "(case di_config info of
        Some cfg_req \<Rightarrow> dependency_config_check ctx cfg_req (m_containers m) pid (m_version m) (m_volumes m) d c
      | None \<Rightarrow> st_return (Inr ())) s1 = (Ok chk, s2)"
    and 3: "(case chk of Inl error \<Rightarrow> st_return (Some (ConfigUnsatisfied error))
      | Inr _ \<Rightarrow> try_heal ctx NotRunning pid d (Some c) info) s2 = (Ok r, s')"
    using assms by (auto simp: try_heal.simps(3) st_bind_eq_Ok st_simps)
  have "sys_db s1 = sys_db s"
    using same_db.rel.keepsD [OF same_db.rel.keeps_dependency_config_or_get 1] by (simp add: on_db_def)
  moreover have "same_db.rel.keeps (case di_config info of
        Some cfg_req \<Rightarrow> dependency_config_check ctx cfg_req (m_containers m) pid (m_version m) (m_volumes m) d c
      | None \<Rightarrow> st_return (Inr ()))"
    by (auto intro!: same_db.rel.world_rules split: option.splits)
  from same_db.rel.keepsD [OF this 2] have "sys_db s2 = sys_db s1" by (simp add: on_db_def)
  ultimately show ?thesis using 3 by (auto simp: st_simps split: sum.splits)
qed

lemma try_heal_ConfigUnsatisfied_None:
  assumes "try_heal ctx (ConfigUnsatisfied err) pid d cfg info s = (Ok None, s')"
  shows "dependency_healthy (sys_db s) pid d \<and> (\<exists>st. status_get (sys_db s) d = Some st \<and> running (main st))"
  using try_heal_config_stage [OF assms] try_heal_NotRunning_None by fastforce

lemma satisfied_None:
  assumes "dep_info_satisfied ctx info d cfg pid s = (Ok None, s')"
  shows "\<exists>i. installed_get (sys_db s) d = Some i \<and> satisfies ctx (m_version (ip_manifest i)) (di_version info) \<and>
    running (main (ip_status i)) \<and> dependency_healthy (sys_db s) pid d"
proof -
  obtain i where i: "installed_get (sys_db s) d = Some i"
    using assms by (cases "installed_get (sys_db s) d")
      (auto simp: dep_info_satisfied_def try_heal.simps(1) st_eval status_get_def)
  then have "satisfies ctx (m_version (ip_manifest i)) (di_version info)"
    "try_heal ctx (ConfigUnsatisfied []) pid d cfg info s = (Ok None, s')"
    using assms by (auto simp: dep_info_satisfied_def try_heal.simps(1,2) st_eval status_get_def manifest_get_def
        Let_def split: if_splits)
  with i try_heal_ConfigUnsatisfied_None show ?thesis by (fastforce simp: status_get_def)
qed

text \<open>The last stage decides between no error and a transitive one.\<close>

definition last_stage :: "db \<Rightarrow> package_id \<Rightarrow> dependency_error option \<Rightarrow> bool" where
  "last_stage db d r \<longleftrightarrow> (r = None \<longrightarrow> errs db d = []) \<and> (r = Some Transitive \<longrightarrow> errs db d \<noteq> [])"

lemma last_stage_HealthChecksFailed:
  assumes "try_heal ctx (HealthChecksFailed fs) pid d cfg info s = (Ok r, s')"
  shows "last_stage (sys_db s) d r"
proof -
  obtain st where st: "status_get (sys_db s) d = Some st"
    using assms by (cases "status_get (sys_db s) d") (auto simp: try_heal.simps st_eval)
  have "last_stage (sys_db s) d r"
    if "st_bind (st_lift (health_failures (sys_db s) pid d h)) (\<lambda>failures.
          if failures \<noteq> [] then st_return (Some (HealthChecksFailed failures))
          else try_heal ctx Transitive pid d cfg info) s = (Ok r, s')" for h
    using that by (auto simp: st_bind_eq_Ok st_simps try_heal_Transitive last_stage_def split: if_splits)
  then show ?thesis
    using assms st by (auto simp: try_heal.simps(5) st_eval Let_def try_heal_Transitive last_stage_def
        split: main_status.splits option.splits if_splits)
qed

lemma last_stage_NotRunning:
  "try_heal ctx NotRunning pid d cfg info s = (Ok r, s') \<Longrightarrow> last_stage (sys_db s) d r"
  by (auto simp: try_heal.simps(4) st_bind_eq_Ok st_simps last_stage_def split: if_splits
    dest!: last_stage_HealthChecksFailed)

lemma last_stage_ConfigUnsatisfied:
  "try_heal ctx (ConfigUnsatisfied err) pid d cfg info s = (Ok r, s') \<Longrightarrow> last_stage (sys_db s) d r"
  using try_heal_config_stage last_stage_NotRunning by (fastforce simp: last_stage_def)

lemma last_stage_IncorrectVersion:
  "try_heal ctx (IncorrectVersion v u) pid d cfg info s = (Ok r, s') \<Longrightarrow> last_stage (sys_db s) d r"
  by (auto simp: try_heal.simps(2) st_eval Let_def split: if_splits dest!: last_stage_ConfigUnsatisfied)
    (auto simp: last_stage_def)

lemma try_heal_last: "try_heal ctx e pid d cfg info s = (Ok r, s') \<Longrightarrow> last_stage (sys_db s) d r"
proof (cases e)
  case NotInstalled
  assume "try_heal ctx e pid d cfg info s = (Ok r, s')"
  then show ?thesis using NotInstalled
    by (auto simp: try_heal.simps(1) st_eval split: option.splits dest!: last_stage_IncorrectVersion)
      (auto simp: last_stage_def)
qed (auto simp: try_heal_Transitive intro: last_stage_IncorrectVersion last_stage_ConfigUnsatisfied
    last_stage_NotRunning last_stage_HealthChecksFailed, auto simp: last_stage_def)

section \<open>Errors only fall while they heal\<close>

text \<open>The database after \<open>heal_transitive\<close> has replaced or removed the error for a dependency.\<close>

definition settled :: "package_id \<Rightarrow> package_id \<Rightarrow> dependency_error option \<Rightarrow> db \<Rightarrow> db" where
  "settled pid d r db =
     (case status_get db pid of
        None \<Rightarrow> db
      | Some st \<Rightarrow>
          let rest = bt_remove d (dependency_errors st) in
          status_set (st\<lparr>dependency_errors := (case r of Some new \<Rightarrow> bt_insert d new rest | None \<Rightarrow> rest)\<rparr>) pid db)"

lemma errs_settled:
  assumes "status_get db pid = Some st"
  shows "bt_get (errs (settled pid d r db) p) q =
    (if p = pid \<and> q = d then r else bt_get (errs db p) q)"
  using assms errs_status [OF assms]
  by (auto simp: settled_def Let_def errs_def errors_status status.fetch_store split: option.splits)

lemma same_packages_settled: "same_packages db (settled pid d r db)"
proof (cases "status_get db pid")
  case (Some st)
  then have "same_packages db (status_set (st\<lparr>dependency_errors := v\<rparr>) pid db)" for v
    by (auto simp: same_packages_def fun_eq_iff status.keys_store status.fetch_store)
  with Some show ?thesis by (simp add: settled_def Let_def)
qed (simp add: settled_def packages.db_refl)

lemma heal_step:
  "heal_transitive (Suc fuel) ctx pid d s =
     (case status_get (sys_db s) pid of
        None \<Rightarrow> (Err (not_found pid), s)
      | Some st \<Rightarrow>
          (case bt_get (dependency_errors st) d of
             None \<Rightarrow> (Ok (), s)
           | Some old \<Rightarrow>
               (case Option.bind (manifest_get (sys_db s) pid) (\<lambda>m. bt_get (m_dependencies m) d) of
                  None \<Rightarrow> (Err (not_found (pid @ '''s dependency: '' @ d)), s)
                | Some info \<Rightarrow>
                    st_bind (try_heal ctx old pid d None info) (\<lambda>r.
                      st_bind (map_db (settled pid d r)) (\<lambda>_.
                        if r = None then heal_all_dependents_transitive fuel ctx pid else st_return ())) s)))"
proof (cases "status_get (sys_db s) pid")
  case (Some st)
  have eq: "st_bind (try_heal ctx old pid d None info) (\<lambda>r.
         case r of
           Some new \<Rightarrow> map_db (status_set (st\<lparr>dependency_errors := bt_insert d new (bt_remove d (dependency_errors st))\<rparr>) pid)
         | None \<Rightarrow> st_bind (map_db (status_set (st\<lparr>dependency_errors := bt_remove d (dependency_errors st)\<rparr>) pid)) (\<lambda>_.
             heal_all_dependents_transitive fuel ctx pid)) s =
       st_bind (try_heal ctx old pid d None info) (\<lambda>r. st_bind (map_db (settled pid d r)) (\<lambda>_.
         if r = None then heal_all_dependents_transitive fuel ctx pid else st_return ())) s" for old info
  proof -
    obtain r s1 where run: "try_heal ctx old pid d None info s = (r, s1)" by fastforce
    have "status_get (sys_db s1) pid = Some st" using try_heal_same_db [OF run] Some by simp
    then show ?thesis using run
      by (cases r) (auto simp: map_db_def st_eval settled_def Let_def split: option.splits)
  qed
  from Some show ?thesis
    by (auto simp: heal_transitive.simps st_eval Let_def eq split: option.splits)
qed (simp add: heal_transitive.simps st_eval)

lemma heal_all_step:
  "heal_all_dependents_transitive fuel ctx pid s =
     (case dependents_get (sys_db s) pid of
        None \<Rightarrow> (Err (not_found pid), s)
      | Some ds \<Rightarrow> st_for (\<lambda>q. heal_transitive fuel ctx q pid) (filter (\<lambda>q. pid \<noteq> q) (bt_keys ds)) s)"
  by (simp add: heal_all_dependents_transitive.simps st_eval split: option.splits)

text \<open>The three ways a call can go: nothing written, the error replaced, the error removed.\<close>

lemma heal_transitive_cases:
  assumes "heal_transitive (Suc fuel) ctx pid d s = (r, t)"
  obtains (none) "sys_db t = sys_db s" "r \<noteq> Diverge" "r = Ok () \<longrightarrow> bt_get (errs (sys_db s) pid) d = None"
  | (replaced) new st where "r = Ok ()" "status_get (sys_db s) pid = Some st" "bt_get (errs (sys_db s) pid) d \<noteq> None"
      "sys_db t = settled pid d (Some new) (sys_db s)" "last_stage (sys_db s) d (Some new)"
  | (removed) s1 st where "status_get (sys_db s) pid = Some st" "bt_get (errs (sys_db s) pid) d \<noteq> None"
      "sys_db s1 = settled pid d None (sys_db s)" "heal_all_dependents_transitive fuel ctx pid s1 = (r, t)"
proof (cases "status_get (sys_db s) pid")
  case None
  with assms none show thesis by (auto simp: heal_step)
next
  case (Some st)
  note st = this errs_status [OF this]
  show thesis
  proof (cases "bt_get (dependency_errors st) d")
    case None
    with assms st none show thesis by (auto simp: heal_step)
  next
    case old: (Some old)
    show thesis
    proof (cases "Option.bind (manifest_get (sys_db s) pid) (\<lambda>m. bt_get (m_dependencies m) d)")
      case None
      with assms st old none show thesis by (auto simp: heal_step)
    next
      case (Some info)
      obtain v s1 where run: "try_heal ctx old pid d None info s = (v, s1)" by fastforce
      have db: "sys_db s1 = sys_db s" by (rule try_heal_same_db [OF run])
      have nd: "v \<noteq> Diverge" using tameD [OF tame_try_heal [where P = "\<lambda>_. True"] _ run] by simp
      have step: "st_bind (try_heal ctx old pid d None info) (\<lambda>r. st_bind (map_db (settled pid d r)) (\<lambda>_.
          if r = None then heal_all_dependents_transitive fuel ctx pid else st_return ())) s = (r, t)"
        using assms st old Some by (simp add: heal_step)
      show thesis
      proof (cases v)
        case (Ok w)
        have last: "last_stage (sys_db s) d w" using try_heal_last run Ok by blast
        let ?s = "s1\<lparr>sys_db := settled pid d w (sys_db s1)\<rparr>"
        show thesis
        proof (cases w)
          case None
          then show thesis using step run Ok db st old
            by (intro removed [of st ?s]) (auto simp: map_db_def st_eval)
        next
          case (Some new)
          then show thesis using step run Ok db st old last
            by (intro replaced [of st new]) (auto simp: map_db_def st_eval)
        qed
      qed (use step run db nd none in auto)
    qed
  qed
qed

definition errors_fall :: "db \<Rightarrow> db \<Rightarrow> bool" where
  "errors_fall d e \<longleftrightarrow> same_packages d e \<and> (\<forall>p q. bt_get (errs e p) q \<noteq> None \<longrightarrow> bt_get (errs d p) q \<noteq> None)"

interpretation fall: db_rel errors_fall
  by unfold_locales (auto simp: errors_fall_def intro: packages.db_refl packages.db_trans)

lemma settled_fall:
  "status_get db pid = Some st \<Longrightarrow> bt_get (errs db pid) d \<noteq> None \<Longrightarrow> errors_fall db (settled pid d r db)"
  by (auto simp: errors_fall_def same_packages_settled errs_settled split: if_splits)

lemma heal_transitive_fall: "fall.rel.keeps (heal_transitive fuel ctx pid d :: ('w, unit) act)"
proof (induction fuel arbitrary: pid d)
  case (Suc fuel)
  have all: "fall.rel.keeps (heal_all_dependents_transitive fuel ctx pid :: ('w, unit) act)"
    unfolding heal_all_dependents_transitive.simps using Suc by (intro fall.rel.world_rules) auto
  show ?case
    unfolding fall.rel.keeps_def unfolding on_db_def
  proof
    fix s :: "'w sys"
    obtain r t where run: "heal_transitive (Suc fuel) ctx pid d s = (r, t)" by fastforce
    then show "errors_fall (sys_db s) (sys_db (snd (heal_transitive (Suc fuel) ctx pid d s)))"
    proof (cases rule: heal_transitive_cases)
      case (removed s1 st)
      have "errors_fall (sys_db s1) (sys_db t)"
        using fall.rel.keepsD [OF all removed(4)] by (simp add: on_db_def)
      with removed run show ?thesis using settled_fall fall.db_trans by fastforce
    qed (use run settled_fall in \<open>auto simp: fall.db_refl\<close>)
  qed
qed (simp add: heal_transitive.simps fall.rel.keeps_basic)

lemma heal_fall: "errors_fall (sys_db s) (sys_db (snd (heal_transitive fuel ctx pid d s)))"
  using heal_transitive_fall unfolding fall.rel.keeps_def on_db_def by blast

section \<open>Healing ends\<close>

definition error_count :: "db \<Rightarrow> nat" where
  "error_count db = (\<Sum>p \<in> set (bt_keys db). card (dom (bt_get (errs db p))))"

lemma finite_dom_bt_get [simp]: "finite (dom (bt_get m))"
  by (simp add: bt_get_def [abs_def] finite_dom_map_of)

lemma error_count_fall:
  assumes "errors_fall d e"
  shows "error_count e \<le> error_count d"
proof -
  have "bt_keys e = bt_keys d" using assms by (simp add: errors_fall_def same_packages_def)
  moreover have "dom (bt_get (errs e p)) \<subseteq> dom (bt_get (errs d p))" for p
    using assms by (auto simp: errors_fall_def)
  ultimately show ?thesis unfolding error_count_def by (auto intro!: sum_mono card_mono)
qed

lemma error_count_settled:
  assumes "status_get db pid = Some st" and "bt_get (errs db pid) d \<noteq> None"
  shows "error_count (settled pid d None db) < error_count db"
proof -
  let ?e = "settled pid d None db"
  have keys: "bt_keys ?e = bt_keys db" using same_packages_settled by (simp add: same_packages_def)
  have dom: "dom (bt_get (errs ?e p)) = (if p = pid then dom (bt_get (errs db p)) - {d} else dom (bt_get (errs db p)))" for p
    using assms(1) by (auto simp: errs_settled split: if_splits)
  have "pid \<in> set (bt_keys db)"
    using assms(1) bt_get_None [of db pid] by (auto simp: status_get_def installed_get_def)
  moreover have "card (dom (bt_get (errs ?e pid))) < card (dom (bt_get (errs db pid)))"
    using assms(2) by (auto simp: dom intro!: card_Diff1_less)
  moreover have "card (dom (bt_get (errs ?e p))) \<le> card (dom (bt_get (errs db p)))" for p
    by (auto simp: dom intro: card_mono)
  ultimately show ?thesis unfolding error_count_def keys by (intro sum_strict_mono_ex1) auto
qed

lemma heal_transitive_ends:
  "error_count (sys_db s) < fuel \<Longrightarrow> fst (heal_transitive fuel ctx pid d (s :: 'w sys)) \<noteq> Diverge"
proof (induction fuel arbitrary: pid d s)
  case (Suc fuel)
  have all: "fst (heal_all_dependents_transitive fuel ctx pid s) \<noteq> Diverge"
    if "error_count (sys_db s) < fuel" for s :: "'w sys"
  proof -
    let ?P = "\<lambda>s :: 'w sys. error_count (sys_db s) < fuel"
    have "tame ?P (heal_transitive fuel ctx q pid)" for q
      unfolding tame_def using Suc.IH error_count_fall [OF heal_fall] by (meson order_le_less_trans)
    then have "tame ?P (st_for (\<lambda>q. heal_transitive fuel ctx q pid) qs)" for qs by (rule tame_for)
    with that show ?thesis unfolding heal_all_step tame_def by (auto split: option.splits)
  qed
  obtain r t where run: "heal_transitive (Suc fuel) ctx pid d s = (r, t)" by fastforce
  then show ?case
  proof (cases rule: heal_transitive_cases)
    case (removed s1 st)
    with error_count_settled [OF removed(1,2)] Suc.prems all [of s1] run show ?thesis by simp
  qed (use run in auto)
qed simp

section \<open>No transitive error is left behind\<close>

definition transitive :: "db \<Rightarrow> package_id \<Rightarrow> package_id \<Rightarrow> bool" where
  "transitive db q p \<longleftrightarrow> bt_get (errs db q) p = Some Transitive"

definition cleared :: "db \<Rightarrow> db \<Rightarrow> bool" where
  "cleared d e \<longleftrightarrow> errors_fall d e \<and>
     (\<forall>p q. errs d p = [] \<longrightarrow> \<not> transitive d q p \<longrightarrow> \<not> transitive e q p) \<and>
     (\<forall>p q ds. errs d p \<noteq> [] \<longrightarrow> errs e p = [] \<longrightarrow> dependents_get d p = Some ds \<longrightarrow>
        q \<in> set (bt_keys ds) \<longrightarrow> q \<noteq> p \<longrightarrow> \<not> transitive e q p)"

lemma bt_empty:
  assumes "\<And>k. bt_get m k = None"
  shows "m = []"
proof (cases m)
  case (Cons e m')
  then show ?thesis using assms [of "fst e"] by (cases e) simp
qed

lemma fall_empty:
  assumes "errors_fall d e" and "errs d p = []"
  shows "errs e p = []"
proof (rule bt_empty)
  fix q
  have "bt_get (errs d p) q = None" using assms(2) by simp
  then show "bt_get (errs e p) q = None" using assms(1) unfolding errors_fall_def by blast
qed

lemma cleared_refl: "cleared d d"
  by (simp add: cleared_def fall.db_refl)

lemma cleared_trans:
  assumes "cleared d e" and "cleared e f"
  shows "cleared d f"
proof -
  have fall: "errors_fall d e" "errors_fall e f" "dependents_get e = dependents_get d"
    using assms by (auto simp: cleared_def errors_fall_def same_packages_def)
  have "\<not> transitive f q p" if "errs d p = []" "\<not> transitive d q p" for p q
    using assms fall_empty [OF fall(1) that(1)] that unfolding cleared_def by blast
  moreover have "\<not> transitive f q p"
    if "errs d p \<noteq> []" "errs f p = []" "dependents_get d p = Some ds" "q \<in> set (bt_keys ds)" "q \<noteq> p" for p q ds
  proof (cases "errs e p = []")
    case True
    then have "\<not> transitive e q p" using assms(1) that unfolding cleared_def by blast
    with True assms(2) show ?thesis unfolding cleared_def by blast
  next
    case False
    with assms(2) that fall(3) show ?thesis unfolding cleared_def by metis
  qed
  ultimately show ?thesis using fall fall.db_trans unfolding cleared_def by blast
qed

lemma transitive_settled:
  "status_get db pid = Some st \<Longrightarrow>
     transitive (settled pid d r db) q p \<longleftrightarrow> (if q = pid \<and> p = d then r = Some Transitive else transitive db q p)"
  by (auto simp: transitive_def errs_settled)

lemma errs_settled_other: "status_get db pid = Some st \<Longrightarrow> p \<noteq> pid \<Longrightarrow> errs (settled pid d r db) p = errs db p"
  by (simp add: settled_def Let_def errs_def errors_status status.fetch_store)

lemma errs_settled_Some: "status_get db pid = Some st \<Longrightarrow> errs (settled pid d (Some new) db) pid \<noteq> []"
  using errs_settled [of db pid st d "Some new" pid d] by auto

lemma heal_all_cleared:
  assumes each: "\<And>q u v. heal_transitive fuel ctx q pid u = (Ok (), v) \<Longrightarrow>
      cleared (sys_db u) (sys_db (v :: 'w sys)) \<and> (errs (sys_db u) pid = [] \<longrightarrow> \<not> transitive (sys_db v) q pid)"
    and run: "heal_all_dependents_transitive fuel ctx pid s = (Ok (), t)"
  shows "cleared (sys_db s) (sys_db t) \<and>
    (\<forall>ds q. errs (sys_db s) pid = [] \<longrightarrow> dependents_get (sys_db s) pid = Some ds \<longrightarrow> q \<in> set (bt_keys ds) \<longrightarrow>
       q \<noteq> pid \<longrightarrow> \<not> transitive (sys_db t) q pid)"
proof -
  obtain ds where ds: "dependents_get (sys_db s) pid = Some ds"
    using run by (auto simp: heal_all_step split: option.splits)
  let ?qs = "filter (\<lambda>q. pid \<noteq> q) (bt_keys ds)"
  have loop: "st_for (\<lambda>q. heal_transitive fuel ctx q pid) ?qs s = (Ok (), t)"
    using run ds by (simp add: heal_all_step)
  let ?Q = "\<lambda>q v. errs (sys_db s) pid = [] \<longrightarrow> \<not> transitive (sys_db v) q pid"
  have "cleared (sys_db s) (sys_db t) \<and> (\<forall>q \<in> set ?qs. ?Q q t)"
  proof (rule st_for_each [OF loop cleared_refl])
    fix q and u v :: "'w sys"
    assume cl: "cleared (sys_db s) (sys_db u)" and step: "heal_transitive fuel ctx q pid u = (Ok (), v)"
    have "errs (sys_db s) pid = [] \<Longrightarrow> errs (sys_db u) pid = []"
      using cl unfolding cleared_def by (blast intro: fall_empty)
    with each [OF step] cleared_trans [OF cl] show "cleared (sys_db s) (sys_db v) \<and> ?Q q v" by simp
  next
    fix q q' and u v :: "'w sys"
    assume cl: "cleared (sys_db s) (sys_db u)" and q: "?Q q u"
      and step: "heal_transitive fuel ctx q' pid u = (Ok (), v)"
    have empty: "errs (sys_db s) pid = [] \<Longrightarrow> errs (sys_db u) pid = []"
      using cl unfolding cleared_def by (blast intro: fall_empty)
    have "cleared (sys_db u) (sys_db v)" using each [OF step] by simp
    then show "?Q q v" using empty q unfolding cleared_def by simp
  qed
  then show ?thesis using ds by auto
qed

lemma heal_transitive_cleared:
  "heal_transitive fuel ctx pid d s = (Ok (), t) \<Longrightarrow>
     cleared (sys_db s) (sys_db (t :: 'w sys)) \<and> (errs (sys_db s) d = [] \<longrightarrow> \<not> transitive (sys_db t) pid d)"
proof (induction fuel arbitrary: pid d s t)
  case (Suc fuel)
  from Suc.prems show ?case
  proof (cases rule: heal_transitive_cases)
    case none
    then show ?thesis by (simp add: cleared_refl transitive_def)
  next
    case (replaced new st)
    have "errs (settled pid d (Some new) (sys_db s)) p = [] \<Longrightarrow> errs (sys_db s) p = []" for p
      using errs_settled_other [OF replaced(2)] errs_settled_Some [OF replaced(2)] by metis
    then have "cleared (sys_db s) (sys_db t)"
      using replaced settled_fall [OF replaced(2,3)]
      by (auto simp: cleared_def transitive_settled [OF replaced(2)] last_stage_def)
    with replaced show ?thesis by (auto simp: transitive_settled [OF replaced(2)] last_stage_def)
  next
    case (removed s1 st)
    note all = heal_all_cleared [OF Suc.IH removed(4)]
    have fall: "errors_fall (sys_db s) (sys_db s1)" using settled_fall [OF removed(1,2)] removed(3) by simp
    then have deps: "dependents_get (sys_db s1) = dependents_get (sys_db s)"
      by (simp add: errors_fall_def same_packages_def)
    have tr: "\<not> transitive (sys_db s) q p \<Longrightarrow> \<not> transitive (sys_db s1) q p" "\<not> transitive (sys_db s1) pid d" for q p
      using removed(3) by (auto simp: transitive_settled [OF removed(1)] split: if_splits)
    have keep: "\<not> transitive (sys_db t) q p" if "errs (sys_db s) p = []" "\<not> transitive (sys_db s1) q p" for p q
      using all that fall_empty [OF fall] unfolding cleared_def by blast
    have "\<not> transitive (sys_db t) q p"
      if p: "errs (sys_db s) p \<noteq> []" "errs (sys_db t) p = []" "dependents_get (sys_db s) p = Some ds" "q \<in> set (bt_keys ds)" "q \<noteq> p"
      for p q ds
    proof (cases "errs (sys_db s1) p = []")
      case True
      then have "p = pid" using p(1) errs_settled_other [OF removed(1)] removed(3) by metis
      with True all p deps show ?thesis by metis
    next
      case False
      with all p deps show ?thesis unfolding cleared_def by metis
    qed
    moreover have "errors_fall (sys_db s) (sys_db t)" using fall all fall.db_trans unfolding cleared_def by blast
    ultimately show ?thesis using keep tr unfolding cleared_def by blast
  qed
qed (simp add: heal_transitive.simps st_eval)

section \<open>Properties\<close>

text \<open>
  The sample packages while \<open>a\<close> is starting again: \<open>b\<close> still reports that \<open>a\<close> is not running, and
  \<open>c\<close> has the transitive error for \<open>b\<close>.
\<close>

definition sample_broken :: "package_id \<Rightarrow> package_id list \<Rightarrow> package_id list \<Rightarrow> dependency_errors \<Rightarrow> package_data_entry" where
  "sample_broken p dependencies dependents es =
     pde_map_installed (\<lambda>i. i\<lparr>ip_status := \<lparr>configured = True, main = Starting False, dependency_errors = es\<rparr>,
       ip_manifest := (ip_manifest i)\<lparr>m_dependencies := sample_deps dependencies\<rparr>\<rparr>) (sample_installed p dependents)"

definition broken_sys :: "nat sys" where
  "broken_sys = \<lparr>sys_db = [(''a'', sample_broken ''a'' [] [''b''] []), (''b'', sample_broken ''b'' [''a''] [''c''] [(''a'', NotRunning)]),
     (''c'', sample_broken ''c'' [''b''] [] [(''b'', Transitive)])], sys_breakages = [], sys_overrides = [], sys_world = 0\<rparr>"

text \<open>
  When \<open>DepInfo::satisfied\<close> finds nothing to object to, the dependency is installed, its version
  satisfies the required range, it is running, it has no dependency errors of its own, and each health
  check that the dependent relies on succeeds. The check does not change the database.
\<close>

theorem satisfied_means_healthy:
  assumes "dep_info_satisfied ctx info d cfg pid s = (Ok None, s')"
  shows "\<exists>i. installed_get (sys_db s) d = Some i \<and> satisfies ctx (m_version (ip_manifest i)) (di_version info) \<and>
    running (main (ip_status i)) \<and> dependency_healthy (sys_db s) pid d \<and> sys_db s' = sys_db s"
  using satisfied_None [OF assms] assms try_heal_same_db unfolding dep_info_satisfied_def by blast

theorem satisfied_means_healthy_witness:
  "dependency_healthy (sys_db broken_sys) ''b'' ''a''"
proof -
  have "fst (dep_info_satisfied sample_ctx \<lparr>di_version = ''*'', di_requirement = Required, di_description = None, di_config = None\<rparr>
      ''a'' None ''b'' broken_sys) = Ok None"
    by code_simp
  then obtain s' where run: "dep_info_satisfied sample_ctx
      \<lparr>di_version = ''*'', di_requirement = Required, di_description = None, di_config = None\<rparr> ''a'' None ''b'' broken_sys = (Ok None, s')"
    by (metis prod.collapse)
  show ?thesis using satisfied_means_healthy [OF run] by blast
qed

text \<open>
  Whether a restarting dependency counts as an error depends on the error that was recorded before:
  a failed health check is healed, while \<open>NotRunning\<close> stays, although the dependency is the same.
\<close>

theorem restarting_depends_on_old_error:
  assumes "status_get (sys_db s) d = Some st" and "main st = Restarting" and "dependency_errors st = []"
  shows "try_heal ctx (HealthChecksFailed fs) pid d cfg info s = (Ok None, s) \<and>
    try_heal ctx NotRunning pid d cfg info s = (Ok (Some NotRunning), s)"
  using assms by (simp add: try_heal.simps st_eval Let_def errors_status)

theorem restarting_depends_on_old_error_witness:
  "try_heal sample_ctx (HealthChecksFailed []) ''b'' ''a'' None
      \<lparr>di_version = ''*'', di_requirement = Required, di_description = None, di_config = None\<rparr> sample_sys = (Ok None, sample_sys)"
  using restarting_depends_on_old_error [of sample_sys "''a''" "\<lparr>configured = True, main = Restarting, dependency_errors = []\<rparr>"]
  by (simp add: status_get_def installed_get_def sample_sys_defs)

text \<open>
  Healing ends: with fuel beyond the number of errors recorded in the database, \<open>heal_transitive\<close>
  returns on every graph of dependents and for every behaviour of the package procedures, because
  each step that goes deeper has removed an error.
\<close>

theorem heal_transitive_terminates:
  assumes "error_count (sys_db s) < fuel"
  shows "fst (heal_transitive fuel ctx pid d s) \<noteq> Diverge"
  using assms by (rule heal_transitive_ends)

theorem heal_transitive_terminates_witness:
  "fst (heal_transitive 3 sample_ctx ''b'' ''a'' broken_sys) \<noteq> Diverge"
  by (rule heal_transitive_terminates)
    (simp add: error_count_def errs_def errors_get_def installed_get_def broken_sys_def sample_broken_def
      sample_installed_def Let_def bt_keys_def bt_get_def [abs_def] dom_def)

text \<open>
  C20. Healing never records an error for a dependency that had none, changes nothing but dependency
  errors, and when it succeeds it is complete: no dependent of a package whose last error it removed
  still carries the transitive error for that package.
\<close>

theorem heal_transitive_clears:
  assumes "heal_transitive fuel ctx pid d s = (Ok (), t)"
  shows "same_packages (sys_db s) (sys_db t) \<and>
    (\<forall>p q. bt_get (errs (sys_db t) p) q \<noteq> None \<longrightarrow> bt_get (errs (sys_db s) p) q \<noteq> None) \<and>
    (\<forall>p q ds. errs (sys_db s) p \<noteq> [] \<longrightarrow> errs (sys_db t) p = [] \<longrightarrow> dependents_get (sys_db s) p = Some ds \<longrightarrow>
       q \<in> set (bt_keys ds) \<longrightarrow> q \<noteq> p \<longrightarrow> bt_get (errs (sys_db t) q) p \<noteq> Some Transitive)"
  using heal_transitive_cleared [OF assms] unfolding cleared_def errors_fall_def transitive_def by blast

theorem heal_transitive_clears_witness:
  "fst (heal_transitive 3 sample_ctx ''b'' ''a'' broken_sys) = Ok () \<and>
   errs (sys_db (snd (heal_transitive 3 sample_ctx ''b'' ''a'' broken_sys))) ''b'' = [] \<and>
   bt_get (errs (sys_db (snd (heal_transitive 3 sample_ctx ''b'' ''a'' broken_sys))) ''c'') ''b'' \<noteq> Some Transitive"
proof -
  define t where "t = snd (heal_transitive 3 sample_ctx ''b'' ''a'' broken_sys)"
  have "fst (heal_transitive 3 sample_ctx ''b'' ''a'' broken_sys) = Ok ()" by code_simp
  then have run: "heal_transitive 3 sample_ctx ''b'' ''a'' broken_sys = (Ok (), t)"
    by (simp add: t_def prod_eq_iff)
  have b: "errs (sys_db broken_sys) ''b'' \<noteq> []" "errs (sys_db t) ''b'' = []"
    "dependents_get (sys_db broken_sys) ''b'' = Some [(''c'', current_dependency_info_default)]"
    unfolding t_def by code_simp+
  have "bt_get (errs (sys_db t) ''c'') ''b'' \<noteq> Some Transitive"
    using heal_transitive_clears [OF run, THEN conjunct2, THEN conjunct2, rule_format, OF b]
    by (simp add: bt_keys_def)
  then show ?thesis using b unfolding run snd_conv fst_conv by blast
qed

end
