(* ===== verification/Dependency_Lists.thy ===== *)
theory Dependency_Lists
  imports Dependency_Spread
begin

text \<open>
  The lists of current dependents, which mirror the dependencies of every package, and the errors
  that dependents get when a package they depend on is uninstalled.
\<close>

section \<open>Loops that only rewrite the database\<close>

lemma map_db_step: "map_db f s = (Ok (), s\<lparr>sys_db := f (sys_db s)\<rparr>)"
  by (simp add: map_db_def st_simps)

lemma st_for_map_db: "st_for (\<lambda>x. map_db (f x)) xs s = (Ok (), s\<lparr>sys_db := fold f xs (sys_db s)\<rparr>)"
  by (induction xs arbitrary: s) (simp_all add: st_simps st_bind_def map_db_step)

lemma bt_remove_absent: "bt_get m k = None \<Longrightarrow> bt_remove k m = m"
  by (induction m) (auto simp: bt_remove_def split: if_splits)

lemma bt_remove_twice [simp]: "bt_remove k (bt_remove k m) = bt_remove k m"
  by (simp add: bt_remove_def)

lemma dependents_remove:
  "dependents_get (remove_dependent pid dep db) q =
     (if q = dep then map_option (bt_remove pid) (dependents_get db q) else dependents_get db q)"
  by (auto simp: remove_dependent_def dependents.fetch_store bt_remove_absent split: option.splits)

lemma dependents_remove_all:
  "dependents_get (fold (remove_dependent pid) deps db) q =
     (if q \<in> set deps then map_option (bt_remove pid) (dependents_get db q) else dependents_get db q)"
  by (induction deps arbitrary: db) (auto simp: dependents_remove option.map_comp o_def)

lemma add_all_rewrite:
  "distinct (map fst cds) \<Longrightarrow> fold (add_dependent pid) cds db =
     dependents.rewrite_all (\<lambda>q. bt_insert pid (the (map_of cds q))) (map fst cds) db"
proof -
  have "fold (add_dependent pid) es db =
      dependents.rewrite_all (\<lambda>q. bt_insert pid (the (map_of cds q))) (map fst es) db"
    if "distinct (map fst cds)" "set es \<subseteq> set cds" for es
    using that(2)
  proof (induction es arbitrary: db)
    case (Cons e es)
    then have "map_of cds (fst e) = Some (snd e)" using that(1) by simp
    with Cons show ?case
      by (auto simp: dependents.rewrite_all_def add_dependent_def split: option.splits)
  qed (simp add: dependents.rewrite_all_def)
  then show "distinct (map fst cds) \<Longrightarrow> ?thesis" by simp
qed

lemma dependents_add_all:
  assumes "bt_ok cds"
  shows "dependents_get (fold (add_dependent pid) cds db) q =
    (case bt_get cds q of
       Some info \<Rightarrow> map_option (bt_insert pid info) (dependents_get db q)
     | None \<Rightarrow> dependents_get db q)"
proof -
  have "distinct (map fst cds)" using assms by (rule bt_ok_distinct)
  then show ?thesis
    using map_of_eq_None_iff [of cds q]
    by (cases "map_of cds q") (auto simp: add_all_rewrite dependents.fetch_rewrite_all bt_get_def)
qed

section \<open>Uninstalled dependencies\<close>

text \<open>What each visited dependent's errors become when the package is not installed.\<close>

definition mark_uninstalled :: "package_id \<Rightarrow> (package_id \<Rightarrow> manifest option) \<Rightarrow> package_id \<Rightarrow> dependency_errors \<Rightarrow> dependency_errors" where
  "mark_uninstalled pid ms dep es =
     (case ms dep of
        None \<Rightarrow> es
      | Some man \<Rightarrow> if bt_get (m_dependencies man) pid \<noteq> None then bt_insert pid NotInstalled es else bt_remove pid es)"

lemma satisfied_uninstalled:
  "status_get (sys_db s) d = None \<Longrightarrow> dep_info_satisfied ctx info d cfg pid s = (Ok (Some NotInstalled), s)"
  by (simp add: dep_info_satisfied_def try_heal.simps st_eval)

lemma manifest_errors_None: "manifest_get db p = None \<longleftrightarrow> errors_get db p = None"
  by (simp add: receipt_defs)

lemma update_uninstalled:
  assumes "status_get (sys_db s) pid = None"
  shows "update_dependency_errors_of_dependents ctx pid deps s =
    (Ok (), s\<lparr>sys_db := errors.rewrite_all (mark_uninstalled pid (manifest_get (sys_db s))) (bt_keys deps) (sys_db s)\<rparr>)"
proof -
  define body where "body = (\<lambda>dep. st_bind (st_get sys_db) (\<lambda>db.
       case manifest_get db dep of
         None \<Rightarrow> st_return ()
       | Some man \<Rightarrow>
           st_bind
             (case bt_get (m_dependencies man) pid of
                Some info \<Rightarrow> dep_info_satisfied ctx info pid None dep
              | None \<Rightarrow> st_return None) (\<lambda>r.
           st_bind (st_get sys_db) (\<lambda>db.
           st_bind (st_lift (ok_or (errors_get db dep) (not_found dep))) (\<lambda>errs.
           map_db (errors_set
             (case r of Some e \<Rightarrow> bt_insert pid e errs | None \<Rightarrow> bt_remove pid errs) dep))))))"
  have step: "body dep u = (Ok (), u\<lparr>sys_db := errors.rewrite_all (mark_uninstalled pid (manifest_get (sys_db s))) [dep] (sys_db u)\<rparr>)"
    if "status_get (sys_db u) pid = None" "manifest_get (sys_db u) = manifest_get (sys_db s)" for dep u
    using that satisfied_uninstalled [OF that(1)] manifest_errors_None [of "sys_db u" dep]
    by (auto simp: body_def st_eval errors.rewrite_all_def mark_uninstalled_def map_db_step
        split: option.splits)
  have "st_for body ks u = (Ok (), u\<lparr>sys_db := errors.rewrite_all (mark_uninstalled pid (manifest_get (sys_db s))) ks (sys_db u)\<rparr>)"
    if "status_get (sys_db u) pid = None" "manifest_get (sys_db u) = manifest_get (sys_db s)" for ks u
    using that
  proof (induction ks arbitrary: u)
    case (Cons k ks)
    let ?u = "u\<lparr>sys_db := errors.rewrite_all (mark_uninstalled pid (manifest_get (sys_db s))) [k] (sys_db u)\<rparr>"
    have "status_get (sys_db ?u) pid = None"
      using Cons.prems(1) errors.installed_rewrite_all by (simp add: status.fetch_None)
    moreover have "manifest_get (sys_db ?u) = manifest_get (sys_db s)"
      using Cons.prems(2) by (auto simp: errors.rewrite_all_def fun_eq_iff split: option.splits)
    ultimately have "st_for body ks ?u = (Ok (), ?u\<lparr>sys_db := errors.rewrite_all (mark_uninstalled pid (manifest_get (sys_db s))) ks (sys_db ?u)\<rparr>)"
      by (rule Cons.IH)
    then show ?case using step [OF Cons.prems, of k] by (simp add: errors.rewrite_all_def)
  qed (simp add: st_simps errors.rewrite_all_def)
  from this [OF assms refl] show ?thesis
    by (simp add: update_dependency_errors_of_dependents_def body_def)
qed

section \<open>Properties\<close>

text \<open>
  Re-linking a package, that is removing it from the dependents lists of its previous dependencies and
  adding it to those of its new ones, always succeeds and leaves the lists exact: afterwards an
  installed package lists the package as a dependent, with the new information, if it is a new
  dependency; a previous dependency that is no longer one does not list it; and what other
  packages are listed anywhere does not change.
\<close>

theorem relink_dependents:
  assumes "bt_ok new" and "dependents_get (sys_db s) q = Some ds"
    and "st_bind (remove_from_current_dependents_lists pid prev)
      (\<lambda>_. add_dependent_to_current_dependents_lists pid new) s = (r, t)"
  shows "r = Ok () \<and> (\<exists>ds'. dependents_get (sys_db t) q = Some ds' \<and>
    bt_get ds' pid = (case bt_get new q of
        Some info \<Rightarrow> Some info
      | None \<Rightarrow> if q = pid \<or> bt_get prev q \<noteq> None then None else bt_get ds pid) \<and>
    (\<forall>p. p = pid \<or> bt_get ds' p = bt_get ds p))"
proof -
  let ?d1 = "fold (remove_dependent pid) (bt_keys prev @ [pid]) (sys_db s)"
  have t: "r = Ok ()" "t = s\<lparr>sys_db := fold (add_dependent pid) new ?d1\<rparr>"
    using assms(3)
    by (auto simp: remove_from_current_dependents_lists_def add_dependent_to_current_dependents_lists_def
        st_for_map_db st_bind_def)
  show ?thesis
    using assms(2) bt_get_None [of prev q]
    by (cases "bt_get new q") (auto simp: t dependents_add_all [OF assms(1)] dependents_remove_all dependents_remove)
qed

theorem relink_dependents_witness:
  "\<exists>ds'. dependents_get (sys_db (snd (st_bind (remove_from_current_dependents_lists ''b'' [(''a'', current_dependency_info_default)])
      (\<lambda>_. add_dependent_to_current_dependents_lists ''b'' [(''c'', current_dependency_info_default)]) sample_sys))) ''a'' = Some ds' \<and>
    bt_get ds' ''b'' = None"
proof -
  obtain r t where run: "st_bind (remove_from_current_dependents_lists ''b'' [(''a'', current_dependency_info_default)])
      (\<lambda>_. add_dependent_to_current_dependents_lists ''b'' [(''c'', current_dependency_info_default)]) sample_sys = (r, t)"
    by fastforce
  have ds: "dependents_get (sys_db sample_sys) ''a'' = Some [(''b'', current_dependency_info_default)]"
    by (simp add: dependents_get_def installed_get_def sample_sys_defs)
  show ?thesis using relink_dependents [OF _ ds run] by (auto simp: run)
qed

text \<open>
  When a package is not (or no longer) installed, updating the errors of its dependents always
  succeeds: each visited dependent whose manifest declares the package gets the error
  \<open>NotInstalled\<close> for it, a visited dependent that does not declare it loses any error for it, and no
  other error of any package changes.
\<close>

theorem uninstalled_dependency_reported:
  assumes "status_get (sys_db s) pid = None" and "bt_ok deps" and "manifest_get (sys_db s) p = Some man"
    and "update_dependency_errors_of_dependents ctx pid deps s = (r, t)"
  shows "r = Ok () \<and>
    bt_get (errs (sys_db t) p) q =
      (if q = pid \<and> bt_get deps p \<noteq> None
       then (if bt_get (m_dependencies man) pid \<noteq> None then Some NotInstalled else None)
       else bt_get (errs (sys_db s) p) q)"
proof -
  have "distinct (bt_keys deps)" using assms(2) bt_ok_distinct by (simp add: bt_keys_def)
  with assms show ?thesis
    using update_uninstalled [OF assms(1), of ctx deps] manifest_errors_None [of "sys_db s" p] bt_get_None [of deps p]
    by (auto simp: errs_def errors.fetch_rewrite_all mark_uninstalled_def split: option.splits)
qed

theorem uninstalled_dependency_reported_witness:
  "bt_get (errs (sys_db (snd (update_dependency_errors_of_dependents sample_ctx ''x''
      [(''b'', current_dependency_info_default)] sample_sys))) ''b'') ''x'' = None"
proof -
  obtain r t where run: "update_dependency_errors_of_dependents sample_ctx ''x'' [(''b'', current_dependency_info_default)] sample_sys = (r, t)"
    by fastforce
  have "status_get (sys_db sample_sys) ''x'' = None"
    by (simp add: status_get_def installed_get_def sample_sys_defs)
  moreover have "manifest_get (sys_db sample_sys) ''b'' = Some \<lparr>m_id = ''b'', m_version = ''1.0.0'', m_config = None, m_volumes = [],
      m_dependencies = [], m_containers = None, m_interfaces = [], m_migrations = no_migrations,
     m_health_checks = [], m_backup = no_backup\<rparr>"
    by (simp add: manifest_get_def installed_get_def sample_sys_defs)
  ultimately show ?thesis using uninstalled_dependency_reported [OF _ _ _ run, of _ _ "''x''"] run by simp
qed

end
