(* ===== verification/Configure.thy ===== *)
theory Configure
  imports Config_Update Dependency_Heal Dependency_Lists
begin

text \<open>
  Configuring a package, \<^verbatim>\<open>config/mod.rs\<close>: the recursive \<open>configure_rec\<close> with the commands built
  on it, and the automatic configuration of a dependency in \<^verbatim>\<open>dependencies.rs\<close>.
\<close>

section \<open>Enough fuel for spreading and healing\<close>

text \<open>The calls get the fuel that is enough for the database they start from.\<close>

definition spread_fuel :: "db \<Rightarrow> nat" where
  "spread_fuel db = Suc (6 * (length db + 1) * length db)"

definition heal_fuel :: "db \<Rightarrow> nat" where
  "heal_fuel db = Suc (sum_list (map (\<lambda>p. length (errs db p)) (bt_keys db)))"

definition break_now :: "package_id \<Rightarrow> package_id \<Rightarrow> dependency_error \<Rightarrow> ('w, unit) act" where
  "break_now pid d err = st_bind (st_get sys_db) (\<lambda>db. break_transitive (spread_fuel db) pid d err)"

definition heal_all_now :: "'w ctx_ops \<Rightarrow> package_id \<Rightarrow> ('w, unit) act" where
  "heal_all_now ctx pid = st_bind (st_get sys_db) (\<lambda>db. heal_all_dependents_transitive (heal_fuel db) ctx pid)"

section \<open>Current dependencies\<close>

definition required_dependencies :: "(package_id, dep_info) btmap \<Rightarrow> current_dependencies" where
  "required_dependencies deps =
     bt_of_list (map (\<lambda>e. (fst e, current_dependency_info_default)) (filter (\<lambda>e. required (di_requirement (snd e))) deps))"

fun add_pointer :: "value_spec_pointer \<Rightarrow> current_dependencies \<Rightarrow> current_dependencies" where
  "add_pointer (Package ptr) cds =
     (case bt_get cds (pointer_package_id ptr) of
        Some info \<Rightarrow> bt_insert (pointer_package_id ptr) (info\<lparr>cdi_pointers := cdi_pointers info @ [ptr]\<rparr>) cds
      | None \<Rightarrow> bt_insert (pointer_package_id ptr) \<lparr>cdi_pointers = [ptr], cdi_health_checks = []\<rparr> cds)"

definition add_health_checks :: "package_id \<times> health_check_id list \<Rightarrow> current_dependencies \<Rightarrow> current_dependencies" where
  "add_health_checks e cds =
     (case bt_get cds (fst e) of
        Some info \<Rightarrow> bt_insert (fst e) (info\<lparr>cdi_health_checks := bs_union (cdi_health_checks info) (snd e)\<rparr>) cds
      | None \<Rightarrow> bt_insert (fst e) \<lparr>cdi_pointers = [], cdi_health_checks = snd e\<rparr> cds)"

text \<open>Dependencies that the manifest does not declare are dropped.\<close>

definition legal_dependencies :: "package_id \<Rightarrow> manifest \<Rightarrow> current_dependencies \<Rightarrow> current_dependencies" where
  "legal_dependencies pid m cds = filter (\<lambda>e. \<not> (fst e \<noteq> pid \<and> bt_get (m_dependencies m) (fst e) = None)) cds"

text \<open>Running the set action, and what it tells about dependencies. A dry run does neither.\<close>

definition run_set_action ::
  "'w ctx_ops \<Rightarrow> bool \<Rightarrow> config_actions \<Rightarrow> package_id \<Rightarrow> manifest \<Rightarrow> config \<Rightarrow> current_dependencies \<Rightarrow>
    ('w, string option \<times> current_dependencies) act" where
  "run_set_action ctx dry_run action pid m cfg cds =
     (if dry_run then st_return (None, cds)
      else
        st_bind (config_actions_set ctx action pid (m_version m) (m_dependencies m) (m_volumes m) cfg) (\<lambda>res.
        st_return (sr_signal res, legal_dependencies pid m (fold add_health_checks (sr_depends_on res) cds))))"

text \<open>Moving the package from the lists of its previous dependencies to those of the new ones.\<close>

definition relink :: "package_id \<Rightarrow> current_dependencies \<Rightarrow> ('w, unit) act" where
  "relink pid cds =
     st_bind (st_get (\<lambda>s. case dependencies_get (sys_db s) pid of Some p \<Rightarrow> p | None \<Rightarrow> [])) (\<lambda>prev.
     st_bind (remove_from_current_dependents_lists pid prev) (\<lambda>_.
     st_bind (add_dependent_to_current_dependents_lists pid cds) (\<lambda>_.
     map_db (dependencies_set (bt_remove pid cds) pid))))"

section \<open>Dependents of the configured package\<close>

definition dependency_config_of :: "db \<Rightarrow> package_id \<Rightarrow> package_id \<Rightarrow> dependency_config option" where
  "dependency_config_of db dep pid =
     Option.bind (manifest_get db dep) (\<lambda>m. Option.bind (bt_get (m_dependencies m) pid) di_config)"

fun pointer_changed :: "'w ctx_ops \<Rightarrow> json \<Rightarrow> json \<Rightarrow> package_pointer_spec \<Rightarrow> bool" where
  "pointer_changed ctx prev next (ConfigPtr p selector multi) =
     (\<not> value_eq (config_selector_select ctx selector multi next) (config_selector_select ctx selector multi prev))"
| "pointer_changed ctx prev next _ = False"

text \<open>One iteration of the loop over the dependents; \<open>recurse\<close> is the recursive call.\<close>

definition handle_dependent ::
  "'w ctx_ops \<Rightarrow> (package_id \<Rightarrow> ('w, unit) act) \<Rightarrow> package_id \<Rightarrow> config \<Rightarrow> json \<Rightarrow>
    package_id \<times> current_dependency_info \<Rightarrow> ('w, unit) act" where
  "handle_dependent ctx recurse pid cfg prev e =
     st_bind (st_get (\<lambda>s. dependency_config_of (sys_db s) (fst e) pid)) (\<lambda>dc.
     case dc of
       None \<Rightarrow> st_return ()
     | Some c \<Rightarrow>
         st_bind (st_get sys_db) (\<lambda>db.
         st_bind (st_lift (ok_or (manifest_get db (fst e)) (not_found pid))) (\<lambda>m.
         st_bind (dependency_config_check ctx c (m_containers m) (fst e) (m_version m) (m_volumes m) pid cfg) (\<lambda>chk.
         st_bind (case chk of Inl error \<Rightarrow> break_now (fst e) pid (ConfigUnsatisfied error) | Inr _ \<Rightarrow> st_return ()) (\<lambda>_.
         st_bind (st_for (\<lambda>ptr.
             if pointer_changed ctx prev (JObject cfg) ptr
             then st_catch (recurse (fst e)) (\<lambda>err.
               if err_kind err = ConfigRulesViolation
               then break_now (fst e) pid (ConfigUnsatisfied (show_error ctx err))
               else st_lift (Err err))
             else st_return ()) (cdi_pointers (snd e))) (\<lambda>_.
         heal_all_now ctx pid))))))"

definition send_signal :: "'w ctx_ops \<Rightarrow> package_id \<Rightarrow> version \<Rightarrow> string option \<Rightarrow> ('w, unit) act" where
  "send_signal ctx pid ver signal =
     (case signal of
        None \<Rightarrow> st_return ()
      | Some sig \<Rightarrow>
          (case manager_signal ctx pid ver sig of
             None \<Rightarrow> st_lift (Err (Error Incoherent (Msg ''Manager Not Found for package being configured'')))
           | Some f \<Rightarrow> call_world f))"

section \<open>Configuring\<close>

definition match_lift :: "match_res \<Rightarrow> ('w, unit) act" where
  "match_lift r = st_lift (map_err (\<lambda>e. error_of_configuration (NoMatch e)) r)"

text \<open>Everything up to and including the dereferenced configuration; nothing is written yet.\<close>

definition prepare_config ::
  "nat \<Rightarrow> 'w ctx_ops \<Rightarrow> package_id \<Rightarrow> config option \<Rightarrow> nat option \<Rightarrow>
    ('w, manifest \<times> config_actions \<times> bool \<times> config option \<times> config_spec \<times> config) act" where
  "prepare_config fuel ctx pid given timeout =
     st_bind (st_get sys_db) (\<lambda>db.
     st_bind (st_lift (ok_or (Option.bind (manifest_get db pid) m_config) (not_found pid))) (\<lambda>action.
     st_bind (st_lift (ok_or (manifest_get db pid) (not_found pid))) (\<lambda>m.
     st_bind (st_lift (ok_or (status_get db pid) (not_found pid))) (\<lambda>st.
     st_bind (config_actions_get ctx action pid (m_version m) (m_volumes m)) (\<lambda>cr.
     st_bind
       (case given of
          Some c \<Rightarrow> st_return c
        | None \<Rightarrow> (case cr_config cr of
              Some c \<Rightarrow> st_return c
            | None \<Rightarrow> config_spec_generate fuel ctx timeout (cr_spec cr))) (\<lambda>cfg.
     st_bind (match_lift (config_spec_validate m (cr_spec cr))) (\<lambda>_.
     st_bind (match_lift (config_spec_matches (regex_match ctx) (cr_spec cr) cfg)) (\<lambda>_.
     st_bind (st_map_err error_of_configuration (config_spec_update ctx m (cr_spec cr) cfg)) (\<lambda>cfg'.
     st_return (m, action, \<not> configured st, cr_config cr, cr_spec cr, cfg'))))))))))"

text \<open>The dependencies of the configuration, the set action and the new links and errors.\<close>

definition apply_config ::
  "'w ctx_ops \<Rightarrow> bool \<Rightarrow> package_id \<Rightarrow> manifest \<Rightarrow> config_actions \<Rightarrow> config_spec \<Rightarrow> config \<Rightarrow>
    ('w, string option) act" where
  "apply_config ctx dry_run pid m action spec cfg =
     st_bind (st_get sys_db) (\<lambda>db.
     st_bind (st_lift (ok_or (system_pointers_get db pid) (not_found pid))) (\<lambda>_.
     st_bind (st_lift (map_err (\<lambda>e. error_of_configuration (NoMatch e)) (config_spec_pointers spec cfg))) (\<lambda>ptrs.
     st_bind (map_db (system_pointers_set [] pid)) (\<lambda>_.
     st_bind (run_set_action ctx dry_run action pid m cfg
       (fold add_pointer ptrs (required_dependencies (m_dependencies m)))) (\<lambda>(signal, cds).
     st_bind (relink pid cds) (\<lambda>_.
     st_bind (st_get sys_db) (\<lambda>db.
     st_bind (st_lift (ok_or (errors_get db pid) (not_found pid))) (\<lambda>_.
     st_bind (dependency_errors_init ctx m (bt_remove pid cds)) (\<lambda>errs.
     st_bind (map_db (errors_set errs pid)) (\<lambda>_.
     st_bind (st_modify (\<lambda>s. s\<lparr>sys_overrides := bt_insert pid cfg (sys_overrides s)\<rparr>)) (\<lambda>_.
     st_return signal)))))))))))"

text \<open>What happens to the dependents, and the signal that tells the running package.\<close>

definition notify_dependents ::
  "'w ctx_ops \<Rightarrow> (package_id \<Rightarrow> ('w, unit) act) \<Rightarrow> package_id \<Rightarrow> version \<Rightarrow> config option \<Rightarrow> config \<Rightarrow>
    string option \<Rightarrow> ('w, unit) act" where
  "notify_dependents ctx recurse pid ver old_config cfg signal =
     st_bind (st_get sys_db) (\<lambda>db.
     st_bind (st_lift (ok_or (dependents_get db pid) (not_found pid))) (\<lambda>dependents.
     st_bind (st_for (handle_dependent ctx recurse pid cfg (case old_config of Some c \<Rightarrow> JObject c | None \<Rightarrow> JNull))
       (filter (\<lambda>e. fst e \<noteq> pid) dependents)) (\<lambda>_.
     send_signal ctx pid ver signal)))"

fun configure_rec ::
  "nat \<Rightarrow> 'w ctx_ops \<Rightarrow> nat option \<Rightarrow> bool \<Rightarrow> package_id \<Rightarrow> config option \<Rightarrow> ('w, unit) act" where
  "configure_rec 0 ctx timeout dry_run pid given = st_lift Diverge"
| "configure_rec (Suc fuel) ctx timeout dry_run pid given =
     st_bind (prepare_config fuel ctx pid given timeout) (\<lambda>(m, action, needs_config, old_config, spec, cfg).
     st_bind (apply_config ctx dry_run pid m action spec cfg) (\<lambda>signal.
     notify_dependents ctx (\<lambda>d. configure_rec fuel ctx timeout dry_run d None) pid (m_version m)
       (if needs_config then None else old_config) cfg signal))"

declare configure_rec.simps [simp del]

definition configure ::
  "nat \<Rightarrow> 'w ctx_ops \<Rightarrow> nat option \<Rightarrow> bool \<Rightarrow> package_id \<Rightarrow> config option \<Rightarrow> ('w, unit) act" where
  "configure fuel ctx timeout dry_run pid given =
     st_bind (configure_rec fuel ctx timeout dry_run pid given) (\<lambda>_.
     map_db (configured_set True pid))"

section \<open>Commands\<close>

text \<open>
  A command starts with empty overrides and breakages and works in a transaction: its changes to
  the database last only if it commits. What it did to the outside world stays in any case. The database itself is
  a library (\<^verbatim>\<open>patch-db\<close>) and taken by its contract: a transaction sees its own changes, they last when it is committed and are
  dropped with it otherwise. A database that cannot begin or commit would leave the data as they were, like any other error here;
  it is not modelled.
\<close>

definition in_transaction :: "bool \<Rightarrow> ('w, 'a) act \<Rightarrow> ('w, 'a \<times> (package_id, tagged_dependency_error) btmap) act" where
  "in_transaction commit f s =
     (case f (s\<lparr>sys_breakages := [], sys_overrides := []\<rparr>) of
        (Ok a, t) \<Rightarrow> (Ok (a, sys_breakages t),
          s\<lparr>sys_db := (if commit then sys_db t else sys_db s), sys_world := sys_world t\<rparr>)
      | (Err e, t) \<Rightarrow> (Err e, s\<lparr>sys_world := sys_world t\<rparr>)
      | (Panic, t) \<Rightarrow> (Panic, s\<lparr>sys_world := sys_world t\<rparr>)
      | (Diverge, t) \<Rightarrow> (Diverge, s\<lparr>sys_world := sys_world t\<rparr>))"

definition set_dry ::
  "nat \<Rightarrow> 'w ctx_ops \<Rightarrow> package_id \<Rightarrow> config option \<Rightarrow> nat option \<Rightarrow>
    ('w, (package_id, tagged_dependency_error) btmap) act" where
  "set_dry fuel ctx pid given timeout =
     st_bind (in_transaction False
       (st_bind (configure fuel ctx timeout True pid given) (\<lambda>_. map_db (configured_set True pid))))
       (\<lambda>r. st_return (snd r))"

definition set_impl :: "nat \<Rightarrow> 'w ctx_ops \<Rightarrow> package_id \<Rightarrow> config option \<Rightarrow> nat option \<Rightarrow> ('w, unit) act" where
  "set_impl fuel ctx pid given timeout =
     st_bind (in_transaction True (configure fuel ctx timeout False pid given)) (\<lambda>_. st_return ())"

text \<open>\<open>config get\<close>; the receipts of an installed package always find its manifest.\<close>

definition get_config :: "'w ctx_ops \<Rightarrow> package_id \<Rightarrow> ('w, config_res) act" where
  "get_config ctx pid =
     st_bind (st_get (\<lambda>s. manifest_get (sys_db s) pid)) (\<lambda>m.
     st_bind (st_lift (ok_or (Option.bind m m_config) (Error NotFound (Msg (pid @ '' has no config''))))) (\<lambda>action.
     st_bind (st_lift (ok_or m (not_found pid))) (\<lambda>man.
     config_actions_get ctx action pid (m_version man) (m_volumes man))))"

record config_dry_res =
  dr_old_config :: config
  dr_new_config :: config
  dr_spec :: config_spec

text \<open>Automatic configuration of a dependency, with a timeout of ten seconds for generation.\<close>

definition configure_logic ::
  "nat \<Rightarrow> 'w ctx_ops \<Rightarrow> package_id \<Rightarrow> package_id \<Rightarrow> ('w, config_dry_res) act" where
  "configure_logic fuel ctx pkg_id dependency_id =
     st_bind (st_get sys_db) (\<lambda>db.
     st_bind (st_lift (ok_or (manifest_get db pkg_id) (not_found pkg_id))) (\<lambda>pkg.
     st_bind (st_lift (ok_or (manifest_get db dependency_id) (not_found dependency_id))) (\<lambda>dep.
     st_bind (st_lift (ok_or (m_config dep) (not_found dependency_id))) (\<lambda>action.
     st_bind (st_lift (ok_or (bt_get (m_dependencies pkg) dependency_id)
       (Error NotFound (Msg (''dependency for '' @ dependency_id @ '' not found in the manifest for '' @ pkg_id))))) (\<lambda>info.
     st_bind (st_lift (ok_or (di_config info)
       (Error NotFound (Msg (''dependency config for '' @ dependency_id @ '' not found on '' @ pkg_id))))) (\<lambda>dc.
     st_bind (config_actions_get ctx action dependency_id (m_version dep) (m_volumes dep)) (\<lambda>cr.
     st_bind
       (case cr_config cr of
          Some c \<Rightarrow> st_return c
        | None \<Rightarrow> config_spec_generate fuel ctx (Some 10) (cr_spec cr)) (\<lambda>old.
     st_bind (dependency_auto_configure ctx dc (m_containers pkg) pkg_id (m_version pkg) (m_volumes pkg) dependency_id old) (\<lambda>new.
     st_return \<lparr>dr_old_config = old, dr_new_config = new, dr_spec = cr_spec cr\<rparr>)))))))))"

text \<open>Configuring a dependency runs outside of a transaction, with maps of its own.\<close>

definition fresh_maps :: "('w, 'a) act \<Rightarrow> ('w, 'a) act" where
  "fresh_maps f s =
     (case f (s\<lparr>sys_breakages := [], sys_overrides := []\<rparr>) of
        (r, t) \<Rightarrow> (r, t\<lparr>sys_breakages := sys_breakages s, sys_overrides := sys_overrides s\<rparr>))"

definition configure_impl :: "nat \<Rightarrow> 'w ctx_ops \<Rightarrow> package_id \<Rightarrow> package_id \<Rightarrow> ('w, unit) act" where
  "configure_impl fuel ctx pkg_id dep_id =
     st_bind (configure_logic fuel ctx pkg_id dep_id) (\<lambda>r.
     fresh_maps (configure fuel ctx (Some 3) False dep_id (Some (dr_new_config r))))"

definition configure_dry :: "nat \<Rightarrow> 'w ctx_ops \<Rightarrow> package_id \<Rightarrow> package_id \<Rightarrow> ('w, config_dry_res) act" where
  "configure_dry fuel ctx pkg_id dependency_id = configure_logic fuel ctx pkg_id dependency_id"

fun live_pointer :: "package_id \<Rightarrow> package_id \<Rightarrow> package_pointer_spec \<Rightarrow> bool" where
  "live_pointer me dep (TorAddress p _) = (p = me \<and> dep \<noteq> me)"
| "live_pointer me dep (LanAddress p _) = (p = me \<and> dep \<noteq> me)"
| "live_pointer me dep (TorKey _ _) = False"
| "live_pointer me dep (ConfigPtr _ _ _) = False"

definition reconfigure_dependents_with_live_pointers ::
  "nat \<Rightarrow> 'w ctx_ops \<Rightarrow> installed_package_data_entry \<Rightarrow> ('w, unit) act" where
  "reconfigure_dependents_with_live_pointers fuel ctx pde =
     st_for (\<lambda>e.
       if list_ex (live_pointer (m_id (ip_manifest pde)) (fst e)) (cdi_pointers (snd e))
       then fresh_maps (configure fuel ctx None False (fst e) None)
       else st_return ()) (ip_current_dependents pde)"

end
