(* ===== verification/Configure_Laws.thy ===== *)
theory Configure_Laws
  imports Configure
begin

text \<open>
  What configuring a package keeps: the lists of dependents mirror the dependencies, dependencies
  stay declared, and a recursive configuration ends when the declared dependencies are acyclic.
\<close>

section \<open>The new dependencies\<close>

lemma bt_ok_of_list: "bt_ok (bt_of_list kvs)"
  unfolding bt_of_list_def using bt.ok_extend [of "[]" kvs] by simp

lemma bt_get_of_list: "bt_get (bt_of_list kvs) k = None \<longleftrightarrow> k \<notin> fst ` set kvs"
proof -
  have "bt_get (fold (\<lambda>(k, v). bt_insert k v) kvs m) k = None \<longleftrightarrow> bt_get m k = None \<and> k \<notin> fst ` set kvs" for m
    by (induction kvs arbitrary: m) (auto split: prod.splits if_splits)
  then show ?thesis by (simp add: bt_of_list_def)
qed

text \<open>Which packages the dependencies of a configuration name, and that they stay sorted.\<close>

lemma required_keys:
  "bt_ok (required_dependencies deps) \<and> (bt_get (required_dependencies deps) q \<noteq> None \<longrightarrow> bt_get deps q \<noteq> None)"
  unfolding required_dependencies_def bt_get_of_list
  by (force simp: bt_ok_of_list bt_get_None bt_keys_def)

lemma add_pointer_keys:
  "bt_ok cds \<Longrightarrow> bt_ok (add_pointer (Package p) cds)"
  "bt_get (add_pointer (Package p) cds) q \<noteq> None \<longleftrightarrow> q = pointer_package_id p \<or> bt_get cds q \<noteq> None"
  by (auto intro: bt_ok_insert split: option.splits)

lemma add_pointers_keys:
  "bt_ok cds \<Longrightarrow> bt_ok (fold add_pointer ptrs cds) \<and>
     (bt_get (fold add_pointer ptrs cds) q \<noteq> None \<longleftrightarrow>
       bt_get cds q \<noteq> None \<or> (\<exists>p. Package p \<in> set ptrs \<and> q = pointer_package_id p))"
proof (induction ptrs arbitrary: cds)
  case (Cons v ptrs)
  obtain p where v: "v = Package p" by (cases v)
  show ?case
    using Cons.IH [OF add_pointer_keys(1) [OF Cons.prems]]
    by (auto simp: v add_pointer_keys(2) simp del: add_pointer.simps not_None_eq)
qed simp

lemma add_health_keys:
  "bt_ok cds \<Longrightarrow> bt_ok (fold add_health_checks hs cds) \<and>
     (bt_get (fold add_health_checks hs cds) q \<noteq> None \<longleftrightarrow> bt_get cds q \<noteq> None \<or> q \<in> fst ` set hs)"
proof (induction hs arbitrary: cds)
  case (Cons h hs)
  have "bt_ok (add_health_checks h cds)" using Cons.prems
    by (auto simp: add_health_checks_def intro: bt_ok_insert split: option.splits)
  from Cons.IH [OF this] show ?case
    by (auto simp: add_health_checks_def split: option.splits if_splits)
qed simp

lemma bt_ok_legal: "bt_ok cds \<Longrightarrow> bt_ok (legal_dependencies pid m cds)"
  by (simp add: legal_dependencies_def sorted_wrt_map sorted_wrt_filter)

lemma bt_get_filter: "bt_get (filter (\<lambda>e. P (fst e)) m) k = (if P k then bt_get m k else None)"
  by (induction m) auto

lemma bt_get_legal:
  "bt_get (legal_dependencies pid m cds) q =
     (if q \<noteq> pid \<and> bt_get (m_dependencies m) q = None then None else bt_get cds q)"
  using bt_get_filter [of "\<lambda>k. \<not> (k \<noteq> pid \<and> bt_get (m_dependencies m) k = None)" cds q]
  by (simp add: legal_dependencies_def)

text \<open>The dependencies a package may have: itself and what its manifest declares.\<close>

definition allowed :: "manifest \<Rightarrow> package_id \<Rightarrow> package_id \<Rightarrow> bool" where
  "allowed m pid q \<longleftrightarrow> q = pid \<or> q = m_id m \<or> bt_get (m_dependencies m) q \<noteq> None"

text \<open>The legality filter never drops anything: what it sees is allowed already.\<close>

lemma run_set_action_Ok:
  assumes "run_set_action ctx dry a pid m cfg cds s = (Ok (signal, cds'), s')"
    and "bt_ok cds" and "\<And>q. bt_get cds q \<noteq> None \<Longrightarrow> allowed m pid q"
  shows "bt_ok cds' \<and> (bt_get cds' q \<noteq> None \<longrightarrow> allowed m pid q)"
proof (cases dry)
  case True
  then show ?thesis using assms by (simp add: run_set_action_def st_return_eq)
next
  case False
  then have "\<exists>res :: set_result. cds' = legal_dependencies pid m (fold add_health_checks (sr_depends_on res) cds)"
    using assms(1) by (auto simp: run_set_action_def st_bind_eq_Ok st_return_eq)
  then show ?thesis
    using add_health_keys [OF assms(2)] bt_ok_legal by (auto simp: bt_get_legal allowed_def split: if_splits)
qed

lemma new_dependencies_ok:
  assumes "run_set_action ctx dry a pid m cfg (fold add_pointer ptrs (required_dependencies (m_dependencies m))) s = (Ok (signal, cds), s')"
    and "config_spec_validate m spec = Ok ()" and "config_spec_pointers spec cfg' = Ok ptrs"
  shows "bt_ok cds \<and> (bt_get cds q \<noteq> None \<longrightarrow> allowed m pid q)"
proof -
  note req = required_keys [of "m_dependencies m"]
  have legal: "pointer_package_id p = m_id m \<or> bt_get (m_dependencies m) (pointer_package_id p) \<noteq> None"
    if "Package p \<in> set ptrs" for p
    using validate_pointers_legal(4) [OF assms(2,3) that] by (auto simp: legal_pointer_def split: if_splits)
  have "bt_ok (fold add_pointer ptrs (required_dependencies (m_dependencies m)))"
    using add_pointers_keys req by blast
  moreover have "allowed m pid q" if "bt_get (fold add_pointer ptrs (required_dependencies (m_dependencies m))) q \<noteq> None" for q
    using add_pointers_keys [of "required_dependencies (m_dependencies m)" ptrs q] req legal that
    unfolding allowed_def by blast
  ultimately show ?thesis by (rule run_set_action_Ok [OF assms(1)])
qed

section \<open>Relinking\<close>

definition relinked :: "package_id \<Rightarrow> current_dependencies \<Rightarrow> db \<Rightarrow> db" where
  "relinked pid cds db =
     dependencies_set (bt_remove pid cds) pid
       (fold (add_dependent pid) cds
         (fold (remove_dependent pid) (bt_keys (case dependencies_get db pid of Some p \<Rightarrow> p | None \<Rightarrow> []) @ [pid]) db))"

lemma relink_step: "relink pid cds s = (Ok (), s\<lparr>sys_db := relinked pid cds (sys_db s)\<rparr>)"
  by (simp add: relink_def remove_from_current_dependents_lists_def add_dependent_to_current_dependents_lists_def
      st_for_map_db st_eval map_db_step relinked_def)


text \<open>The fields that relinking a package changes, and those it does not.\<close>

lemma dependencies_relinked:
  "dependencies_get (relinked pid cds db) q =
     (if q = pid then map_option (\<lambda>_. bt_remove pid cds) (dependencies_get db q) else dependencies_get db q)"
proof -
  have rem: "dependencies_get (fold (remove_dependent pid) ps d) = dependencies_get d" for ps d
    by (induction ps arbitrary: d) (auto simp: remove_dependent_def fun_eq_iff split: option.splits)
  have add: "dependencies_get (fold (add_dependent pid) es d) = dependencies_get d" for es d
    by (induction es arbitrary: d) (auto simp: add_dependent_def fun_eq_iff split: option.splits)
  show ?thesis by (cases "dependencies_get db q") (auto simp: relinked_def dependencies.fetch_store rem add simp del: fold_append)
qed

lemma dependents_relinked:
  assumes "bt_ok cds" and "dependents_get db q = Some ds"
  shows "\<exists>ds'. dependents_get (relinked pid cds db) q = Some ds' \<and>
    bt_get ds' pid = (case bt_get cds q of
        Some info \<Rightarrow> Some info
      | None \<Rightarrow> if q = pid \<or> (\<exists>prev. dependencies_get db pid = Some prev \<and> bt_get prev q \<noteq> None) then None else bt_get ds pid) \<and>
    (\<forall>p. p \<noteq> pid \<longrightarrow> bt_get ds' p = bt_get ds p)"
proof -
  let ?prev = "case dependencies_get db pid of Some p \<Rightarrow> p | None \<Rightarrow> []"
  have "bt_get ?prev q \<noteq> None \<longleftrightarrow> (\<exists>prev. dependencies_get db pid = Some prev \<and> bt_get prev q \<noteq> None)"
    by (cases "dependencies_get db pid") auto
  then show ?thesis
    using assms(2) bt_get_None [of ?prev q]
    by (cases "bt_get cds q") (auto simp: relinked_def dependents_add_all [OF assms(1)] dependents_remove_all dependents_remove)
qed

lemma dependents_relinked_None: "dependents_get (relinked pid cds db) q = None \<longleftrightarrow> dependents_get db q = None"
  using dependencies.fetch_None dependents.fetch_None dependencies_relinked [of pid cds db q]
  by (metis option.map_disc_iff)

lemma manifest_relinked [simp]: "manifest_get (relinked pid cds db) = manifest_get db"
proof -
  have "manifest_get (fold (remove_dependent pid) ps d) = manifest_get d" for ps d
    by (induction ps arbitrary: d) (auto simp: remove_dependent_def fun_eq_iff split: option.splits)
  moreover have "manifest_get (fold (add_dependent pid) es d) = manifest_get d" for es d
    by (induction es arbitrary: d) (auto simp: add_dependent_def fun_eq_iff split: option.splits)
  moreover have "manifest_get (dependencies_set v pid d) = manifest_get d" for v d
    by (auto simp: receipt_defs fun_eq_iff map_option_case split: option.splits)
  ultimately show ?thesis by (simp add: relinked_def del: fold_append)
qed

lemma linking_frames:
  "removing_get (remove_dependent pid q db) = removing_get db"
  "removing_get (add_dependent pid e db) = removing_get db"
  "bt_keys (remove_dependent pid q db) = bt_keys db"
  "bt_keys (add_dependent pid e db) = bt_keys db"
  "stage_get (remove_dependent pid q db) = stage_get db"
  "stage_get (add_dependent pid e db) = stage_get db"
  by (auto simp: remove_dependent_def add_dependent_def dependents.keys_store split: option.splits)

lemma frame_relinked [simp]:
  "removing_get (relinked pid cds db) = removing_get db"
  "bt_keys (relinked pid cds db) = bt_keys db"
  "stage_get (relinked pid cds db) = stage_get db"
proof -
  have "removing_get (fold (remove_dependent pid) ps d) = removing_get d"
    "bt_keys (fold (remove_dependent pid) ps d) = bt_keys d"
    "stage_get (fold (remove_dependent pid) ps d) = stage_get d" for ps d
    by (induction ps arbitrary: d) (auto simp: linking_frames)
  moreover have "removing_get (fold (add_dependent pid) es d) = removing_get d"
    "bt_keys (fold (add_dependent pid) es d) = bt_keys d"
    "stage_get (fold (add_dependent pid) es d) = stage_get d" for es d
    by (induction es arbitrary: d) (auto simp: linking_frames)
  ultimately show "removing_get (relinked pid cds db) = removing_get db" "bt_keys (relinked pid cds db) = bt_keys db"
    "stage_get (relinked pid cds db) = stage_get db"
    by (simp_all add: relinked_def dependencies.keys_store del: fold_append)
qed

section \<open>What configuring keeps\<close>

text \<open>
  An invariant of the database that is kept by changes of dependency errors and of the flag
  \<open>configured\<close>, and by giving one of certain packages new dependencies that its manifest allows. The
  dependents of such a package are such packages again.
\<close>

locale configure_inv =
  fixes P :: "db \<Rightarrow> bool" and A :: "package_id set"
  assumes inv_same: "same_packages d e \<Longrightarrow> P d \<Longrightarrow> P e"
    and inv_configured: "P d \<Longrightarrow> P (configured_set b pid d)"
    and inv_relinked: "\<lbrakk>P d; pid \<in> A; bt_ok cds; manifest_get d pid = Some m;
      \<And>q. bt_get cds q \<noteq> None \<Longrightarrow> allowed m pid q\<rbrakk> \<Longrightarrow> P (relinked pid cds d)"
    and dependents_in: "\<lbrakk>P d; pid \<in> A; dependents_get d pid = Some ds; q \<in> set (bt_keys ds); q \<noteq> pid\<rbrakk> \<Longrightarrow> q \<in> A"

sublocale configure_inv \<subseteq> db_rel "\<lambda>d e. P d \<longrightarrow> P e"
  by unfold_locales auto

context configure_inv
begin

lemma keeps_weaken: "packages.rel.keeps f \<Longrightarrow> rel.keeps f"
  unfolding packages.rel.keeps_def rel.keeps_def unfolding on_db_def by (auto intro: inv_same)

end

lemma packages_break: "packages.rel.keeps (break_now pid d err :: ('w, unit) act)"
proof -
  have "packages.rel.keeps (break_transitive fuel pid d err :: ('w, unit) act)" for fuel
    unfolding packages.rel.keeps_def unfolding on_db_def
    by (intro allI) (rule break_rise [unfolded errors_rise_def, THEN conjunct1])
  then show ?thesis unfolding break_now_def by (intro packages.rel.keeps_bind packages.rel.keeps_basic)
qed

lemma packages_heal: "packages.rel.keeps (heal_all_now ctx pid :: ('w, unit) act)"
proof -
  have one: "packages.rel.keeps (heal_transitive fuel ctx p d :: ('w, unit) act)" for fuel p d
    unfolding packages.rel.keeps_def unfolding on_db_def
    by (intro allI) (rule heal_fall [unfolded errors_fall_def, THEN conjunct1])
  show ?thesis unfolding heal_all_now_def heal_all_dependents_transitive.simps
    by (intro packages.rel.keeps_bind packages.rel.keeps_basic packages.rel.keeps_for one)
qed

lemma same_packages_pointers: "same_packages d (system_pointers_set v pid d)"
  by (auto simp: same_packages_def fun_eq_iff system_pointers.keys_store)
     (auto simp: receipt_defs option.map_comp o_def map_option_case split: option.splits)

context world_rel
begin

lemma keeps_prepare: "keeps (prepare_config fuel ctx pid given timeout)"
  unfolding prepare_config_def match_lift_def
  by (auto intro!: world_rules keeps_update split: option.splits)

lemma keeps_run_set_action: "keeps (run_set_action ctx dry a pid m cfg cds)"
  by (auto simp: run_set_action_def intro!: world_rules)

lemma keeps_send_signal: "keeps (send_signal ctx pid ver signal)"
  by (auto simp: send_signal_def intro!: world_rules split: option.splits)

lemma keeps_get_config: "keeps (get_config ctx pid)"
  unfolding get_config_def by (intro world_rules)

lemma keeps_configure_logic: "keeps (configure_logic fuel ctx p d)"
  unfolding configure_logic_def by (auto intro!: world_rules split: option.splits)

end

lemma prepare_Ok:
  assumes "prepare_config fuel ctx pid given timeout s = (Ok (m, a, nc, old, spec, cfg), s')"
  shows "manifest_get (sys_db s) pid = Some m \<and> config_spec_validate m spec = Ok () \<and> sys_db s' = sys_db s"
proof -
  have "sys_db s' = sys_db s"
    using same_db.rel.keepsD [OF same_db.rel.keeps_prepare assms] by (simp add: on_db_def)
  moreover have "manifest_get (sys_db s) pid = Some m \<and> config_spec_validate m spec = Ok ()"
    using assms unfolding prepare_config_def match_lift_def
    by (auto simp: st_bind_eq_Ok st_simps)
  ultimately show ?thesis by simp
qed

context configure_inv
begin

abbreviation kept :: "db \<Rightarrow> db \<Rightarrow> bool" where
  "kept d e \<equiv> P d \<longrightarrow> P e"

lemma map_db_rel: "kept (sys_db s) (f (sys_db s)) \<Longrightarrow> on_db kept s (snd (map_db f s))"
  by (simp add: map_db_step on_db_def)

lemma apply_config_rel:
  assumes "manifest_get (sys_db s) pid = Some m" and "config_spec_validate m spec = Ok ()" and "pid \<in> A"
  shows "on_db kept s (snd (apply_config ctx dry pid m a spec cfg s))"
  unfolding apply_config_def
proof (intro rel.rel_bind rel.keepsR [OF rel.keeps_basic(2)] rel.keepsR [OF rel.keeps_basic(3)] map_db_rel)
  show "kept (sys_db u) (system_pointers_set [] pid (sys_db u))" for u :: "'w sys"
    using inv_same same_packages_pointers by blast
  show "on_db kept u (snd (run_set_action ctx dry a pid m cfg cds u))" for cds u
    by (rule rel.keepsR) (rule rel.keeps_run_set_action)
next
  fix db1 s1 sp s2 ptrs s3 u4 s4 p s5
  assume steps: "st_get sys_db s = (Ok db1, s1)" "st_lift (ok_or (system_pointers_get db1 pid) (not_found pid)) s1 = (Ok sp, s2)"
    "st_lift (map_err (\<lambda>e. error_of_configuration (NoMatch e)) (config_spec_pointers spec cfg)) s2 = (Ok ptrs, s3)"
    "map_db (system_pointers_set [] pid) s3 = (Ok u4, s4)"
    and run: "run_set_action ctx dry a pid m cfg (fold add_pointer ptrs (required_dependencies (m_dependencies m))) s4 = (Ok p, s5)"
  obtain signal cds where p: "p = (signal, cds)" by (cases p)
  have ptrs: "config_spec_pointers spec cfg = Ok ptrs" and s4: "manifest_get (sys_db s4) pid = Some m"
    using steps assms(1) same_packages_pointers by (auto simp: st_simps map_db_step same_packages_def)
  have "sys_db s5 = sys_db s4"
    using same_db.rel.keepsD [OF same_db.rel.keeps_run_set_action run] by (simp add: on_db_def)
  then have link: "on_db kept s5 (snd (relink pid cds s5))"
    using inv_relinked [of "sys_db s5" pid cds m] new_dependencies_ok [OF run [unfolded p] assms(2) ptrs] s4 assms(3)
    by (auto simp: relink_step on_db_def)
  have over: "rel.keeps (st_modify (\<lambda>s. s\<lparr>sys_overrides := bt_insert pid cfg (sys_overrides s)\<rparr>))"
    by (rule rel.keeps_modify) (simp add: on_db_def)
  have errors: "rel.keeps (map_db (errors_set es pid))" for es
    by (rule keeps_map_db) (use inv_same same_packages_set in blast)
  show "on_db kept s5 (snd ((case p of (signal, cds) \<Rightarrow>
     st_bind (relink pid cds) (\<lambda>_.
     st_bind (st_get sys_db) (\<lambda>db.
     st_bind (st_lift (ok_or (errors_get db pid) (not_found pid))) (\<lambda>_.
     st_bind (dependency_errors_init ctx m (bt_remove pid cds)) (\<lambda>errs.
     st_bind (map_db (errors_set errs pid)) (\<lambda>_.
     st_bind (st_modify (\<lambda>s. s\<lparr>sys_overrides := bt_insert pid cfg (sys_overrides s)\<rparr>)) (\<lambda>_.
     st_return signal))))))) s5))"
    unfolding p prod.case
    by (rule rel.rel_bind, rule link) (intro rel.keepsR rel.keeps_bind rel.keeps_basic rel.keeps_init over errors)
qed

lemma keeps_handle_dependent:
  assumes "rel.keeps (recurse (fst e))"
  shows "rel.keeps (handle_dependent ctx recurse pid cfg prev e)"
  unfolding handle_dependent_def
  by (auto intro!: rel.world_rules assms keeps_weaken [OF packages_break] keeps_weaken [OF packages_heal]
    split: option.splits sum.splits)

lemma keeps_notify_dependents:
  assumes "pid \<in> A" and "\<And>q. q \<in> A \<Longrightarrow> rel.keeps (recurse q)"
  shows "rel.keeps (notify_dependents ctx recurse pid ver old cfg signal)"
  unfolding rel.keeps_def
proof
  fix s
  show "on_db kept s (snd (notify_dependents ctx recurse pid ver old cfg signal s))"
  proof (cases "P (sys_db s)")
    case True
    let ?prev = "case old of Some c \<Rightarrow> JObject c | None \<Rightarrow> JNull"
    have "rel.keeps (st_for (handle_dependent ctx recurse pid cfg ?prev) (filter (\<lambda>e. fst e \<noteq> pid) ds))"
      if "dependents_get (sys_db s) pid = Some ds" for ds
      using dependents_in [OF True assms(1) that]
      by (intro rel.keeps_for keeps_handle_dependent assms(2)) (auto simp: bt_keys_def)
    then have "rel.keeps (st_bind (st_for (handle_dependent ctx recurse pid cfg ?prev) (filter (\<lambda>e. fst e \<noteq> pid) ds)) (\<lambda>_.
        send_signal ctx pid ver signal))" if "dependents_get (sys_db s) pid = Some ds" for ds
      using that by (intro rel.keeps_bind rel.keeps_send_signal)
    then show ?thesis
      unfolding notify_dependents_def rel.keeps_def
      by (cases "dependents_get (sys_db s) pid") (auto simp: st_eval on_db_def)
  qed (simp add: on_db_def)
qed

lemma keeps_configure_rec: "pid \<in> A \<Longrightarrow> rel.keeps (configure_rec fuel ctx timeout dry pid given :: ('w, unit) act)"
proof (induction fuel arbitrary: pid given)
  case (Suc fuel)
  show ?case unfolding rel.keeps_def configure_rec.simps
  proof (intro allI rel.rel_bind)
    fix s :: "'w sys" and r s1
    show "on_db kept s (snd (prepare_config fuel ctx pid given timeout s))"
      by (rule rel.keepsR [OF rel.keeps_prepare])
    assume run: "prepare_config fuel ctx pid given timeout s = (Ok r, s1)"
    obtain m a nc old spec cfg where r: "r = (m, a, nc, old, spec, cfg)" by (cases r)
    have "on_db kept s1 (snd (apply_config ctx dry pid m a spec cfg s1))"
      using prepare_Ok [OF run [unfolded r]] Suc.prems by (intro apply_config_rel) auto
    then show "on_db kept s1 (snd ((case r of (m, a, nc, old, spec, cfg) \<Rightarrow>
        st_bind (apply_config ctx dry pid m a spec cfg) (\<lambda>signal.
        notify_dependents ctx (\<lambda>d. configure_rec fuel ctx timeout dry d None) pid (m_version m)
          (if nc then None else old) cfg signal)) s1))"
      unfolding r prod.case by (intro rel.rel_bind rel.keepsR [OF keeps_notify_dependents [OF Suc.prems Suc.IH]])
  qed
qed (simp add: configure_rec.simps rel.keeps_basic)

lemma keeps_configure: "pid \<in> A \<Longrightarrow> rel.keeps (configure fuel ctx timeout dry pid given)"
  unfolding configure_def by (intro rel.keeps_bind keeps_configure_rec keeps_map_db) (blast intro: inv_configured)+

end

text \<open>A relation between the databases before and after, for configuring any package.\<close>

locale configure_rel = db_rel +
  assumes rel_same: "same_packages d e \<Longrightarrow> R d e"
    and rel_configured: "R d (configured_set b pid d)"
    and rel_relinked: "\<lbrakk>bt_ok cds; manifest_get d pid = Some m; \<And>q. bt_get cds q \<noteq> None \<Longrightarrow> allowed m pid q\<rbrakk> \<Longrightarrow>
      R d (relinked pid cds d)"

sublocale configure_rel \<subseteq> start: configure_inv "R d0" UNIV for d0
  using rel_same rel_configured rel_relinked db_trans by unfold_locales blast+

context configure_rel
begin

lemma keeps_start: "(\<And>d0. start.rel.keeps d0 f) \<Longrightarrow> rel.keeps f"
  using db_refl unfolding start.rel.keeps_def rel.keeps_def on_db_def by blast

lemma keeps_weaken: "packages.rel.keeps f \<Longrightarrow> rel.keeps f"
  by (intro keeps_start start.keeps_weaken)

lemma apply_config_rel:
  assumes "manifest_get (sys_db s) pid = Some m" and "config_spec_validate m spec = Ok ()"
  shows "on_db R s (snd (apply_config ctx dry pid m a spec cfg s))"
  using start.apply_config_rel [OF assms UNIV_I, of "sys_db s"] db_refl by (simp add: on_db_def)

lemma keeps_notify_dependents:
  assumes "\<And>q. rel.keeps (recurse q)"
  shows "rel.keeps (notify_dependents ctx recurse pid ver old cfg signal)"
proof (rule keeps_start, rule start.keeps_notify_dependents [OF UNIV_I])
  show "start.rel.keeps d0 (recurse q)" for d0 q
    using assms [of q] db_trans unfolding start.rel.keeps_def rel.keeps_def on_db_def by blast
qed

lemma keeps_configure_rec: "rel.keeps (configure_rec fuel ctx timeout dry pid given)"
  by (intro keeps_start start.keeps_configure_rec UNIV_I)

lemma keeps_configure: "rel.keeps (configure fuel ctx timeout dry pid given)"
  by (intro keeps_start start.keeps_configure UNIV_I)

end

section \<open>The invariant of the package data\<close>

text \<open>
  Entries are sorted by package and kept under the id of their manifest; the dependents of a package
  are exactly the packages that have it as a dependency, with the same information; a package depends
  on declared dependencies only; and a list of dependents names a package that is not installed only
  while that package is being removed. Two sets hold exceptions: packages whose dependencies have just
  been replaced, which may be missing from the lists of their dependencies but are on no others, and
  entries of lists that belong to packages that are gone.
\<close>

definition keyed :: "db \<Rightarrow> bool" where
  "keyed db \<longleftrightarrow> (\<forall>p m. manifest_get db p = Some m \<longrightarrow> m_id m = p) \<and>
     (\<forall>p i. removing_get db p = Some i \<longrightarrow> m_id (ip_manifest i) = p)"

definition linked_row :: "package_id \<Rightarrow> db \<Rightarrow> bool" where
  "linked_row p db \<longleftrightarrow> (\<forall>q deps ds. p \<noteq> q \<longrightarrow> dependencies_get db p = Some deps \<longrightarrow> dependents_get db q = Some ds \<longrightarrow>
     bt_get ds p = bt_get deps q)"

definition listed_row :: "package_id \<Rightarrow> db \<Rightarrow> bool" where
  "listed_row p db \<longleftrightarrow> (\<forall>q deps ds. p \<noteq> q \<longrightarrow> dependencies_get db p = Some deps \<longrightarrow> dependents_get db q = Some ds \<longrightarrow>
     bt_get deps q = None \<longrightarrow> bt_get ds p = None)"

definition linked_but :: "package_id set \<Rightarrow> db \<Rightarrow> bool" where
  "linked_but N db \<longleftrightarrow> (\<forall>p. if p \<in> N then listed_row p db else linked_row p db)"

definition declared :: "db \<Rightarrow> bool" where
  "declared db \<longleftrightarrow> (\<forall>p m deps q. manifest_get db p = Some m \<longrightarrow> dependencies_get db p = Some deps \<longrightarrow>
     bt_get deps q \<noteq> None \<longrightarrow> bt_get (m_dependencies m) q \<noteq> None)"

definition leaving :: "db \<Rightarrow> package_id \<Rightarrow> package_id \<Rightarrow> bool" where
  "leaving db p q \<longleftrightarrow> (\<exists>i. removing_get db p = Some i \<and> bt_get (ip_current_dependencies i) q \<noteq> None)"

definition tidy_but :: "(package_id \<times> package_id) set \<Rightarrow> db \<Rightarrow> bool" where
  "tidy_but T db \<longleftrightarrow> (\<forall>p q ds. p \<noteq> q \<longrightarrow> manifest_get db p = None \<longrightarrow> dependents_get db q = Some ds \<longrightarrow>
     bt_get ds p \<noteq> None \<longrightarrow> leaving db p q \<or> (p, q) \<in> T)"

definition db_ok_but :: "package_id set \<Rightarrow> (package_id \<times> package_id) set \<Rightarrow> db \<Rightarrow> bool" where
  "db_ok_but N T db \<longleftrightarrow>
     sorted_wrt (<) (bt_keys db) \<and> keyed db \<and> linked_but N db \<and> declared db \<and> tidy_but T db"

abbreviation db_ok :: "db \<Rightarrow> bool" where
  "db_ok \<equiv> db_ok_but {} {}"

lemmas row_defs = linked_but_def linked_row_def listed_row_def
lemmas db_ok_defs = db_ok_but_def keyed_def row_defs declared_def tidy_but_def leaving_def

lemma linked_row_listed: "linked_row p db \<Longrightarrow> listed_row p db"
  by (auto simp: linked_row_def listed_row_def)

lemma linked_but_mono: "linked_but N db \<Longrightarrow> N \<subseteq> N' \<Longrightarrow> linked_but N' db"
  unfolding linked_but_def by (metis linked_row_listed subsetD)

lemma db_ok_mono: "db_ok_but N T db \<Longrightarrow> N \<subseteq> N' \<Longrightarrow> T \<subseteq> T' \<Longrightarrow> db_ok_but N' T' db"
  using linked_but_mono [of N db N'] unfolding db_ok_but_def tidy_but_def by blast

lemma db_ok_same:
  "manifest_get e = manifest_get d \<Longrightarrow> dependents_get e = dependents_get d \<Longrightarrow> dependencies_get e = dependencies_get d \<Longrightarrow>
     removing_get e = removing_get d \<Longrightarrow> bt_keys e = bt_keys d \<Longrightarrow> db_ok_but N T e \<longleftrightarrow> db_ok_but N T d"
  by (simp add: db_ok_defs)

text \<open>Giving a package new dependencies completes its row and leaves the other rows as they are.\<close>

lemma rows_relinked:
  assumes "listed_row pid d" and "bt_ok cds"
  shows "linked_row pid (relinked pid cds d)"
  unfolding linked_row_def
proof (intro allI impI)
  fix q deps' ds'
  assume pq: "pid \<noteq> q" and deps': "dependencies_get (relinked pid cds d) pid = Some deps'"
    and ds': "dependents_get (relinked pid cds d) q = Some ds'"
  obtain deps where deps: "dependencies_get d pid = Some deps" "deps' = bt_remove pid cds"
    using deps' by (auto simp: dependencies_relinked)
  obtain ds where ds: "dependents_get d q = Some ds"
    using ds' dependents_relinked_None [of pid cds d q] by fastforce
  have "bt_get deps q = None \<Longrightarrow> bt_get ds pid = None"
    using assms(1) pq deps(1) ds unfolding listed_row_def by blast
  then show "bt_get ds' pid = bt_get deps' q"
    using dependents_relinked [OF assms(2) ds, of pid] ds' deps pq by (auto split: option.splits)
qed

lemma other_rows_relinked:
  assumes "bt_ok cds" and "p \<noteq> pid"
  shows "linked_row p d \<Longrightarrow> linked_row p (relinked pid cds d)"
    and "listed_row p d \<Longrightarrow> listed_row p (relinked pid cds d)"
proof -
  have row: "\<exists>ds. dependents_get d q = Some ds \<and> bt_get ds' p = bt_get ds p"
    if ds': "dependents_get (relinked pid cds d) q = Some ds'" for q ds'
  proof -
    obtain ds where ds: "dependents_get d q = Some ds"
      using ds' dependents_relinked_None [of pid cds d q] by fastforce
    then show ?thesis using dependents_relinked [OF assms(1) ds, of pid] ds' assms(2) by auto
  qed
  have deps: "dependencies_get (relinked pid cds d) p = dependencies_get d p"
    using assms(2) by (simp add: dependencies_relinked)
  show "linked_row p d \<Longrightarrow> linked_row p (relinked pid cds d)"
    unfolding linked_row_def deps using row by metis
  show "listed_row p d \<Longrightarrow> listed_row p (relinked pid cds d)"
    unfolding listed_row_def deps using row by metis
qed

lemma linked_relinked:
  assumes "linked_but N d" and "bt_ok cds"
  shows "linked_but (N - {pid}) (relinked pid cds d)"
proof -
  have "listed_row pid d" using assms(1) linked_row_listed unfolding linked_but_def by metis
  then have "linked_row pid (relinked pid cds d)" using assms(2) by (rule rows_relinked)
  then show ?thesis
    using other_rows_relinked [OF assms(2)] assms(1) unfolding linked_but_def by (metis Diff_iff singleton_iff)
qed

lemma tidy_relinked:
  assumes "tidy_but T d" and "bt_ok cds" and "manifest_get d pid \<noteq> None"
  shows "tidy_but T (relinked pid cds d)"
  unfolding tidy_but_def
proof (intro allI impI)
  fix p q ds'
  assume p: "p \<noteq> q" "manifest_get (relinked pid cds d) p = None"
    and ds': "dependents_get (relinked pid cds d) q = Some ds'" "bt_get ds' p \<noteq> None"
  have "p \<noteq> pid" using p(2) assms(3) by auto
  obtain ds where ds: "dependents_get d q = Some ds"
    using ds'(1) dependents_relinked_None [of pid cds d q] by fastforce
  have "bt_get ds p \<noteq> None"
    using dependents_relinked [OF assms(2) ds, of pid] ds' \<open>p \<noteq> pid\<close> by auto
  then show "leaving (relinked pid cds d) p q \<or> (p, q) \<in> T"
    using assms(1) p ds unfolding tidy_but_def leaving_def by auto
qed

lemma declared_relinked:
  assumes "keyed d" and "declared d" and "manifest_get d pid = Some m"
    and "\<And>q. bt_get cds q \<noteq> None \<Longrightarrow> allowed m pid q"
  shows "declared (relinked pid cds d)"
  unfolding declared_def
proof (intro allI impI)
  fix p m' deps q
  assume prems: "manifest_get (relinked pid cds d) p = Some m'" "dependencies_get (relinked pid cds d) p = Some deps"
    "bt_get deps q \<noteq> None"
  have "m_id m = pid" using assms(1,3) by (simp add: keyed_def)
  show "bt_get (m_dependencies m') q \<noteq> None"
  proof (cases "p = pid")
    case True
    then have "deps = bt_remove pid cds" "m' = m" using prems assms(3) by (auto simp: dependencies_relinked)
    then show ?thesis
      using prems(3) assms(4) [of q] \<open>m_id m = pid\<close> by (auto simp: allowed_def split: if_splits)
  next
    case False
    then show ?thesis using prems assms(2) unfolding declared_def by (simp add: dependencies_relinked)
  qed
qed

lemma keyed_relinked [simp]: "keyed (relinked pid cds d) \<longleftrightarrow> keyed d"
  by (simp add: keyed_def)

lemma ok_relinked:
  assumes "db_ok_but N T d" and "bt_ok cds" and "manifest_get d pid = Some m"
    and "\<And>q. bt_get cds q \<noteq> None \<Longrightarrow> allowed m pid q"
  shows "db_ok_but (N - {pid}) T (relinked pid cds d)"
proof -
  have "declared (relinked pid cds d)"
    using assms by (intro declared_relinked) (auto simp: db_ok_but_def)
  then show ?thesis
    using assms tidy_relinked [of T d cds pid] linked_relinked [of N d cds pid] by (simp add: db_ok_but_def)
qed

text \<open>
  Besides the invariant, configuring changes neither which packages there are, nor their stages and
  manifests, nor packages that are being removed.
\<close>

definition keeps_ok :: "db \<Rightarrow> db \<Rightarrow> bool" where
  "keeps_ok d e \<longleftrightarrow> manifest_get e = manifest_get d \<and> removing_get e = removing_get d \<and> bt_keys e = bt_keys d \<and>
     stage_get e = stage_get d \<and> (\<forall>N T. db_ok_but N T d \<longrightarrow> db_ok_but N T e)"

lemma configured_frames [simp]:
  "manifest_get (configured_set b p d) = manifest_get d"
  "dependents_get (configured_set b p d) = dependents_get d"
  "dependencies_get (configured_set b p d) = dependencies_get d"
  "bt_keys (configured_set b p d) = bt_keys d"
  by (auto simp: receipt_defs fun_eq_iff map_option_case split: option.splits)

lemma keeps_ok_same:
  "manifest_get e = manifest_get d \<Longrightarrow> dependents_get e = dependents_get d \<Longrightarrow> dependencies_get e = dependencies_get d \<Longrightarrow>
     removing_get e = removing_get d \<Longrightarrow> bt_keys e = bt_keys d \<Longrightarrow> stage_get e = stage_get d \<Longrightarrow> keeps_ok d e"
  using db_ok_same [of e d] by (simp add: keeps_ok_def)

interpretation ok: configure_rel keeps_ok
proof unfold_locales
  show "keeps_ok d d" for d by (simp add: keeps_ok_def)
  show "keeps_ok d e \<Longrightarrow> keeps_ok e f \<Longrightarrow> keeps_ok d f" for d e f by (simp add: keeps_ok_def)
  show "keeps_ok d e" if "same_packages d e" for d e
    using that by (intro keeps_ok_same) (simp_all add: same_packages_def)
  show "keeps_ok d (configured_set b pid d)" for d b pid
    by (intro keeps_ok_same) simp_all
  show "keeps_ok d (relinked pid cds d)"
    if "bt_ok cds" "manifest_get d pid = Some m" "\<And>q. bt_get cds q \<noteq> None \<Longrightarrow> allowed m pid q" for d pid cds m
    using ok_relinked [of _ _ d cds pid m] that db_ok_mono [OF _ Diff_subset subset_refl]
    unfolding keeps_ok_def by (metis frame_relinked manifest_relinked)
qed

text \<open>A successful configuration completes the row of its package.\<close>

lemma keeps_ok_db: "ok.rel.keeps f \<Longrightarrow> f s = (r, t) \<Longrightarrow> db_ok_but N T (sys_db s) \<Longrightarrow> db_ok_but N T (sys_db t)"
  by (drule (1) ok.rel.keepsD) (simp add: on_db_def keeps_ok_def)

lemma apply_config_completes:
  assumes "apply_config ctx dry pid m a spec cfg s = (Ok signal, t)"
    and "manifest_get (sys_db s) pid = Some m" and "config_spec_validate m spec = Ok ()"
    and "db_ok_but N T (sys_db s)"
  shows "db_ok_but (N - {pid}) T (sys_db t)"
proof -
  let ?base = "required_dependencies (m_dependencies m)"
  obtain ptrs s5 cds errs s6 where ptrs: "config_spec_pointers spec cfg = Ok ptrs"
    and run: "run_set_action ctx dry a pid m cfg (fold add_pointer ptrs ?base)
      (s\<lparr>sys_db := system_pointers_set [] pid (sys_db s)\<rparr>) = (Ok (signal, cds), s5)"
    and init: "dependency_errors_init ctx m (bt_remove pid cds) (s5\<lparr>sys_db := relinked pid cds (sys_db s5)\<rparr>) = (Ok errs, s6)"
    and t: "sys_db t = errors_set errs pid (sys_db s6)"
    using assms(1) unfolding apply_config_def
    by (auto simp: st_bind_eq_Ok st_simps relink_step map_db_step split: prod.splits)
  have s5: "sys_db s5 = system_pointers_set [] pid (sys_db s)"
    using same_db.rel.keepsD [OF same_db.rel.keeps_run_set_action run] by (simp add: on_db_def)
  then have "same_packages (sys_db s) (sys_db s5)" by (simp add: same_packages_pointers)
  then have m5: "manifest_get (sys_db s5) pid = Some m" and ok5: "db_ok_but N T (sys_db s5)"
    using assms(2,4) db_ok_same [of "sys_db s5" "sys_db s" N T] by (simp_all add: same_packages_def)
  have "sys_db s6 = relinked pid cds (sys_db s5)"
    using same_db.rel.keepsD [OF same_db.rel.keeps_init init] by (simp add: on_db_def)
  moreover have "db_ok_but (N - {pid}) T (relinked pid cds (sys_db s5))"
    using new_dependencies_ok [OF run assms(3) ptrs] ok_relinked [OF ok5 _ m5] by blast
  ultimately show ?thesis
    using same_packages_set [of "sys_db s6" errs pid] db_ok_same [of "sys_db t" "sys_db s6" "N - {pid}" T]
    by (simp add: t same_packages_def)
qed

lemma configure_completes:
  assumes "configure fuel ctx timeout dry pid given s = (Ok u, t)" and "db_ok_but N T (sys_db s)"
  shows "db_ok_but (N - {pid}) T (sys_db t)"
proof -
  obtain n where fuel: "fuel = Suc n"
    using assms(1) by (cases fuel) (auto simp: configure_def configure_rec.simps st_bind_eq_Ok st_simps)
  obtain m a nc old spec cfg s1 signal s2 t1 where
    prep: "prepare_config n ctx pid given timeout s = (Ok (m, a, nc, old, spec, cfg), s1)"
    and app: "apply_config ctx dry pid m a spec cfg s1 = (Ok signal, s2)"
    and notify: "notify_dependents ctx (\<lambda>d. configure_rec n ctx timeout dry d None) pid (m_version m)
      (if nc then None else old) cfg signal s2 = (Ok (), t1)"
    and t: "t = t1\<lparr>sys_db := configured_set True pid (sys_db t1)\<rparr>"
    using assms(1) unfolding configure_def fuel configure_rec.simps
    by (auto simp: st_bind_eq_Ok map_db_step split: prod.splits)
  have "db_ok_but (N - {pid}) T (sys_db s2)"
    using prepare_Ok [OF prep] assms(2) by (intro apply_config_completes [OF app]) auto
  then have "db_ok_but (N - {pid}) T (sys_db t1)"
    by (rule keeps_ok_db [OF ok.keeps_notify_dependents [OF ok.keeps_configure_rec] notify])
  then show ?thesis using ok.rel_configured [of "sys_db t1" True pid] by (simp add: t keeps_ok_def)
qed

end
