(* ===== verification/Configure_Ends.thy ===== *)
theory Configure_Ends
  imports Configure_Laws
begin

text \<open>
  Configuring a package ends when the declared dependencies are acyclic: the recursion goes from a
  package to dependents that declare it, whatever the procedures of the packages do.
\<close>

section \<open>The parts that always end\<close>

abbreviation ends :: "('s, 'e, 'a) st \<Rightarrow> bool" where
  "ends \<equiv> tame (\<lambda>_. True)"

lemma tame_map_err: "tame P m \<Longrightarrow> tame P (st_map_err g m)"
  unfolding tame_def
proof (intro allI impI)
  fix s assume *: "\<forall>s. P s \<longrightarrow> fst (m s) \<noteq> Diverge \<and> P (snd (m s))" and "P s"
  obtain r s' where "m s = (r, s')" by fastforce
  with * [rule_format, OF \<open>P s\<close>] show "fst (st_map_err g m s) \<noteq> Diverge \<and> P (snd (st_map_err g m s))"
    by (cases r) (auto simp: st_map_err_def)
qed

lemma returns_not_Diverge: "returns r \<Longrightarrow> r \<noteq> Diverge"
  by auto

lemma ends_call_world: "ends (call_world f)"
  by (simp add: tame_def)

lemma ends_actions:
  "ends (config_actions_get ctx a i ver vols)"
  "ends (config_actions_set ctx a i ver deps vols cfg)"
  "ends (dependency_config_check ctx dc c i ver vols d cfg)"
  unfolding config_actions_get_def config_actions_set_def dependency_config_check_def
  by (auto intro!: tame_rules ends_call_world db_tame_exit_or)

lemma ends_pointer_update: "ends (pointer_update ctx m p v)"
proof -
  obtain q where p: "p = Package q" by (cases p)
  show ?thesis
    by (cases q) (auto simp: p tor_key_deref_def tor_address_deref_def lan_address_deref_def config_pointer_deref_def
      intro!: tame_rules tame_map_err ends_call_world ends_actions split: option.splits)
qed

lemma ends_list_spec_update: "(\<And>x. ends (f (ls_spec s) x)) \<Longrightarrow> ends (list_spec_update f s v)"
  unfolding list_spec_update_def by (auto intro!: tame_rules tame_map_err split: json.splits prod.splits)

lemma ends_update:
  "ends (any_update ctx m vs v)"
  "ends (value_list_update ctx m l v)"
  "ends (object_update ctx m ob v)"
  "ends (union_update ctx m u v)"
  "ends (config_spec_update ctx m s cfg)"
proof (induction ctx m vs v and ctx m l v and ctx m ob v and ctx m u v and ctx m s cfg rule: update_induct)
  case (11 ctx m a v)
  then show ?case by (auto simp: wrapper_defs simp del: object_update.simps intro!: ends_list_spec_update)
next
  case (13 ctx m a v)
  then show ?case by (auto simp: wrapper_defs simp del: union_update.simps intro!: ends_list_spec_update)
next
  case (16 ctx m s cfg)
  then show ?case unfolding config_spec_update.simps update_entry_def
    by (intro tame_fold) (auto intro!: tame_rules tame_map_err split: option.splits)
qed (auto simp: wrapper_defs boolean_update_def enum_update_def number_update_def string_update_def
    intro!: tame_rules ends_pointer_update ends_list_spec_update split: json.splits option.splits)

lemma ends_break: "ends (break_now pid d err)"
  unfolding tame_def break_now_def spread_fuel_def
  by (auto simp: st_eval intro!: break_transitive_ends [OF insertI1 bounded_room_start] simp del: mult_Suc_right)


lemma heal_fuel_enough: "error_count db < heal_fuel db"
proof -
  have "card (dom (bt_get es)) \<le> length es" for es :: dependency_errors
    using card_length [of "bt_keys es"] bt_get_None [of es] by (metis List.finite_set bt_keys_def card_mono domIff le_trans length_map subsetI)
  then have "error_count db \<le> (\<Sum>p \<in> set (bt_keys db). length (errs db p))"
    unfolding error_count_def by (intro sum_mono)
  also have "\<dots> \<le> sum_list (map (\<lambda>p. length (errs db p)) (bt_keys db))"
  proof -
    have "(\<Sum>p \<in> set ks. f p) \<le> sum_list (map f ks)" for ks and f :: "package_id \<Rightarrow> nat"
      by (induction ks) (auto simp: sum.insert_if)
    then show ?thesis .
  qed
  finally show ?thesis by (simp add: heal_fuel_def)
qed

lemma ends_heal: "ends (heal_all_now ctx pid :: ('w, unit) act)"
proof -
  have "fst (st_for (\<lambda>q. heal_transitive fuel ctx q pid) qs s) \<noteq> Diverge" if "error_count (sys_db s) < fuel"
    for fuel qs and s :: "'w sys"
  proof -
    have "db_tame (\<lambda>d. error_count d < fuel) (heal_transitive fuel ctx q pid :: ('w, unit) act)" for q
      unfolding tame_def using heal_transitive_ends error_count_fall [OF heal_fall] by (meson order_le_less_trans)
    then have "db_tame (\<lambda>d. error_count d < fuel) (st_for (\<lambda>q. heal_transitive fuel ctx q pid :: ('w, unit) act) qs)" by (rule tame_for)
    with that show ?thesis unfolding tame_def by blast
  qed
  then show ?thesis unfolding tame_def heal_all_now_def
    using heal_fuel_enough by (auto simp: st_eval heal_all_step split: option.splits)
qed


lemma ends_generate: "ends (config_spec_generate (Suc fuel) ctx None spec)"
  by (auto simp: tame_def config_spec_generate_def gen_not_Diverge(5) [OF refl refl] split: res.splits)

lemma ends_match_lift: "returns r \<Longrightarrow> ends (match_lift r)"
  unfolding match_lift_def by (intro tame_basic(3)) (cases r; auto)

lemma ends_prepare: "ends (prepare_config (Suc fuel) ctx pid given None)"
  unfolding prepare_config_def
  by (auto intro!: tame_rules ends_actions ends_generate ends_match_lift validate_returns matches_returns
    tame_map_err ends_update split: option.splits)

lemma ends_run_set_action: "ends (run_set_action ctx dry a pid m cfg cds)"
  by (auto simp: run_set_action_def intro!: tame_rules ends_actions)

lemma ends_init: "ends (dependency_errors_init ctx m cds)"
  unfolding dependency_errors_init_def dep_info_satisfied_def
  using tame_try_heal [of "\<lambda>_. True"] by (auto intro!: tame_rules split: option.splits)

lemma ends_send_signal: "ends (send_signal ctx pid ver signal)"
  by (auto simp: send_signal_def intro!: tame_rules ends_call_world split: option.splits)

lemma ends_map_db: "ends (map_db f)"
  by (simp add: tame_def map_db_step)

lemma ends_relink: "ends (relink pid cds)"
  by (simp add: tame_def relink_step)

lemma ends_apply: "ends (apply_config ctx dry pid m a spec cfg)"
  unfolding apply_config_def
  using pointers_returns(4) [of spec cfg, THEN returns_not_Diverge]
  by (auto intro!: tame_rules ends_map_db ends_run_set_action ends_relink ends_init split: prod.splits)
    (cases "config_spec_pointers spec cfg"; auto)

section \<open>The recursion\<close>

text \<open>A height that decreases from a package to those that declare it as a dependency.\<close>

definition declared_below :: "(package_id \<Rightarrow> nat) \<Rightarrow> (package_id \<Rightarrow> manifest option) \<Rightarrow> bool" where
  "declared_below h ms \<longleftrightarrow> (\<forall>p m q. ms p = Some m \<longrightarrow> bt_get (m_dependencies m) q \<noteq> None \<longrightarrow> p \<noteq> q \<longrightarrow> h p < h q)"

lemma tame_of_keeps:
  assumes "ends f" and "ok.rel.keeps f"
  shows "db_tame (\<lambda>d. db_ok d \<and> manifest_get d = ms) f"
  using assms(1) ok.rel.keepsR [OF assms(2)] unfolding tame_def on_db_def by (auto simp: keeps_ok_def)

lemma tame_handle_dependent:
  fixes recurse :: "package_id \<Rightarrow> ('w, unit) act"
  assumes "\<And>m. ms (fst e) = Some m \<Longrightarrow> db_tame (\<lambda>d. db_ok d \<and> manifest_get d = ms) (recurse (fst e))"
  shows "db_tame (\<lambda>d. db_ok d \<and> manifest_get d = ms) (handle_dependent ctx recurse pid cfg prev e)"
proof (cases "ms (fst e)")
  case None
  then show ?thesis by (auto simp: tame_def handle_dependent_def st_eval dependency_config_of_def)
next
  case (Some m)
  note rec = assms [OF Some]
  have "db_tame (\<lambda>d. db_ok d \<and> manifest_get d = ms) (break_now p q err :: ('w, unit) act)" for p q err
    by (intro tame_of_keeps ends_break ok.keeps_weaken packages_break)
  moreover have "db_tame (\<lambda>d. db_ok d \<and> manifest_get d = ms) (heal_all_now ctx pid)"
    by (intro tame_of_keeps ends_heal ok.keeps_weaken packages_heal)
  moreover have "db_tame (\<lambda>d. db_ok d \<and> manifest_get d = ms) (dependency_config_check ctx c mc i ver vols pid cfg)" for c mc i ver vols
    by (intro tame_of_keeps ends_actions ok.rel.keeps_actions)
  ultimately show ?thesis unfolding handle_dependent_def
    by (auto intro!: tame_rules rec split: option.splits sum.splits)
qed

lemma dependent_declares:
  assumes "db_ok d" and "dependents_get d q = Some ds" and "p \<in> set (bt_keys ds)" and "p \<noteq> q" and "manifest_get d p = Some m"
  shows "bt_get (m_dependencies m) q \<noteq> None"
proof -
  obtain deps where deps: "dependencies_get d p = Some deps"
    using assms(5) dependencies.fetch_None [of d p] by (auto simp: manifest_get_def)
  have "bt_get deps q = bt_get ds p"
    using assms(1,2,4) deps by (simp add: db_ok_but_def linked_but_def linked_row_def)
  then show ?thesis
    using assms deps bt_get_None [of ds p] unfolding db_ok_but_def declared_def by metis
qed

lemma tame_notify_dependents:
  fixes recurse :: "package_id \<Rightarrow> ('w, unit) act"
  assumes below: "declared_below h ms"
    and rec: "\<And>q. h q < h pid \<Longrightarrow> db_tame (\<lambda>d. db_ok d \<and> manifest_get d = ms) (recurse q)"
  shows "db_tame (\<lambda>d. db_ok d \<and> manifest_get d = ms) (notify_dependents ctx recurse pid ver old cfg signal)"
    (is "db_tame ?P _")
  unfolding tame_def
proof (intro allI impI)
  fix u :: "'w sys" assume u: "?P (sys_db u)"
  show "fst (notify_dependents ctx recurse pid ver old cfg signal u) \<noteq> Diverge \<and>
    ?P (sys_db (snd (notify_dependents ctx recurse pid ver old cfg signal u)))"
  proof (cases "dependents_get (sys_db u) pid")
    case (Some ds)
    let ?prev = "case old of Some c \<Rightarrow> JObject c | None \<Rightarrow> JNull"
    have "db_tame ?P (handle_dependent ctx recurse pid cfg ?prev e)"
      if e: "e \<in> set (filter (\<lambda>e. fst e \<noteq> pid) ds)" for e
    proof (intro tame_handle_dependent rec)
      fix m assume m: "ms (fst e) = Some m"
      have "bt_get (m_dependencies m) pid \<noteq> None"
        using dependent_declares [of "sys_db u" pid ds "fst e" m] u Some e m by (auto simp: bt_keys_def)
      then show "h (fst e) < h pid" using below m e unfolding declared_below_def by auto
    qed
    moreover have "db_tame ?P (send_signal ctx pid ver signal :: ('w, unit) act)"
      by (intro tame_of_keeps ends_send_signal ok.rel.keeps_send_signal)
    ultimately have "db_tame ?P (st_bind (st_for (handle_dependent ctx recurse pid cfg ?prev)
         (filter (\<lambda>e. fst e \<noteq> pid) ds)) (\<lambda>_. send_signal ctx pid ver signal))" by (intro tame_bind tame_for)
    with u Some show ?thesis unfolding tame_def by (simp add: notify_dependents_def st_eval)
  qed (use u in \<open>simp add: notify_dependents_def st_eval\<close>)
qed

lemma configure_rec_ends:
  fixes s :: "'w sys"
  assumes below: "declared_below h ms"
  shows "Suc (h pid) < fuel \<Longrightarrow> db_ok (sys_db s) \<Longrightarrow> manifest_get (sys_db s) = ms \<Longrightarrow>
    fst (configure_rec fuel ctx None dry pid given s) \<noteq> Diverge"
proof (induction fuel arbitrary: pid given s)
  case (Suc fuel)
  obtain k where fuel: "fuel = Suc k" using Suc.prems(1) by (cases fuel) auto
  let ?P = "\<lambda>d. db_ok d \<and> manifest_get d = ms"
  have prep: "db_tame ?P (prepare_config fuel ctx pid given None :: ('w, _) act)"
    unfolding fuel by (intro tame_of_keeps ends_prepare ok.rel.keeps_prepare)
  have keep: "keeps_ok (sys_db u) (sys_db (snd (configure_rec fuel ctx None dry q None u)))" for q and u :: "'w sys"
    by (rule ok.rel.keepsR [OF ok.keeps_configure_rec, unfolded on_db_def])
  have rec: "db_tame ?P (configure_rec fuel ctx None dry q None :: ('w, unit) act)" if "h q < h pid" for q
    using Suc.IH [of q] that Suc.prems(1) keep unfolding tame_def keeps_ok_def by auto
  have notify: "db_tame ?P (notify_dependents ctx (\<lambda>d. configure_rec fuel ctx None dry d None) pid ver old cfg signal)"
    for ver old cfg signal by (rule tame_notify_dependents [OF below rec])
  obtain r s1 where run: "prepare_config fuel ctx pid given None s = (r, s1)" by fastforce
  note s1 = tameD [OF prep _ run]
  show ?case
  proof (cases r)
    case (Ok x)
    obtain m a nc old spec cfg where x: "x = (m, a, nc, old, spec, cfg)" by (cases x)
    obtain r2 s2 where app: "apply_config ctx dry pid m a spec cfg s1 = (r2, s2)" by fastforce
    have "r2 \<noteq> Diverge" using ends_apply app unfolding tame_def by (metis fst_conv)
    moreover have "?P (sys_db s2)"
      using ok.apply_config_rel [of s1 pid m spec ctx dry a cfg] prepare_Ok [OF run [unfolded Ok x]] app s1 Suc.prems
      by (simp add: on_db_def keeps_ok_def)
    ultimately show ?thesis
      using notify run app unfolding tame_def by (cases r2) (auto simp: configure_rec.simps Ok x)
  qed (use s1 Suc.prems run in \<open>auto simp: configure_rec.simps\<close>)
qed simp

end
