(* ===== verification/Configure_Dry.thy ===== *)
theory Configure_Dry
  imports Configure_Ends
begin

text \<open>
  A dry run neither runs the set procedure of a package nor signals a running package: what it does
  is the same for every behaviour of the two. The second part holds the properties of configuring.
\<close>

section \<open>What does not depend on the set procedure and the managers\<close>

definition quiet :: "(procedure \<Rightarrow> package_id \<Rightarrow> version \<Rightarrow> volumes \<Rightarrow> config \<Rightarrow> ('w, set_result exit) call) \<Rightarrow>
    (package_id \<Rightarrow> version \<Rightarrow> string \<Rightarrow> ('w, unit) call option) \<Rightarrow> 'w ctx_ops \<Rightarrow> 'w ctx_ops" where
  "quiet f g ctx = ctx\<lparr>exec_set_config := f, manager_signal := g\<rparr>"

lemma quiet_fields [simp]:
  "satisfies (quiet f g ctx) = satisfies ctx" "default_version (quiet f g ctx) = default_version ctx"
  "exec_get_config (quiet f g ctx) = exec_get_config ctx" "exec_check (quiet f g ctx) = exec_check ctx"
  "exec_auto_configure (quiet f g ctx) = exec_auto_configure ctx" "tor_key (quiet f g ctx) = tor_key ctx"
  "json_path (quiet f g ctx) = json_path ctx" "regex_match (quiet f g ctx) = regex_match ctx"
  "gen_world (quiet f g ctx) = gen_world ctx" "show_error (quiet f g ctx) = show_error ctx"
  by (simp_all add: quiet_def)

lemma quiet_calls [simp]:
  "config_actions_get (quiet f g ctx) = config_actions_get ctx"
  "dependency_config_check (quiet f g ctx) = dependency_config_check ctx"
  "config_spec_generate fuel (quiet f g ctx) = config_spec_generate fuel ctx"
  "config_selector_select (quiet f g ctx) = config_selector_select ctx"
  "tor_key_deref (quiet f g ctx) = tor_key_deref ctx"
  by (simp_all add: fun_eq_iff config_actions_get_def dependency_config_check_def config_spec_generate_def
      config_selector_select_def tor_key_deref_def)

lemma quiet_config_pointer_deref [simp]: "config_pointer_deref (quiet f g ctx) = config_pointer_deref ctx"
  unfolding config_pointer_deref_def [abs_def] quiet_calls ..

lemma quiet_config_or_get [simp]: "dependency_config_or_get (quiet f g ctx) = dependency_config_or_get ctx"
  unfolding dependency_config_or_get_def [abs_def] quiet_calls ..

lemma quiet_pointer_update [simp]: "pointer_update (quiet f g ctx) m p v = pointer_update ctx m p v"
proof -
  obtain q where "p = Package q" by (cases p)
  then show ?thesis by (cases q) simp_all
qed

lemma quiet_update:
  "any_update (quiet f g ctx) m vs v = any_update ctx m vs v"
  "value_list_update (quiet f g ctx) m l v = value_list_update ctx m l v"
  "object_update (quiet f g ctx) m ob v = object_update ctx m ob v"
  "union_update (quiet f g ctx) m u v = union_update ctx m u v"
  "config_spec_update (quiet f g ctx) m s cfg = config_spec_update ctx m s cfg"
proof (induction ctx m vs v and ctx m l v and ctx m ob v and ctx m u v and ctx m s cfg rule: update_induct)
  case (11 ctx m a v)
  then show ?case by (auto simp: wrapper_defs simp del: object_update.simps intro!: list_spec_update_cong)
next
  case (13 ctx m a v)
  then show ?case by (auto simp: wrapper_defs simp del: union_update.simps intro!: list_spec_update_cong)
next
  case (14 ctx m s v)
  then show ?case by (auto split: json.splits)
next
  case (15 ctx m s v)
  then show ?case by (auto split: json.splits option.splits)
next
  case (16 ctx m s cfg)
  then show ?case unfolding config_spec_update.simps by (intro st_fold_cong refl update_entry_cong) auto
qed (auto simp: wrapper_defs simp del: object_update.simps union_update.simps)

lemma quiet_try_heal [simp]: "try_heal (quiet f g ctx) e pid d cfg info = try_heal ctx e pid d cfg info"
proof (induction ctx e pid d cfg info rule: try_heal.induct)
  case (3 ctx err pid d cfg info)
  then show ?case unfolding try_heal.simps(3) quiet_config_or_get quiet_calls
    by (intro st_bind_cong refl) (auto split: sum.split)
next
  case (5 ctx fs pid d cfg info)
  then show ?case unfolding try_heal.simps(5) Let_def
    by (intro st_bind_cong refl) (auto intro!: st_bind_cong split: main_status.split option.split)
next
  case (6 ctx pid d cfg info)
  show ?case by (simp add: try_heal.simps)
qed (simp add: try_heal.simps cong: option.case_cong if_cong; fail)+

lemma quiet_init [simp]: "dependency_errors_init (quiet f g ctx) = dependency_errors_init ctx"
  unfolding dependency_errors_init_def [abs_def] dep_info_satisfied_def quiet_try_heal ..

lemma quiet_heal:
  "heal_transitive fuel (quiet f g ctx) pid d = heal_transitive fuel ctx pid d"
proof (induction fuel arbitrary: pid d)
  case (Suc fuel)
  then have "heal_all_dependents_transitive fuel (quiet f g ctx) q = heal_all_dependents_transitive fuel ctx q" for q
    by (simp add: heal_all_dependents_transitive.simps)
  then show ?case unfolding heal_transitive.simps quiet_try_heal by presburger
qed (simp add: heal_transitive.simps)

lemma quiet_heal_all [simp]: "heal_all_now (quiet f g ctx) pid = heal_all_now ctx pid"
  by (simp add: heal_all_now_def heal_all_dependents_transitive.simps quiet_heal)

lemma quiet_pointer_changed [simp]: "pointer_changed (quiet f g ctx) = pointer_changed ctx"
proof (intro ext)
  show "pointer_changed (quiet f g ctx) prev next p = pointer_changed ctx prev next p" for prev "next" p
    by (cases p) simp_all
qed

lemma quiet_handle_dependent [simp]: "handle_dependent (quiet f g ctx) = handle_dependent ctx"
  unfolding handle_dependent_def [abs_def] quiet_calls quiet_pointer_changed quiet_heal_all quiet_fields ..

lemma quiet_prepare [simp]: "prepare_config fuel (quiet f g ctx) = prepare_config fuel ctx"
  unfolding prepare_config_def [abs_def] quiet_calls quiet_fields quiet_update ..

lemma quiet_apply [simp]: "apply_config (quiet f g ctx) True = apply_config ctx True"
  unfolding apply_config_def [abs_def] run_set_action_def quiet_init by simp

lemma dry_no_signal: "apply_config ctx True pid m a spec cfg s = (Ok signal, t) \<Longrightarrow> signal = None"
  by (auto simp: apply_config_def run_set_action_def st_bind_eq_Ok st_return_eq)

lemma st_bind_cong_Ok:
  "(\<And>s a s'. m s = (Ok a, s') \<Longrightarrow> f a s' = g a s') \<Longrightarrow> st_bind m f = st_bind m g"
  by (auto simp: fun_eq_iff st_bind_def split: prod.splits res.splits)

lemma dry_independent:
  "configure_rec fuel (quiet f g ctx) timeout True pid given = configure_rec fuel ctx timeout True pid given"
proof (induction fuel arbitrary: pid given)
  case (Suc fuel)
  have "st_bind (apply_config ctx True pid m a spec cfg) (\<lambda>signal.
      notify_dependents (quiet f g ctx) (\<lambda>d. configure_rec fuel ctx timeout True d None) pid ver old cfg' signal) =
    st_bind (apply_config ctx True pid m a spec cfg) (\<lambda>signal.
      notify_dependents ctx (\<lambda>d. configure_rec fuel ctx timeout True d None) pid ver old cfg' signal)"
    for m a spec cfg ver old cfg'
    by (rule st_bind_cong_Ok) (auto dest!: dry_no_signal simp: notify_dependents_def send_signal_def)
  then show ?case unfolding configure_rec.simps quiet_prepare quiet_apply Suc.IH by simp
qed (simp add: configure_rec.simps)

section \<open>Commands\<close>

lemma in_transaction_Ok:
  "in_transaction c f s = (Ok x, t) \<longleftrightarrow> (\<exists>a u. f (s\<lparr>sys_breakages := [], sys_overrides := []\<rparr>) = (Ok a, u) \<and> x = (a, sys_breakages u) \<and>
     t = s\<lparr>sys_db := (if c then sys_db u else sys_db s), sys_world := sys_world u\<rparr>)"
  by (auto simp: in_transaction_def split: prod.splits res.splits)

lemma in_transaction_abort: "in_transaction c f s = (r, t) \<Longrightarrow> c = False \<or> \<not> is_ok r \<Longrightarrow> world_only s t"
  by (auto simp: in_transaction_def world_only_def split: prod.splits res.splits)

lemma configure_Ok_configured:
  assumes "configure fuel ctx timeout dry pid given s = (Ok u, t)"
  shows "\<exists>st. status_get (sys_db t) pid = Some st \<and> configured st"
proof -
  obtain t1 where run: "configure_rec fuel ctx timeout dry pid given s = (Ok (), t1)"
    and t: "t = t1\<lparr>sys_db := configured_set True pid (sys_db t1)\<rparr>"
    using assms by (auto simp: configure_def st_bind_eq_Ok map_db_step)
  obtain m where "manifest_get (sys_db s) pid = Some m"
    using run by (cases fuel) (auto simp: configure_rec.simps st_simps st_bind_eq_Ok dest!: prepare_Ok)
  moreover have "manifest_get (sys_db t1) = manifest_get (sys_db s)"
    using ok.rel.keepsD [OF ok.keeps_configure_rec run] by (simp add: on_db_def keeps_ok_def)
  ultimately obtain i where "installed_get (sys_db t1) pid = Some i"
    by (metis manifest_get_def not_None_eq option.map_disc_iff)
  then show ?thesis by (simp add: t receipt_defs)
qed

section \<open>Samples\<close>

text \<open>Two packages that can be configured; \<open>b\<close> declares \<open>a\<close> and depends on it.\<close>

definition conf_installed :: "package_id \<Rightarrow> package_id list \<Rightarrow> package_id list \<Rightarrow> package_data_entry" where
  "conf_installed p deps dependents =
     (let m = \<lparr>m_id = p, m_version = ''1.0.0'', m_config = Some \<lparr>ca_get = [], ca_set = []\<rparr>, m_volumes = [],
        m_dependencies = sample_deps deps, m_containers = None, m_interfaces = [], m_migrations = no_migrations,
     m_health_checks = [], m_backup = no_backup\<rparr> in
      Installed m \<lparr>ip_status = \<lparr>configured = False, main = Stopped, dependency_errors = []\<rparr>, ip_manifest = m,
        ip_system_pointers = [], ip_current_dependents = map (\<lambda>q. (q, current_dependency_info_default)) dependents,
        ip_current_dependencies = map (\<lambda>q. (q, current_dependency_info_default)) deps, ip_interface_addresses = []\<rparr>)"

definition conf_sys :: "nat sys" where
  "conf_sys = \<lparr>sys_db = [(''a'', conf_installed ''a'' [] [''b'']), (''b'', conf_installed ''b'' [''a''] [])],
     sys_breakages = [], sys_overrides = [], sys_world = 0\<rparr>"

lemmas conf_defs = conf_sys_def conf_installed_def sample_deps_def Let_def receipt_defs installed_get_def

definition flag_spec :: config_spec where
  "flag_spec = ConfigSpec [(''flag'', SBoolean (WithDescription (WithDefault ValueSpecBoolean True) None ''Flag'' None))]"

definition flag_ctx :: "nat ctx_ops" where
  "flag_ctx = sample_ctx\<lparr>exec_get_config := \<lambda>_ _ _ _ w. (Inr (Inr \<lparr>cr_config = None, cr_spec = flag_spec\<rparr>), Suc w)\<rparr>"

definition b_manifest :: manifest where
  "b_manifest = \<lparr>m_id = ''b'', m_version = ''1.0.0'', m_config = Some \<lparr>ca_get = [], ca_set = []\<rparr>, m_volumes = [],
     m_dependencies = sample_deps [''a''], m_containers = None, m_interfaces = [], m_migrations = no_migrations,
     m_health_checks = [], m_backup = no_backup\<rparr>"

lemma conf_db_ok: "db_ok (sys_db conf_sys)"
  by (auto simp: db_ok_defs removing_get_def bt_keys_def conf_defs split: if_splits)

section \<open>Properties\<close>

text \<open>
  C21. Configuring a package keeps the package data consistent on every outcome, errors included: entries
  keep the manifests they had, the dependents of a package are exactly the packages that have it as a
  dependency, and every current dependency is declared in the manifest.
\<close>

theorem configure_keeps_db_ok:
  assumes "configure fuel ctx timeout dry pid given s = (r, t)" and "db_ok (sys_db s)"
  shows "db_ok (sys_db t) \<and> manifest_get (sys_db t) = manifest_get (sys_db s)"
  using ok.rel.keepsD [OF ok.keeps_configure assms(1)] assms(2) by (simp add: on_db_def keeps_ok_def)

theorem configure_keeps_db_ok_witness:
  "db_ok (sys_db (snd (configure 3 sample_ctx None False ''a'' None conf_sys)))"
  using configure_keeps_db_ok [OF _ conf_db_ok, of 3 sample_ctx None False "''a''" None] by (metis surj_pair snd_conv)

text \<open>
  C22. Without a timeout configuring a package ends, with every behaviour of the procedures involved, when
  the declared dependencies are acyclic: fuel beyond one more than the height of the package in a ranking in which
  a package is below the dependencies it declares is enough.
\<close>

theorem configure_terminates:
  assumes "db_ok (sys_db s)" and "declared_below h (manifest_get (sys_db s))" and "Suc (h pid) < fuel"
  shows "fst (configure fuel ctx None dry pid given s) \<noteq> Diverge"
proof -
  obtain r t where run: "configure_rec fuel ctx None dry pid given s = (r, t)" by fastforce
  have "r \<noteq> Diverge" using configure_rec_ends [OF assms(2,3,1) refl, of ctx dry given] run by simp
  then show ?thesis using run by (cases r) (auto simp: configure_def map_db_step)
qed

theorem configure_terminates_witness:
  "fst (configure 3 sample_ctx None False ''a'' None conf_sys) \<noteq> Diverge"
proof (rule configure_terminates [OF conf_db_ok, where h = "\<lambda>p. if p = ''a'' then 1 else 0"])
  show "declared_below (\<lambda>p. if p = ''a'' then 1 else 0) (manifest_get (sys_db conf_sys))"
    by (auto simp: declared_below_def conf_defs split: if_splits)
qed simp

text \<open>
  C24. A dry run of \<open>config set\<close> leaves the database as it is on every outcome, and it neither runs the set
  procedure of any package nor signals one: with any other behaviour of the two it returns the same
  and leaves the same state.
\<close>

theorem dry_run_has_no_effect:
  assumes "set_dry fuel ctx pid given timeout s = (r, t)"
  shows "world_only s t \<and>
    set_dry fuel (ctx\<lparr>exec_set_config := f, manager_signal := g\<rparr>) pid given timeout s = (r, t)"
proof
  let ?run = "st_bind (configure fuel ctx timeout True pid given) (\<lambda>_. map_db (configured_set True pid))"
  obtain r1 t1 where run: "in_transaction False ?run s = (r1, t1)" by fastforce
  have "t = t1" using assms run by (cases r1) (auto simp: set_dry_def st_return_eq)
  with in_transaction_abort [OF run] show "world_only s t" by simp
  show "set_dry fuel (ctx\<lparr>exec_set_config := f, manager_signal := g\<rparr>) pid given timeout s = (r, t)"
    using assms dry_independent [of fuel f g ctx timeout pid given] by (simp add: set_dry_def configure_def quiet_def)
qed

theorem dry_run_has_no_effect_witness:
  "sys_db (snd (set_dry 3 sample_ctx ''a'' None None conf_sys)) = sys_db conf_sys \<and>
   sys_world (snd (set_dry 3 sample_ctx ''a'' None None conf_sys)) =
     sys_world (snd (set_dry 3 (sample_ctx\<lparr>exec_set_config := (\<lambda>_ _ _ _ _ w. (Inl (not_found []), w + 100)), manager_signal := (\<lambda>_ _ _. None)\<rparr>)
       ''a'' None None conf_sys))"
proof -
  obtain r t where run: "set_dry 3 sample_ctx ''a'' None None conf_sys = (r, t)" by fastforce
  show ?thesis
    using dry_run_has_no_effect [OF run, where f = "\<lambda>_ _ _ _ _ w. (Inl (not_found []), w + 100)" and g = "\<lambda>_ _ _. None"] run
    by (simp add: world_only_def)
qed


text \<open>
  C23. \<open>config set\<close> is atomic: when it succeeds the package is configured and the package data are still
  consistent, and on every other outcome the database is as it was.
\<close>

theorem set_is_atomic:
  assumes "set_impl fuel ctx pid given timeout s = (r, t)" and "db_ok (sys_db s)"
  shows "db_ok (sys_db t) \<and>
    (if r = Ok () then (\<exists>st. status_get (sys_db t) pid = Some st \<and> configured st) else sys_db t = sys_db s)"
proof -
  obtain r1 t1 where run: "in_transaction True (configure fuel ctx timeout False pid given) s = (r1, t1)" by fastforce
  then have t: "t = t1" and r: "is_ok r1 \<longleftrightarrow> r = Ok ()"
    using assms(1) by (cases r1; auto simp: set_impl_def st_return_eq)+
  show ?thesis
  proof (cases r1)
    case (Ok x)
    then obtain u where conf: "configure fuel ctx timeout False pid given (s\<lparr>sys_breakages := [], sys_overrides := []\<rparr>) = (Ok (), u)"
      and db: "sys_db t1 = sys_db u"
      using run by (auto simp: in_transaction_Ok)
    have "db_ok (sys_db u)"
      using ok.rel.keepsD [OF ok.keeps_configure conf] assms(2) by (simp add: on_db_def keeps_ok_def)
    then show ?thesis using configure_Ok_configured [OF conf] Ok r t db by simp
  qed (use in_transaction_abort [OF run] r t assms(2) in \<open>auto simp: world_only_def\<close>)
qed

theorem set_is_atomic_witness:
  "fst (set_impl 3 sample_ctx ''a'' None None conf_sys) = Ok () \<and>
   (\<exists>st. status_get (sys_db (snd (set_impl 3 sample_ctx ''a'' None None conf_sys))) ''a'' = Some st \<and> configured st)"
proof -
  have ok: "fst (set_impl 3 sample_ctx ''a'' None None conf_sys) = Ok ()" by code_simp
  then have run: "set_impl 3 sample_ctx ''a'' None None conf_sys =
      (Ok (), snd (set_impl 3 sample_ctx ''a'' None None conf_sys))" by (simp add: prod_eq_iff)
  show ?thesis using set_is_atomic [OF run conf_db_ok] ok by simp
qed

text \<open>
  A configuration that does not match the spec of the package is rejected before anything is done with it:
  \<open>config set\<close> reports the mismatch, the database stays as it was and the only procedure that has run is the one
  that reads the spec.
\<close>

theorem invalid_config_rejected:
  assumes "manifest_get (sys_db s) pid = Some m" and "m_config m = Some a"
    and "config_actions_get ctx a pid (m_version m) (m_volumes m) (s\<lparr>sys_breakages := [], sys_overrides := []\<rparr>) = (Ok cr, s1)"
    and "config_spec_validate m (cr_spec cr) = Ok ()"
    and "config_spec_matches (regex_match ctx) (cr_spec cr) cfg = Err e"
  shows "set_impl (Suc fuel) ctx pid (Some cfg) timeout s =
    (Err (error_of_configuration (NoMatch e)), s\<lparr>sys_world := sys_world s1\<rparr>)"
proof -
  let ?s = "s\<lparr>sys_breakages := [], sys_overrides := []\<rparr>"
  obtain st where "status_get (sys_db s) pid = Some st"
    using assms(1) by (auto simp: receipt_defs)
  then have "prepare_config fuel ctx pid (Some cfg) timeout ?s = (Err (error_of_configuration (NoMatch e)), s1)"
    using assms by (simp add: prepare_config_def st_eval match_lift_def)
  then show ?thesis
    by (simp add: set_impl_def in_transaction_def configure_def configure_rec.simps)
qed

theorem invalid_config_rejected_witness:
  "fst (set_impl 1 flag_ctx ''a'' (Some [(''flag'', JString [])]) None conf_sys) =
     Err (error_of_configuration (NoMatch (prepend ''flag'' (no_match_new (EInvalidType ''boolean'' ''string'')))))"
proof -
  let ?s = "conf_sys\<lparr>sys_breakages := [], sys_overrides := []\<rparr>"
  obtain m where m: "manifest_get (sys_db conf_sys) ''a'' = Some m" "m_config m = Some \<lparr>ca_get = [], ca_set = []\<rparr>"
    by (simp add: conf_defs)
  have get: "config_actions_get flag_ctx \<lparr>ca_get = [], ca_set = []\<rparr> ''a'' (m_version m) (m_volumes m) ?s =
      (Ok \<lparr>cr_config = None, cr_spec = flag_spec\<rparr>, ?s\<lparr>sys_world := 1\<rparr>)"
    by (simp add: config_actions_get_def call_world_def exit_or_def flag_ctx_def conf_sys_def st_bind_def st_simps)
  have "config_spec_validate m flag_spec = Ok ()"
    "config_spec_matches (regex_match flag_ctx) flag_spec [(''flag'', JString [])] =
      Err (prepend ''flag'' (no_match_new (EInvalidType ''boolean'' ''string'')))"
    by (simp_all add: flag_spec_def spec_eval boolean_matches_def im_get_def)
  then show ?thesis using invalid_config_rejected [OF m get, of _ _ 0] by simp
qed

text \<open>
  The filter for illegal dependencies in \<open>configure_rec\<close> never drops anything: the pointers of a validated spec and
  the dependencies that the set action reports are declared already, so the dependencies with the filter and
  without it are the same.
\<close>

theorem legality_filter_redundant:
  assumes "config_spec_validate m spec = Ok ()" and "config_spec_pointers spec cfg = Ok ptrs" and "m_id m = pid"
    and "config_actions_set ctx a pid (m_version m) (m_dependencies m) (m_volumes m) cfg s = (Ok res, s')"
  defines "cds \<equiv> fold add_health_checks (sr_depends_on res) (fold add_pointer ptrs (required_dependencies (m_dependencies m)))"
  shows "legal_dependencies pid m cds = cds"
proof -
  have "bt_get (m_dependencies m) (fst e) \<noteq> None" if "e \<in> set (sr_depends_on res)" for e
    using that assms(4) by (auto simp: config_actions_set_def st_bind_eq_Ok st_return_eq)
  moreover have "pointer_package_id p = pid \<or> bt_get (m_dependencies m) (pointer_package_id p) \<noteq> None"
    if "Package p \<in> set ptrs" for p
    using validate_pointers_legal(4) [OF assms(1,2) that] assms(3) by (auto simp: legal_pointer_def split: if_splits)
  ultimately have "q = pid \<or> bt_get (m_dependencies m) q \<noteq> None" if "bt_get cds q \<noteq> None" for q
    using that required_keys [of "m_dependencies m" q] unfolding cds_def
    by (simp add: add_health_keys add_pointers_keys del: not_None_eq) fastforce
  then show ?thesis
    by (auto simp: legal_dependencies_def filter_id_conv bt_get_None bt_keys_def)
qed

theorem legality_filter_redundant_witness:
  "legal_dependencies ''b'' b_manifest [(''a'', \<lparr>cdi_pointers = [], cdi_health_checks = [''rpc'']\<rparr>)] =
     [(''a'', \<lparr>cdi_pointers = [], cdi_health_checks = [''rpc'']\<rparr>)]"
proof -
  have set: "config_actions_set sample_ctx \<lparr>ca_get = [], ca_set = []\<rparr> ''b'' (m_version b_manifest) (m_dependencies b_manifest)
      (m_volumes b_manifest) [] conf_sys = (Ok \<lparr>sr_signal = None, sr_depends_on = [(''a'', [''rpc''])]\<rparr>, conf_sys\<lparr>sys_world := 1\<rparr>)"
    by (simp add: config_actions_set_def call_world_def exit_or_def sample_ctx_def sample_deps_def b_manifest_def conf_sys_def st_bind_def st_simps)
  have "m_id b_manifest = ''b''" by (simp add: b_manifest_def)
  moreover have "config_spec_validate b_manifest (ConfigSpec []) = Ok ()" "config_spec_pointers (ConfigSpec []) [] = Ok []"
    by (simp_all add: spec_eval)
  ultimately show ?thesis using legality_filter_redundant [OF _ _ _ set, of "ConfigSpec []" "[]"]
    by (simp add: add_health_checks_def required_dependencies_def b_manifest_def sample_deps_def bt_of_list_def bs_union_def bs_insert_def current_dependency_info_default_def)
qed

end
