(* ===== verification/Rules.thy ===== *)
theory Rules
  imports Config_Gen "HOL-Library.Sublist"
begin

text \<open>
  The rule language of legacy packages, \<^verbatim>\<open>system-images/compat/src/config/rules.rs\<close>: conditions on
  configurations with paths that range over the members of lists and objects, and suggestions that
  change a configuration until a rule holds. The trees below are what the functions \<open>compile_*\<close>
  see after parsing and after the precedence climber has combined operators; the closures that they
  build are the evaluation functions. Arithmetic on floats and their conversion from and to text are
  an argument.
\<close>

section \<open>Rules\<close>

datatype num_op = OpAdd | OpSub | OpMul | OpDiv | OpPow
datatype cmp_op = CmpLt | CmpLte | CmpEq | CmpNeq | CmpGt | CmpGte
datatype bool_op = OpAnd | OpOr | OpXor

datatype sub_ident =
    SubAny
  | SubAll
  | SubFirst string bool_expr
  | SubLast string bool_expr
  | SubAnyFn string bool_expr
  | SubAllFn string bool_expr
  | SubKey string
  | SubKeyExpr str_expr
  | SubIndex nat
  | SubIndexExpr num_expr
and rule_var = RuleVar "string option" string "sub_ident list"
and num_expr =
    NumVar rule_var
  | Num f64
  | NumParen num_expr
  | NumBin num_expr num_op num_expr
and str_expr =
    StrVar rule_var
  | Str "codepoint list"
  | StrParen str_expr
  | StrAdd str_expr str_expr
and bool_expr =
    BoolVar rule_var
  | BoolParen bool_expr
  | InvBool bool_expr
  | NumCmp num_expr cmp_op num_expr
  | StrCmp str_expr cmp_op str_expr
  | BoolBin bool_expr bool_op bool_expr

datatype value_expr =
    AnyVar rule_var
  | StrValue str_expr
  | NumValue num_expr
  | BoolValue bool_expr

record f64_ops =
  f_add :: "f64 \<Rightarrow> f64 \<Rightarrow> f64"
  f_sub :: "f64 \<Rightarrow> f64 \<Rightarrow> f64"
  f_mul :: "f64 \<Rightarrow> f64 \<Rightarrow> f64"
  f_div :: "f64 \<Rightarrow> f64 \<Rightarrow> f64"
  f_pow :: "f64 \<Rightarrow> f64 \<Rightarrow> f64"
  f_parse :: "string \<Rightarrow> f64 option"
  show_number :: "number \<Rightarrow> string"

type_synonym configs = "(string, config) imap"

text \<open>Evaluation can only panic; errors are the descriptions of violated rules.\<close>

type_synonym 'a ev = "(string, 'a) res"

section \<open>Results of paths\<close>

datatype 'a var_res = VExactly 'a | AnyOf "'a var_res list" | AllOf "'a var_res list"

fun vr_map :: "('a \<Rightarrow> 'b ev) \<Rightarrow> 'a var_res \<Rightarrow> 'b var_res ev"
  and vr_maps :: "('a \<Rightarrow> 'b ev) \<Rightarrow> 'a var_res list \<Rightarrow> 'b var_res list ev" where
  "vr_map f (VExactly a) = rmap VExactly (f a)"
| "vr_map f (AnyOf xs) = rmap AnyOf (vr_maps f xs)"
| "vr_map f (AllOf xs) = rmap AllOf (vr_maps f xs)"
| "vr_maps f [] = Ok []"
| "vr_maps f (x # xs) = rbind (vr_map f x) (\<lambda>y. rmap (Cons y) (vr_maps f xs))"

fun and_then :: "'a var_res \<Rightarrow> ('a \<Rightarrow> 'b var_res ev) \<Rightarrow> 'b var_res ev"
  and and_thens :: "'a var_res list \<Rightarrow> ('a \<Rightarrow> 'b var_res ev) \<Rightarrow> 'b var_res list ev" where
  "and_then (VExactly a) f = f a"
| "and_then (AnyOf xs) f = rmap AnyOf (and_thens xs f)"
| "and_then (AllOf xs) f = rmap AllOf (and_thens xs f)"
| "and_thens [] f = Ok []"
| "and_thens (x # xs) f = rbind (and_then x f) (\<lambda>y. rmap (Cons y) (and_thens xs f))"

fun resolve :: "bool var_res \<Rightarrow> bool" where
  "resolve (VExactly a) = a"
| "resolve (AnyOf xs) = list_ex resolve xs"
| "resolve (AllOf xs) = list_all resolve xs"

text \<open>\<open>iter().filter(p)\<close> with \<open>next\<close> and \<open>collect\<close>; \<open>next_back\<close> is \<open>next\<close> from the other end.\<close>

fun find_first :: "('a \<Rightarrow> bool ev) \<Rightarrow> 'a list \<Rightarrow> 'a option ev" where
  "find_first p [] = Ok None"
| "find_first p (x # xs) = rbind (p x) (\<lambda>b. if b then Ok (Some x) else find_first p xs)"

fun filter_ev :: "('a \<Rightarrow> bool ev) \<Rightarrow> 'a list \<Rightarrow> 'a list ev" where
  "filter_ev p [] = Ok []"
| "filter_ev p (x # xs) = rbind (p x) (\<lambda>b. rmap (\<lambda>ys. if b then x # ys else ys) (filter_ev p xs))"

definition members :: "json \<Rightarrow> json list option" where
  "members v = (case v of JArray l \<Rightarrow> Some l | JObject ob \<Rightarrow> Some (map snd ob) | _ \<Rightarrow> None)"

definition or_null :: "json option \<Rightarrow> json" where
  "or_null x = (case x of Some v \<Rightarrow> v | None \<Rightarrow> JNull)"

section \<open>Scalars\<close>

text \<open>\<open>idx as usize\<close>: truncation that saturates; NaN becomes 0.\<close>

fun f64_to_usize :: "f64 \<Rightarrow> nat" where
  "f64_to_usize (Finite r) = min (nat \<lfloor>r\<rfloor>) (2 ^ 64 - 1)"
| "f64_to_usize Infinity = 2 ^ 64 - 1"
| "f64_to_usize _ = 0"

fun num_bin :: "f64_ops \<Rightarrow> num_op \<Rightarrow> f64 \<Rightarrow> f64 \<Rightarrow> f64" where
  "num_bin ops OpAdd a b = f_add ops a b"
| "num_bin ops OpSub a b = f_sub ops a b"
| "num_bin ops OpMul a b = f_mul ops a b"
| "num_bin ops OpDiv a b = f_div ops a b"
| "num_bin ops OpPow a b = f_pow ops a b"

fun num_cmp :: "cmp_op \<Rightarrow> f64 \<Rightarrow> f64 \<Rightarrow> bool" where
  "num_cmp CmpLt a b = f64_lt a b"
| "num_cmp CmpLte a b = f64_le a b"
| "num_cmp CmpEq a b = (f64_le a b \<and> f64_le b a)"
| "num_cmp CmpNeq a b = (\<not> (f64_le a b \<and> f64_le b a))"
| "num_cmp CmpGt a b = f64_lt b a"
| "num_cmp CmpGte a b = f64_le b a"

text \<open>On strings the order is containment; a value that is not a string takes part as \<open>None\<close>.\<close>

fun str_cmp :: "cmp_op \<Rightarrow> string option \<Rightarrow> string option \<Rightarrow> bool" where
  "str_cmp CmpLt (Some a) (Some b) = (sublist a b \<and> length a < length b)"
| "str_cmp CmpLt _ _ = False"
| "str_cmp CmpLte (Some a) (Some b) = sublist a b"
| "str_cmp CmpLte _ _ = False"
| "str_cmp CmpEq (Some a) (Some b) = (a = b)"
| "str_cmp CmpEq None None = True"
| "str_cmp CmpEq _ _ = False"
| "str_cmp CmpNeq (Some a) (Some b) = (a \<noteq> b)"
| "str_cmp CmpNeq None None = False"
| "str_cmp CmpNeq _ _ = True"
| "str_cmp CmpGt (Some a) (Some b) = (sublist b a \<and> length b < length a)"
| "str_cmp CmpGt _ _ = True"
| "str_cmp CmpGte (Some a) (Some b) = sublist b a"
| "str_cmp CmpGte _ _ = True"

fun truthy :: "json \<Rightarrow> bool" where
  "truthy (JBool False) = False"
| "truthy JNull = False"
| "truthy _ = True"

fun to_num :: "f64_ops \<Rightarrow> json \<Rightarrow> f64 ev" where
  "to_num ops (JNumber n) = Ok (as_f64 n)"
| "to_num ops (JString s) = (case f_parse ops s of Some n \<Rightarrow> Ok n | None \<Rightarrow> Panic)"
| "to_num ops (JBool b) = Ok (Finite (if b then 1 else 0))"
| "to_num ops _ = Panic"

fun to_str :: "f64_ops \<Rightarrow> json \<Rightarrow> string option" where
  "to_str ops (JString s) = Some s"
| "to_str ops (JNumber n) = Some (show_number ops n)"
| "to_str ops (JBool b) = Some (if b then ''true'' else ''false'')"
| "to_str ops _ = None"

text \<open>String literals, given with their quotes. The loop carries the output and the flag \<open>escape\<close>.\<close>

definition str_step :: "codepoint \<Rightarrow> codepoint list \<times> bool \<Rightarrow> codepoint list \<times> bool" where
  "str_step c st =
     (let (out, escape) = st in
      if c = 92 then (if escape then (out @ [92], escape) else (out, True))
      else if c = 110 \<and> escape then (out @ [10], escape)
      else if c = 114 \<and> escape then (out @ [13], escape)
      else if c = 116 \<and> escape then (out @ [9], escape)
      else if c = 48 \<and> escape then (out @ [0], escape)
      else if c = 34 \<and> escape then (out @ [34], escape)
      else if c = 39 \<and> escape then (out @ [39], escape)
      else ((if escape then out @ [92] else out) @ [c], escape))"

definition compile_str :: "codepoint list \<Rightarrow> codepoint list" where
  "compile_str t = fst (fold str_step (butlast (tl t)) ([], False))"

section \<open>Evaluation\<close>

primrec eval_sub :: "f64_ops \<Rightarrow> sub_ident \<Rightarrow> configs \<Rightarrow> json \<Rightarrow> json var_res ev"
  and eval_subs :: "f64_ops \<Rightarrow> sub_ident list \<Rightarrow> configs \<Rightarrow> json \<Rightarrow> json var_res ev"
  and eval_var :: "f64_ops \<Rightarrow> rule_var \<Rightarrow> config \<Rightarrow> configs \<Rightarrow> json var_res ev"
  and eval_num :: "f64_ops \<Rightarrow> num_expr \<Rightarrow> config \<Rightarrow> configs \<Rightarrow> f64 var_res ev"
  and eval_str :: "f64_ops \<Rightarrow> str_expr \<Rightarrow> config \<Rightarrow> configs \<Rightarrow> string option var_res ev"
  and eval_bool :: "f64_ops \<Rightarrow> bool_expr \<Rightarrow> config \<Rightarrow> configs \<Rightarrow> bool ev" where
  "eval_sub ops SubAny cfgs v =
     Ok (case members v of Some l \<Rightarrow> AnyOf (map VExactly l) | None \<Rightarrow> VExactly JNull)"
| "eval_sub ops SubAll cfgs v =
     Ok (case members v of Some l \<Rightarrow> AllOf (map VExactly l) | None \<Rightarrow> VExactly JNull)"
| "eval_sub ops (SubFirst x p) cfgs v =
     (case members v of
        Some l \<Rightarrow> rmap (\<lambda>r. VExactly (or_null r)) (find_first (\<lambda>item. eval_bool ops p [(x, item)] cfgs) l)
      | None \<Rightarrow> Ok (VExactly JNull))"
| "eval_sub ops (SubLast x p) cfgs v =
     (case members v of
        Some l \<Rightarrow> rmap (\<lambda>r. VExactly (or_null r)) (find_first (\<lambda>item. eval_bool ops p [(x, item)] cfgs) (rev l))
      | None \<Rightarrow> Ok (VExactly JNull))"
| "eval_sub ops (SubAnyFn x p) cfgs v =
     (case members v of
        Some l \<Rightarrow> rmap (\<lambda>ys. AnyOf (map VExactly ys)) (filter_ev (\<lambda>item. eval_bool ops p [(x, item)] cfgs) l)
      | None \<Rightarrow> Ok (VExactly JNull))"
| "eval_sub ops (SubAllFn x p) cfgs v =
     (case members v of
        Some l \<Rightarrow> rmap (\<lambda>ys. AllOf (map VExactly ys)) (filter_ev (\<lambda>item. eval_bool ops p [(x, item)] cfgs) l)
      | None \<Rightarrow> Ok (VExactly JNull))"
| "eval_sub ops (SubKey k) cfgs v =
     Ok (VExactly (case v of JObject ob \<Rightarrow> or_null (im_get ob k) | _ \<Rightarrow> JNull))"
| "eval_sub ops (SubKeyExpr e) cfgs v =
     (case v of
        JObject ob \<Rightarrow> rbind (eval_str ops e [] cfgs)
          (vr_map (\<lambda>idx. Ok (or_null (Option.bind idx (im_get ob)))))
      | _ \<Rightarrow> Ok (VExactly JNull))"
| "eval_sub ops (SubIndex i) cfgs v =
     Ok (VExactly (case v of JArray l \<Rightarrow> (if i < length l then l ! i else JNull) | _ \<Rightarrow> JNull))"
| "eval_sub ops (SubIndexExpr e) cfgs v =
     (case v of
        JArray l \<Rightarrow> rbind (eval_num ops e [] cfgs)
          (vr_map (\<lambda>idx. Ok (if f64_to_usize idx < length l then l ! f64_to_usize idx else JNull)))
      | _ \<Rightarrow> Ok (VExactly JNull))"
| "eval_subs ops [] cfgs v = Ok (VExactly v)"
| "eval_subs ops (i # is) cfgs v = rbind (eval_sub ops i cfgs v) (\<lambda>r. and_then r (\<lambda>v'. eval_subs ops is cfgs v'))"
| "eval_var ops (RuleVar app k subs) cfg cfgs =
     (case (case app of None \<Rightarrow> Some cfg | Some a \<Rightarrow> im_get cfgs a) of
        None \<Rightarrow> Ok (VExactly JNull)
      | Some c \<Rightarrow> eval_subs ops subs cfgs (or_null (im_get c k)))"
| "eval_num ops (NumVar x) cfg cfgs = rbind (eval_var ops x cfg cfgs) (vr_map (to_num ops))"
| "eval_num ops (Num n) cfg cfgs = Ok (VExactly n)"
| "eval_num ops (NumParen e) cfg cfgs = eval_num ops e cfg cfgs"
| "eval_num ops (NumBin l op r) cfg cfgs =
     rbind (eval_num ops l cfg cfgs) (\<lambda>lv. and_then lv (\<lambda>a.
       rbind (eval_num ops r cfg cfgs) (vr_map (\<lambda>b. Ok (num_bin ops op a b)))))"
| "eval_str ops (StrVar x) cfg cfgs = rbind (eval_var ops x cfg cfgs) (vr_map (\<lambda>v. Ok (to_str ops v)))"
| "eval_str ops (Str t) cfg cfgs = Ok (VExactly (Some (concat (map utf8_encode (compile_str t)))))"
| "eval_str ops (StrParen e) cfg cfgs = eval_str ops e cfg cfgs"
| "eval_str ops (StrAdd l r) cfg cfgs =
     rbind (eval_str ops l cfg cfgs) (\<lambda>lv. and_then lv (\<lambda>a.
       rbind (eval_str ops r cfg cfgs) (vr_map (\<lambda>b.
         Ok (Option.bind a (\<lambda>x. Option.bind b (\<lambda>y. Some (x @ y))))))))"
| "eval_bool ops (BoolVar x) cfg cfgs =
     rbind (eval_var ops x cfg cfgs) (\<lambda>r. rmap resolve (vr_map (\<lambda>v. Ok (truthy v)) r))"
| "eval_bool ops (BoolParen e) cfg cfgs = eval_bool ops e cfg cfgs"
| "eval_bool ops (InvBool e) cfg cfgs = rmap Not (eval_bool ops e cfg cfgs)"
| "eval_bool ops (NumCmp l op r) cfg cfgs =
     rbind (eval_num ops l cfg cfgs) (\<lambda>lv. rmap resolve (and_then lv (\<lambda>a.
       rbind (eval_num ops r cfg cfgs) (vr_map (\<lambda>b. Ok (num_cmp op a b))))))"
| "eval_bool ops (StrCmp l op r) cfg cfgs =
     rbind (eval_str ops l cfg cfgs) (\<lambda>lv. rmap resolve (and_then lv (\<lambda>a.
       rbind (eval_str ops r cfg cfgs) (vr_map (\<lambda>b. Ok (str_cmp op a b))))))"
| "eval_bool ops (BoolBin l op r) cfg cfgs =
     (case op of
        OpAnd \<Rightarrow> rbind (eval_bool ops l cfg cfgs) (\<lambda>a. if a then eval_bool ops r cfg cfgs else Ok False)
      | OpOr \<Rightarrow> rbind (eval_bool ops l cfg cfgs) (\<lambda>a. if a then Ok True else eval_bool ops r cfg cfgs)
      | OpXor \<Rightarrow> rbind (eval_bool ops l cfg cfgs) (\<lambda>a. rmap (\<lambda>b. a \<noteq> b) (eval_bool ops r cfg cfgs)))"

fun eval_value :: "f64_ops \<Rightarrow> value_expr \<Rightarrow> config \<Rightarrow> configs \<Rightarrow> json var_res ev" where
  "eval_value ops (AnyVar x) cfg cfgs = eval_var ops x cfg cfgs"
| "eval_value ops (StrValue e) cfg cfgs =
     rbind (eval_str ops e cfg cfgs) (vr_map (\<lambda>s. Ok (case s of Some t \<Rightarrow> JString t | None \<Rightarrow> JNull)))"
| "eval_value ops (NumValue e) cfg cfgs =
     rbind (eval_num ops e cfg cfgs) (vr_map (\<lambda>n. case n of Finite r \<Rightarrow> Ok (JNumber (NFloat r)) | _ \<Rightarrow> Panic))"
| "eval_value ops (BoolValue e) cfg cfgs = rmap (\<lambda>b. VExactly (JBool b)) (eval_bool ops e cfg cfgs)"

text \<open>\<open>compile_expr\<close>: an expression that ranges over several values is null.\<close>

definition eval_expr :: "f64_ops \<Rightarrow> value_expr \<Rightarrow> config \<Rightarrow> configs \<Rightarrow> json ev" where
  "eval_expr ops e cfg cfgs =
     rmap (\<lambda>r. case r of VExactly v \<Rightarrow> v | _ \<Rightarrow> JNull) (eval_value ops e cfg cfgs)"

end
