(* ===== verification/Rule_Actions.thy ===== *)
theory Rule_Actions
  imports Rules Config_Action
begin

text \<open>
  Suggestions of the rule language, which change a configuration, and the commands of
  \<^verbatim>\<open>system-images/compat/src/config/mod.rs\<close> that check rules and apply suggestions. The files with
  the rules are read by the caller and the configuration is written by it.
\<close>

section \<open>Assignable paths\<close>

datatype set_variant = SetTo value_expr | SetToValue json | SetToEntropy entropy

datatype suggestion_variant =
    SgSet rule_var set_variant
  | SgDelete rule_var string bool_expr
  | SgPush rule_var json

text \<open>Compilation rejects paths that do not name one place of the configuration itself.\<close>

fun mutable_sub :: "sub_ident \<Rightarrow> unit ev" where
  "mutable_sub SubAny = Err ''invalid token: sub_ident_any''"
| "mutable_sub SubAll = Err ''invalid token: sub_ident_all''"
| "mutable_sub (SubAnyFn _ _) = Err ''Any and All are immutable''"
| "mutable_sub (SubAllFn _ _) = Err ''Any and All are immutable''"
| "mutable_sub _ = Ok ()"

fun compile_var_mut :: "rule_var \<Rightarrow> unit ev" where
  "compile_var_mut (RuleVar (Some _) _ _) = Err ''Can only assign to relative path''"
| "compile_var_mut (RuleVar None _ subs) = rfor mutable_sub subs"

fun compile_suggestion :: "suggestion_variant \<Rightarrow> unit ev" where
  "compile_suggestion (SgSet x _) = compile_var_mut x"
| "compile_suggestion (SgDelete x _ _) = compile_var_mut x"
| "compile_suggestion (SgPush x _) = compile_var_mut x"

text \<open>
  Following a mutable path creates missing keys and the element after the end of a list, as null, and
  they stay when the rest of the path leads nowhere. What is done with the place that is found is
  an argument, with the state of the random source.
\<close>

type_synonym 'w mutator = "json \<Rightarrow> 'w \<Rightarrow> (json \<times> 'w) ev"

definition modify_key :: "string \<Rightarrow> 'w mutator \<Rightarrow> (string, json) imap \<Rightarrow> 'w \<Rightarrow> (json \<times> 'w) ev" where
  "modify_key k f ob w = rmap (\<lambda>(x, w'). (JObject (im_insert k x ob), w')) (f (or_null (im_get ob k)) w)"

definition modify_index :: "nat \<Rightarrow> 'w mutator \<Rightarrow> json list \<Rightarrow> 'w \<Rightarrow> (json \<times> 'w) ev" where
  "modify_index i f l w =
     (if i < length l then rmap (\<lambda>(x, w'). (JArray (l[i := x]), w')) (f (l ! i) w)
      else if i = length l then rmap (\<lambda>(x, w'). (JArray (l @ [x]), w')) (f JNull w)
      else Ok (JArray l, w))"

definition set_member :: "nat \<Rightarrow> json \<Rightarrow> json \<Rightarrow> json" where
  "set_member i x v =
     (case v of
        JArray l \<Rightarrow> JArray (l[i := x])
      | JObject ob \<Rightarrow> JObject (ob[i := (fst (ob ! i), x)])
      | _ \<Rightarrow> v)"

text \<open>\<open>filter(p).next()\<close> and \<open>next_back()\<close> over the members, by position.\<close>

definition modify_found ::
  "(json \<Rightarrow> bool ev) \<Rightarrow> (nat \<Rightarrow> nat list) \<Rightarrow> 'w mutator \<Rightarrow> json \<Rightarrow> 'w \<Rightarrow> (json \<times> 'w) ev" where
  "modify_found p order f v w =
     (case members v of
        None \<Rightarrow> Ok (v, w)
      | Some l \<Rightarrow> rbind (find_first (\<lambda>i. p (l ! i)) (order (length l))) (\<lambda>r.
          case r of
            None \<Rightarrow> Ok (v, w)
          | Some i \<Rightarrow> rmap (\<lambda>(x, w'). (set_member i x v, w')) (f (l ! i) w)))"

primrec modify_subs :: "f64_ops \<Rightarrow> sub_ident list \<Rightarrow> configs \<Rightarrow> 'w mutator \<Rightarrow> 'w mutator" where
  "modify_subs ops [] cfgs g v w = g v w"
| "modify_subs ops (i # is) cfgs g v w =
     (case i of
        SubFirst x p \<Rightarrow>
          modify_found (\<lambda>item. eval_bool ops p [(x, item)] cfgs) (\<lambda>n. [0..<n]) (modify_subs ops is cfgs g) v w
      | SubLast x p \<Rightarrow>
          modify_found (\<lambda>item. eval_bool ops p [(x, item)] cfgs) (\<lambda>n. rev [0..<n]) (modify_subs ops is cfgs g) v w
      | SubKey k \<Rightarrow> (case v of JObject ob \<Rightarrow> modify_key k (modify_subs ops is cfgs g) ob w | _ \<Rightarrow> Ok (v, w))
      | SubKeyExpr e \<Rightarrow>
          rbind (eval_str ops e [] cfgs) (\<lambda>r.
            case (v, r) of
              (JObject ob, VExactly (Some k)) \<Rightarrow> modify_key k (modify_subs ops is cfgs g) ob w
            | _ \<Rightarrow> Ok (v, w))
      | SubIndex n \<Rightarrow> (case v of JArray l \<Rightarrow> modify_index n (modify_subs ops is cfgs g) l w | _ \<Rightarrow> Ok (v, w))
      | SubIndexExpr e \<Rightarrow>
          rbind (eval_num ops e [] cfgs) (\<lambda>r.
            case (v, r) of
              (JArray l, VExactly n) \<Rightarrow> modify_index (f64_to_usize n) (modify_subs ops is cfgs g) l w
            | _ \<Rightarrow> Ok (v, w))
      | _ \<Rightarrow> Ok (v, w))"

fun modify_var :: "f64_ops \<Rightarrow> rule_var \<Rightarrow> configs \<Rightarrow> 'w mutator \<Rightarrow> config \<Rightarrow> 'w \<Rightarrow> (config \<times> 'w) ev" where
  "modify_var ops (RuleVar app k subs) cfgs g cfg w =
     rmap (\<lambda>(x, w'). (im_insert k x cfg, w')) (modify_subs ops subs cfgs g (or_null (im_get cfg k)) w)"

section \<open>Suggestions\<close>

definition delete_members :: "(json \<Rightarrow> bool ev) \<Rightarrow> 'w mutator" where
  "delete_members p v w =
     (case v of
        JArray l \<Rightarrow> rmap (\<lambda>l'. (JArray l', w)) (filter_ev (\<lambda>item. rmap Not (p item)) l)
      | JObject ob \<Rightarrow> rmap (\<lambda>ob'. (JObject ob', w)) (filter_ev (\<lambda>e. rmap Not (p (snd e))) ob)
      | _ \<Rightarrow> Ok (v, w))"

fun apply_variant ::
  "f64_ops \<Rightarrow> ('w, 'z) rng_ops_scheme \<Rightarrow> suggestion_variant \<Rightarrow> configs \<Rightarrow> config \<Rightarrow> 'w \<Rightarrow> (config \<times> 'w) ev" where
  "apply_variant ops rng (SgSet x (SetTo e)) cfgs cfg w =
     rbind (eval_expr ops e cfg cfgs) (\<lambda>val. modify_var ops x cfgs (\<lambda>_ w. Ok (val, w)) cfg w)"
| "apply_variant ops rng (SgSet x (SetToValue val)) cfgs cfg w =
     modify_var ops x cfgs (\<lambda>_ w. Ok (val, w)) cfg w"
| "apply_variant ops rng (SgSet x (SetToEntropy ent)) cfgs cfg w =
     modify_var ops x cfgs (\<lambda>_ w. map_err (\<lambda>_. []) (rmap (\<lambda>(t, w'). (JString t, w')) (entropy_gen rng ent w))) cfg w"
| "apply_variant ops rng (SgDelete x var p) cfgs cfg w =
     modify_var ops x cfgs (delete_members (\<lambda>item. eval_bool ops p [(var, item)] cfgs)) cfg w"
| "apply_variant ops rng (SgPush x val) cfgs cfg w =
     modify_var ops x cfgs (\<lambda>v w. Ok (case v of JArray a \<Rightarrow> JArray (a @ [val]) | _ \<Rightarrow> v, w)) cfg w"

record suggestion =
  sg_condition :: "bool_expr option"
  sg_variant :: suggestion_variant

record rule_entry =
  re_rule :: bool_expr
  re_description :: string

record rule_entry_with_suggestions =
  rs_entry :: rule_entry
  rs_suggestions :: "suggestion list"

text \<open>The configuration, those of all packages, and the random source.\<close>

type_synonym 'w rule_state = "config \<times> configs \<times> 'w"

definition variant_apply ::
  "f64_ops \<Rightarrow> ('w, 'z) rng_ops_scheme \<Rightarrow> string \<Rightarrow> suggestion_variant \<Rightarrow> 'w rule_state \<Rightarrow> 'w rule_state ev" where
  "variant_apply ops rng id' sv st =
     (let (cfg, cfgs, w) = st in
      rmap (\<lambda>(cfg', w'). (cfg', im_insert id' cfg' cfgs, w')) (apply_variant ops rng sv cfgs cfg w))"

definition suggestion_apply ::
  "f64_ops \<Rightarrow> ('w, 'z) rng_ops_scheme \<Rightarrow> string \<Rightarrow> suggestion \<Rightarrow> 'w rule_state \<Rightarrow> 'w rule_state ev" where
  "suggestion_apply ops rng id' sg st =
     (case sg_condition sg of
        Some c \<Rightarrow> rbind (eval_bool ops c (fst st) (fst (snd st))) (\<lambda>b.
          if \<not> b then Ok st else variant_apply ops rng id' (sg_variant sg) st)
      | None \<Rightarrow> variant_apply ops rng id' (sg_variant sg) st)"

definition rule_check :: "f64_ops \<Rightarrow> rule_entry \<Rightarrow> config \<Rightarrow> configs \<Rightarrow> unit ev" where
  "rule_check ops e cfg cfgs =
     rbind (eval_bool ops (re_rule e) cfg cfgs) (\<lambda>b. if \<not> b then Err (re_description e) else Ok ())"

text \<open>\<open>apply\<close> of a rule: its verdict, with the state that the suggestions leave.\<close>

definition rule_apply ::
  "f64_ops \<Rightarrow> ('w, 'z) rng_ops_scheme \<Rightarrow> string \<Rightarrow> rule_entry_with_suggestions \<Rightarrow> 'w rule_state \<Rightarrow>
    (string option \<times> 'w rule_state) ev" where
  "rule_apply ops rng id' r st =
     (case rule_check ops (rs_entry r) (fst st) (fst (snd st)) of
        Ok _ \<Rightarrow> Ok (None, st)
      | Err _ \<Rightarrow>
          rbind (rfold (\<lambda>sg s. suggestion_apply ops rng id' sg s) (rs_suggestions r) st) (\<lambda>st'.
          case rule_check ops (rs_entry r) (fst st') (fst (snd st')) of
            Ok _ \<Rightarrow> Ok (None, st')
          | Err d \<Rightarrow> Ok (Some d, st')
          | Panic \<Rightarrow> Panic
          | Diverge \<Rightarrow> Diverge)
      | Panic \<Rightarrow> Panic
      | Diverge \<Rightarrow> Diverge)"

section \<open>Commands\<close>

text \<open>\<open>bcollect\<close> visits everything and joins the messages of all failures.\<close>

fun check_all :: "f64_ops \<Rightarrow> rule_entry list \<Rightarrow> config \<Rightarrow> configs \<Rightarrow> string list ev" where
  "check_all ops [] cfg cfgs = Ok []"
| "check_all ops (r # rs) cfg cfgs =
     (case rule_check ops r cfg cfgs of
        Ok _ \<Rightarrow> check_all ops rs cfg cfgs
      | Err d \<Rightarrow> rmap (Cons d) (check_all ops rs cfg cfgs)
      | Panic \<Rightarrow> Panic
      | Diverge \<Rightarrow> Diverge)"

record dep_rule_info =
  dr_condition :: bool_expr
  dr_health_checks :: "health_check_id list"

definition validate_configuration ::
  "(string list \<Rightarrow> string) \<Rightarrow> f64_ops \<Rightarrow> string \<Rightarrow> config \<Rightarrow> rule_entry list \<Rightarrow>
    (package_id \<times> dep_rule_info) list option \<Rightarrow> set_result ev" where
  "validate_configuration join ops name cfg rules deps =
     (let cfgs = im_insert name cfg [] in
      rbind (case deps of
          Some ds \<Rightarrow> filter_ev (\<lambda>d. eval_bool ops (dr_condition (snd d)) cfg cfgs) ds
        | None \<Rightarrow> Ok []) (\<lambda>ds.
      rbind (check_all ops rules cfg cfgs) (\<lambda>errors.
      if errors = []
      then Ok \<lparr>sr_signal = Some ''SIGTERM'', sr_depends_on = bt_of_list (map (\<lambda>d. (fst d, dr_health_checks (snd d))) ds)\<rparr>
      else Err (join errors))))"

definition validate_dependency_configuration ::
  "(string list \<Rightarrow> string) \<Rightarrow> f64_ops \<Rightarrow> string \<Rightarrow> config option \<Rightarrow> string \<Rightarrow> config \<Rightarrow> rule_entry list \<Rightarrow> unit ev" where
  "validate_dependency_configuration join ops name cfg parent_name parent_config rules =
     (let cfgs = im_insert name (case cfg of Some c \<Rightarrow> c | None \<Rightarrow> []) (im_insert parent_name parent_config []) in
      rbind (check_all ops rules parent_config cfgs) (\<lambda>errors.
      if errors = [] then Ok () else Err (join errors)))"

fun apply_all ::
  "f64_ops \<Rightarrow> ('w, 'z) rng_ops_scheme \<Rightarrow> string \<Rightarrow> rule_entry_with_suggestions list \<Rightarrow> 'w rule_state \<Rightarrow>
    (string list \<times> 'w rule_state) ev" where
  "apply_all ops rng id' [] st = Ok ([], st)"
| "apply_all ops rng id' (r # rs) st =
     rbind (rule_apply ops rng id' r st) (\<lambda>(failure, st').
     rmap (\<lambda>(errors, st''). ((case failure of Some d \<Rightarrow> d # errors | None \<Rightarrow> errors), st''))
       (apply_all ops rng id' rs st'))"

definition apply_dependency_configuration ::
  "(string list \<Rightarrow> string) \<Rightarrow> f64_ops \<Rightarrow> ('w, 'z) rng_ops_scheme \<Rightarrow> string \<Rightarrow> config option \<Rightarrow> string \<Rightarrow> config \<Rightarrow>
    rule_entry_with_suggestions list \<Rightarrow> 'w \<Rightarrow> (config \<times> 'w) ev" where
  "apply_dependency_configuration join ops rng package_id cfg dependency_id dep_config rules w =
     (let cfgs = im_insert package_id (case cfg of Some c \<Rightarrow> c | None \<Rightarrow> []) (im_insert dependency_id dep_config []) in
      rbind (apply_all ops rng dependency_id rules (dep_config, cfgs, w)) (\<lambda>(errors, dep_config', _, w').
      if errors = [] then Ok (dep_config', w') else Err (join errors)))"

end
