(* ===== verification/Rule_Laws.thy ===== *)
theory Rule_Laws
  imports Rule_Actions
begin

text \<open>
  What rules mean and what suggestions do: paths quantify over the members they range over, rules without
  numeric variables never panic, an assignment is seen by the next read of the same path and by nothing else, and
  a rule that reports success holds.
\<close>

section \<open>Paths quantify\<close>

text \<open>The meaning of a result that ranges over several values.\<close>

fun quant :: "'a var_res \<Rightarrow> ('a \<Rightarrow> bool) \<Rightarrow> bool" where
  "quant (VExactly a) P \<longleftrightarrow> P a"
| "quant (AnyOf xs) P \<longleftrightarrow> (\<exists>x \<in> set xs. quant x P)"
| "quant (AllOf xs) P \<longleftrightarrow> (\<forall>x \<in> set xs. quant x P)"

fun vr_bind :: "'a var_res \<Rightarrow> ('a \<Rightarrow> 'b var_res) \<Rightarrow> 'b var_res" where
  "vr_bind (VExactly a) f = f a"
| "vr_bind (AnyOf xs) f = AnyOf (map (\<lambda>x. vr_bind x f) xs)"
| "vr_bind (AllOf xs) f = AllOf (map (\<lambda>x. vr_bind x f) xs)"

lemma vr_maps_Ok: "(\<And>x. x \<in> set xs \<Longrightarrow> vr_map f x = Ok (g x)) \<Longrightarrow> vr_maps f xs = Ok (map g xs)"
  by (induction xs) auto

lemma and_thens_Ok: "(\<And>x. x \<in> set xs \<Longrightarrow> and_then x f = Ok (g x)) \<Longrightarrow> and_thens xs f = Ok (map g xs)"
  by (induction xs) auto

lemma vr_map_pure: "vr_map (\<lambda>a. Ok (f a)) r = Ok (map_var_res f r)"
  by (induction r) (auto simp: vr_maps_Ok)

lemma and_then_pure: "and_then r (\<lambda>a. Ok (g a)) = Ok (vr_bind r g)"
  by (induction r) (auto simp: and_thens_Ok)

lemma resolve_map: "resolve (map_var_res f r) \<longleftrightarrow> quant r f"
  by (induction r) (auto simp: list_ex_iff list_all_iff)

lemma resolve_bind: "resolve (vr_bind r g) \<longleftrightarrow> quant r (\<lambda>a. resolve (g a))"
  by (induction r) (auto simp: list_ex_iff list_all_iff)

lemma resolve_compare:
  "rbind (Ok lv) (\<lambda>lv. rmap resolve (and_then lv (\<lambda>a. rbind (Ok rv) (vr_map (\<lambda>b. Ok (cmp a b)))))) =
     Ok (quant lv (\<lambda>a. quant rv (cmp a)))"
  by (simp add: vr_map_pure and_then_pure resolve_bind resolve_map)

section \<open>Rules that never panic\<close>

text \<open>Functions that always succeed are pure ones.\<close>

lemma ok_pure:
  assumes "\<And>a. is_ok (f a)"
  obtains g where "f = (\<lambda>a. Ok (g a))"
proof -
  have "\<forall>a. \<exists>b. f a = Ok b" using assms by (simp add: is_ok_iff)
  then obtain g where "\<forall>a. f a = Ok (g a)" by (rule choice [THEN exE])
  then show thesis using that by blast
qed

lemma is_ok_rmap [simp]: "is_ok (rmap f m) \<longleftrightarrow> is_ok m"
  by (cases m) auto

lemma vr_map_ok: "(\<And>a. is_ok (f a)) \<Longrightarrow> is_ok (vr_map f r)"
  by (erule ok_pure) (simp add: vr_map_pure)

lemma and_then_ok: "(\<And>a. is_ok (f a)) \<Longrightarrow> is_ok (and_then r f)"
  by (erule ok_pure) (simp add: and_then_pure)

lemma find_first_pure: "find_first (\<lambda>x. Ok (p x)) xs = Ok (find p xs)"
  by (induction xs) auto

lemma filter_ev_pure: "filter_ev (\<lambda>x. Ok (p x)) xs = Ok (filter p xs)"
  by (induction xs) auto

lemma find_first_ok: "(\<And>x. is_ok (p x)) \<Longrightarrow> is_ok (find_first p xs)"
  by (erule ok_pure) (simp add: find_first_pure)

lemma filter_ev_ok: "(\<And>x. is_ok (p x)) \<Longrightarrow> is_ok (filter_ev p xs)"
  by (erule ok_pure) (simp add: filter_ev_pure)

text \<open>A rule reads no variable as a number.\<close>

primrec sub_safe :: "sub_ident \<Rightarrow> bool"
  and subs_safe :: "sub_ident list \<Rightarrow> bool"
  and var_safe :: "rule_var \<Rightarrow> bool"
  and num_safe :: "num_expr \<Rightarrow> bool"
  and str_safe :: "str_expr \<Rightarrow> bool"
  and bool_safe :: "bool_expr \<Rightarrow> bool" where
  "sub_safe SubAny = True"
| "sub_safe SubAll = True"
| "sub_safe (SubFirst x p) = bool_safe p"
| "sub_safe (SubLast x p) = bool_safe p"
| "sub_safe (SubAnyFn x p) = bool_safe p"
| "sub_safe (SubAllFn x p) = bool_safe p"
| "sub_safe (SubKey k) = True"
| "sub_safe (SubKeyExpr e) = str_safe e"
| "sub_safe (SubIndex i) = True"
| "sub_safe (SubIndexExpr e) = num_safe e"
| "subs_safe [] = True"
| "subs_safe (i # is) = (sub_safe i \<and> subs_safe is)"
| "var_safe (RuleVar app k subs) = subs_safe subs"
| "num_safe (NumVar x) = False"
| "num_safe (Num n) = True"
| "num_safe (NumParen e) = num_safe e"
| "num_safe (NumBin l op r) = (num_safe l \<and> num_safe r)"
| "str_safe (StrVar x) = var_safe x"
| "str_safe (Str t) = True"
| "str_safe (StrParen e) = str_safe e"
| "str_safe (StrAdd l r) = (str_safe l \<and> str_safe r)"
| "bool_safe (BoolVar x) = var_safe x"
| "bool_safe (BoolParen e) = bool_safe e"
| "bool_safe (InvBool e) = bool_safe e"
| "bool_safe (NumCmp l op r) = (num_safe l \<and> num_safe r)"
| "bool_safe (StrCmp l op r) = (str_safe l \<and> str_safe r)"
| "bool_safe (BoolBin l op r) = (bool_safe l \<and> bool_safe r)"

lemmas rule_induct = sub_ident.induct rule_var.induct num_expr.induct str_expr.induct bool_expr.induct

lemma compare_ok:
  "is_ok l \<Longrightarrow> is_ok r \<Longrightarrow> is_ok (rbind l (\<lambda>lv. and_then lv (\<lambda>a. rbind r (vr_map (\<lambda>b. Ok (f a b))))))"
  by (auto simp: is_ok_iff vr_map_pure and_then_pure)

lemma eval_subs_safe:
  "(\<And>i v. i \<in> set js \<Longrightarrow> is_ok (eval_sub ops i cfgs v)) \<Longrightarrow> is_ok (eval_subs ops js cfgs v)"
proof (induction js arbitrary: v)
  case (Cons i js)
  obtain r where "eval_sub ops i cfgs v = Ok r" using Cons.prems [of i v] by (auto simp: is_ok_iff)
  moreover have "is_ok (and_then r (\<lambda>v'. eval_subs ops js cfgs v'))"
    using Cons by (intro and_then_ok) auto
  ultimately show ?case by simp
qed simp

lemma subs_safe_iff: "subs_safe js \<longleftrightarrow> (\<forall>i \<in> set js. sub_safe i)"
  by (induction js) auto

lemma bind_map_ok: "is_ok m \<Longrightarrow> is_ok (rbind m (vr_map (\<lambda>a. Ok (f a))))"
  by (auto simp: is_ok_iff vr_map_pure)

lemma eval_safe:
  "sub_safe i \<Longrightarrow> is_ok (eval_sub ops i cfgs v)"
  "var_safe x \<Longrightarrow> is_ok (eval_var ops x cfg cfgs)"
  "num_safe n \<Longrightarrow> is_ok (eval_num ops n cfg cfgs)"
  "str_safe s \<Longrightarrow> is_ok (eval_str ops s cfg cfgs)"
  "bool_safe b \<Longrightarrow> is_ok (eval_bool ops b cfg cfgs)"
proof (induction i and x and n and s and b arbitrary: v cfgs and cfg cfgs and cfg cfgs and cfg cfgs and cfg cfgs)
  case (RuleVar app k subs)
  then have "is_ok (eval_subs ops subs cfgs v)" for v
    by (intro eval_subs_safe) (auto simp: subs_safe_iff)
  then show ?case by (auto split: option.splits)
next
  case (NumBin l op r)
  then show ?case using compare_ok [of "eval_num ops l cfg cfgs" "eval_num ops r cfg cfgs"] by simp
next
  case (StrAdd l r)
  then show ?case using compare_ok [of "eval_str ops l cfg cfgs" "eval_str ops r cfg cfgs"] by simp
next
  case (BoolVar x)
  then obtain r where "eval_var ops x cfg cfgs = Ok r" unfolding is_ok_iff bool_safe.simps by blast
  then show ?case by (simp add: vr_map_pure)
next
  case (NumCmp l op r)
  then obtain lv rv where "eval_num ops l cfg cfgs = Ok lv" "eval_num ops r cfg cfgs = Ok rv"
    unfolding is_ok_iff bool_safe.simps by blast
  then show ?case using resolve_compare [of lv rv "num_cmp op"] by simp
next
  case (StrCmp l op r)
  then obtain lv rv where "eval_str ops l cfg cfgs = Ok lv" "eval_str ops r cfg cfgs = Ok rv"
    unfolding is_ok_iff bool_safe.simps by blast
  then show ?case using resolve_compare [of lv rv "str_cmp op"] by simp
next
  case (BoolBin l op r)
  then obtain a b where "eval_bool ops l cfg cfgs = Ok a" "eval_bool ops r cfg cfgs = Ok b"
    unfolding is_ok_iff bool_safe.simps by blast
  then show ?case by (cases op) auto
qed (auto intro!: find_first_ok filter_ev_ok bind_map_ok split: option.splits json.splits)

section \<open>Assignments\<close>

text \<open>A path of keys and positions: what it reads, and whether it leads to a place that can be assigned.\<close>

definition plain_sub :: "sub_ident \<Rightarrow> bool" where
  "plain_sub i \<longleftrightarrow> (case i of SubKey _ \<Rightarrow> True | SubIndex _ \<Rightarrow> True | _ \<Rightarrow> False)"

fun read_path :: "sub_ident list \<Rightarrow> json \<Rightarrow> json" where
  "read_path [] v = v"
| "read_path (SubKey k # js) (JObject ob) = read_path js (or_null (im_get ob k))"
| "read_path (SubIndex n # js) (JArray l) = read_path js (if n < length l then l ! n else JNull)"
| "read_path _ _ = JNull"

fun place :: "sub_ident list \<Rightarrow> json \<Rightarrow> bool" where
  "place [] v = True"
| "place (SubKey k # js) (JObject ob) = place js (or_null (im_get ob k))"
| "place (SubIndex n # js) (JArray l) = (n \<le> length l \<and> place js (if n < length l then l ! n else JNull))"
| "place _ _ = False"

lemma read_path_null [simp]: "read_path js JNull = JNull"
  by (cases "(js, JNull)" rule: read_path.cases) auto

lemma eval_subs_plain:
  "list_all plain_sub js \<Longrightarrow> eval_subs ops js cfgs v = Ok (VExactly (read_path js v))"
proof (induction js arbitrary: v)
  case (Cons i js)
  then show ?case
    by (cases i) (auto simp: plain_sub_def split: json.splits)
qed simp

lemma modify_plain:
  "list_all plain_sub js \<Longrightarrow>
     \<exists>v'. modify_subs ops js cfgs (\<lambda>_ w. Ok (val, w)) v w = Ok (v', w) \<and> read_path js v' = (if place js v then val else JNull)"
proof (induction js arbitrary: v)
  case (Cons i js)
  have ih: "\<exists>v'. modify_subs ops js cfgs (\<lambda>_ w. Ok (val, w)) u w = Ok (v', w) \<and> read_path js v' = (if place js u then val else JNull)" for u
    using Cons by simp
  show ?case
  proof (cases i)
    case (SubKey k)
    show ?thesis
    proof (cases v)
      case (JObject ob)
      then show ?thesis using ih [of "or_null (im_get ob k)"] by (auto simp: SubKey modify_key_def or_null_def)
    qed (simp_all add: SubKey)
  next
    case (SubIndex n)
    show ?thesis
    proof (cases v)
      case (JArray l)
      then show ?thesis using ih [of "if n < length l then l ! n else JNull"]
        by (cases "n < length l"; cases "n = length l") (auto simp: SubIndex modify_index_def nth_append)
    qed (simp_all add: SubIndex)
  qed (use Cons.prems in \<open>simp_all add: plain_sub_def\<close>)
qed simp

section \<open>Applying rules\<close>

text \<open>The configuration of the package is the one on record for it, and those of the others do not change.\<close>

definition on_record :: "string \<Rightarrow> configs \<Rightarrow> 'w rule_state \<Rightarrow> bool" where
  "on_record id' cfgs st \<longleftrightarrow> im_get (fst (snd st)) id' = Some (fst st) \<and> (\<forall>p. p \<noteq> id' \<longrightarrow> im_get (fst (snd st)) p = im_get cfgs p)"

lemma suggestion_on_record:
  "on_record id' cfgs st \<Longrightarrow> suggestion_apply ops rng id' sg st = Ok st' \<Longrightarrow> on_record id' cfgs st'"
  by (cases st) (auto simp: on_record_def suggestion_apply_def variant_apply_def res_simps split: option.splits if_splits)

lemma rule_apply_None:
  assumes "rule_apply ops rng id' r st = Ok (None, st')" and "on_record id' cfgs st"
  shows "eval_bool ops (re_rule (rs_entry r)) (fst st') (fst (snd st')) = Ok True \<and> on_record id' cfgs st'"
proof -
  have ok: "eval_bool ops (re_rule e) cfg cfgs = Ok True" if "rule_check ops e cfg cfgs = Ok u" for e cfg cfgs and u :: unit
    using that by (auto simp: rule_check_def res_simps split: if_splits)
  have inv: "on_record id' cfgs s" if "rfold (\<lambda>sg s. suggestion_apply ops rng id' sg s) sgs st = Ok s" for sgs s
    using rfold_invariant [where P = "on_record id' cfgs", OF that assms(2)] suggestion_on_record by blast
  show ?thesis
  proof (cases "rule_check ops (rs_entry r) (fst st) (fst (snd st))")
    case (Ok u)
    then show ?thesis using assms ok [OF Ok] by (simp add: rule_apply_def)
  next
    case (Err d)
    then obtain s where s: "rfold (\<lambda>sg s. suggestion_apply ops rng id' sg s) (rs_suggestions r) st = Ok s"
      using assms(1) by (cases "rfold (\<lambda>sg s. suggestion_apply ops rng id' sg s) (rs_suggestions r) st")
        (simp_all add: rule_apply_def)
    then have verdict: "(case rule_check ops (rs_entry r) (fst s) (fst (snd s)) of
        Ok _ \<Rightarrow> Ok (None, s) | Err d \<Rightarrow> Ok (Some d, s) | Panic \<Rightarrow> Panic | Diverge \<Rightarrow> Diverge) = (Ok (None, st') :: (string option \<times> _) ev)"
      using assms(1) Err by (simp add: rule_apply_def)
    from verdict have again: "st' = s" "rule_check ops (rs_entry r) (fst s) (fst (snd s)) = Ok ()"
      by (cases "rule_check ops (rs_entry r) (fst s) (fst (snd s))"; simp)+
    then show ?thesis using ok [OF again(2)] inv [OF s] by simp
  qed (use assms(1) in \<open>simp_all add: rule_apply_def\<close>)
qed


text \<open>Rules that hold already are left alone.\<close>

lemma check_all_empty:
  "check_all ops rs cfg cfgs = Ok [] \<Longrightarrow> r \<in> set rs \<Longrightarrow> rule_check ops r cfg cfgs = Ok ()"
  by (induction rs) (auto simp: res_simps split: res.splits)

lemma apply_all_valid:
  "(\<And>r. r \<in> set rs \<Longrightarrow> rule_check ops (rs_entry r) (fst st) (fst (snd st)) = Ok ()) \<Longrightarrow>
     apply_all ops rng id' rs st = Ok ([], st)"
  by (induction rs) (auto simp: rule_apply_def)

section \<open>Samples\<close>

definition sample_fops :: f64_ops where
  "sample_fops = \<lparr>f_add = \<lambda>a b. NaN, f_sub = \<lambda>a b. NaN, f_mul = \<lambda>a b. NaN, f_div = \<lambda>a b. NaN, f_pow = \<lambda>a b. NaN,
     f_parse = \<lambda>_. None, show_number = \<lambda>_. []\<rparr>"

text \<open>The rules \<^verbatim>\<open>a?\<close> and \<^verbatim>\<open>!(a?)\<close>, each with a suggestion that makes it true.\<close>

definition var_a :: rule_var where
  "var_a = RuleVar None ''a'' []"

definition rules_on_a :: "rule_entry_with_suggestions list" where
  "rules_on_a =
     [\<lparr>rs_entry = \<lparr>re_rule = BoolVar var_a, re_description = ''on''\<rparr>,
       rs_suggestions = [\<lparr>sg_condition = None, sg_variant = SgSet var_a (SetToValue (JBool True))\<rparr>]\<rparr>,
      \<lparr>rs_entry = \<lparr>re_rule = InvBool (BoolVar var_a), re_description = ''off''\<rparr>,
       rs_suggestions = [\<lparr>sg_condition = None, sg_variant = SgSet var_a (SetToValue (JBool False))\<rparr>]\<rparr>]"

lemmas rule_eval = sample_fops_def var_a_def rules_on_a_def rule_apply_def rule_check_def suggestion_apply_def
  variant_apply_def or_null_def im_insert_def

section \<open>Properties\<close>

text \<open>
  C32. Comparisons and conditions quantify over the values their operands range over: a condition on a variable holds
  when it holds of some or of every value, as the wildcards of its path say, and in a comparison the values
  of the left operand are quantified outside those of the right one.
\<close>

theorem conditions_quantify:
  assumes "eval_num ops l cfg cfgs = Ok lv" and "eval_num ops r cfg cfgs = Ok rv"
    and "eval_str ops s cfg cfgs = Ok sv" and "eval_str ops t cfg cfgs = Ok tv" and "eval_var ops x cfg cfgs = Ok xv"
  shows "eval_bool ops (NumCmp l op r) cfg cfgs = Ok (quant lv (\<lambda>a. quant rv (num_cmp op a))) \<and>
    eval_bool ops (StrCmp s op t) cfg cfgs = Ok (quant sv (\<lambda>a. quant tv (str_cmp op a))) \<and>
    eval_bool ops (BoolVar x) cfg cfgs = Ok (quant xv truthy)"
  using resolve_compare [of lv rv "num_cmp op"] resolve_compare [of sv tv "str_cmp op"] assms
  by (simp add: vr_map_pure resolve_map)

theorem conditions_quantify_witness:
  "eval_bool sample_fops (BoolVar (RuleVar None ''l'' [SubAny])) [(''l'', JArray [JNull, JBool True])] [] = Ok True"
proof -
  have "eval_var sample_fops (RuleVar None ''l'' [SubAny]) [(''l'', JArray [JNull, JBool True])] [] =
      Ok (AnyOf [VExactly JNull, VExactly (JBool True)])"
    by (simp add: members_def or_null_def)
  then show ?thesis
    using conditions_quantify [of sample_fops "Num NaN" "[(''l'', JArray [JNull, JBool True])]" "[]" "VExactly NaN" "Num NaN" "VExactly NaN"
        "Str []" "VExactly (Some (concat (map utf8_encode (compile_str []))))" "Str []"]
    by simp
qed

text \<open>
  The only way for a rule to panic is to read a variable as a number: a rule without numeric variables is decided on
  every configuration, whatever it holds.
\<close>

theorem rules_without_numbers_decided:
  assumes "bool_safe rule"
  shows "\<exists>b. eval_bool ops rule cfg cfgs = Ok b"
  using eval_safe(5) [OF assms] by (simp add: is_ok_iff)

theorem rules_without_numbers_decided_witness:
  "\<exists>b. eval_bool sample_fops (InvBool (BoolVar var_a)) [] [] = Ok b"
  by (rule rules_without_numbers_decided) (simp add: var_a_def)

text \<open>
  Assigning a value to a path of keys and positions is seen by the next read of the same path, provided that
  the path leads to a place; otherwise the path reads null before and after. No other top-level entry changes.
\<close>

theorem set_then_read:
  assumes "list_all plain_sub subs"
  shows "\<exists>cfg'. apply_variant ops rng (SgSet (RuleVar None k subs) (SetToValue val)) cfgs cfg w = Ok (cfg', w) \<and>
    eval_var ops (RuleVar None k subs) cfg' cfgs' = Ok (VExactly (if place subs (or_null (im_get cfg k)) then val else JNull)) \<and>
    (\<forall>k'. k' = k \<or> im_get cfg' k' = im_get cfg k')"
  using modify_plain [OF assms, of ops cfgs val "or_null (im_get cfg k)" w]
  by (auto simp: eval_subs_plain [OF assms] or_null_def)

theorem set_then_read_witness:
  "\<exists>cfg'. apply_variant sample_fops sample_ops (SgSet (RuleVar None ''l'' [SubIndex 1]) (SetToValue (JBool True))) []
      [(''l'', JArray [JNull])] 0 = Ok (cfg', 0) \<and>
    eval_var sample_fops (RuleVar None ''l'' [SubIndex 1]) cfg' [] = Ok (VExactly (JBool True))"
  using set_then_read [of "[SubIndex 1]" sample_fops sample_ops "''l''" "JBool True" "[]" "[(''l'', JArray [JNull])]" 0 "[]"]
  by (auto simp: plain_sub_def or_null_def)

text \<open>
  C33. When applying a rule reports no failure, the rule holds of the configuration that it leaves, the configuration is the
  one on record for the package, and the configurations of other packages have not changed.
\<close>

theorem applied_rule_holds:
  assumes "rule_apply ops rng pid r (cfg, cfgs, w) = Ok (None, (cfg', cfgs', w'))" and "im_get cfgs pid = Some cfg"
  shows "eval_bool ops (re_rule (rs_entry r)) cfg' cfgs' = Ok True \<and> im_get cfgs' pid = Some cfg' \<and>
    (\<forall>p. p = pid \<or> im_get cfgs' p = im_get cfgs p)"
  using rule_apply_None [OF assms(1), of cfgs] assms(2) by (auto simp: on_record_def)

theorem applied_rule_holds_witness:
  "rule_apply sample_fops sample_ops ''p'' (hd rules_on_a) ([], [(''p'', [])], 0) =
     Ok (None, ([(''a'', JBool True)], [(''p'', [(''a'', JBool True)])], 0)) \<and>
   eval_bool sample_fops (BoolVar var_a) [(''a'', JBool True)] [(''p'', [(''a'', JBool True)])] = Ok True"
proof -
  have run: "rule_apply sample_fops sample_ops ''p'' (hd rules_on_a) ([], [(''p'', [])], 0) =
      Ok (None, ([(''a'', JBool True)], [(''p'', [(''a'', JBool True)])], 0))"
    by (simp add: rule_eval)
  show ?thesis using applied_rule_holds [OF run] run by (simp add: rules_on_a_def)
qed

text \<open>
  Automatic configuration leaves a configuration that satisfies the rules as it is: when the check of a
  dependency's configuration succeeds, applying the same rules with any suggestions succeeds and returns it unchanged.
\<close>

theorem auto_configure_keeps_valid:
  assumes "validate_dependency_configuration join ops pkg cfg dep dep_cfg (map rs_entry rules) = Ok ()"
  shows "apply_dependency_configuration join ops rng pkg cfg dep dep_cfg rules w = Ok (dep_cfg, w)"
proof -
  let ?cfgs = "im_insert pkg (case cfg of Some c \<Rightarrow> c | None \<Rightarrow> []) (im_insert dep dep_cfg [])"
  have "check_all ops (map rs_entry rules) dep_cfg ?cfgs = Ok []"
    using assms by (auto simp: validate_dependency_configuration_def Let_def res_simps split: if_splits)
  then have "apply_all ops rng dep rules (dep_cfg, ?cfgs, w) = Ok ([], (dep_cfg, ?cfgs, w))"
    by (intro apply_all_valid) (simp add: check_all_empty [where rs = "map rs_entry rules"])
  then show ?thesis by (simp add: apply_dependency_configuration_def)
qed

theorem auto_configure_keeps_valid_witness:
  "apply_dependency_configuration concat sample_fops sample_ops ''p'' None ''d'' [(''a'', JBool True)] [hd rules_on_a] 0 =
     Ok ([(''a'', JBool True)], 0)"
  by (rule auto_configure_keeps_valid)
    (simp add: validate_dependency_configuration_def rule_eval)

text \<open>
  Automatic configuration does not check its result: a suggestion of a later rule can break an earlier one, and the
  configuration is returned as a success although the check of the same rules rejects it.
\<close>

theorem auto_configure_can_break_rule:
  "apply_dependency_configuration concat sample_fops sample_ops ''p'' None ''d'' [] rules_on_a 0 = Ok ([(''a'', JBool False)], 0) \<and>
   validate_dependency_configuration concat sample_fops ''p'' None ''d'' [(''a'', JBool False)] (map rs_entry rules_on_a) = Err ''on''"
  by (simp add: apply_dependency_configuration_def validate_dependency_configuration_def rule_eval)

text \<open>
  The flag for an escape sequence in a string literal is never cleared: after the first backslash every ordinary
  character is preceded by a backslash, so the literal \<^verbatim>\<open>"\na"\<close> denotes a newline, a backslash and an \<^verbatim>\<open>a\<close>.
\<close>

theorem escape_flag_never_cleared:
  "compile_str [34, 92, 110, 97, 34] = [10, 92, 97]"
  by (simp add: compile_str_def str_step_def)

end
