(* ===== verification/Control.thy ===== *)
theory Control
  imports Configure_Dry
begin

text \<open>
  Starting, stopping and restarting a package (\<^verbatim>\<open>control.rs\<close>) and what they do to
  its dependents. A package can always be stopped as long as none of the dependents involved is
  being removed.
\<close>

section \<open>The commands\<close>

text \<open>Reading a field of a package that is not installed is an error of the database.\<close>

definition db_error :: error where
  "db_error = Error Database (Msg ''missing'')"

text \<open>The managers of the running packages; \<open>synchronize\<close> waits for one to pick up a new status.\<close>

type_synonym 'w managers = "package_id \<Rightarrow> version \<Rightarrow> ('w, unit) call option"

definition break_all_now :: "package_id \<Rightarrow> dependency_error \<Rightarrow> ('w, unit) act" where
  "break_all_now pid err = st_bind (st_get sys_db) (\<lambda>db. break_all_dependents_transitive (spread_fuel db) pid err)"

text \<open>The manager is looked up only after the new status has been committed.\<close>

definition start :: "'w ctx_ops \<Rightarrow> 'w managers \<Rightarrow> package_id \<Rightarrow> ('w, unit) act" where
  "start ctx managers pid =
     st_bind (in_transaction True (
       st_bind (st_get sys_db) (\<lambda>db.
       st_bind (st_lift (ok_or (map_option m_version (manifest_get db pid)) db_error)) (\<lambda>ver.
       st_bind (map_db (main_set (Starting False) pid)) (\<lambda>_.
       st_bind (heal_all_now ctx pid) (\<lambda>_.
       st_return ver)))))) (\<lambda>r.
     case managers pid (fst r) of
       None \<Rightarrow> st_lift (Err (Error InvalidRequest (Msg ''Manager not found'')))
     | Some f \<Rightarrow> call_world f)"

definition stop_common :: "package_id \<Rightarrow> ('w, main_status) act" where
  "stop_common pid =
     st_bind (st_get sys_db) (\<lambda>db.
     st_bind (st_lift (ok_or (map_option main (status_get db pid)) db_error)) (\<lambda>last_status.
     st_bind (map_db (main_set Stopping pid)) (\<lambda>_.
     st_bind (break_all_now pid NotRunning) (\<lambda>_.
     st_return last_status))))"

definition stop_dry :: "package_id \<Rightarrow> ('w, (package_id, tagged_dependency_error) btmap) act" where
  "stop_dry pid = st_bind (in_transaction False (stop_common pid)) (\<lambda>r. st_return (snd r))"

definition stop_impl :: "package_id \<Rightarrow> ('w, main_status) act" where
  "stop_impl pid = st_bind (in_transaction True (stop_common pid)) (\<lambda>r. st_return (fst r))"

fun is_running :: "main_status \<Rightarrow> bool" where
  "is_running (Running _ _) = True"
| "is_running _ = False"

definition restart :: "package_id \<Rightarrow> ('w, unit) act" where
  "restart pid =
     st_bind (in_transaction True (
       st_bind (st_get sys_db) (\<lambda>db.
       if (case status_get db pid of Some st \<Rightarrow> is_running (main st) | None \<Rightarrow> False)
       then map_db (main_set Restarting pid)
       else st_lift (Err (Error InvalidRequest (Msg (pid @ '' is not running''))))))) (\<lambda>_.
     st_return ())"

section \<open>Writing the main status\<close>

lemma main_frames [simp]:
  "manifest_get (main_set m p d) = manifest_get d"
  "dependents_get (main_set m p d) = dependents_get d"
  "dependencies_get (main_set m p d) = dependencies_get d"
  "errors_get (main_set m p d) = errors_get d"
  "bt_keys (main_set m p d) = bt_keys d"
  by (auto simp: receipt_defs main_set_def fun_eq_iff map_option_case split: option.splits)

lemma status_main_set:
  "status_get (main_set m p d) q = (if q = p then map_option (\<lambda>st. st\<lparr>main := m\<rparr>) (status_get d q) else status_get d q)"
  by (auto simp: receipt_defs main_set_def option.map_comp o_def)

lemma errs_main_set [simp]: "errs (main_set m p d) = errs d" "severity (main_set m p d) = severity d"
  by (simp_all add: errs_def severity_def fun_eq_iff)

lemma keeps_ok_main: "keeps_ok d (main_set m p d)"
  by (rule keeps_ok_same) simp_all

section \<open>Spreading an error can only fail on packages that are missing\<close>

text \<open>Every package on a list of dependents other than its own is installed.\<close>

definition dependents_installed :: "db \<Rightarrow> bool" where
  "dependents_installed db \<longleftrightarrow> (\<forall>p q ds. p \<noteq> q \<longrightarrow> dependents_get db q = Some ds \<longrightarrow> bt_get ds p \<noteq> None \<longrightarrow>
     manifest_get db p \<noteq> None)"

lemma dependents_installed_ok:
  "db_ok db \<Longrightarrow> (\<And>p. removing_get db p = None) \<Longrightarrow> dependents_installed db"
  unfolding dependents_installed_def db_ok_but_def tidy_but_def leaving_def by fastforce

lemma dependents_installed_same: "same_packages d e \<Longrightarrow> dependents_installed d \<Longrightarrow> dependents_installed e"
  by (simp add: dependents_installed_def same_packages_def)

text \<open>Fails neither with an error nor with a panic, from databases of a given kind.\<close>

definition sure :: "(db \<Rightarrow> bool) \<Rightarrow> ('w, unit) act \<Rightarrow> bool" where
  "sure P m \<longleftrightarrow> (\<forall>s. P (sys_db s) \<longrightarrow> (\<exists>t. (m s = (Ok (), t) \<or> m s = (Diverge, t)) \<and> P (sys_db t)))"

lemma sure_for:
  assumes "\<And>x. x \<in> set xs \<Longrightarrow> sure P (f x :: ('w, unit) act)"
  shows "sure P (st_for f xs)"
  unfolding sure_def
proof (intro allI impI)
  fix s :: "'w sys" assume "P (sys_db s)"
  then show "\<exists>t. (st_for f xs s = (Ok (), t) \<or> st_for f xs s = (Diverge, t)) \<and> P (sys_db t)"
    using assms
  proof (induction xs arbitrary: s)
    case (Cons x xs)
    obtain u where u: "f x s = (Ok (), u) \<or> f x s = (Diverge, u)" "P (sys_db u)"
      using Cons.prems unfolding sure_def by (metis list.set_intros(1))
    have "\<exists>t. (st_for f xs u = (Ok (), t) \<or> st_for f xs u = (Diverge, t)) \<and> P (sys_db t)"
      using Cons.prems(2) by (intro Cons.IH u(2)) simp
    with u show ?case by auto
  qed (simp add: st_simps)
qed

lemma listed_iff:
  "p \<in> set (case x of Some ds \<Rightarrow> bt_keys ds | None \<Rightarrow> []) \<longleftrightarrow> (\<exists>ds. x = Some ds \<and> bt_get ds p \<noteq> None)"
  by (cases x) (simp_all add: bt_get_None del: not_None_eq)

lemma listed_installed:
  assumes "dependents_installed db" and "p \<in> set (filter (\<lambda>p. pid \<noteq> p) (case dependents_get db pid of Some ds \<Rightarrow> bt_keys ds | None \<Rightarrow> []))"
  shows "manifest_get db p \<noteq> None"
proof -
  have "p \<noteq> pid" and "\<exists>ds. dependents_get db pid = Some ds \<and> bt_get ds p \<noteq> None"
    using assms(2) unfolding set_filter mem_Collect_eq listed_iff by blast+
  then show ?thesis using assms(1) unfolding dependents_installed_def by metis
qed

lemma break_sure:
  assumes "manifest_get d pid \<noteq> None"
  shows "sure (\<lambda>e. same_packages d e \<and> dependents_installed e) (break_transitive fuel pid q err :: ('w, unit) act)"
  using assms
proof (induction fuel arbitrary: pid q err)
  case (Suc fuel)
  let ?P = "\<lambda>e. same_packages d e \<and> dependents_installed e"
  have raised: "?P (raised pid q err e)" if "?P e" "errors_get e pid \<noteq> None" for e
  proof -
    have "same_packages e (raised pid q err e)" using raised_rise [OF that(2)] by (simp add: errors_rise_def)
    with that(1) show ?thesis using packages.db_trans dependents_installed_same by blast
  qed
  show ?case unfolding sure_def
  proof (intro allI impI)
    fix s :: "'w sys" assume P: "?P (sys_db s)"
    have inst: "errors_get (sys_db s) pid \<noteq> None"
      using P Suc.prems manifest_errors_None [of "sys_db s" pid] by (simp add: same_packages_def del: not_None_eq)
    let ?ds = "filter (\<lambda>p. pid \<noteq> p) (case dependents_get (sys_db (breakage pid q err s)) pid of Some x \<Rightarrow> bt_keys x | None \<Rightarrow> [])"
    have u: "?P (sys_db (breakage pid q err s))" using raised [OF P inst] by (simp add: breakage_def)
    have "sure ?P (st_for (\<lambda>p. break_transitive fuel p pid Transitive :: ('w, unit) act) ?ds)"
    proof (rule sure_for)
      fix p assume "p \<in> set ?ds"
      then have "manifest_get (sys_db (breakage pid q err s)) p \<noteq> None"
        using u listed_installed [of "sys_db (breakage pid q err s)"] by blast
      then show "sure ?P (break_transitive fuel p pid Transitive :: ('w, unit) act)"
        using u by (intro Suc.IH) (simp add: same_packages_def)
    qed
    then show "\<exists>t. (break_transitive (Suc fuel) pid q err s = (Ok (), t) \<or>
        break_transitive (Suc fuel) pid q err s = (Diverge, t)) \<and> ?P (sys_db t)"
      using raised [OF P inst] inst u unfolding sure_def break_step break_all_step by auto
  qed
qed (auto simp: sure_def break_transitive.simps st_simps)

text \<open>From an installed package the error spreads to the end, with every outcome but success excluded.\<close>

lemma ends_break_all: "ends (break_all_now pid err :: ('w, unit) act)"
proof -
  have "fst (st_for (\<lambda>q. break_transitive fuel q pid err) qs s) \<noteq> Diverge"
    if "6 * (length (sys_db s) + 1) * length (sys_db s) < fuel" for fuel qs and s :: "'w sys"
  proof -
    let ?ds = "insert pid (set (bt_keys (sys_db s)))"
    have "db_tame (bounded_room ?ds fuel) (break_transitive fuel q pid err :: ('w, unit) act)" for q
      unfolding tame_def using break_transitive_ends [OF insertI1] bounded_room_rise [OF break_rise] by blast
    then have "db_tame (bounded_room ?ds fuel) (st_for (\<lambda>q. break_transitive fuel q pid err :: ('w, unit) act) qs)"
      by (rule tame_for)
    with bounded_room_start [OF that, of pid] show ?thesis unfolding tame_def by blast
  qed
  then show ?thesis unfolding tame_def break_all_now_def spread_fuel_def
    by (auto simp: st_eval break_all_step simp del: mult_Suc_right)
qed

lemma break_all_succeeds:
  assumes "dependents_installed (sys_db s)"
  shows "\<exists>t. break_all_now pid err s = (Ok (), t :: 'w sys)"
proof -
  let ?P = "\<lambda>e. same_packages (sys_db s) e \<and> dependents_installed e"
  let ?ds = "filter (\<lambda>p. pid \<noteq> p) (case dependents_get (sys_db s) pid of Some x \<Rightarrow> bt_keys x | None \<Rightarrow> [])"
  have "sure ?P (st_for (\<lambda>p. break_transitive fuel p pid err :: ('w, unit) act) ?ds)" for fuel
  proof (rule sure_for)
    fix p assume "p \<in> set ?ds"
    then have "manifest_get (sys_db s) p \<noteq> None"
      by (rule listed_installed [OF assms])
    then show "sure ?P (break_transitive fuel p pid err :: ('w, unit) act)" by (rule break_sure)
  qed
  then obtain t where "break_all_now pid err s = (Ok (), t) \<or> break_all_now pid err s = (Diverge, t)"
    using assms packages.db_refl [of "sys_db s"] unfolding sure_def break_all_now_def
    by (fastforce simp: st_eval break_all_step)
  moreover have "ends (break_all_now pid err :: ('w, unit) act)" by (rule ends_break_all)
  then have "fst (break_all_now pid err s) \<noteq> Diverge" unfolding tame_def by blast
  ultimately show ?thesis by auto
qed

lemma break_all_spreads:
  assumes "break_all_now pid err s = (Ok (), t :: 'w sys)"
  shows "spread (sys_db s) (sys_db t)"
    and "dependents_get (sys_db s) pid = Some ds \<Longrightarrow> bt_get ds p \<noteq> None \<Longrightarrow> p \<noteq> pid \<Longrightarrow>
      rank err \<le> severity (sys_db t) p pid"
proof -
  have run: "break_all_dependents_transitive (spread_fuel (sys_db s)) pid err s = (Ok (), t)"
    using assms by (simp add: break_all_now_def st_eval)
  have all: "spread (sys_db s) (sys_db t) \<and>
    (\<forall>ds r. dependents_get (sys_db s) pid = Some ds \<longrightarrow> r \<in> set (bt_keys ds) \<longrightarrow> r \<noteq> pid \<longrightarrow>
       rank err \<le> severity (sys_db t) r pid)"
    by (rule break_all_spread [OF _ run]) (rule break_transitive_spread)
  show "spread (sys_db s) (sys_db t)" using all by blast
  show "rank err \<le> severity (sys_db t) p pid"
    if "dependents_get (sys_db s) pid = Some ds" "bt_get ds p \<noteq> None" "p \<noteq> pid"
    using all that bt_get_None [of ds p] by metis
qed

lemma break_all_recorded: "break_all_now pid err s = (r, t :: 'w sys) \<Longrightarrow> recorded s t"
  unfolding break_all_now_def break_all_dependents_transitive.simps
  by (drule recorded.keepsD [rotated])
     (intro recorded.keeps_bind recorded.keeps_basic recorded.keeps_for break_transitive_recorded)

section \<open>The invariant\<close>

lemma keeps_ok_break_all: "ok.rel.keeps (break_all_now pid err :: ('w, unit) act)"
  unfolding break_all_now_def break_all_dependents_transitive.simps
proof (intro ok.rel.keeps_bind ok.rel.keeps_basic ok.rel.keeps_for ok.keeps_weaken)
  show "packages.rel.keeps (break_transitive fuel p q err :: ('w, unit) act)" for fuel p q
    unfolding packages.rel.keeps_def unfolding on_db_def
    by (intro allI) (rule break_rise [unfolded errors_rise_def, THEN conjunct1])
qed

lemma keeps_ok_transaction:
  assumes "ok.rel.keeps f"
  shows "ok.rel.keeps (in_transaction c f)"
  unfolding ok.rel.keeps_def on_db_def
proof
  fix s :: "'a sys"
  obtain r t where run: "f (s\<lparr>sys_breakages := [], sys_overrides := []\<rparr>) = (r, t)" by fastforce
  from ok.rel.keepsD [OF assms run] show "keeps_ok (sys_db s) (sys_db (snd (in_transaction c f s)))"
    by (cases r) (simp_all add: in_transaction_def run on_db_def ok.db_refl)
qed

lemma keeps_ok_stop_common: "ok.rel.keeps (stop_common pid :: ('w, main_status) act)"
  unfolding stop_common_def by (intro ok.rel.world_rules ok.keeps_map_db keeps_ok_main keeps_ok_break_all)

lemma keeps_ok_control:
  "ok.rel.keeps (start ctx managers pid :: ('w, unit) act)"
  "ok.rel.keeps (stop_impl pid :: ('w, main_status) act)"
  "ok.rel.keeps (restart pid :: ('w, unit) act)"
  unfolding start_def stop_impl_def restart_def
  by (auto intro!: ok.rel.world_rules keeps_ok_transaction keeps_ok_stop_common ok.keeps_map_db keeps_ok_main
    ok.keeps_weaken [OF packages_heal] split: option.splits)

section \<open>Properties\<close>

lemma stop_common_run:
  assumes "status_get (sys_db s) pid = Some st"
    and "break_all_now pid NotRunning (s\<lparr>sys_db := main_set Stopping pid (sys_db s)\<rparr>) = (Ok (), t)"
  shows "stop_common pid s = (Ok (main st), t)"
  using assms by (simp add: stop_common_def st_eval map_db_step)

lemma spread_status:
  assumes "spread d e" and "status_get d p = Some st"
  shows "\<exists>st'. status_get e p = Some st' \<and> main st' = main st"
proof -
  have "map_option main (status_get e p) = map_option main (status_get d p)"
    using assms(1) by (auto simp: spread_def errors_rise_def same_packages_def)
  then show ?thesis using assms(2) by (cases "status_get e p") auto
qed

text \<open>
  C25. An installed package can always be stopped when no package is being removed: the command returns the previous
  status, the package is stopping afterwards, every dependent has an error for it at least as severe as
  \<open>NotRunning\<close>, the dependents of packages with worse errors than before have errors too, and the package data
  stay consistent.
\<close>

theorem stop_succeeds:
  assumes "db_ok (sys_db s)" and "\<And>p. removing_get (sys_db s) p = None"
    and "status_get (sys_db s) pid = Some st"
  shows "\<exists>t. stop_impl pid s = (Ok (main st), t) \<and> db_ok (sys_db t) \<and>
    (\<exists>st'. status_get (sys_db t) pid = Some st' \<and> main st' = Stopping) \<and>
    spread (sys_db s) (main_set (main st) pid (sys_db t)) \<and>
    (\<forall>ds p. dependents_get (sys_db s) pid = Some ds \<longrightarrow> bt_get ds p \<noteq> None \<longrightarrow> p \<noteq> pid \<longrightarrow>
       rank NotRunning \<le> severity (sys_db t) p pid)"
proof -
  let ?s = "s\<lparr>sys_breakages := [], sys_overrides := []\<rparr>"
  let ?d = "main_set Stopping pid (sys_db s)"
  have "dependents_installed ?d"
    using dependents_installed_ok [OF assms(1,2)] by (simp add: dependents_installed_def)
  then obtain t where run: "break_all_now pid NotRunning (?s\<lparr>sys_db := ?d\<rparr>) = (Ok (), t)"
    using break_all_succeeds [of "?s\<lparr>sys_db := ?d\<rparr>"] by auto
  let ?t = "s\<lparr>sys_db := sys_db t, sys_world := sys_world t\<rparr>"
  have "stop_common pid ?s = (Ok (main st), t)" using stop_common_run [of ?s pid st t] run assms(3) by simp
  then have stop: "stop_impl pid s = (Ok (main st), ?t)"
    by (simp add: stop_impl_def in_transaction_def st_bind_def st_return_def)
  have "db_ok (sys_db ?t)" using keeps_ok_db [OF keeps_ok_control(2) stop assms(1)] .
  moreover have sp: "spread ?d (sys_db t)" using break_all_spreads(1) [OF run] by simp
  moreover have "spread (sys_db s) (main_set (main st) pid (sys_db t))"
  proof -
    have "same_packages (sys_db s) (main_set (main st) pid (sys_db t))"
      using sp assms(3) unfolding spread_def errors_rise_def same_packages_def
      by (auto simp: status_main_set option.map_comp o_def map_option_case split: option.splits)
    then show ?thesis using sp by (simp add: spread_def errors_rise_def)
  qed
  moreover have "\<exists>st'. status_get (sys_db t) pid = Some st' \<and> main st' = Stopping"
    using spread_status [OF sp, of pid] assms(3) by (simp add: status_main_set)
  moreover have "rank NotRunning \<le> severity (sys_db t) p pid"
    if "dependents_get (sys_db s) pid = Some ds" "bt_get ds p \<noteq> None" "p \<noteq> pid" for ds p
    using break_all_spreads(2) [OF run, of ds p] that by simp
  ultimately show ?thesis using stop by auto
qed


theorem stop_succeeds_witness:
  "\<exists>t. stop_impl ''a'' conf_sys = (Ok Stopped, t) \<and> rank NotRunning \<le> severity (sys_db t) ''b'' ''a''"
proof -
  obtain st where st: "status_get (sys_db conf_sys) ''a'' = Some st" "main st = Stopped" by (simp add: conf_defs)
  have "removing_get (sys_db conf_sys) p = None" for p by (simp add: removing_get_def conf_defs)
  from stop_succeeds [OF conf_db_ok this st(1)] obtain t where t: "stop_impl ''a'' conf_sys = (Ok (main st), t)"
    and dep: "\<And>ds p. dependents_get (sys_db conf_sys) ''a'' = Some ds \<Longrightarrow> bt_get ds p \<noteq> None \<Longrightarrow> p \<noteq> ''a'' \<Longrightarrow>
      rank NotRunning \<le> severity (sys_db t) p ''a''"
    by blast
  have "dependents_get (sys_db conf_sys) ''a'' = Some [(''b'', current_dependency_info_default)]" by (simp add: conf_defs)
  from dep [OF this, of "''b''"] t st(2) show ?thesis by simp
qed

text \<open>
  While a dependent of a package is being removed the package cannot be stopped: the lists of dependents
  still name the one that is leaving, and spreading the error to it fails. The database stays as it was.
\<close>

theorem stop_blocked_by_removal:
  assumes "dependents_get (sys_db s) pid = Some ds" and "bt_get ds p \<noteq> None" and "p \<noteq> pid"
    and "manifest_get (sys_db s) p = None" and "stop_impl pid s = (r, t)"
  shows "\<not> is_ok r \<and> sys_db t = sys_db s"
proof -
  let ?s = "s\<lparr>sys_breakages := [], sys_overrides := []\<rparr>"
  obtain r1 t1 where run: "in_transaction True (stop_common pid) s = (r1, t1)" by fastforce
  have "\<not> is_ok r1"
  proof
    assume "is_ok r1"
    then obtain st t2 where "stop_common pid ?s = (Ok st, t2)"
      using run by (auto simp: is_ok_iff in_transaction_Ok)
    then have br: "break_all_now pid NotRunning (?s\<lparr>sys_db := main_set Stopping pid (sys_db s)\<rparr>) = (Ok (), t2)"
      by (auto simp: stop_common_def st_bind_eq_Ok st_simps map_db_step)
    have "3 \<le> severity (sys_db t2) p pid" using break_all_spreads(2) [OF br, of ds p] assms(1-3) by simp
    then have "errors_get (sys_db t2) p \<noteq> None" by (auto simp: severity_def errs_def split: option.splits)
    moreover have "manifest_get (sys_db t2) p = None"
      using break_all_spreads(1) [OF br] assms(4) by (simp add: spread_def errors_rise_def same_packages_def)
    ultimately show False using manifest_errors_None [of "sys_db t2" p] by simp
  qed
  moreover have "t = t1" "is_ok r \<longleftrightarrow> is_ok r1" using assms(5) run by (cases r1; auto simp: stop_impl_def st_return_eq)+
  ultimately show ?thesis using in_transaction_abort [OF run] by (simp add: world_only_def)
qed

text \<open>The same two packages while \<open>b\<close>, which depends on \<open>a\<close>, is being removed.\<close>

definition leaving_sys :: "nat sys" where
  "leaving_sys = conf_sys\<lparr>sys_db := map (\<lambda>(p, e). (p, case e of Installed m i \<Rightarrow> if p = ''b'' then Removing m i else e | _ \<Rightarrow> e)) (sys_db conf_sys)\<rparr>"

lemmas leaving_defs = leaving_sys_def conf_defs

theorem stop_blocked_by_removal_witness:
  "\<not> is_ok (fst (stop_impl ''a'' leaving_sys)) \<and> sys_db (snd (stop_impl ''a'' leaving_sys)) = sys_db leaving_sys"
proof -
  have ds: "dependents_get (sys_db leaving_sys) ''a'' = Some [(''b'', current_dependency_info_default)]" by (simp add: leaving_defs)
  have gone: "manifest_get (sys_db leaving_sys) ''b'' = None" by (simp add: leaving_defs)
  obtain r t where "stop_impl ''a'' leaving_sys = (r, t)" by fastforce
  with stop_blocked_by_removal [OF ds _ _ gone this] show ?thesis by simp
qed

text \<open>
  A dry run of \<open>stop\<close> leaves the database as it is and tells in advance what stopping does: it succeeds exactly when
  stopping does, and then it reports every package that has a worse error after stopping than before.
\<close>

theorem stop_dry_predicts:
  assumes "stop_dry pid s = (r, t)" and "stop_impl pid s = (r', u)"
  shows "world_only s t \<and> (is_ok r \<longleftrightarrow> is_ok r') \<and>
    \<not> (\<exists>bs p q. r = Ok bs \<and> severity (sys_db s) p q < severity (sys_db u) p q \<and> bt_get bs p = None)"
proof -
  let ?s = "s\<lparr>sys_breakages := [], sys_overrides := []\<rparr>"
  obtain r1 v where run: "stop_common pid ?s = (r1, v)" by fastforce
  have t: "sys_db t = sys_db s" "world_only s t"
    using assms(1) run by (cases r1; auto simp: stop_dry_def in_transaction_def st_bind_def st_return_def world_only_def)+
  have ok: "is_ok r \<longleftrightarrow> is_ok r1" "is_ok r' \<longleftrightarrow> is_ok r1"
    using assms run by (cases r1; auto simp: stop_dry_def stop_impl_def in_transaction_def st_bind_def st_return_def)+
  have "bt_get bs p \<noteq> None" if r: "r = Ok bs" and worse: "severity (sys_db s) p q < severity (sys_db u) p q" for bs p q
  proof -
    obtain st where r1: "r1 = Ok st" using ok r by (auto simp: is_ok_iff)
    have bs: "bs = sys_breakages v" and u: "sys_db u = sys_db v"
      using assms run r r1 by (auto simp: stop_dry_def stop_impl_def in_transaction_def st_bind_def st_return_def)
    have "break_all_now pid NotRunning (?s\<lparr>sys_db := main_set Stopping pid (sys_db s)\<rparr>) = (Ok (), v)"
      using run r1 by (auto simp: stop_common_def st_bind_eq_Ok st_simps map_db_step)
    from break_all_recorded [OF this] show ?thesis using worse bs u by (auto simp: recorded_def)
  qed
  then show ?thesis using t ok by blast
qed

theorem stop_dry_predicts_witness:
  "is_ok (fst (stop_dry ''a'' conf_sys)) = is_ok (fst (stop_impl ''a'' conf_sys)) \<and>
   sys_db (snd (stop_dry ''a'' conf_sys)) = sys_db conf_sys"
proof -
  obtain r t where r: "stop_dry ''a'' conf_sys = (r, t)" by fastforce
  obtain r' u where r': "stop_impl ''a'' conf_sys = (r', u)" by fastforce
  show ?thesis using stop_dry_predicts [OF r r'] by (simp add: r r' world_only_def)
qed

end
