(* ===== verification/Volumes.thy ===== *)
theory Volumes
  imports Manifest "HOL-Library.Sublist"
begin

text \<open>
  Where the volumes of a package are kept (\<^verbatim>\<open>volume.rs\<close>, \<^verbatim>\<open>script_dir.rs\<close>), the checks of volumes
  and interfaces (\<^verbatim>\<open>net/interface.rs\<close>), and the removal of a package's data without the directories
  that other packages have mounted (\<open>cleanup_folder\<close> in \<^verbatim>\<open>install/cleanup.rs\<close>).
\<close>

section \<open>Paths\<close>

text \<open>
  An absolute path is the list of its components. Empty components and single dots are skipped when
  a text is read as components; \<open>..\<close> is a component like any other.
\<close>

type_synonym path = "string list"

fun split_on :: "char \<Rightarrow> string \<Rightarrow> string list" where
  "split_on c [] = [[]]"
| "split_on c (x # xs) =
     (if x = c then [] # split_on c xs
      else (case split_on c xs of p # ps \<Rightarrow> (x # p) # ps | [] \<Rightarrow> [[x]]))"

definition components :: "string \<Rightarrow> path" where
  "components s = filter (\<lambda>c. c \<noteq> [] \<and> c \<noteq> ''.'') (split_on (CHR ''/'') s)"

definition volume_root :: "path \<Rightarrow> package_id \<Rightarrow> path" where
  "volume_root datadir pid = datadir @ [''package-data'', ''volumes'', pid]"

definition data_dir :: "path \<Rightarrow> package_id \<Rightarrow> string \<Rightarrow> path" where
  "data_dir datadir pid vid = volume_root datadir pid @ [''data'', vid]"

definition asset_dir :: "path \<Rightarrow> package_id \<Rightarrow> version \<Rightarrow> path" where
  "asset_dir datadir pid ver = volume_root datadir pid @ [''assets'', ver]"

definition script_dir :: "path \<Rightarrow> package_id \<Rightarrow> version \<Rightarrow> path" where
  "script_dir datadir pid ver = datadir @ [''package-data'', ''scripts'', pid, ver]"

definition archive_dir :: "path \<Rightarrow> package_id \<Rightarrow> version \<Rightarrow> path" where
  "archive_dir datadir pid ver = datadir @ [''package-data'', ''archive'', pid, ver]"

definition backup_dir :: "package_id \<Rightarrow> path" where
  "backup_dir pid = [''media'', ''embassy'', ''backups'', pid, ''data'']"

definition cert_dir :: "package_id \<Rightarrow> interface_id \<Rightarrow> path" where
  "cert_dir pid iid = [''var'', ''lib'', ''embassy'', ''ssl'', pid, iid]"

section \<open>Volumes\<close>

fun path_for :: "path \<Rightarrow> package_id \<Rightarrow> version \<Rightarrow> string \<Rightarrow> volume \<Rightarrow> path" where
  "path_for datadir pid ver vid (VData _) = data_dir datadir pid vid"
| "path_for datadir pid ver vid VAssets = asset_dir datadir pid ver @ [vid]"
| "path_for datadir pid ver vid (VPointer p v path _) = data_dir datadir p v @ components path"
| "path_for datadir pid ver vid (VCertificate iid) = cert_dir pid iid"
| "path_for datadir pid ver vid (VBackup _) = backup_dir pid"

fun pointer_path :: "path \<Rightarrow> volume \<Rightarrow> path option" where
  "pointer_path datadir (VPointer p v path _) = Some (data_dir datadir p v @ components path)"
| "pointer_path datadir _ = None"

fun set_readonly :: "volume \<Rightarrow> volume" where
  "set_readonly (VData _) = VData True"
| "set_readonly (VPointer p v path _) = VPointer p v path True"
| "set_readonly (VBackup _) = VBackup True"
| "set_readonly v = v"

fun volume_readonly :: "volume \<Rightarrow> bool" where
  "volume_readonly (VData r) = r"
| "volume_readonly VAssets = True"
| "volume_readonly (VPointer _ _ _ r) = r"
| "volume_readonly (VCertificate _) = True"
| "volume_readonly (VBackup r) = r"

definition to_readonly :: "volumes \<Rightarrow> volumes" where
  "to_readonly vs = map (\<lambda>e. (fst e, set_readonly (snd e))) vs"

fun volume_validate :: "interfaces \<Rightarrow> volume \<Rightarrow> (string, unit) res" where
  "volume_validate ifs (VCertificate iid) =
     (if bt_get ifs iid = None then Err (''unknown interface: '' @ iid) else Ok ())"
| "volume_validate ifs _ = Ok ()"

definition with_ctx :: "error_kind \<Rightarrow> string \<Rightarrow> (string, 'a) res \<Rightarrow> (error, 'a) res" where
  "with_ctx kind c r = map_err (\<lambda>e. Error kind (Msg (c @ '': '' @ e))) r"

definition volumes_validate :: "interfaces \<Rightarrow> volumes \<Rightarrow> (error, unit) res" where
  "volumes_validate ifs vs = rfor (\<lambda>e. with_ctx ValidateS9pk (''Volume '' @ fst e) (volume_validate ifs (snd e))) vs"

definition interface_validate :: "interface \<Rightarrow> (string, unit) res" where
  "interface_validate i =
     (if if_tor_config i \<noteq> None \<and> ''tcp'' \<notin> set (if_protocols i)
      then Err ''must support tcp to set up a tor hidden service''
      else if if_lan_config i \<noteq> None \<and> ''http'' \<notin> set (if_protocols i)
      then Err ''must support http to set up a lan service''
      else if if_ui i \<and> \<not> (''http'' \<in> set (if_protocols i) \<or> ''https'' \<in> set (if_protocols i))
      then Err ''must support http or https to serve a ui''
      else Ok ())"

definition interfaces_validate :: "interfaces \<Rightarrow> (error, unit) res" where
  "interfaces_validate ifs = rfor (\<lambda>e. with_ctx ValidateS9pk (''Interface '' @ if_name (snd e)) (interface_validate (snd e))) ifs"

lemma path_for_pointer: "pointer_path datadir v = Some p \<Longrightarrow> path_for datadir pid ver vid v = p"
  by (cases v) auto

lemma pointer_path_prefix: "pointer_path datadir v = Some p \<Longrightarrow> \<exists>q vid. prefix (data_dir datadir q vid) p"
  by (cases v) (auto intro: prefixI)

lemma to_readonly_readonly: "(vid, v) \<in> set (to_readonly vs) \<Longrightarrow> volume_readonly v"
proof -
  have "volume_readonly (set_readonly v)" for v by (cases v) simp_all
  then show "(vid, v) \<in> set (to_readonly vs) \<Longrightarrow> ?thesis" by (auto simp: to_readonly_def)
qed

lemma set_readonly_path: "path_for datadir pid ver vid (set_readonly v) = path_for datadir pid ver vid v"
  by (cases v) simp_all

section \<open>Removing the data of a package\<close>

datatype fs_node = File string | Dir "(string \<times> fs_node) list"

lemma map_filter_cong [fundef_cong]:
  "xs = ys \<Longrightarrow> (\<And>x. x \<in> set ys \<Longrightarrow> f x = g x) \<Longrightarrow> List.map_filter f xs = List.map_filter g ys"
  by (induction xs arbitrary: ys) (auto simp: List.map_filter_simps split: option.splits)

text \<open>
  \<open>cleanup_folder\<close>: what is left of the file at a path. Failing file operations are skipped over by the
  code; here they succeed.
\<close>

fun cleanup_folder :: "path list \<Rightarrow> path \<Rightarrow> fs_node \<Rightarrow> fs_node option" where
  "cleanup_folder keep path (File _) = None"
| "cleanup_folder keep path (Dir es) =
     (if \<not> list_ex (\<lambda>v. prefix path v \<or> v = path) keep then None
      else Some (Dir (List.map_filter (\<lambda>(n, f). map_option (Pair n) (cleanup_folder keep (path @ [n]) f)) es)))"

text \<open>The directories and the plain files below a file, by their relative paths.\<close>

fun dirs :: "fs_node \<Rightarrow> path set" where
  "dirs (File _) = {}"
| "dirs (Dir es) = insert [] (\<Union>e \<in> set es. (#) (fst e) ` dirs (snd e))"

fun files :: "fs_node \<Rightarrow> path set" where
  "files (File _) = {[]}"
| "files (Dir es) = (\<Union>e \<in> set es. (#) (fst e) ` files (snd e))"

lemma set_map_filter: "set (List.map_filter f xs) = {y. \<exists>x \<in> set xs. f x = Some y}"
  by (induction xs) (auto simp: List.map_filter_simps split: option.splits)

abbreviation opt_dirs :: "fs_node option \<Rightarrow> path set" where
  "opt_dirs x \<equiv> (case x of None \<Rightarrow> {} | Some f \<Rightarrow> dirs f)"

abbreviation opt_files :: "fs_node option \<Rightarrow> path set" where
  "opt_files x \<equiv> (case x of None \<Rightarrow> {} | Some f \<Rightarrow> files f)"

lemma cleanup_dirs:
  "opt_dirs (cleanup_folder keep path f) = {p \<in> dirs f. \<exists>v \<in> set keep. prefix (path @ p) v}"
proof (induction keep path f rule: cleanup_folder.induct)
  case (2 keep path es)
  show ?case
  proof (cases "list_ex (\<lambda>v. prefix path v \<or> v = path) keep")
    case True
    have sub: "(\<exists>g. cleanup_folder keep (path @ [n]) f = Some g \<and> p \<in> dirs g) \<longleftrightarrow>
        p \<in> dirs f \<and> (\<exists>v \<in> set keep. prefix (path @ n # p) v)" if "(n, f) \<in> set es" for n f p
      using 2 [of "(n, f)" n f] True that by (auto split: option.splits)
    have "p \<in> opt_dirs (cleanup_folder keep path (Dir es)) \<longleftrightarrow>
        p \<in> dirs (Dir es) \<and> (\<exists>v \<in> set keep. prefix (path @ p) v)" for p
    proof (cases p)
      case Nil
      then show ?thesis using True by (auto simp: list_ex_iff)
    next
      case (Cons n q)
      have "p \<in> opt_dirs (cleanup_folder keep path (Dir es)) \<longleftrightarrow>
          (\<exists>f. (n, f) \<in> set es \<and> (\<exists>g. cleanup_folder keep (path @ [n]) f = Some g \<and> q \<in> dirs g))"
        using True by (force simp: Cons set_map_filter)
      also have "\<dots> \<longleftrightarrow> (\<exists>f. (n, f) \<in> set es \<and> q \<in> dirs f \<and> (\<exists>v \<in> set keep. prefix (path @ n # q) v))"
        using sub by blast
      finally show ?thesis by (force simp: Cons)
    qed
    then show ?thesis unfolding set_eq_iff mem_Collect_eq by (rule allI)
  next
    case False
    then have "\<not> prefix (path @ p) v" if "v \<in> set keep" for p v
      using that by (auto simp: list_ex_iff dest: append_prefixD)
    then show ?thesis using False by auto
  qed
qed simp

lemma cleanup_files: "opt_files (cleanup_folder keep path f) = {}"
proof (induction keep path f rule: cleanup_folder.induct)
  case (2 keep path es)
  show ?case
  proof (cases "list_ex (\<lambda>v. prefix path v \<or> v = path) keep")
    case True
    have "files g = {}" if "(n, f) \<in> set es" "cleanup_folder keep (path @ [n]) f = Some g" for n f g
      using 2 [of "(n, f)" n f] True that by simp
    then show ?thesis using True by (force simp: set_map_filter)
  qed simp
qed simp

section \<open>Properties\<close>

text \<open>
  Removing the data of a package removes every file and exactly those directories that lead to no
  protected path: of the directories there were, those on the way to a protected path, and the protected
  directories themselves, remain, empty of files.
\<close>

theorem cleanup_folder_exact:
  "(case cleanup_folder keep path f of None \<Rightarrow> {} | Some g \<Rightarrow> dirs g) =
     {p \<in> dirs f. \<exists>v. v \<in> set keep \<and> prefix (path @ p) v} \<and>
   (case cleanup_folder keep path f of None \<Rightarrow> {} | Some g \<Rightarrow> files g) = {}"
  using cleanup_dirs [of keep path f] cleanup_files [of keep path f] by (simp add: Bex_def)

text \<open>A package cannot write to the volumes handed to it for a backup, and they are where they always are.\<close>

lemma to_readonly_ok:
  "to_readonly (to_readonly vs) = to_readonly vs"
  "map (\<lambda>e. path_for datadir pid ver (fst e) (snd e)) (to_readonly vs) = map (\<lambda>e. path_for datadir pid ver (fst e) (snd e)) vs"
proof -
  have "set_readonly (set_readonly v) = set_readonly v" for v by (cases v) simp_all
  then show "to_readonly (to_readonly vs) = to_readonly vs" by (simp add: to_readonly_def)
qed (simp add: to_readonly_def set_readonly_path)

end
