(* ===== verification/Lifecycle.thy ===== *)
theory Lifecycle
  imports Control Volumes
begin

text \<open>
  Installing, updating, restoring and removing packages (\<^verbatim>\<open>install/mod.rs\<close>, \<^verbatim>\<open>install/cleanup.rs\<close>,
  \<^verbatim>\<open>backup/restore.rs\<close>, \<^verbatim>\<open>backup/mod.rs\<close>, \<^verbatim>\<open>migration.rs\<close>) and the health checks of a running
  package (\<^verbatim>\<open>manager/health.rs\<close>), as operations on the package data. Files, containers, the secret
  store and the procedures of packages are reached through the operations of the host.
\<close>

section \<open>The host\<close>

text \<open>
  \<open>list_images\<close> gives the tags of the images that match a reference, \<open>at_path\<close> applies a change to what
  is at a path, \<open>tor_insert\<close> adds a key unless there is one, \<open>onion\<close> is the address that belongs to a
  key, and \<open>newer\<close> is the order of versions.
\<close>

record 'w host =
  rpc :: "'w ctx_ops"
  managers :: "'w managers"
  manager_add :: "manifest \<Rightarrow> ('w, unit) call"
  manager_remove :: "package_id \<Rightarrow> version \<Rightarrow> 'w \<Rightarrow> 'w"
  datadir :: path
  list_images :: "string \<Rightarrow> ('w, string list) call"
  remove_image :: "string \<Rightarrow> ('w, unit) call"
  path_exists :: "path \<Rightarrow> 'w \<Rightarrow> bool"
  create_dir_all :: "path \<Rightarrow> ('w, unit) call"
  remove_dir_all :: "path \<Rightarrow> ('w, unit) call"
  at_path :: "(fs_node \<Rightarrow> fs_node option) \<Rightarrow> path \<Rightarrow> 'w \<Rightarrow> 'w"
  tor_insert :: "package_id \<Rightarrow> interface_id \<Rightarrow> ('w, unit) call"
  tor_select :: "package_id \<Rightarrow> interface_id \<Rightarrow> ('w, string) call"
  tor_delete :: "package_id \<Rightarrow> ('w, unit) call"
  onion :: "string \<Rightarrow> string"
  exec_migration :: "procedure \<Rightarrow> package_id \<Rightarrow> version \<Rightarrow> volumes \<Rightarrow> version \<Rightarrow> ('w, bool exit) call"
  exec_restore :: "procedure \<Rightarrow> package_id \<Rightarrow> version \<Rightarrow> volumes \<Rightarrow> ('w, unit exit) call"
  exec_health :: "procedure \<Rightarrow> package_id \<Rightarrow> version \<Rightarrow> volumes \<Rightarrow> health_check_id \<Rightarrow> string \<Rightarrow> ('w, unit exit) call"
  backup_metadata :: "package_id \<Rightarrow> ('w, unit) call"
  backup_manifest :: "package_id \<Rightarrow> ('w, manifest) call"
  newer :: "version \<Rightarrow> version \<Rightarrow> bool"

definition on_world :: "('w \<Rightarrow> 'w) \<Rightarrow> ('w, unit) act" where
  "on_world f = st_modify (\<lambda>s. s\<lparr>sys_world := f (sys_world s)\<rparr>)"

section \<open>Cleaning up after a version\<close>

text \<open>\<open>ErrorCollection\<close>: a failed call is noted and the work goes on.\<close>

definition handle :: "('w, 'a) call \<Rightarrow> error list \<Rightarrow> ('w, 'a option \<times> error list) act" where
  "handle f es s =
     (case f (sys_world s) of
        (Inl e, w) \<Rightarrow> (Ok (None, es @ [e]), s\<lparr>sys_world := w\<rparr>)
      | (Inr a, w) \<Rightarrow> (Ok (Some a, es), s\<lparr>sys_world := w\<rparr>))"

fun error_collection_text :: "(error \<Rightarrow> string) \<Rightarrow> error list \<Rightarrow> string" where
  "error_collection_text f [] = []"
| "error_collection_text f [e] = f e"
| "error_collection_text f (e # es) = f e @ ''; '' @ error_collection_text f es"

definition into_result :: "(error \<Rightarrow> string) \<Rightarrow> error list \<Rightarrow> (error, unit) res" where
  "into_result f es =
     (if es = [] then Ok () else Err (Error MultipleErrors (Msg (error_collection_text f es))))"

definition handle_remove_dir :: "'w host \<Rightarrow> path \<Rightarrow> error list \<Rightarrow> ('w, error list) act" where
  "handle_remove_dir host dir es =
     st_bind (st_get (\<lambda>s. path_exists host dir (sys_world s))) (\<lambda>b.
     if b then st_bind (handle (remove_dir_all host dir) es) (\<lambda>r. st_return (snd r))
     else st_return es)"

definition image_of :: "package_id \<Rightarrow> version \<Rightarrow> string \<Rightarrow> bool" where
  "image_of pid ver tag \<longleftrightarrow> prefix (''start9/'' @ pid @ ''/'') tag \<and> suffix ('':'' @ ver) tag"

definition cleanup :: "'w host \<Rightarrow> package_id \<Rightarrow> version \<Rightarrow> ('w, unit) act" where
  "cleanup host pid ver =
     st_bind (on_world (manager_remove host pid ver)) (\<lambda>_.
     st_bind (handle (list_images host (''start9/'' @ pid @ ''/*:'' @ ver)) []) (\<lambda>images.
     st_bind (st_fold (\<lambda>tag errs. st_bind (handle (remove_image host tag) errs) (\<lambda>r. st_return (snd r)))
       (filter (image_of pid ver) (case fst images of Some tags \<Rightarrow> tags | None \<Rightarrow> [])) (snd images)) (\<lambda>errs.
     st_bind (st_fold (handle_remove_dir host)
       [archive_dir (datadir host) pid ver, asset_dir (datadir host) pid ver, script_dir (datadir host) pid ver] errs) (\<lambda>errs.
     st_lift (into_result (show_error (rpc host)) errs)))))"

section \<open>Entering and leaving the transient states\<close>

definition transient_error :: error where
  "transient_error = Error InvalidRequest (Msg ''Cannot install over a package in a transient state'')"

text \<open>The transaction at the beginning of \<open>install\<close> and of \<open>sideload\<close>.\<close>

definition begin_install :: "manifest \<Rightarrow> ('w, unit) act" where
  "begin_install man =
     st_bind (in_transaction True (
       st_bind (st_get (\<lambda>s. bt_get (sys_db s) (m_id man))) (\<lambda>pde.
       case pde of
         Some (Installed _ installed) \<Rightarrow> map_db (bt_insert (m_id man) (Updating man installed))
       | None \<Rightarrow> map_db (bt_insert (m_id man) (Installing man))
       | _ \<Rightarrow> st_lift (Err transient_error)))) (\<lambda>_. st_return ())"

definition assure_restoring :: "'w host \<Rightarrow> package_id list \<Rightarrow> ('w, unit) act" where
  "assure_restoring host ids =
     st_bind (in_transaction True (
       st_for (\<lambda>pid.
         st_bind (st_get (\<lambda>s. bt_get (sys_db s) pid)) (\<lambda>pde.
         if pde \<noteq> None
         then st_lift (Err (Error InvalidRequest (Msg (''Can't restore over existing package: '' @ pid))))
         else st_bind (call_world (backup_manifest host pid)) (\<lambda>man. map_db (bt_insert pid (Restoring man))))) ids))
       (\<lambda>_. st_return ())"

definition cleanup_failed :: "'w host \<Rightarrow> package_id \<Rightarrow> ('w, unit) act" where
  "cleanup_failed host pid =
     st_bind (st_get (\<lambda>s. bt_get (sys_db s) pid)) (\<lambda>entry.
     st_bind (st_lift (ok_or entry (not_found pid))) (\<lambda>pde.
     st_bind
       (case (case pde of
                Installing man \<Rightarrow> Some man
              | Restoring man \<Rightarrow> Some man
              | Updating man installed \<Rightarrow>
                  if m_version man \<noteq> m_version (ip_manifest installed) then Some man else None
              | _ \<Rightarrow> None) of
          Some man \<Rightarrow> cleanup host pid (m_version man)
        | None \<Rightarrow> st_return ()) (\<lambda>_.
     case pde of
       Installing _ \<Rightarrow> map_db (bt_remove pid)
     | Restoring _ \<Rightarrow> map_db (bt_remove pid)
     | Updating _ installed \<Rightarrow> map_db (bt_insert pid (Installed (ip_manifest installed) installed))
     | _ \<Rightarrow> st_return ())))"

section \<open>Removing a package\<close>

definition uninstall_dry :: "package_id \<Rightarrow> ('w, (package_id, tagged_dependency_error) btmap) act" where
  "uninstall_dry pid = st_bind (in_transaction False (break_all_now pid NotInstalled)) (\<lambda>r. st_return (snd r))"

definition uninstall_impl :: "package_id \<Rightarrow> ('w, unit) act" where
  "uninstall_impl pid =
     st_bind (in_transaction True (
       st_bind (st_get (\<lambda>s. bt_get (sys_db s) pid)) (\<lambda>pde.
       case pde of
         Some (Installed man installed) \<Rightarrow> map_db (bt_insert pid (Removing man installed))
       | _ \<Rightarrow> st_lift (Err (Error NotFound (Msg ''Package is not installed.'')))))) (\<lambda>_. st_return ())"

text \<open>The paths into the package's volumes that its dependents have mounted.\<close>

definition dependents_paths :: "path \<Rightarrow> db \<Rightarrow> current_dependents \<Rightarrow> path list" where
  "dependents_paths dir packages ds =
     List.map_filter (pointer_path dir)
       (concat (map (\<lambda>e. map snd (m_volumes (pde_manifest e))) (List.map_filter (bt_get packages) (bt_keys ds))))"

definition uninstall :: "nat \<Rightarrow> 'w host \<Rightarrow> package_id \<Rightarrow> ('w, unit) act" where
  "uninstall fuel host pid =
     st_bind (in_transaction True (
       st_bind (st_get (\<lambda>s. removing_get (sys_db s) pid)) (\<lambda>r.
       st_bind (st_lift (ok_or r db_error)) (\<lambda>entry.
       let eid = m_id (ip_manifest entry) in
       st_bind (cleanup host eid (m_version (ip_manifest entry))) (\<lambda>_.
       st_bind (st_get (\<lambda>s. dependents_paths (datadir host) (bt_remove pid (sys_db s)) (ip_current_dependents entry))) (\<lambda>paths.
       st_bind (map_db (bt_remove pid)) (\<lambda>_.
       st_bind (reconfigure_dependents_with_live_pointers fuel (rpc host) entry) (\<lambda>_.
       st_bind (remove_from_current_dependents_lists eid (ip_current_dependencies entry)) (\<lambda>_.
       st_bind (update_dependency_errors_of_dependents (rpc host) eid (ip_current_dependents entry)) (\<lambda>_.
       st_bind (on_world (at_path host (cleanup_folder paths (volume_root (datadir host) eid)) (volume_root (datadir host) eid))) (\<lambda>_.
       call_world (tor_delete host eid)))))))))))) (\<lambda>_. st_return ())"

section \<open>Installing a package\<close>

definition volumes_install :: "'w host \<Rightarrow> package_id \<Rightarrow> version \<Rightarrow> volumes \<Rightarrow> ('w, unit) act" where
  "volumes_install host pid ver vs =
     st_for (\<lambda>e.
       case snd e of
         VData _ \<Rightarrow> call_world (create_dir_all host (path_for (datadir host) pid ver (fst e) (snd e)))
       | _ \<Rightarrow> st_return ()) vs"

definition interface_install :: "'w host \<Rightarrow> package_id \<Rightarrow> interface_id \<times> interface \<Rightarrow> ('w, interface_addresses) act" where
  "interface_install host pid e =
     (if if_tor_config (snd e) \<noteq> None \<or> if_lan_config (snd e) \<noteq> None then
        st_bind (call_world (tor_insert host pid (fst e))) (\<lambda>_.
        st_bind (call_world (tor_select host pid (fst e))) (\<lambda>key.
        st_return
          \<lparr>tor_address = (if if_tor_config (snd e) \<noteq> None then Some (onion host key @ ''.onion'') else None),
           lan_address = (if if_lan_config (snd e) \<noteq> None then Some (onion host key @ ''.local'') else None)\<rparr>))
      else st_return \<lparr>tor_address = None, lan_address = None\<rparr>)"

definition interfaces_install ::
  "'w host \<Rightarrow> package_id \<Rightarrow> interfaces \<Rightarrow> ('w, (interface_id, interface_addresses) btmap) act" where
  "interfaces_install host pid ifs =
     st_fold (\<lambda>e addrs. st_bind (interface_install host pid e) (\<lambda>a. st_return (bt_insert (fst e) a addrs))) ifs []"

text \<open>\<open>Migrations::from\<close> and \<open>Migrations::to\<close>: the first procedure whose range the other version is in.\<close>

definition find_migration :: "'w ctx_ops \<Rightarrow> (version_range, procedure) imap \<Rightarrow> version \<Rightarrow> procedure option" where
  "find_migration ctx ms ver = map_option snd (find (\<lambda>e. satisfies ctx ver (fst e)) ms)"

definition migrate ::
  "'w host \<Rightarrow> (version_range, procedure) imap \<Rightarrow> version \<Rightarrow> package_id \<Rightarrow> version \<Rightarrow> volumes \<Rightarrow> ('w, bool) act option" where
  "migrate host ms ver pid pkg_ver vs =
     map_option (\<lambda>p. st_bind (call_world (exec_migration host p pid pkg_ver vs ver)) (exit_or MigrationFailed))
       (find_migration (rpc host) ms ver)"

definition viable_migration ::
  "'w host \<Rightarrow> package_id \<Rightarrow> version \<Rightarrow> manifest \<Rightarrow> manifest \<Rightarrow> ('w, bool) act option" where
  "viable_migration host pid ver man prev =
     (let prev_migration = migrate host (mig_to (m_migrations prev)) ver pid (m_version prev) (m_volumes prev);
          migration = migrate host (mig_from (m_migrations man)) (m_version prev) pid ver (m_volumes man) in
      if newer host (m_version prev) (m_version man)
      then (case prev_migration of Some f \<Rightarrow> Some f | None \<Rightarrow> migration)
      else (case migration of Some f \<Rightarrow> Some f | None \<Rightarrow> prev_migration))"

text \<open>The installed packages that have the package as a current dependency.\<close>

definition current_dependents_of :: "package_id \<Rightarrow> db \<Rightarrow> current_dependents" where
  "current_dependents_of pid db =
     bt_of_list (List.map_filter
       (\<lambda>k. map_option (Pair k) (Option.bind (dependencies_get db k) (\<lambda>ds. bt_get ds pid))) (bt_keys db))"

definition new_entry ::
  "manifest \<Rightarrow> current_dependents \<Rightarrow> (interface_id, interface_addresses) btmap \<Rightarrow> installed_package_data_entry" where
  "new_entry man dependents addrs =
     \<lparr>ip_status = \<lparr>configured = (m_config man = None), main = Stopped, dependency_errors = []\<rparr>,
      ip_manifest = man, ip_system_pointers = [], ip_current_dependents = dependents,
      ip_current_dependencies = required_dependencies (m_dependencies man), ip_interface_addresses = addrs\<rparr>"

text \<open>\<open>BackupActions::restore\<close>; the marketplace url it writes is not part of the model.\<close>

definition backup_restore :: "nat \<Rightarrow> 'w host \<Rightarrow> package_id \<Rightarrow> version \<Rightarrow> manifest \<Rightarrow> ('w, unit) act" where
  "backup_restore fuel host pid ver man =
     st_bind (call_world (exec_restore host (ba_restore (m_backup man)) pid ver
       (bt_insert ''BACKUP'' (VBackup True) (m_volumes man)))) (\<lambda>r.
     st_bind (exit_or Restore r) (\<lambda>_.
     st_bind (call_world (backup_metadata host pid)) (\<lambda>_.
     st_bind (st_get (\<lambda>s. installed_get (sys_db s) pid)) (\<lambda>i.
     st_bind (st_lift (ok_or i db_error)) (\<lambda>entry.
     reconfigure_dependents_with_live_pointers fuel (rpc host) entry)))))"

definition link_new :: "'w host \<Rightarrow> package_id \<Rightarrow> manifest \<Rightarrow> current_dependents \<Rightarrow> ('w, unit) act" where
  "link_new host pid man dependents =
     st_bind (add_dependent_to_current_dependents_lists pid (required_dependencies (m_dependencies man))) (\<lambda>_.
     update_dependency_errors_of_dependents (rpc host) pid dependents)"

definition update_from ::
  "nat \<Rightarrow> 'w host \<Rightarrow> package_id \<Rightarrow> version \<Rightarrow> manifest \<Rightarrow> current_dependents \<Rightarrow> installed_package_data_entry \<Rightarrow>
    ('w, unit) act" where
  "update_from fuel host pid ver man dependents prev =
     st_bind (remove_from_current_dependents_lists pid (ip_current_dependencies prev)) (\<lambda>_.
     st_bind
       (case viable_migration host pid ver man (ip_manifest prev) of
          Some f \<Rightarrow> st_bind f (\<lambda>b. st_return (b \<and> configured (ip_status prev)))
        | None \<Rightarrow> st_return False) (\<lambda>is_configured.
     st_bind
       (if is_configured \<and> m_config man \<noteq> None
        then fresh_maps (configure fuel (rpc host) None False pid None)
        else add_dependent_to_current_dependents_lists pid (required_dependencies (m_dependencies man))) (\<lambda>_.
     st_bind
       (if is_configured \<or> m_config man = None then map_db (main_set (main (ip_status prev)) pid) else st_return ()) (\<lambda>_.
     st_bind (update_dependency_errors_of_dependents (rpc host) pid (bt_of_list (dependents @ ip_current_dependents prev))) (\<lambda>_.
     if m_version (ip_manifest prev) \<noteq> ver
     then cleanup host (m_id (ip_manifest prev)) (m_version (ip_manifest prev)) else st_return ())))))"

text \<open>The transaction of \<open>install_s9pk\<close>, for a package whose files have been unpacked.\<close>

definition install_transaction :: "nat \<Rightarrow> 'w host \<Rightarrow> package_id \<Rightarrow> version \<Rightarrow> manifest \<Rightarrow> ('w, unit) act" where
  "install_transaction fuel host pid ver man =
     st_bind (volumes_install host pid ver (m_volumes man)) (\<lambda>_.
     st_bind (interfaces_install host pid (m_interfaces man)) (\<lambda>addrs.
     st_bind (call_world (manager_add host man)) (\<lambda>_.
     st_bind (st_get (\<lambda>s. current_dependents_of pid (sys_db s))) (\<lambda>dependents.
     st_bind (st_get (\<lambda>s. bt_get (sys_db s) pid)) (\<lambda>pde.
     st_bind (st_lift (ok_or pde db_error)) (\<lambda>prev.
     let installed = new_entry man dependents addrs in
     st_bind (map_db (bt_insert pid (Installed man installed))) (\<lambda>_.
     st_bind (dependency_errors_init (rpc host) man (ip_current_dependencies installed)) (\<lambda>errs.
     st_bind (map_db (errors_set errs pid)) (\<lambda>_.
     st_bind
       (case prev of
          Updating _ old \<Rightarrow> update_from fuel host pid ver man dependents old
        | Restoring _ \<Rightarrow> st_bind (backup_restore fuel host pid ver man) (\<lambda>_. link_new host pid man dependents)
        | _ \<Rightarrow> link_new host pid man dependents) (\<lambda>_.
     reconfigure_dependents_with_live_pointers fuel (rpc host) installed))))))))))"

text \<open>\<open>unpack\<close> validates and unpacks the archive and gives the manifest that is in it.\<close>

definition install_s9pk :: "nat \<Rightarrow> 'w host \<Rightarrow> package_id \<Rightarrow> version \<Rightarrow> ('w, manifest) call \<Rightarrow> ('w, unit) act" where
  "install_s9pk fuel host pid ver unpack =
     st_bind (call_world unpack) (\<lambda>man.
     st_bind (in_transaction True (install_transaction fuel host pid ver man)) (\<lambda>_. st_return ()))"

section \<open>LAN ports\<close>

definition ssl_port_status :: "manifest list \<Rightarrow> (port, bool \<times> package_id) btmap" where
  "ssl_port_status ms =
     fold (\<lambda>m ret. fold (\<lambda>i ret.
       case if_lan_config (snd i) of
         None \<Rightarrow> ret
       | Some cfg \<Rightarrow> fold (\<lambda>e ret. bt_insert (fst e) (lp_ssl (snd e), m_id m) ret) cfg ret) (m_interfaces m) ret) ms []"

definition port_conflict :: "string \<Rightarrow> error" where
  "port_conflict text = Error LanPortConflict (Msg (''SSL Conflict with '' @ text))"

definition check_port :: "(port, bool \<times> package_id) btmap \<Rightarrow> port \<times> lan_port_config \<Rightarrow> (error, unit) res" where
  "check_port ports e =
     (if fst e = 80 \<and> lp_ssl (snd e) \<or> fst e = 443 \<and> \<not> lp_ssl (snd e) then Err (port_conflict ''embassyOS'')
      else (case bt_get ports (fst e) of
              Some (ssl, pkg) \<Rightarrow> if ssl \<noteq> lp_ssl (snd e) then Err (port_conflict (''package: '' @ pkg)) else Ok ()
            | None \<Rightarrow> Ok ()))"

definition check_ports :: "manifest list \<Rightarrow> manifest \<Rightarrow> (error, unit) res" where
  "check_ports existing man =
     rfor (\<lambda>i. case if_lan_config (snd i) of
                 None \<Rightarrow> Ok ()
               | Some cfg \<Rightarrow> rfor (check_port (ssl_port_status existing)) cfg) (m_interfaces man)"

section \<open>The whole installation\<close>

definition download_install_s9pk ::
  "nat \<Rightarrow> 'w host \<Rightarrow> manifest \<Rightarrow> ('w, unit) call \<Rightarrow> ('w, manifest) call \<Rightarrow> ('w, unit) act" where
  "download_install_s9pk fuel host man download unpack =
     (let pid = m_id man in
      st_bind (st_get (\<lambda>s. installed_get (sys_db s) pid \<noteq> None)) (\<lambda>exists.
      st_bind
        (if exists then st_catch (st_bind (stop_impl pid) (\<lambda>m. st_return (Some m))) (\<lambda>_. st_return None)
         else st_return None) (\<lambda>previous_state.
      let restart_if_running =
        (if (case previous_state of Some m \<Rightarrow> running m | None \<Rightarrow> False)
         then start (rpc host) (managers host) pid else st_return ()) in
      st_bind
        (st_catch
          (st_bind (st_get (\<lambda>s. map (\<lambda>e. pde_manifest (snd e)) (sys_db s))) (\<lambda>manifests.
           st_bind (st_lift (check_ports manifests man)) (\<lambda>_.
           st_bind (call_world download) (\<lambda>_.
           install_s9pk fuel host pid (m_version man) unpack))))
          (\<lambda>e.
            st_bind restart_if_running (\<lambda>_.
            st_bind (st_catch (st_bind (in_transaction True (cleanup_failed host pid)) (\<lambda>_. st_return ())) (\<lambda>_. st_return ())) (\<lambda>_.
            st_lift (Err e))))) (\<lambda>_.
      restart_if_running))))"

section \<open>Health checks\<close>

definition health_check_all ::
  "'w host \<Rightarrow> manifest \<Rightarrow> package_id \<Rightarrow> string \<Rightarrow> ('w, health) act" where
  "health_check_all host man pid since =
     st_bind (st_fold (\<lambda>e res.
       st_bind (call_world (exec_health host (snd e) pid (m_version man) (m_volumes man) (fst e) since)) (\<lambda>r.
       st_return (res @ [(fst e, health_check_of r)]))) (m_health_checks man) []) (\<lambda>res.
     st_return (bt_of_list res))"

definition failing_checks :: "health \<Rightarrow> current_dependency_info \<Rightarrow> health" where
  "failing_checks results info =
     bt_of_list (filter (\<lambda>e. fst e \<in> set (cdi_health_checks info)) (filter (\<lambda>e. snd e \<noteq> HSuccess) results))"

definition heal_now :: "'w ctx_ops \<Rightarrow> package_id \<Rightarrow> package_id \<Rightarrow> ('w, unit) act" where
  "heal_now ctx pid d = st_bind (st_get sys_db) (\<lambda>db. heal_transitive (heal_fuel db) ctx pid d)"

text \<open>
  \<open>manager::health::check\<close>; \<open>commit\<close> is the flag that tells whether the manager still wants the results
  when they are there. The results are kept only if the package is still running.
\<close>

definition health_check :: "'w host \<Rightarrow> package_id \<Rightarrow> ('w \<Rightarrow> bool) \<Rightarrow> ('w, unit) act" where
  "health_check host pid commit =
     st_bind (in_transaction True (
       st_bind (st_get sys_db) (\<lambda>db.
       st_bind (st_lift (ok_or (manifest_get db pid) db_error)) (\<lambda>man.
       st_bind (st_lift (ok_or (status_get db pid) db_error)) (\<lambda>status.
       case started (main status) of
         None \<Rightarrow> st_return ()
       | Some since \<Rightarrow>
           st_bind (health_check_all host man pid since) (\<lambda>results.
           st_bind (st_get (\<lambda>s. commit (sys_world s))) (\<lambda>should_commit.
           if \<not> should_commit then st_return ()
           else
             st_bind (st_get sys_db) (\<lambda>db.
             st_bind (st_lift (ok_or (status_get db pid) db_error)) (\<lambda>status.
             st_bind
               (case main status of
                  Running t _ \<Rightarrow> map_db (main_set (Running t results) pid)
                | _ \<Rightarrow> st_return ()) (\<lambda>_.
             st_bind (st_lift (ok_or (dependents_get db pid) db_error)) (\<lambda>dependents.
             st_for (\<lambda>e.
               let failures = failing_checks results (snd e) in
               if failures \<noteq> [] then fresh_maps (break_now (fst e) pid (HealthChecksFailed failures))
               else heal_now (rpc host) (fst e) pid) dependents))))))))))) (\<lambda>_. st_return ())"

end
