(* ===== verification/Lan_Ports.thy ===== *)
theory Lan_Ports
  imports Lifecycle
begin

text \<open>
  The check for conflicting LAN ports at the beginning of an installation (\<^verbatim>\<open>download_install_s9pk\<close> and
  \<^verbatim>\<open>ssl_port_status\<close> of \<^verbatim>\<open>install/mod.rs\<close>), against the ports that the manifests really map.
\<close>

section \<open>The ports a manifest maps\<close>

definition port_entries :: "manifest \<Rightarrow> (port \<times> bool \<times> package_id) list" where
  "port_entries m = concat (map (\<lambda>i. case if_lan_config (snd i) of None \<Rightarrow> []
     | Some cfg \<Rightarrow> map (\<lambda>e. (fst e, lp_ssl (snd e), m_id m)) cfg) (m_interfaces m))"

lemma port_entries_all:
  "(\<forall>(p, ssl, q) \<in> set (port_entries m). P p ssl) \<longleftrightarrow>
   (\<forall>i \<in> set (m_interfaces m). \<forall>e \<in> set (case if_lan_config (snd i) of None \<Rightarrow> [] | Some cfg \<Rightarrow> cfg). P (fst e) (lp_ssl (snd e)))"
proof -
  have "(\<forall>(p, ssl, q) \<in> set (case c of None \<Rightarrow> [] | Some cfg \<Rightarrow> map (\<lambda>e. (fst e, lp_ssl (snd e), m_id m)) cfg). P p ssl) \<longleftrightarrow>
    (\<forall>e \<in> set (case c of None \<Rightarrow> [] | Some cfg \<Rightarrow> cfg). P (fst e) (lp_ssl (snd e)))" for c :: "(port \<times> lan_port_config) list option"
    by (cases c) auto
  then show ?thesis by (simp add: port_entries_def)
qed

lemma fold_port_entries:
  "fold (\<lambda>i ret. case if_lan_config (snd i) of None \<Rightarrow> ret
     | Some cfg \<Rightarrow> fold (\<lambda>e ret. bt_insert (fst e) (lp_ssl (snd e), m_id m) ret) cfg ret) (m_interfaces m) ret =
   fold (\<lambda>e. bt_insert (fst e) (snd e)) (port_entries m) ret"
proof -
  have "fold (\<lambda>i ret. case if_lan_config (snd i) of None \<Rightarrow> ret
      | Some cfg \<Rightarrow> fold (\<lambda>e ret. bt_insert (fst e) (lp_ssl (snd e), m_id m) ret) cfg ret) is ret =
    fold (\<lambda>e. bt_insert (fst e) (snd e)) (concat (map (\<lambda>i. case if_lan_config (snd i) of None \<Rightarrow> []
      | Some cfg \<Rightarrow> map (\<lambda>e. (fst e, lp_ssl (snd e), m_id m)) cfg) is)) ret" for "is" :: interfaces
    by (induction "is" arbitrary: ret) (auto simp: fold_map o_def split: option.splits)
  then show ?thesis by (simp add: port_entries_def)
qed

lemma ssl_port_status_fold:
  "ssl_port_status ms = fold (\<lambda>e. bt_insert (fst e) (snd e)) (concat (map port_entries ms)) []"
proof -
  have "fold (\<lambda>m ret. fold (\<lambda>i ret. case if_lan_config (snd i) of None \<Rightarrow> ret
      | Some cfg \<Rightarrow> fold (\<lambda>e ret. bt_insert (fst e) (lp_ssl (snd e), m_id m) ret) cfg ret) (m_interfaces m) ret) ms ret =
    fold (\<lambda>e. bt_insert (fst e) (snd e)) (concat (map port_entries ms)) ret" for ret
    by (induction ms arbitrary: ret) (simp_all add: fold_port_entries)
  then show ?thesis by (simp add: ssl_port_status_def)
qed

text \<open>The last entry for a port counts.\<close>

lemma bt_get_fold:
  "bt_get (fold (\<lambda>e. bt_insert (fst e) (snd e)) es m) p = (case map_of (rev es) p of Some v \<Rightarrow> Some v | None \<Rightarrow> bt_get m p)"
  by (induction es arbitrary: m) (auto simp: map_add_def split: option.splits)

lemma ssl_port_status_get: "bt_get (ssl_port_status ms) p = map_of (rev (concat (map port_entries ms))) p"
  by (simp add: ssl_port_status_fold bt_get_fold split: option.splits)

definition reserved :: "port \<Rightarrow> bool \<Rightarrow> bool" where
  "reserved p ssl \<longleftrightarrow> p = 80 \<and> ssl \<or> p = 443 \<and> \<not> ssl"

lemma check_port_Ok:
  "check_port ports e = Ok () \<longleftrightarrow> \<not> reserved (fst e) (lp_ssl (snd e)) \<and>
     (\<forall>ssl q. bt_get ports (fst e) = Some (ssl, q) \<longrightarrow> ssl = lp_ssl (snd e))"
  by (auto simp: check_port_def reserved_def split: option.splits)

text \<open>
  The check passes exactly when none of the ports of the new package is used against the reservations of the system and
  each agrees on the use of SSL with the last of the existing manifests, in the order of package ids, that maps the port.
\<close>

theorem check_ports_exact:
  "check_ports existing man = Ok () \<longleftrightarrow>
     list_all (\<lambda>(p, ssl, _). \<not> reserved p ssl \<and>
       (case map_of (rev (concat (map port_entries existing))) p of Some (ssl', _) \<Rightarrow> ssl' = ssl | None \<Rightarrow> True))
       (port_entries man)"
proof -
  have "check_ports existing man = Ok () \<longleftrightarrow>
    (\<forall>i \<in> set (m_interfaces man). \<forall>e \<in> set (case if_lan_config (snd i) of None \<Rightarrow> [] | Some cfg \<Rightarrow> cfg).
      check_port (ssl_port_status existing) e = Ok ())"
  proof -
    have "(case c of None \<Rightarrow> Ok () | Some cfg \<Rightarrow> rfor (check_port ports) cfg) = Ok () \<longleftrightarrow>
      (\<forall>e \<in> set (case c of None \<Rightarrow> [] | Some cfg \<Rightarrow> cfg). check_port ports e = Ok ())" for c ports by (cases c) simp_all
    then show ?thesis by (simp add: check_ports_def)
  qed
  also have "\<dots> \<longleftrightarrow> (\<forall>(p, ssl, q) \<in> set (port_entries man). \<not> reserved p ssl \<and>
      (\<forall>ssl' q. map_of (rev (concat (map port_entries existing))) p = Some (ssl', q) \<longrightarrow> ssl' = ssl))"
    unfolding port_entries_all by (simp add: check_port_Ok ssl_port_status_get)
  also have "\<dots> \<longleftrightarrow> (\<forall>(p, ssl, q) \<in> set (port_entries man). \<not> reserved p ssl \<and>
      (case map_of (rev (concat (map port_entries existing))) p of Some (ssl', _) \<Rightarrow> ssl' = ssl | None \<Rightarrow> True))"
  proof -
    have "(\<forall>ssl' q. x = Some (ssl', q) \<longrightarrow> ssl' = ssl) \<longleftrightarrow> (case x of Some (ssl', _) \<Rightarrow> ssl' = ssl | None \<Rightarrow> True)"
      for x :: "(bool \<times> package_id) option" and ssl by (cases x) auto
    then show ?thesis by (simp only:)
  qed
  finally show ?thesis by (simp add: list_all_iff split_def)
qed

section \<open>The package's own entry\<close>

lemma ports_from_own:
  assumes "e \<in> set cfg" and "(i, iface) \<in> set (m_interfaces man)" and "if_lan_config iface = Some cfg"
  shows "check_port (ssl_port_status (before @ man # after)) e = check_port (ssl_port_status (man # after)) e"
proof -
  have "(fst e, lp_ssl (snd e), m_id man) \<in> set (port_entries man)"
    unfolding port_entries_def using assms by force
  then have "map_of (rev (port_entries man)) (fst e) \<noteq> None"
    using map_of_eq_None_iff [of "rev (port_entries man)" "fst e"] by force
  then have "bt_get (ssl_port_status (before @ man # after)) (fst e) = bt_get (ssl_port_status (man # after)) (fst e)"
    by (auto simp: ssl_port_status_get map_add_def split: option.splits)
  then show ?thesis by (simp add: check_port_def)
qed

text \<open>
  A package that is being installed is itself among the existing manifests when its ports are checked. Its own entries
  replace those of every package with a smaller id, so conflicts with these packages are never found.
\<close>

theorem earlier_packages_not_checked:
  "check_ports (before @ man # after) man = check_ports (man # after) man"
  unfolding check_ports_def
proof (rule rfor_cong [OF refl])
  fix i assume i: "i \<in> set (m_interfaces man)"
  show "(case if_lan_config (snd i) of None \<Rightarrow> Ok () | Some cfg \<Rightarrow> rfor (check_port (ssl_port_status (before @ man # after))) cfg) =
    (case if_lan_config (snd i) of None \<Rightarrow> Ok () | Some cfg \<Rightarrow> rfor (check_port (ssl_port_status (man # after))) cfg)"
    using i ports_from_own [of _ _ "fst i" "snd i" man before after]
    by (auto intro!: rfor_cong [OF refl] split: option.splits)
qed

end
