(* ===== verification/Lifecycle_Laws.thy ===== *)
theory Lifecycle_Laws
  imports Lifecycle
begin

text \<open>
  The package data stay consistent through installation, update, restoration and removal: each of the
  operations, when it commits, leaves the dependents lists exact.
\<close>

section \<open>The parts that leave the database alone\<close>

context world_rel
begin

lemma keeps_handle: "keeps (handle f es)"
  by (auto simp: keeps_def handle_def rel_world split: prod.splits sum.splits)

lemma keeps_on_world: "keeps (on_world f)"
  unfolding on_world_def by (rule keeps_modify) (rule rel_world)

lemma keeps_cleanup: "keeps (cleanup host pid ver)"
  unfolding cleanup_def handle_remove_dir_def by (auto intro!: world_rules keeps_handle keeps_on_world)

lemma keeps_volumes_install: "keeps (volumes_install host pid ver vs)"
  unfolding volumes_install_def by (auto intro!: world_rules split: volume.splits)

lemma keeps_interfaces_install: "keeps (interfaces_install host pid ifs)"
  unfolding interfaces_install_def interface_install_def by (auto intro!: world_rules)

lemma keeps_migration: "viable_migration host pid ver man prev = Some f \<Longrightarrow> keeps f"
  unfolding viable_migration_def migrate_def
  by (auto simp: Let_def intro!: world_rules split: if_splits option.splits)

end

lemma same_dbD: "same_db.rel.keeps f \<Longrightarrow> f s = (r, t) \<Longrightarrow> sys_db t = sys_db s"
  by (drule (1) same_db.rel.keepsD) (simp add: on_db_def)

section \<open>Loops over dependents that change errors only\<close>

lemma packages_errors: "packages.rel.keeps (map_db (errors_set es pid))"
  by (rule packages.keeps_map_db) (rule same_packages_set)

lemma packages_update_errors: "packages.rel.keeps (update_dependency_errors_of_dependents ctx pid deps)"
  unfolding update_dependency_errors_of_dependents_def
  by (auto intro!: packages.rel.world_rules packages.rel.keeps_satisfied packages_errors split: option.splits)

lemma ok_weaken: "packages.rel.keeps f \<Longrightarrow> ok.rel.keeps f"
  by (rule ok.keeps_weaken)

lemma ok_same_db: "same_db.rel.keeps f \<Longrightarrow> ok.rel.keeps f"
  unfolding same_db.rel.keeps_def ok.rel.keeps_def on_db_def by (metis ok.db_refl)

lemma keeps_fresh_maps: "ok.rel.keeps f \<Longrightarrow> ok.rel.keeps (fresh_maps f)"
  unfolding ok.rel.keeps_def on_db_def
proof
  fix s :: "'a sys" assume *: "\<forall>s. keeps_ok (sys_db s) (sys_db (snd (f s)))"
  show "keeps_ok (sys_db s) (sys_db (snd (fresh_maps f s)))"
    using * [rule_format, of "s\<lparr>sys_breakages := [], sys_overrides := []\<rparr>"]
    by (auto simp: fresh_maps_def split: prod.splits)
qed

lemma keeps_ok_reconfigure: "ok.rel.keeps (reconfigure_dependents_with_live_pointers fuel ctx i)"
  unfolding reconfigure_dependents_with_live_pointers_def
  by (auto intro!: ok.rel.keeps_for ok.rel.keeps_basic keeps_fresh_maps ok.keeps_configure)

section \<open>Packages that no list names\<close>

text \<open>Configuring other packages changes neither the dependencies of such a package nor that it is on no list.\<close>

definition unlisted :: "package_id \<Rightarrow> db \<Rightarrow> bool" where
  "unlisted pid db \<longleftrightarrow> (\<forall>q ds. q \<noteq> pid \<longrightarrow> dependents_get db q = Some ds \<longrightarrow> bt_get ds pid = None)"

definition aloof :: "package_id \<Rightarrow> current_dependencies \<Rightarrow> db \<Rightarrow> bool" where
  "aloof pid cds db \<longleftrightarrow> unlisted pid db \<and> dependencies_get db pid = Some cds"

interpretation aloof: configure_inv "aloof pid cds" "- {pid}" for pid cds
proof unfold_locales
  show "aloof pid cds e" if "same_packages d e" "aloof pid cds d" for d e
    using that by (simp add: aloof_def unlisted_def same_packages_def)
  show "aloof pid cds (configured_set b p d)" if "aloof pid cds d" for d b p
    using that by (simp add: aloof_def unlisted_def)
  show "q \<in> - {pid}" if "aloof pid cds d" "p \<in> - {pid}" "dependents_get d p = Some ds" "q \<in> set (bt_keys ds)" for d p ds q
    using that bt_get_None [of ds q] unfolding aloof_def unlisted_def by auto
next
  fix d p m and new :: current_dependencies
  assume aloof: "aloof pid cds d" and p: "p \<in> - {pid}" and new: "bt_ok new"
  have "bt_get ds' pid = None" if q: "q \<noteq> pid" and ds': "dependents_get (relinked p new d) q = Some ds'" for q ds'
  proof -
    obtain ds where ds: "dependents_get d q = Some ds" using ds' dependents_relinked_None [of p new d q] by fastforce
    then have "bt_get ds' pid = bt_get ds pid" using dependents_relinked [OF new ds, of p] ds' p by auto
    then show ?thesis using aloof q ds by (simp add: aloof_def unlisted_def)
  qed
  then show "aloof pid cds (relinked p new d)"
    using aloof p by (simp add: aloof_def unlisted_def dependencies_relinked)
qed

lemma aloof_fresh_maps: "aloof.rel.keeps pid cds f \<Longrightarrow> aloof.rel.keeps pid cds (fresh_maps f)"
  unfolding aloof.rel.keeps_def on_db_def
proof
  fix s :: "'a sys" assume *: "\<forall>s. aloof pid cds (sys_db s) \<longrightarrow> aloof pid cds (sys_db (snd (f s)))"
  show "aloof pid cds (sys_db s) \<longrightarrow> aloof pid cds (sys_db (snd (fresh_maps f s)))"
    using * [rule_format, of "s\<lparr>sys_breakages := [], sys_overrides := []\<rparr>"]
    by (auto simp: fresh_maps_def split: prod.splits)
qed

lemma no_self_pointer [simp]: "\<not> list_ex (live_pointer p p) ptrs"
proof -
  have "\<not> live_pointer p p ptr" for ptr by (cases ptr) auto
  then show ?thesis by (simp add: list_ex_iff)
qed

lemma aloof_reconfigure:
  assumes "m_id (ip_manifest i) = pid"
  shows "aloof.rel.keeps pid cds (reconfigure_dependents_with_live_pointers fuel ctx i)"
  unfolding reconfigure_dependents_with_live_pointers_def assms
  by (auto intro!: aloof.rel.keeps_for aloof.rel.keeps_basic aloof_fresh_maps aloof.keeps_configure)

section \<open>The invariant but for the row of one package\<close>

definition core_ok :: "package_id \<Rightarrow> db \<Rightarrow> bool" where
  "core_ok pid db \<longleftrightarrow> sorted_wrt (<) (bt_keys db) \<and> keyed db \<and> (\<forall>p. p \<noteq> pid \<longrightarrow> linked_row p db) \<and>
     declared db \<and> tidy_but {} db"

lemma core_ok_same: "same_packages d e \<Longrightarrow> core_ok pid d \<Longrightarrow> core_ok pid e"
  by (simp add: same_packages_def core_ok_def keyed_def linked_row_def declared_def tidy_but_def leaving_def)

lemma core_ok_unlisted: "core_ok pid d \<Longrightarrow> unlisted pid d \<Longrightarrow> db_ok_but {pid} {} d"
  by (auto simp: core_ok_def db_ok_but_def linked_but_def listed_row_def unlisted_def)

text \<open>Changes of the one row.\<close>

definition same_but_row :: "package_id \<Rightarrow> db \<Rightarrow> db \<Rightarrow> bool" where
  "same_but_row pid d e \<longleftrightarrow> bt_keys e = bt_keys d \<and> manifest_get e = manifest_get d \<and>
     dependencies_get e = dependencies_get d \<and> removing_get e = removing_get d \<and>
     (\<forall>q ds'. dependents_get e q = Some ds' \<longrightarrow>
        (\<exists>ds. dependents_get d q = Some ds \<and> (\<forall>p. p \<noteq> pid \<longrightarrow> bt_get ds' p = bt_get ds p)))"

lemma core_ok_row:
  assumes "same_but_row pid d e" and "core_ok pid d" and "manifest_get d pid \<noteq> None"
  shows "core_ok pid e"
proof -
  note same = assms(1) [unfolded same_but_row_def]
  have "linked_row p e" if "p \<noteq> pid" for p
    unfolding linked_row_def
  proof (intro allI impI)
    fix q deps ds' assume pq: "p \<noteq> q" "dependencies_get e p = Some deps" "dependents_get e q = Some ds'"
    obtain ds where "dependents_get d q = Some ds" "bt_get ds' p = bt_get ds p" using same pq(3) \<open>p \<noteq> pid\<close> by blast
    then show "bt_get ds' p = bt_get deps q"
      using assms(2) same pq(1,2) \<open>p \<noteq> pid\<close> by (auto simp: core_ok_def linked_row_def)
  qed
  moreover have "tidy_but {} e"
    unfolding tidy_but_def
  proof (intro allI impI)
    fix p q ds' assume p: "p \<noteq> q" "manifest_get e p = None" "dependents_get e q = Some ds'" "bt_get ds' p \<noteq> None"
    have "p \<noteq> pid" using p(2) same assms(3) by auto
    then obtain ds where "dependents_get d q = Some ds" "bt_get ds' p = bt_get ds p" using same p(3) by blast
    then show "leaving e p q \<or> (p, q) \<in> {}"
      using assms(2) same p unfolding core_ok_def tidy_but_def leaving_def by auto
  qed
  ultimately show ?thesis
    using assms(2) same by (simp add: core_ok_def keyed_def declared_def)
qed

lemma fold_frames:
  "manifest_get (fold (remove_dependent pid) qs d) = manifest_get d"
  "dependencies_get (fold (remove_dependent pid) qs d) = dependencies_get d"
  "removing_get (fold (remove_dependent pid) qs d) = removing_get d"
  "bt_keys (fold (remove_dependent pid) qs d) = bt_keys d"
  "stage_get (fold (remove_dependent pid) qs d) = stage_get d"
  "manifest_get (fold (add_dependent pid) es d) = manifest_get d"
  "dependencies_get (fold (add_dependent pid) es d) = dependencies_get d"
  "removing_get (fold (add_dependent pid) es d) = removing_get d"
  "bt_keys (fold (add_dependent pid) es d) = bt_keys d"
  "stage_get (fold (add_dependent pid) es d) = stage_get d"
proof -
  have rem: "manifest_get (remove_dependent pid q d) = manifest_get d \<and>
      dependencies_get (remove_dependent pid q d) = dependencies_get d" for q d
    by (auto simp: remove_dependent_def fun_eq_iff split: option.splits)
  show "manifest_get (fold (remove_dependent pid) qs d) = manifest_get d"
    "dependencies_get (fold (remove_dependent pid) qs d) = dependencies_get d"
    "removing_get (fold (remove_dependent pid) qs d) = removing_get d"
    "bt_keys (fold (remove_dependent pid) qs d) = bt_keys d"
    "stage_get (fold (remove_dependent pid) qs d) = stage_get d"
    by (induction qs arbitrary: d) (auto simp: rem linking_frames)
  have add: "manifest_get (add_dependent pid e d) = manifest_get d \<and>
      dependencies_get (add_dependent pid e d) = dependencies_get d" for e d
    by (auto simp: add_dependent_def fun_eq_iff split: option.splits)
  show "manifest_get (fold (add_dependent pid) es d) = manifest_get d"
    "dependencies_get (fold (add_dependent pid) es d) = dependencies_get d"
    "removing_get (fold (add_dependent pid) es d) = removing_get d"
    "bt_keys (fold (add_dependent pid) es d) = bt_keys d"
    "stage_get (fold (add_dependent pid) es d) = stage_get d"
    by (induction es arbitrary: d) (auto simp: add linking_frames)
qed

lemma row_remove: "same_but_row pid d (fold (remove_dependent pid) qs d)"
  by (auto simp: same_but_row_def fold_frames dependents_remove_all split: if_splits)

lemma row_add: "bt_ok cds \<Longrightarrow> same_but_row pid d (fold (add_dependent pid) cds d)"
  by (auto simp: same_but_row_def fold_frames dependents_add_all split: option.splits)

text \<open>A package that is on no list but of its dependencies gets its row completed.\<close>

lemma add_completes:
  assumes "db_ok_but {pid} {} d" and "dependencies_get d pid = Some cds" and "bt_ok cds"
  shows "db_ok (fold (add_dependent pid) cds d)"
proof -
  let ?e = "fold (add_dependent pid) cds d"
  have listed: "listed_row pid d" using assms(1) by (auto simp: db_ok_but_def linked_but_def)
  have "manifest_get d pid \<noteq> None" using assms(2) by (auto simp: receipt_defs)
  moreover have "core_ok pid d"
    using assms(1) unfolding core_ok_def db_ok_but_def linked_but_def by (metis singletonD)
  ultimately have core: "core_ok pid ?e" using core_ok_row row_add [OF assms(3)] by blast
  have "linked_row pid ?e"
    unfolding linked_row_def
  proof (intro allI impI)
    fix q deps ds' assume q: "pid \<noteq> q" "dependencies_get ?e pid = Some deps" "dependents_get ?e q = Some ds'"
    then have deps: "deps = cds" using assms(2) by (simp add: fold_frames)
    show "bt_get ds' pid = bt_get deps q"
      using q(3) listed q(1) assms(2)
      by (auto simp: deps dependents_add_all [OF assms(3)] listed_row_def split: option.splits)
  qed
  with core show ?thesis unfolding core_ok_def db_ok_but_def linked_but_def by auto
qed

section \<open>Entries that are put in and taken out\<close>

lemma entry_insert:
  "installed_get (bt_insert pid e d) p = (if p = pid then pde_installed e else installed_get d p)"
  "removing_get (bt_insert pid e d) p = (if p = pid then pde_removing e else removing_get d p)"
  by (simp_all add: installed_get_def removing_get_def)

lemma entry_remove:
  "installed_get (bt_remove pid d) p = (if p = pid then None else installed_get d p)"
  "removing_get (bt_remove pid d) p = (if p = pid then None else removing_get d p)"
  by (simp_all add: installed_get_def removing_get_def)

lemma sorted_keys_insert: "sorted_wrt (<) (bt_keys d) \<Longrightarrow> sorted_wrt (<) (bt_keys (bt_insert pid e d))"
  using bt_ok_insert [of d pid e] by (simp add: bt_keys_def)

lemma sorted_keys_remove: "sorted_wrt (<) (bt_keys d) \<Longrightarrow> sorted_wrt (<) (bt_keys (bt_remove pid d))"
  by (simp add: bt_keys_def bt_remove_def sorted_wrt_map sorted_wrt_filter)

text \<open>An entry that is replaced by one with the same installed data and nothing to remove.\<close>

lemma ok_by_gets:
  assumes "db_ok_but N T d" and "sorted_wrt (<) (bt_keys e)"
    and "\<And>p. installed_get e p = installed_get d p" and "\<And>p. removing_get e p = removing_get d p"
  shows "db_ok_but N T e"
proof -
  have "manifest_get e = manifest_get d" "dependents_get e = dependents_get d" "dependencies_get e = dependencies_get d"
    using assms(3) by (simp_all add: receipt_defs fun_eq_iff)
  moreover have "removing_get e = removing_get d" using assms(4) by (rule ext)
  ultimately have "keyed e = keyed d" "linked_but N e = linked_but N d" "declared e = declared d" "tidy_but T e = tidy_but T d"
    by (simp_all add: keyed_def row_defs declared_def tidy_but_def leaving_def)
  then show ?thesis using assms(1,2) by (simp add: db_ok_but_def)
qed

lemma bt_get_dependents_of:
  "bt_get (current_dependents_of pid db) p = Option.bind (dependencies_get db p) (\<lambda>ds. bt_get ds pid)"
proof -
  let ?f = "\<lambda>k. Option.bind (dependencies_get db k) (\<lambda>ds. bt_get ds pid)"
  have all: "bt_get (fold (\<lambda>(k, v). bt_insert k v) (List.map_filter (\<lambda>k. map_option (Pair k) (?f k)) ks) m) p =
      (if p \<in> set ks \<and> ?f p \<noteq> None then ?f p else bt_get m p)" for ks m
  proof (induction ks arbitrary: m)
    case (Cons k ks)
    then show ?case by (cases "?f k") (auto simp: List.map_filter_simps)
  qed (simp add: List.map_filter_simps)
  have mem: "p \<in> set (bt_keys db)" if "?f p \<noteq> None"
    using that bt_get_None [of db p] by (auto simp: receipt_defs installed_get_def)
  show ?thesis
    unfolding current_dependents_of_def bt_of_list_def all using mem by (cases "?f p") simp_all
qed

lemma core_ok_new_entry:
  assumes "db_ok d" and "m_id man = pid" and "removing_get d pid = None"
  shows "core_ok pid (bt_insert pid (Installed man (new_entry man (current_dependents_of pid d) addrs)) d)"
proof -
  let ?i = "new_entry man (current_dependents_of pid d) addrs"
  let ?e = "bt_insert pid (Installed man ?i) d"
  have gets: "manifest_get ?e p = (if p = pid then Some man else manifest_get d p)"
    "dependencies_get ?e p = (if p = pid then Some (required_dependencies (m_dependencies man)) else dependencies_get d p)"
    "dependents_get ?e p = (if p = pid then Some (current_dependents_of pid d) else dependents_get d p)"
    "removing_get ?e p = (if p = pid then None else removing_get d p)" for p
    by (simp_all add: receipt_defs entry_insert new_entry_def)
  have "keyed ?e" using assms(1,2) by (auto simp: keyed_def gets db_ok_but_def)
  moreover have "declared ?e"
    using assms(1) required_keys [of "m_dependencies man"]
    unfolding declared_def gets db_ok_but_def by (auto split: if_splits)
  moreover have "linked_row p ?e" if "p \<noteq> pid" for p
    using assms(1) that unfolding linked_row_def gets
    by (auto simp: bt_get_dependents_of db_ok_but_def linked_but_def linked_row_def)
  moreover have "tidy_but {} ?e"
    using assms(1) dependencies.fetch_None manifest_errors_None unfolding tidy_but_def leaving_def gets
    by (auto simp: bt_get_dependents_of db_ok_but_def tidy_but_def leaving_def receipt_defs bind_eq_Some_conv split: if_splits)
  ultimately show ?thesis
    using assms(1) sorted_keys_insert [of d pid] by (simp add: core_ok_def db_ok_but_def)
qed

section \<open>Installing\<close>

text \<open>The manifests of the installed packages and the stages of all packages stay.\<close>

definition same_frame :: "db \<Rightarrow> db \<Rightarrow> bool" where
  "same_frame d e \<longleftrightarrow> manifest_get e = manifest_get d \<and> stage_get e = stage_get d"

lemma add_lists_run:
  "add_dependent_to_current_dependents_lists pid cds s = (Ok (), s\<lparr>sys_db := fold (add_dependent pid) cds (sys_db s)\<rparr>)"
  by (simp add: add_dependent_to_current_dependents_lists_def st_for_map_db)

lemma remove_lists_run:
  "remove_from_current_dependents_lists pid cds s =
     (Ok (), s\<lparr>sys_db := fold (remove_dependent pid) (bt_keys cds @ [pid]) (sys_db s)\<rparr>)"
  by (simp add: remove_from_current_dependents_lists_def st_for_map_db del: fold_append)

abbreviation new_dependencies :: "manifest \<Rightarrow> current_dependencies" where
  "new_dependencies man \<equiv> required_dependencies (m_dependencies man)"

lemma bt_ok_required: "bt_ok (required_dependencies ds)"
  using required_keys by blast

lemma link_new_ok:
  assumes "link_new host pid man dependents s = (Ok u, t)" and "db_ok_but {pid} {} (sys_db s)"
    and "dependencies_get (sys_db s) pid = Some (new_dependencies man)"
  shows "db_ok (sys_db t) \<and> same_frame (sys_db s) (sys_db t)"
proof -
  let ?s = "s\<lparr>sys_db := fold (add_dependent pid) (new_dependencies man) (sys_db s)\<rparr>"
  have run: "update_dependency_errors_of_dependents (rpc host) pid dependents ?s = (Ok u, t)"
    using assms(1) by (simp add: link_new_def st_bind_eq_Ok add_lists_run)
  have "same_packages (sys_db ?s) (sys_db t)"
    using packages.rel.keepsD [OF packages_update_errors run] by (simp add: on_db_def)
  moreover have "db_ok (sys_db ?s)" using add_completes [OF assms(2,3) bt_ok_required] by simp
  ultimately show ?thesis
    using db_ok_same [of "sys_db t" "sys_db ?s"] by (simp add: same_packages_def same_frame_def fold_frames)
qed

lemma restore_run:
  assumes "backup_restore fuel host pid ver man s = (Ok u, t)"
  shows "\<exists>i s1. sys_db s1 = sys_db s \<and> installed_get (sys_db s) pid = Some i \<and>
    reconfigure_dependents_with_live_pointers fuel (rpc host) i s1 = (Ok u, t)"
proof -
  obtain r1 u1 r2 u2 r3 u3 i where calls:
    "call_world (exec_restore host (ba_restore (m_backup man)) pid ver (bt_insert ''BACKUP'' (VBackup True) (m_volumes man))) s = (Ok r1, u1)"
    "exit_or Restore r1 u1 = (Ok r2, u2)" "call_world (backup_metadata host pid) u2 = (Ok r3, u3)"
    "installed_get (sys_db u3) pid = Some i" "reconfigure_dependents_with_live_pointers fuel (rpc host) i u3 = (Ok u, t)"
    using assms unfolding backup_restore_def st_bind_eq_Ok by (auto simp: st_simps)
  have "sys_db u3 = sys_db s"
    using same_dbD [OF same_db.rel.keeps_call_world calls(1)] same_dbD [OF same_db.rel.keeps_exit_or calls(2)]
      same_dbD [OF same_db.rel.keeps_call_world calls(3)] by simp
  then show ?thesis using calls(4,5) by metis
qed

lemma restore_keeps:
  assumes "backup_restore fuel host pid ver man s = (Ok u, t)" and "db_ok_but {pid} {} (sys_db s)"
    and "aloof pid cds (sys_db s)"
  shows "db_ok_but {pid} {} (sys_db t) \<and> aloof pid cds (sys_db t) \<and> same_frame (sys_db s) (sys_db t)"
proof -
  obtain i s1 where s1: "sys_db s1 = sys_db s" and i: "installed_get (sys_db s) pid = Some i"
    and run: "reconfigure_dependents_with_live_pointers fuel (rpc host) i s1 = (Ok u, t)"
    using restore_run [OF assms(1)] by blast
  have "manifest_get (sys_db s) pid = Some (ip_manifest i)" using i by (simp add: manifest_get_def)
  then have "m_id (ip_manifest i) = pid" using assms(2) unfolding db_ok_but_def keyed_def by blast
  then have "aloof pid cds (sys_db t)"
    using aloof.rel.keepsD [OF aloof_reconfigure run] assms(3) s1 by (simp add: on_db_def)
  moreover have "keeps_ok (sys_db s1) (sys_db t)"
    using ok.rel.keepsD [OF keeps_ok_reconfigure run] by (simp add: on_db_def)
  ultimately show ?thesis using assms(2) s1 by (simp add: keeps_ok_def same_frame_def)
qed

lemma fresh_maps_Ok:
  "fresh_maps f s = (Ok a, t) \<Longrightarrow> \<exists>u. f (s\<lparr>sys_breakages := [], sys_overrides := []\<rparr>) = (Ok a, u) \<and> sys_db t = sys_db u"
  by (auto simp: fresh_maps_def split: prod.splits)

text \<open>An update takes the package from the lists of its previous dependencies before it goes on.\<close>

lemma removed_unlisted:
  assumes "core_ok pid d" and "manifest_get d pid \<noteq> None"
    and "\<And>q ds. q \<noteq> pid \<Longrightarrow> dependents_get d q = Some ds \<Longrightarrow> bt_get old q = None \<Longrightarrow> bt_get ds pid = None"
  shows "db_ok_but {pid} {} (fold (remove_dependent pid) (bt_keys old @ [pid]) d)"
proof (rule core_ok_unlisted)
  show "core_ok pid (fold (remove_dependent pid) (bt_keys old @ [pid]) d)"
    using row_remove assms(1,2) by (rule core_ok_row)
  have "bt_get ds pid = None" if "q \<noteq> pid" "dependents_get (fold (remove_dependent pid) (bt_keys old @ [pid]) d) q = Some ds" for q ds
    using that assms(3) [of q] bt_get_None [of old q]
    by (auto simp: dependents_remove_all simp del: fold_append split: if_splits)
  then show "unlisted pid (fold (remove_dependent pid) (bt_keys old @ [pid]) d)"
    unfolding unlisted_def by blast
qed

lemma update_from_ok:
  assumes "update_from fuel host pid ver man dependents old s = (Ok u, t)"
    and "core_ok pid (sys_db s)" and "manifest_get (sys_db s) pid \<noteq> None"
    and "dependencies_get (sys_db s) pid = Some (new_dependencies man)"
    and "\<And>q ds. q \<noteq> pid \<Longrightarrow> dependents_get (sys_db s) q = Some ds \<Longrightarrow>
      bt_get (ip_current_dependencies old) q = None \<Longrightarrow> bt_get ds pid = None"
  shows "db_ok (sys_db t) \<and> same_frame (sys_db s) (sys_db t)"
proof -
  let ?d = "fold (remove_dependent pid) (bt_keys (ip_current_dependencies old) @ [pid]) (sys_db s)"
  let ?mig = "case viable_migration host pid ver man (ip_manifest old) of
          Some f \<Rightarrow> st_bind f (\<lambda>b. st_return (b \<and> configured (ip_status old))) | None \<Rightarrow> st_return False"
  let ?link = "\<lambda>c. if c \<and> m_config man \<noteq> None then fresh_maps (configure fuel (rpc host) None False pid None)
        else add_dependent_to_current_dependents_lists pid (new_dependencies man)"
  let ?rest = "\<lambda>c. st_bind (if c \<or> m_config man = None then map_db (main_set (main (ip_status old)) pid) else st_return ()) (\<lambda>_.
     st_bind (update_dependency_errors_of_dependents (rpc host) pid (bt_of_list (dependents @ ip_current_dependents old))) (\<lambda>_.
     if m_version (ip_manifest old) \<noteq> ver
     then cleanup host (m_id (ip_manifest old)) (m_version (ip_manifest old)) else st_return ()))"
  have d: "db_ok_but {pid} {} ?d" using removed_unlisted [OF assms(2,3,5)] .
  obtain c s1 u2 s2 where mig: "?mig (s\<lparr>sys_db := ?d\<rparr>) = (Ok c, s1)" and link: "?link c s1 = (Ok u2, s2)"
    and rest: "?rest c s2 = (Ok u, t)"
    using assms(1) unfolding update_from_def by (auto simp: st_bind_eq_Ok remove_lists_run simp del: fold_append)
  have "same_db.rel.keeps ?mig"
    by (auto intro!: same_db.rel.keeps_bind same_db.rel.keeps_basic split: option.splits dest: same_db.rel.keeps_migration)
  from same_dbD [OF this mig] have s1: "sys_db s1 = ?d" by simp
  have "db_ok (sys_db s2) \<and> same_frame (sys_db s) (sys_db s2)"
  proof (cases "c \<and> m_config man \<noteq> None")
    case True
    then obtain v where conf: "configure fuel (rpc host) None False pid None (s1\<lparr>sys_breakages := [], sys_overrides := []\<rparr>) = (Ok u2, v)"
      and v: "sys_db s2 = sys_db v"
      using link by (auto dest: fresh_maps_Ok)
    have "db_ok (sys_db v)" using configure_completes [OF conf, of "{pid}" "{}"] d s1 by simp
    moreover have "same_frame ?d (sys_db v)"
      using ok.rel.keepsD [OF ok.keeps_configure conf] s1 by (simp add: on_db_def keeps_ok_def same_frame_def)
    ultimately show ?thesis using v by (simp add: same_frame_def fold_frames del: fold_append)
  next
    case False
    then have "sys_db s2 = fold (add_dependent pid) (new_dependencies man) ?d"
      using link s1 by (auto simp: add_lists_run)
    then show ?thesis
      using add_completes [OF d, of "new_dependencies man"] assms(4) bt_ok_required
      by (simp add: same_frame_def fold_frames del: fold_append)
  qed
  moreover have "ok.rel.keeps (?rest c)"
    by (auto intro!: ok.rel.keeps_bind ok.rel.keeps_basic ok.keeps_map_db keeps_ok_main ok_weaken [OF packages_update_errors]
        ok.rel.keeps_cleanup)
  from ok.rel.keepsD [OF this rest] have "keeps_ok (sys_db s2) (sys_db t)" by (simp add: on_db_def)
  ultimately show ?thesis by (simp add: keeps_ok_def same_frame_def)
qed

definition transient :: "package_data_entry \<Rightarrow> bool" where
  "transient e \<longleftrightarrow> (case e of Installing _ \<Rightarrow> True | Updating _ _ \<Rightarrow> True | Restoring _ \<Rightarrow> True | _ \<Rightarrow> False)"

lemma install_transaction_run:
  assumes "install_transaction fuel host pid ver man s = (Ok u, t)"
  shows "\<exists>addrs prev errs s1 s2. sys_db s1 = errors_set errs pid
      (bt_insert pid (Installed man (new_entry man (current_dependents_of pid (sys_db s)) addrs)) (sys_db s)) \<and>
    bt_get (sys_db s) pid = Some prev \<and>
    (case prev of
       Updating _ old \<Rightarrow> update_from fuel host pid ver man (current_dependents_of pid (sys_db s)) old
     | Restoring _ \<Rightarrow> st_bind (backup_restore fuel host pid ver man) (\<lambda>_. link_new host pid man (current_dependents_of pid (sys_db s)))
     | _ \<Rightarrow> link_new host pid man (current_dependents_of pid (sys_db s))) s1 = (Ok (), s2) \<and>
    reconfigure_dependents_with_live_pointers fuel (rpc host) (new_entry man (current_dependents_of pid (sys_db s)) addrs) s2 = (Ok u, t)"
proof -
  obtain u1 s1 addrs s2 u3 s3 where calls: "volumes_install host pid ver (m_volumes man) s = (Ok u1, s1)"
    "interfaces_install host pid (m_interfaces man) s1 = (Ok addrs, s2)" "call_world (manager_add host man) s2 = (Ok u3, s3)"
    and rest: "st_bind (st_get (\<lambda>s. current_dependents_of pid (sys_db s))) (\<lambda>dependents.
     st_bind (st_get (\<lambda>s. bt_get (sys_db s) pid)) (\<lambda>pde.
     st_bind (st_lift (ok_or pde db_error)) (\<lambda>prev.
     let installed = new_entry man dependents addrs in
     st_bind (map_db (bt_insert pid (Installed man installed))) (\<lambda>_.
     st_bind (dependency_errors_init (rpc host) man (ip_current_dependencies installed)) (\<lambda>errs.
     st_bind (map_db (errors_set errs pid)) (\<lambda>_.
     st_bind
       (case prev of
          Updating _ old \<Rightarrow> update_from fuel host pid ver man dependents old
        | Restoring _ \<Rightarrow> st_bind (backup_restore fuel host pid ver man) (\<lambda>_. link_new host pid man dependents)
        | _ \<Rightarrow> link_new host pid man dependents) (\<lambda>_.
     reconfigure_dependents_with_live_pointers fuel (rpc host) installed))))))) s3 = (Ok u, t)"
    using assms unfolding install_transaction_def st_bind_eq_Ok by blast
  have s3: "sys_db s3 = sys_db s"
    using same_dbD [OF same_db.rel.keeps_volumes_install calls(1)] same_dbD [OF same_db.rel.keeps_interfaces_install calls(2)]
      same_dbD [OF same_db.rel.keeps_call_world calls(3)] by simp
  let ?i = "new_entry man (current_dependents_of pid (sys_db s)) addrs"
  let ?s4 = "s3\<lparr>sys_db := bt_insert pid (Installed man ?i) (sys_db s)\<rparr>"
  obtain prev errs s5 s7 where prev: "bt_get (sys_db s) pid = Some prev"
    and init: "dependency_errors_init (rpc host) man (ip_current_dependencies ?i) ?s4 = (Ok errs, s5)"
    and branch: "(case prev of
       Updating _ old \<Rightarrow> update_from fuel host pid ver man (current_dependents_of pid (sys_db s)) old
     | Restoring _ \<Rightarrow> st_bind (backup_restore fuel host pid ver man) (\<lambda>_. link_new host pid man (current_dependents_of pid (sys_db s)))
     | _ \<Rightarrow> link_new host pid man (current_dependents_of pid (sys_db s))) (s5\<lparr>sys_db := errors_set errs pid (sys_db s5)\<rparr>) = (Ok (), s7)"
    and final: "reconfigure_dependents_with_live_pointers fuel (rpc host) ?i s7 = (Ok u, t)"
    using rest unfolding st_bind_eq_Ok st_simps Let_def map_db_step by (auto simp: s3)
  have "sys_db s5 = sys_db ?s4" using same_dbD [OF same_db.rel.keeps_init init] .
  then show ?thesis using prev branch final by (intro exI [of _ addrs] exI [of _ prev] exI [of _ errs] exI) auto
qed

lemma tidy_absent:
  assumes "tidy_but {} d" and "installed_get d p = None" and "removing_get d p = None"
    and "q \<noteq> p" and "dependents_get d q = Some ds"
  shows "bt_get ds p = None"
proof -
  have m: "manifest_get d p = None" and l: "\<not> leaving d p q" using assms(2,3) by (simp_all add: manifest_get_def leaving_def)
  show ?thesis
    using assms(1) [unfolded tidy_but_def, rule_format, OF assms(4) [symmetric] m assms(5)] l by (cases "bt_get ds p") auto
qed

lemma linked_rowD:
  "linked_row p d \<Longrightarrow> p \<noteq> q \<Longrightarrow> dependencies_get d p = Some deps \<Longrightarrow> dependents_get d q = Some ds \<Longrightarrow>
     bt_get ds p = bt_get deps q"
  by (simp add: linked_row_def)

lemma install_transaction_ok:
  assumes "install_transaction fuel host pid ver man s = (Ok u, t)" and "db_ok (sys_db s)" and "m_id man = pid"
    and "bt_get (sys_db s) pid = Some e" and "transient e"
  shows "db_ok (sys_db t) \<and> manifest_get (sys_db t) = (manifest_get (sys_db s))(pid \<mapsto> man) \<and>
    stage_get (sys_db t) = (stage_get (sys_db s))(pid \<mapsto> IsInstalled man)"
proof -
  let ?ds = "current_dependents_of pid (sys_db s)"
  obtain addrs errs s1 s2 where s1: "sys_db s1 = errors_set errs pid
      (bt_insert pid (Installed man (new_entry man ?ds addrs)) (sys_db s))"
    and branch: "(case e of
       Updating _ old \<Rightarrow> update_from fuel host pid ver man ?ds old
     | Restoring _ \<Rightarrow> st_bind (backup_restore fuel host pid ver man) (\<lambda>_. link_new host pid man ?ds)
     | _ \<Rightarrow> link_new host pid man ?ds) s1 = (Ok (), s2)"
    and final: "reconfigure_dependents_with_live_pointers fuel (rpc host) (new_entry man ?ds addrs) s2 = (Ok u, t)"
    using install_transaction_run [OF assms(1)] unfolding assms(4) option.inject by metis
  let ?d = "bt_insert pid (Installed man (new_entry man ?ds addrs)) (sys_db s)"
  have gone: "removing_get (sys_db s) pid = None"
    using assms(4,5) by (cases e) (auto simp: removing_get_def transient_def)
  have same: "same_packages ?d (sys_db s1)" by (simp add: s1 same_packages_set)
  have core: "core_ok pid (sys_db s1)"
    using core_ok_same [OF same] core_ok_new_entry [OF assms(2,3) gone] .
  have d: "dependencies_get ?d pid = Some (new_dependencies man)" "manifest_get ?d = (manifest_get (sys_db s))(pid \<mapsto> man)"
    "\<And>q. q \<noteq> pid \<Longrightarrow> dependents_get ?d q = dependents_get (sys_db s) q"
    "stage_get ?d = (stage_get (sys_db s))(pid \<mapsto> IsInstalled man)"
    by (auto simp: receipt_defs entry_insert new_entry_def stage_get_def)
  have g: "dependencies_get (sys_db s1) pid = Some (new_dependencies man)"
    "manifest_get (sys_db s1) = (manifest_get (sys_db s))(pid \<mapsto> man)"
    "\<And>q. q \<noteq> pid \<Longrightarrow> dependents_get (sys_db s1) q = dependents_get (sys_db s) q"
    "stage_get (sys_db s1) = (stage_get (sys_db s))(pid \<mapsto> IsInstalled man)"
    using same d by (simp_all add: same_packages_def)
  have fresh: "unlisted pid (sys_db s1)" if "installed_get (sys_db s) pid = None"
    using assms(2) tidy_absent [OF _ that gone] g(3) by (simp add: unlisted_def db_ok_but_def)
  have "db_ok (sys_db s2) \<and> same_frame (sys_db s1) (sys_db s2)"
  proof (cases e)
    case (Installing m)
    then have "unlisted pid (sys_db s1)" using assms(4) by (intro fresh) (simp add: installed_get_def)
    then show ?thesis using branch Installing link_new_ok core_ok_unlisted [OF core] g(1) by simp
  next
    case (Restoring m)
    then have un: "unlisted pid (sys_db s1)" using assms(4) by (intro fresh) (simp add: installed_get_def)
    obtain v s3 where res: "backup_restore fuel host pid ver man s1 = (Ok v, s3)" and lnk: "link_new host pid man ?ds s3 = (Ok (), s2)"
      using branch Restoring by (auto simp: st_bind_eq_Ok)
    have "db_ok_but {pid} {} (sys_db s3) \<and> aloof pid (new_dependencies man) (sys_db s3) \<and> same_frame (sys_db s1) (sys_db s3)"
      using restore_keeps [OF res core_ok_unlisted [OF core un]] un g(1) by (simp add: aloof_def)
    then show ?thesis using link_new_ok [OF lnk] by (simp add: aloof_def same_frame_def)
  next
    case (Updating m old)
    have old: "dependencies_get (sys_db s) pid = Some (ip_current_dependencies old)"
      using assms(4) Updating by (simp add: installed_get_def dependencies_get_def)
    have row: "linked_row pid (sys_db s)" using assms(2) by (simp add: db_ok_but_def linked_but_def)
    have "bt_get ds pid = None" if "q \<noteq> pid" "dependents_get (sys_db s1) q = Some ds" "bt_get (ip_current_dependencies old) q = None" for q ds
      using linked_rowD [OF row _ old, of q ds] that g(3) by simp
    then show ?thesis
      using branch Updating update_from_ok [OF _ core _ g(1)] g(2) by simp
  qed (use assms(5) in \<open>auto simp: transient_def\<close>)
  moreover have "keeps_ok (sys_db s2) (sys_db t)"
    using ok.rel.keepsD [OF keeps_ok_reconfigure final] by (simp add: on_db_def)
  ultimately show ?thesis using g(2,4) by (simp add: keeps_ok_def same_frame_def)
qed

section \<open>Removing\<close>

lemma tidyD:
  "tidy_but T d \<Longrightarrow> p \<noteq> q \<Longrightarrow> manifest_get d p = None \<Longrightarrow> dependents_get d q = Some ds \<Longrightarrow> bt_get ds p \<noteq> None \<Longrightarrow>
     leaving d p q \<or> (p, q) \<in> T"
  by (simp add: tidy_but_def)

lemma ok_entry_removed:
  assumes "db_ok d" and "removing_get d pid = Some i"
  shows "db_ok_but {} {(pid, q) |q. bt_get (ip_current_dependencies i) q \<noteq> None} (bt_remove pid d)"
proof -
  let ?e = "bt_remove pid d"
  have "installed_get d pid = None"
    using assms(2) by (cases "bt_get d pid") (auto simp: removing_get_def installed_get_def elim: pde_removing.elims)
  then have inst: "installed_get ?e = installed_get d" by (auto simp: entry_remove fun_eq_iff)
  then have gets: "manifest_get ?e = manifest_get d" "dependents_get ?e = dependents_get d" "dependencies_get ?e = dependencies_get d"
    by (simp_all add: receipt_defs fun_eq_iff)
  have "tidy_but {(pid, q) |q. bt_get (ip_current_dependencies i) q \<noteq> None} ?e"
    unfolding tidy_but_def gets
  proof (intro allI impI)
    fix p q ds assume "p \<noteq> q" "manifest_get d p = None" "dependents_get d q = Some ds" "bt_get ds p \<noteq> None"
    then have "leaving d p q" using assms(1) tidyD [of "{}" d p q ds] by (simp add: db_ok_but_def)
    then show "leaving ?e p q \<or> (p, q) \<in> {(pid, q) |q. bt_get (ip_current_dependencies i) q \<noteq> None}"
      using assms(2) by (auto simp: leaving_def entry_remove)
  qed
  moreover have "keyed ?e" using assms(1) by (auto simp: db_ok_but_def keyed_def gets entry_remove)
  ultimately show ?thesis
    using assms(1) sorted_keys_remove [of d pid] by (simp add: db_ok_but_def row_defs declared_def gets)
qed

lemma ok_unlist:
  assumes "db_ok_but {} {(pid, q) |q. bt_get deps q \<noteq> None} d" and "manifest_get d pid = None" and "removing_get d pid = None"
  shows "db_ok (fold (remove_dependent pid) (bt_keys deps @ [pid]) d)"
    and "dependents_get (fold (remove_dependent pid) (bt_keys deps @ [pid]) d) q = Some ds \<Longrightarrow> bt_get ds pid = None"
proof -
  let ?e = "fold (remove_dependent pid) (bt_keys deps @ [pid]) d"
  note gets = fold_frames(1-5) [of pid "bt_keys deps @ [pid]" d]
  have lists: "\<exists>ds. dependents_get d q = Some ds \<and> (\<forall>p. p \<noteq> pid \<longrightarrow> bt_get ds' p = bt_get ds p) \<and>
      (bt_get ds' pid \<noteq> None \<longrightarrow> q \<noteq> pid \<and> bt_get deps q = None \<and> bt_get ds pid \<noteq> None)"
    if "dependents_get ?e q = Some ds'" for q ds'
    using that bt_get_None [of deps q] by (auto simp: dependents_remove_all simp del: fold_append split: if_splits)
  have tidy: "tidy_but {(pid, q) |q. bt_get deps q \<noteq> None} d" using assms(1) by (simp add: db_ok_but_def)
  have none: "bt_get ds' pid = None" if ds': "dependents_get ?e q = Some ds'" for q ds'
  proof (rule ccontr)
    assume "bt_get ds' pid \<noteq> None"
    then obtain ds where "dependents_get d q = Some ds" "q \<noteq> pid" "bt_get deps q = None" "bt_get ds pid \<noteq> None"
      using lists [OF ds'] by auto
    then show False using tidyD [OF tidy, of pid q ds] assms(2,3) by (auto simp: leaving_def)
  qed
  then show "dependents_get ?e q = Some ds \<Longrightarrow> bt_get ds pid = None" .
  have "linked_row p ?e" for p
    unfolding linked_row_def
  proof (intro allI impI)
    fix q deps' ds' assume q: "p \<noteq> q" "dependencies_get ?e p = Some deps'" "dependents_get ?e q = Some ds'"
    have "manifest_get d p \<noteq> None" using q(2) unfolding gets by (auto simp: receipt_defs)
    then have "p \<noteq> pid" using assms(2) by auto
    obtain ds where ds: "dependents_get d q = Some ds" "bt_get ds' p = bt_get ds p" using lists [OF q(3)] \<open>p \<noteq> pid\<close> by auto
    have "linked_row p d" using assms(1) by (simp add: db_ok_but_def linked_but_def)
    then show "bt_get ds' p = bt_get deps' q"
      using linked_rowD [of p d q deps' ds] q(1,2) ds unfolding gets by simp
  qed
  moreover have "tidy_but {} ?e"
    unfolding tidy_but_def
  proof (intro allI impI)
    fix p q ds' assume p: "p \<noteq> q" "manifest_get ?e p = None" "dependents_get ?e q = Some ds'" "bt_get ds' p \<noteq> None"
    have "p \<noteq> pid" using none [OF p(3)] p(4) by auto
    then obtain ds where "dependents_get d q = Some ds" "bt_get ds' p = bt_get ds p" using lists [OF p(3)] by auto
    then have "leaving d p q \<or> (p, q) \<in> {(pid, q) |q. bt_get deps q \<noteq> None}"
      using tidyD [OF tidy, of p q ds] p(1,2,4) unfolding gets by simp
    then show "leaving ?e p q \<or> (p, q) \<in> {}" using \<open>p \<noteq> pid\<close> unfolding leaving_def gets by auto
  qed
  ultimately show "db_ok ?e"
    using assms(1) by (simp add: db_ok_but_def linked_but_def keyed_def declared_def gets del: fold_append)
qed

lemma bt_insert_twice: "bt_insert k v (bt_insert k v m) = bt_insert k v m"
  by (induction m) auto

lemma mark_uninstalled_twice: "mark_uninstalled pid ms p (mark_uninstalled pid ms p es) = mark_uninstalled pid ms p es"
  by (auto simp: mark_uninstalled_def bt_insert_twice split: option.splits)

lemma errors_marked:
  "errors_get (errors.rewrite_all (mark_uninstalled pid ms) ks db) p =
     (if p \<in> set ks then map_option (mark_uninstalled pid ms p) (errors_get db p) else errors_get db p)"
  unfolding errors.rewrite_all_def
proof (induction ks arbitrary: db)
  case (Cons k ks)
  then show ?case
    by (cases "errors_get db k")
       (auto simp: errors.fetch_store option.map_comp o_def mark_uninstalled_twice)
qed simp

lemma marked_packages: "same_packages db (errors.rewrite_all g ks db)"
  unfolding errors.rewrite_all_def
proof (induction ks arbitrary: db)
  case (Cons k ks)
  have "same_packages db (case errors_get db k of Some v \<Rightarrow> errors_set (g k v) k db | None \<Rightarrow> db)"
    by (auto simp: same_packages_set packages.db_refl split: option.splits)
  from packages.db_trans [OF this Cons.IH] show ?case by simp
qed (simp add: packages.db_refl)

lemma uninstall_run:
  assumes "uninstall fuel host pid s = (Ok u, t)"
  shows "\<exists>i s3 s4. removing_get (sys_db s) pid = Some i \<and> sys_db s3 = bt_remove pid (sys_db s) \<and>
    reconfigure_dependents_with_live_pointers fuel (rpc host) i s3 = (Ok (), s4) \<and>
    (\<exists>s5 s6. sys_db s5 = fold (remove_dependent (m_id (ip_manifest i))) (bt_keys (ip_current_dependencies i) @ [m_id (ip_manifest i)]) (sys_db s4) \<and>
      update_dependency_errors_of_dependents (rpc host) (m_id (ip_manifest i)) (ip_current_dependents i) s5 = (Ok (), s6) \<and>
      sys_db t = sys_db s6)"
proof -
  let ?s = "s\<lparr>sys_breakages := [], sys_overrides := []\<rparr>"
  obtain i s1 s4 s6 f s7 w where i: "removing_get (sys_db s) pid = Some i"
    and cl: "cleanup host (m_id (ip_manifest i)) (m_version (ip_manifest i)) ?s = (Ok (), s1)"
    and re: "reconfigure_dependents_with_live_pointers fuel (rpc host) i (s1\<lparr>sys_db := bt_remove pid (sys_db s1)\<rparr>) = (Ok (), s4)"
    and up: "update_dependency_errors_of_dependents (rpc host) (m_id (ip_manifest i)) (ip_current_dependents i)
      (s4\<lparr>sys_db := fold (remove_dependent (m_id (ip_manifest i))) (bt_keys (ip_current_dependencies i) @ [m_id (ip_manifest i)]) (sys_db s4)\<rparr>) = (Ok (), s6)"
    and fs: "on_world f s6 = (Ok (), s7)" and tor: "call_world (tor_delete host (m_id (ip_manifest i))) s7 = (Ok (), w)"
    and t: "sys_db t = sys_db w"
    using assms unfolding uninstall_def Let_def st_bind_eq_Ok in_transaction_Ok st_simps map_db_step remove_lists_run
    by (auto simp del: fold_append)
  have "sys_db s1 = sys_db s" using same_dbD [OF same_db.rel.keeps_cleanup cl] by simp
  moreover have "sys_db w = sys_db s6"
    using same_dbD [OF same_db.rel.keeps_on_world fs] same_dbD [OF same_db.rel.keeps_call_world tor] by simp
  ultimately show ?thesis using i re up t by (intro exI [of _ i] exI conjI) auto
qed

lemma uninstall_effect:
  assumes "uninstall fuel host pid s = (Ok u, t)" and "db_ok (sys_db s)"
  shows "db_ok (sys_db t)" and "bt_get (sys_db t) pid = None"
    and "dependents_get (sys_db t) q = Some ds \<Longrightarrow> bt_get ds pid = None"
    and "manifest_get (sys_db t) = manifest_get (sys_db s)"
    and "removing_get (sys_db s) pid = Some i \<Longrightarrow> bt_get (ip_current_dependents i) p \<noteq> None \<Longrightarrow>
      manifest_get (sys_db t) p = Some m \<Longrightarrow>
      bt_get (errs (sys_db t) p) pid = (if bt_get (m_dependencies m) pid \<noteq> None then Some NotInstalled else None)"
proof -
  obtain i s3 s4 s5 s6 where i: "removing_get (sys_db s) pid = Some i" and s3: "sys_db s3 = bt_remove pid (sys_db s)"
    and re: "reconfigure_dependents_with_live_pointers fuel (rpc host) i s3 = (Ok (), s4)"
    and s5: "sys_db s5 = fold (remove_dependent (m_id (ip_manifest i))) (bt_keys (ip_current_dependencies i) @ [m_id (ip_manifest i)]) (sys_db s4)"
    and up: "update_dependency_errors_of_dependents (rpc host) (m_id (ip_manifest i)) (ip_current_dependents i) s5 = (Ok (), s6)"
    and t: "sys_db t = sys_db s6"
    using uninstall_run [OF assms(1)] by blast
  have eid: "m_id (ip_manifest i) = pid" using assms(2) i by (auto simp: db_ok_but_def keyed_def)
  have gone: "installed_get (sys_db s) pid = None"
    using i by (cases "bt_get (sys_db s) pid") (auto simp: removing_get_def installed_get_def elim: pde_removing.elims)
  have keep: "keeps_ok (bt_remove pid (sys_db s)) (sys_db s4)"
    using ok.rel.keepsD [OF keeps_ok_reconfigure re] s3 by (simp add: on_db_def)
  let ?T = "{(pid, q) |q. bt_get (ip_current_dependencies i) q \<noteq> None}"
  have ok4: "db_ok_but {} ?T (sys_db s4)" using ok_entry_removed [OF assms(2) i] keep unfolding keeps_ok_def by blast
  have g4: "manifest_get (sys_db s4) = manifest_get (sys_db s)" "removing_get (sys_db s4) pid = None"
    "bt_keys (sys_db s4) = bt_keys (bt_remove pid (sys_db s))"
    using keep gone by (auto simp: keeps_ok_def fun_eq_iff manifest_get_def entry_remove)
  have m4: "manifest_get (sys_db s4) pid = None" using g4(1) gone by (simp add: manifest_get_def)
  note un = ok_unlist [OF ok4 m4 g4(2)]
  have ok5: "db_ok (sys_db s5)" using un(1) s5 eid by simp
  have m5: "manifest_get (sys_db s5) = manifest_get (sys_db s)" using s5 g4(1) by (simp add: fold_frames del: fold_append)
  have k5: "bt_keys (sys_db s5) = bt_keys (bt_remove pid (sys_db s))" using s5 g4(3) by (simp add: fold_frames del: fold_append)
  have "manifest_get (sys_db s5) pid = None" using m5 gone by (simp add: manifest_get_def)
  then have "status_get (sys_db s5) pid = None" by (simp add: receipt_defs)
  from update_uninstalled [OF this, of "rpc host" "ip_current_dependents i"]
  have s6: "sys_db s6 = errors.rewrite_all (mark_uninstalled pid (manifest_get (sys_db s5))) (bt_keys (ip_current_dependents i)) (sys_db s5)"
    using up eid by auto
  then have same: "same_packages (sys_db s5) (sys_db t)" by (simp add: t marked_packages)
  show "db_ok (sys_db t)" using ok5 same db_ok_same [of "sys_db t" "sys_db s5"] by (simp add: same_packages_def)
  show "manifest_get (sys_db t) = manifest_get (sys_db s)" using same m5 by (simp add: same_packages_def)
  have "bt_keys (sys_db t) = bt_keys (bt_remove pid (sys_db s))" using same k5 by (simp add: same_packages_def)
  then show "bt_get (sys_db t) pid = None"
    using bt_get_None [of "sys_db t" pid] bt_get_None [of "bt_remove pid (sys_db s)" pid] by simp
  show "bt_get ds pid = None" if "dependents_get (sys_db t) q = Some ds"
    using un(2) [of q ds] that same s5 eid by (simp add: same_packages_def)
  show "bt_get (errs (sys_db t) p) pid = (if bt_get (m_dependencies m) pid \<noteq> None then Some NotInstalled else None)"
    if "removing_get (sys_db s) pid = Some i'" "bt_get (ip_current_dependents i') p \<noteq> None" "manifest_get (sys_db t) p = Some m" for i' p m
  proof -
    have "i' = i" using that(1) i by simp
    then have "p \<in> set (bt_keys (ip_current_dependents i))" using that(2) bt_get_None [of "ip_current_dependents i" p] by auto
    moreover have "manifest_get (sys_db s5) p = Some m" using that(3) same by (simp add: same_packages_def)
    moreover then obtain es where "errors_get (sys_db s5) p = Some es" using manifest_errors_None [of "sys_db s5" p] by auto
    ultimately show ?thesis by (simp add: t s6 errs_def errors_marked mark_uninstalled_def)
  qed
qed

end
