(* ===== verification/Lifecycle_Steps.thy ===== *)
theory Lifecycle_Steps
  imports Lifecycle_Laws
begin

text \<open>
  The backend as a transition system over the package data: every command and every background task is
  a step. The package data of every reachable state are consistent, and packages move through their
  stages along the intended edges only.
\<close>

section \<open>Transactions\<close>

lemma commit_cases:
  assumes "st_bind (in_transaction True f) (\<lambda>_. st_return ()) s = (r, t)"
  obtains (committed) a u where "f (s\<lparr>sys_breakages := [], sys_overrides := []\<rparr>) = (Ok a, u)" "r = Ok ()" "sys_db t = sys_db u"
  | (aborted) "\<not> is_ok r" "sys_db t = sys_db s"
proof -
  obtain r1 t1 where run: "in_transaction True f s = (r1, t1)" by fastforce
  show thesis
  proof (cases r1)
    case (Ok x)
    then obtain a u where "f (s\<lparr>sys_breakages := [], sys_overrides := []\<rparr>) = (Ok a, u)" "sys_db t1 = sys_db u"
      using run by (auto simp: in_transaction_Ok)
    then show thesis using assms run Ok by (intro committed) (auto simp: st_return_eq)
  qed (use in_transaction_abort [OF run] assms run in \<open>auto simp: world_only_def intro: aborted\<close>)
qed

section \<open>Stages\<close>

text \<open>
  How the stage of a package may change, with an absent package as \<open>None\<close>: the changes that any command may
  bring about, and those that are left to the task that owns a package in a transient stage.
\<close>

inductive stage_enter :: "stage option \<Rightarrow> stage option \<Rightarrow> bool" where
  stay: "stage_enter x x"
| install: "stage_enter None (Some (IsInstalling m))"
| restore: "stage_enter None (Some (IsRestoring m))"
| update: "stage_enter (Some (IsInstalled m)) (Some (IsUpdating m'))"
| remove: "stage_enter (Some (IsInstalled m)) (Some (IsRemoving m))"

inductive stage_leave :: "stage option \<Rightarrow> stage option \<Rightarrow> bool" where
  installed: "stage_leave (Some (IsInstalling m)) (Some (IsInstalled m'))"
| restored: "stage_leave (Some (IsRestoring m)) (Some (IsInstalled m'))"
| updated: "stage_leave (Some (IsUpdating m)) (Some (IsInstalled m'))"
| install_failed: "stage_leave (Some (IsInstalling m)) None"
| restore_failed: "stage_leave (Some (IsRestoring m)) None"
| removed: "stage_leave (Some (IsRemoving m)) None"

inductive_simps stage_enter_simps:
  "stage_enter (Some (IsInstalling m)) x" "stage_enter (Some (IsRestoring m)) x"
  "stage_enter (Some (IsUpdating m)) x" "stage_enter (Some (IsRemoving m)) x"

text \<open>
  Consistent package data stay so, and stages change as allowed, where only the packages of a given set may
  leave a transient stage.
\<close>

definition sound_step :: "package_id set \<Rightarrow> db \<Rightarrow> db \<Rightarrow> bool" where
  "sound_step own d e \<longleftrightarrow> (db_ok d \<longrightarrow> db_ok e) \<and>
     (\<forall>p. stage_enter (stage_get d p) (stage_get e p) \<or> p \<in> own \<and> stage_leave (stage_get d p) (stage_get e p))"

text \<open>The half about the stages, which does not depend on the consistency of the data.\<close>

definition stage_step :: "package_id set \<Rightarrow> db \<Rightarrow> db \<Rightarrow> bool" where
  "stage_step own d e \<longleftrightarrow>
     (\<forall>p. stage_enter (stage_get d p) (stage_get e p) \<or> p \<in> own \<and> stage_leave (stage_get d p) (stage_get e p))"

lemma sound_stage: "sound_step own d e \<Longrightarrow> stage_step own d e"
  by (simp add: sound_step_def stage_step_def)

lemma stage_refl: "stage_step own d d"
  by (simp add: stage_step_def stage_enter.stay)

lemma sound_refl: "sound_step own d d"
  by (simp add: sound_step_def stage_enter.stay)

lemma sound_keeps: "keeps_ok d e \<Longrightarrow> sound_step own d e"
  by (simp add: sound_step_def keeps_ok_def stage_enter.stay)

lemma sound_entry:
  assumes "\<And>p. p \<noteq> pid \<Longrightarrow> stage_get e p = stage_get d p"
    and "stage_enter (stage_get d pid) (stage_get e pid) \<or> pid \<in> own \<and> stage_leave (stage_get d pid) (stage_get e pid)"
    and "db_ok d \<Longrightarrow> db_ok e"
  shows "sound_step own d e"
  unfolding sound_step_def using assms by (metis stage_enter.stay)

lemma stage_insert: "stage_get (bt_insert pid e d) p = (if p = pid then Some (pde_stage e) else stage_get d p)"
  by (simp add: stage_get_def)

lemma stage_remove: "stage_get (bt_remove pid d) p = (if p = pid then None else stage_get d p)"
  by (simp add: stage_get_def)

section \<open>Entering the transient states\<close>

lemma ok_begin_removal:
  assumes "db_ok d" and "bt_get d pid = Some (Installed m i)"
  shows "db_ok (bt_insert pid (Removing m i) d)"
proof -
  let ?e = "bt_insert pid (Removing m i) d"
  have inst: "installed_get d pid = Some i" using assms(2) by (simp add: installed_get_def)
  have gets: "manifest_get ?e p = (if p = pid then None else manifest_get d p)"
    "dependencies_get ?e p = (if p = pid then None else dependencies_get d p)"
    "dependents_get ?e p = (if p = pid then None else dependents_get d p)"
    "removing_get ?e p = (if p = pid then Some i else removing_get d p)" for p
    by (simp_all add: receipt_defs entry_insert)
  have row: "linked_row p d" for p using assms(1) by (simp add: db_ok_but_def linked_but_def)
  have tidy: "tidy_but {} d" using assms(1) by (simp add: db_ok_but_def)
  have deps: "dependencies_get d pid = Some (ip_current_dependencies i)" using inst by (simp add: dependencies_get_def)
  have "tidy_but {} ?e"
    unfolding tidy_but_def
  proof (intro allI impI)
    fix p q ds assume p: "p \<noteq> q" "manifest_get ?e p = None" "dependents_get ?e q = Some ds" "bt_get ds p \<noteq> None"
    then have q: "q \<noteq> pid" "dependents_get d q = Some ds" by (auto simp: gets split: if_splits)
    show "leaving ?e p q \<or> (p, q) \<in> {}"
    proof (cases "p = pid")
      case True
      have "bt_get ds pid = bt_get (ip_current_dependencies i) q" using linked_rowD [OF row _ deps q(2)] q(1) by simp
      then show ?thesis using p(4) True by (simp add: leaving_def gets)
    next
      case False
      then have "leaving d p q" using tidyD [OF tidy p(1) _ q(2) p(4)] p(2) by (simp add: gets)
      then show ?thesis using False by (auto simp: leaving_def gets)
    qed
  qed
  moreover have "manifest_get d pid = Some (ip_manifest i)" using inst by (simp add: manifest_get_def)
  then have "keyed ?e" using assms(1) unfolding keyed_def gets db_ok_but_def by auto
  moreover have "linked_but {} ?e" using row by (auto simp: linked_but_def linked_row_def gets)
  moreover have "declared ?e" using assms(1) by (auto simp: declared_def gets db_ok_but_def)
  ultimately show ?thesis using assms(1) sorted_keys_insert [of d pid] by (simp add: db_ok_but_def)
qed

lemma sound_uninstall_impl:
  assumes "uninstall_impl pid s = (r, t)"
  shows "sound_step own (sys_db s) (sys_db t)"
  using assms unfolding uninstall_impl_def
proof (cases rule: commit_cases)
  case (committed a u)
  then obtain m i where e: "bt_get (sys_db s) pid = Some (Installed m i)" and u: "sys_db u = bt_insert pid (Removing m i) (sys_db s)"
    by (auto simp: st_eval map_db_step split: option.splits package_data_entry.splits)
  show ?thesis unfolding committed(3) u
  proof (rule sound_entry)
    show "stage_enter (stage_get (sys_db s) pid) (stage_get (bt_insert pid (Removing m i) (sys_db s)) pid) \<or> pid \<in> own \<and> stage_leave (stage_get (sys_db s) pid) (stage_get (bt_insert pid (Removing m i) (sys_db s)) pid)"
      using e by (simp add: stage_get_def stage_enter.remove)
  qed (simp_all add: stage_insert ok_begin_removal [OF _ e])
qed (simp add: sound_refl)

lemma sound_begin_install:
  assumes "begin_install man s = (r, t)"
  shows "sound_step own (sys_db s) (sys_db t)"
  using assms unfolding begin_install_def
proof (cases rule: commit_cases)
  case (committed a u)
  let ?pid = "m_id man"
  have ok: "db_ok (bt_insert ?pid e d)"
    if "db_ok d" "pde_installed e = installed_get d ?pid" "pde_removing e = removing_get d ?pid" for d e
    using that sorted_keys_insert [of d ?pid e] by (intro ok_by_gets [OF that(1)]) (auto simp: entry_insert db_ok_but_def)
  consider (old) m i where "bt_get (sys_db s) ?pid = Some (Installed m i)" "sys_db u = bt_insert ?pid (Updating man i) (sys_db s)"
    | (new) "bt_get (sys_db s) ?pid = None" "sys_db u = bt_insert ?pid (Installing man) (sys_db s)"
    using committed by (auto simp: st_eval map_db_step split: option.splits package_data_entry.splits)
  then show ?thesis
  proof cases
    case old
    show ?thesis unfolding committed(3) old(2)
    proof (rule sound_entry)
      show "stage_enter (stage_get (sys_db s) ?pid) (stage_get (bt_insert ?pid (Updating man i) (sys_db s)) ?pid) \<or> ?pid \<in> own \<and> stage_leave (stage_get (sys_db s) ?pid) (stage_get (bt_insert ?pid (Updating man i) (sys_db s)) ?pid)"
        using old(1) by (simp add: stage_get_def stage_enter.update)
    qed (use old(1) in \<open>auto simp: stage_insert installed_get_def removing_get_def intro: ok\<close>)
  next
    case new
    show ?thesis unfolding committed(3) new(2)
    proof (rule sound_entry)
      show "stage_enter (stage_get (sys_db s) ?pid) (stage_get (bt_insert ?pid (Installing man) (sys_db s)) ?pid) \<or> ?pid \<in> own \<and> stage_leave (stage_get (sys_db s) ?pid) (stage_get (bt_insert ?pid (Installing man) (sys_db s)) ?pid)"
        using new(1) by (simp add: stage_get_def stage_enter.install)
    qed (use new(1) in \<open>auto simp: stage_insert installed_get_def removing_get_def intro: ok\<close>)
  qed
qed (simp add: sound_refl)

text \<open>Any number of absent packages may start to be restored together.\<close>

definition restoring_step :: "db \<Rightarrow> db \<Rightarrow> bool" where
  "restoring_step d e \<longleftrightarrow> (db_ok d \<longrightarrow> db_ok e) \<and>
     (\<forall>p. stage_get e p = stage_get d p \<or> stage_get d p = None \<and> (\<exists>m. stage_get e p = Some (IsRestoring m)))"

interpretation restoring: db_rel restoring_step
proof unfold_locales
  show "restoring_step d d" for d by (simp add: restoring_step_def)
  fix d e f assume de: "restoring_step d e" and ef: "restoring_step e f"
  have "stage_get f p = stage_get d p \<or> stage_get d p = None \<and> (\<exists>m. stage_get f p = Some (IsRestoring m))" for p
    using de [unfolded restoring_step_def, THEN conjunct2, rule_format, of p]
      ef [unfolded restoring_step_def, THEN conjunct2, rule_format, of p] by auto
  then show "restoring_step d f" using de ef by (simp add: restoring_step_def)
qed

lemma restoring_insert:
  assumes "bt_get d pid = None"
  shows "restoring_step d (bt_insert pid (Restoring man) d)"
proof -
  have "db_ok (bt_insert pid (Restoring man) d)" if "db_ok d"
    using that assms sorted_keys_insert [of d pid "Restoring man"]
    by (intro ok_by_gets [OF that]) (auto simp: entry_insert installed_get_def removing_get_def db_ok_but_def)
  then show ?thesis using assms by (auto simp: restoring_step_def stage_insert stage_get_def)
qed

lemma sound_assure_restoring:
  assumes "assure_restoring host ids s = (r, t)"
  shows "sound_step own (sys_db s) (sys_db t)"
  using assms unfolding assure_restoring_def
proof (cases rule: commit_cases)
  case (committed a u)
  let ?body = "\<lambda>pid. st_bind (st_get (\<lambda>s. bt_get (sys_db s) pid)) (\<lambda>pde.
         if pde \<noteq> None
         then st_lift (Err (Error InvalidRequest (Msg (''Can't restore over existing package: '' @ pid))))
         else st_bind (call_world (backup_manifest host pid)) (\<lambda>man. map_db (bt_insert pid (Restoring man))))"
  have "restoring.rel.keeps (?body pid)" for pid
    unfolding restoring.rel.keeps_def on_db_def
  proof
    fix v :: "'a sys"
    obtain r w where call: "call_world (backup_manifest host pid) v = (r, w)" by fastforce
    have "sys_db w = sys_db v" using same_dbD [OF same_db.rel.keeps_call_world call] .
    then show "restoring_step (sys_db v) (sys_db (snd (?body pid v)))"
      using call restoring_insert [of "sys_db v" pid]
      by (cases r) (auto simp: st_eval map_db_step restoring.db_refl)
  qed
  then have "restoring.rel.keeps (st_for ?body ids)" by (rule restoring.rel.keeps_for)
  from restoring.rel.keepsD [OF this committed(1)] have "restoring_step (sys_db s) (sys_db t)"
    by (simp add: on_db_def committed(3))
  then show ?thesis
    unfolding restoring_step_def sound_step_def by (metis stage_enter.stay stage_enter.restore)
qed (simp add: sound_refl)

section \<open>Finishing\<close>

text \<open>What is left of an entry whose installation has failed.\<close>

definition cleaned :: "package_id \<Rightarrow> package_data_entry \<Rightarrow> db \<Rightarrow> db" where
  "cleaned pid e db =
     (case e of
        Installing _ \<Rightarrow> bt_remove pid db
      | Restoring _ \<Rightarrow> bt_remove pid db
      | Updating _ i \<Rightarrow> bt_insert pid (Installed (ip_manifest i) i) db
      | _ \<Rightarrow> db)"

lemma cleanup_failed_run:
  assumes "cleanup_failed host pid s = (r, t)"
  shows "sys_db t = sys_db s \<and> \<not> is_ok r \<or> (\<exists>e. bt_get (sys_db s) pid = Some e \<and> sys_db t = cleaned pid e (sys_db s)) \<and> r = Ok ()"
proof (cases "bt_get (sys_db s) pid")
  case None
  then show ?thesis using assms by (auto simp: cleanup_failed_def st_eval)
next
  case (Some e)
  let ?clean = "case (case e of Installing man \<Rightarrow> Some man | Restoring man \<Rightarrow> Some man
      | Updating man i \<Rightarrow> if m_version man \<noteq> m_version (ip_manifest i) then Some man else None | _ \<Rightarrow> None) of
    Some man \<Rightarrow> cleanup host pid (m_version man) | None \<Rightarrow> st_return ()"
  obtain r1 s1 where cl: "?clean s = (r1, s1)" by fastforce
  have "same_db.rel.keeps ?clean"
    by (auto intro: same_db.rel.keeps_cleanup same_db.rel.keeps_basic split: option.splits)
  from same_dbD [OF this cl] have db: "sys_db s1 = sys_db s" .
  have run: "st_bind ?clean (\<lambda>_. case e of Installing _ \<Rightarrow> map_db (bt_remove pid) | Restoring _ \<Rightarrow> map_db (bt_remove pid)
     | Updating _ i \<Rightarrow> map_db (bt_insert pid (Installed (ip_manifest i) i)) | _ \<Rightarrow> st_return ()) s = (r, t)"
    using assms Some unfolding cleanup_failed_def by (simp only: st_eval ok_or_simps)
  show ?thesis
  proof (cases r1)
    case (Ok u)
    then show ?thesis using run cl db Some
      by (cases e) (auto simp: cleaned_def map_db_step st_return_eq)
  qed (use run cl db in auto)
qed

lemma cleaned_frame: "p \<noteq> pid \<Longrightarrow> stage_get (cleaned pid e d) p = stage_get d p"
  by (cases e) (simp_all add: cleaned_def stage_insert stage_remove)

lemma sound_cleaned:
  assumes "bt_get d pid = Some e"
  shows "sound_step {pid} d (cleaned pid e d)"
proof -
  have rem: "db_ok (bt_remove pid d)" if "db_ok d" "installed_get d pid = None" "removing_get d pid = None"
    using that sorted_keys_remove [of d pid] by (intro ok_by_gets [OF that(1)]) (auto simp: entry_remove db_ok_but_def)
  have ins: "db_ok (bt_insert pid (Installed m i) d)" if "db_ok d" "installed_get d pid = Some i" "removing_get d pid = None" for m i
    using that sorted_keys_insert [of d pid] by (intro ok_by_gets [OF that(1)]) (auto simp: entry_insert db_ok_but_def)
  show ?thesis
  proof (rule sound_entry)
    show "stage_enter (stage_get d pid) (stage_get (cleaned pid e d) pid) \<or> pid \<in> {pid} \<and> stage_leave (stage_get d pid) (stage_get (cleaned pid e d) pid)"
      using assms by (cases e) (auto simp: cleaned_def stage_get_def intro: stage_enter.intros stage_leave.intros)
    show "db_ok (cleaned pid e d)" if "db_ok d"
      using assms that by (cases e) (auto simp: cleaned_def installed_get_def removing_get_def intro: rem ins)
  qed (rule cleaned_frame)
qed

lemma sound_cleanup_failed:
  assumes "st_bind (in_transaction True (cleanup_failed host pid)) (\<lambda>_. st_return ()) s = (r, t)"
  shows "sound_step {pid} (sys_db s) (sys_db t)" and "p \<noteq> pid \<Longrightarrow> stage_get (sys_db t) p = stage_get (sys_db s) p"
proof -
  have "sys_db t = sys_db s \<or> (\<exists>e. bt_get (sys_db s) pid = Some e \<and> sys_db t = cleaned pid e (sys_db s))"
    using assms by (cases rule: commit_cases) (use cleanup_failed_run in fastforce)+
  then show "sound_step {pid} (sys_db s) (sys_db t)" "p \<noteq> pid \<Longrightarrow> stage_get (sys_db t) p = stage_get (sys_db s) p"
    using sound_cleaned sound_refl cleaned_frame by auto
qed

lemma sound_uninstall:
  assumes "uninstall fuel host pid s = (r, t)"
  shows "sound_step {pid} (sys_db s) (sys_db t)"
proof (cases "is_ok r")
  case False
  then show ?thesis
    by (cases rule: commit_cases [OF assms [unfolded uninstall_def]]) (simp_all add: sound_refl)
next
  case True
  then have run: "uninstall fuel host pid s = (Ok (), t)" using assms by (auto simp: is_ok_iff)
  obtain i s3 s4 s5 s6 where i: "removing_get (sys_db s) pid = Some i" and s3: "sys_db s3 = bt_remove pid (sys_db s)"
    and re: "reconfigure_dependents_with_live_pointers fuel (rpc host) i s3 = (Ok (), s4)"
    and s5: "sys_db s5 = fold (remove_dependent (m_id (ip_manifest i))) (bt_keys (ip_current_dependencies i) @ [m_id (ip_manifest i)]) (sys_db s4)"
    and up: "update_dependency_errors_of_dependents (rpc host) (m_id (ip_manifest i)) (ip_current_dependents i) s5 = (Ok (), s6)"
    and t: "sys_db t = sys_db s6"
    using uninstall_run [OF run] by blast
  have "stage_get (sys_db s4) = stage_get (bt_remove pid (sys_db s))"
    using ok.rel.keepsD [OF keeps_ok_reconfigure re] s3 by (simp add: on_db_def keeps_ok_def)
  then have "stage_get (sys_db s5) = stage_get (bt_remove pid (sys_db s))" using s5 by (simp add: fold_frames del: fold_append)
  moreover have "same_packages (sys_db s5) (sys_db s6)"
    using packages.rel.keepsD [OF packages_update_errors up] by (simp add: on_db_def)
  ultimately have st: "stage_get (sys_db t) = stage_get (bt_remove pid (sys_db s))" using t by (simp add: same_packages_def)
  show ?thesis
  proof (rule sound_entry)
    show "stage_get (sys_db t) p = stage_get (sys_db s) p" if "p \<noteq> pid" for p using that by (simp add: st stage_remove)
    obtain m where "bt_get (sys_db s) pid = Some (Removing m i)"
      using i by (cases "bt_get (sys_db s) pid") (auto simp: removing_get_def elim: pde_removing.elims)
    then show "stage_enter (stage_get (sys_db s) pid) (stage_get (sys_db t) pid) \<or> pid \<in> {pid} \<and> stage_leave (stage_get (sys_db s) pid) (stage_get (sys_db t) pid)"
      unfolding st stage_remove by (simp add: stage_get_def stage_leave.removed)
  qed (rule uninstall_effect(1) [OF run])
qed

section \<open>Installing\<close>

text \<open>
  An archive that does not hold the package it is announced as. Nothing checks this: the archive is installed under the announced id
  with the manifest it has.
\<close>

definition mislabelled :: "package_id \<Rightarrow> ('w, manifest) call \<Rightarrow> 'w \<Rightarrow> bool" where
  "mislabelled pid unpack w = (case unpack w of (Inr man, _) \<Rightarrow> m_id man \<noteq> pid | (Inl _, _) \<Rightarrow> False)"

text \<open>The frame of the installed package stays once its entry is written.\<close>

interpretation frame: db_rel same_frame
  by unfold_locales (simp_all add: same_frame_def)

lemma frame_weaken: "ok.rel.keeps f \<Longrightarrow> frame.rel.keeps f"
  unfolding ok.rel.keeps_def frame.rel.keeps_def on_db_def by (simp add: keeps_ok_def same_frame_def)

lemma frame_lists:
  "frame.rel.keeps (add_dependent_to_current_dependents_lists pid cds)"
  "frame.rel.keeps (remove_from_current_dependents_lists pid cds)"
  unfolding frame.rel.keeps_def on_db_def
  by (simp_all add: add_lists_run remove_lists_run same_frame_def fold_frames del: fold_append)

lemmas frame_parts = frame_lists frame_weaken [OF keeps_ok_reconfigure] frame_weaken [OF ok_weaken [OF packages_update_errors]]
  frame_weaken [OF keeps_fresh_maps [OF ok.keeps_configure]] frame_weaken [OF ok.keeps_map_db [OF keeps_ok_main]]

lemma frame_branches:
  "frame.rel.keeps (link_new host pid man dependents)"
  "frame.rel.keeps (backup_restore fuel host pid ver man)"
  "frame.rel.keeps (update_from fuel host pid ver man dependents old)"
  unfolding link_new_def backup_restore_def update_from_def
  by (auto intro!: frame.rel.world_rules frame_parts frame.rel.keeps_exit_or frame.rel.keeps_cleanup
      dest: frame.rel.keeps_migration split: option.splits)

lemma install_transaction_frame:
  assumes "install_transaction fuel host pid ver man s = (Ok u, t)"
  shows "stage_get (sys_db t) = (stage_get (sys_db s))(pid \<mapsto> IsInstalled man)" and "manifest_get (sys_db t) pid = Some man"
proof -
  let ?ds = "current_dependents_of pid (sys_db s)"
  obtain addrs e errs s1 s2 where s1: "sys_db s1 = errors_set errs pid
      (bt_insert pid (Installed man (new_entry man ?ds addrs)) (sys_db s))"
    and branch: "(case e of
       Updating _ old \<Rightarrow> update_from fuel host pid ver man ?ds old
     | Restoring _ \<Rightarrow> st_bind (backup_restore fuel host pid ver man) (\<lambda>_. link_new host pid man ?ds)
     | _ \<Rightarrow> link_new host pid man ?ds) s1 = (Ok (), s2)"
    and final: "reconfigure_dependents_with_live_pointers fuel (rpc host) (new_entry man ?ds addrs) s2 = (Ok u, t)"
    using install_transaction_run [OF assms] by metis
  let ?d = "bt_insert pid (Installed man (new_entry man ?ds addrs)) (sys_db s)"
  have "same_packages ?d (sys_db s1)" by (simp add: s1 same_packages_set)
  then have d: "same_frame ?d (sys_db s1)" by (simp add: same_packages_def same_frame_def)
  have "frame.rel.keeps (case e of
       Updating _ old \<Rightarrow> update_from fuel host pid ver man ?ds old
     | Restoring _ \<Rightarrow> st_bind (backup_restore fuel host pid ver man) (\<lambda>_. link_new host pid man ?ds)
     | _ \<Rightarrow> link_new host pid man ?ds)"
    by (auto intro!: frame.rel.keeps_bind frame_branches split: package_data_entry.splits)
  from frame.rel.keepsD [OF this branch] have "same_frame (sys_db s1) (sys_db s2)" by (simp add: on_db_def)
  moreover have "same_frame (sys_db s2) (sys_db t)"
    using frame.rel.keepsD [OF frame_weaken [OF keeps_ok_reconfigure] final] by (simp add: on_db_def)
  ultimately have "same_frame ?d (sys_db t)" using d by (simp add: same_frame_def)
  then show "stage_get (sys_db t) = (stage_get (sys_db s))(pid \<mapsto> IsInstalled man)" "manifest_get (sys_db t) pid = Some man"
    by (auto simp: same_frame_def stage_insert stage_get_def [of "sys_db s"] fun_eq_iff manifest_get_def entry_insert new_entry_def)
qed

lemma install_s9pk_cases:
  assumes "install_s9pk fuel host pid ver unpack s = (r, t)"
  obtains (committed) man w u v where "unpack (sys_world s) = (Inr man, w)" "sys_db u = sys_db s"
    "install_transaction fuel host pid ver man u = (Ok (), v)" "r = Ok ()" "sys_db t = sys_db v"
  | (aborted) "\<not> is_ok r" "sys_db t = sys_db s"
proof -
  obtain r1 s1 where call: "call_world unpack s = (r1, s1)" by fastforce
  have db: "sys_db s1 = sys_db s" using same_dbD [OF same_db.rel.keeps_call_world call] .
  show thesis
  proof (cases r1)
    case (Ok man)
    have "st_bind (in_transaction True (install_transaction fuel host pid ver man)) (\<lambda>_. st_return ()) s1 = (r, t)"
      using assms(1) call Ok by (simp add: install_s9pk_def)
    then show thesis
    proof (cases rule: commit_cases)
      case (committed a u)
      obtain w where "unpack (sys_world s) = (Inr man, w)"
        using call Ok by (auto simp: call_world_def split: prod.splits sum.splits)
      then show thesis using that(1) [OF _ _ committed(1) [unfolded unit_eq [of a]] committed(2,3)] db by simp
    qed (use db that(2) in auto)
  qed (use assms(1) call db in \<open>auto simp: install_s9pk_def intro: aborted\<close>)
qed

lemma stage_leave_installed: "transient e \<Longrightarrow> stage_leave (Some (pde_stage e)) (Some (IsInstalled man))"
  by (cases e) (auto simp: transient_def intro: stage_leave.intros)

text \<open>Stages first, whatever the archive holds; then the consistency of the data, which is kept when it is the announced package.\<close>

lemma install_s9pk_stage:
  assumes "install_s9pk fuel host pid ver unpack s = (Ok (), t)"
  obtains man w where "unpack (sys_world s) = (Inr man, w)" "manifest_get (sys_db t) pid = Some man"
    "stage_get (sys_db t) = (stage_get (sys_db s))(pid \<mapsto> IsInstalled man)"
  using assms
proof (cases rule: install_s9pk_cases)
  case (committed man w u v)
  then show thesis using install_transaction_frame [OF committed(3)] that by simp
qed simp

lemma install_s9pk_ok:
  assumes "install_s9pk fuel host pid ver unpack s = (r, t)" and "\<not> (is_ok r \<and> mislabelled pid unpack (sys_world s))"
    and "db_ok (sys_db s)" and "bt_get (sys_db s) pid = Some e" and "transient e"
  shows "db_ok (sys_db t)"
  using assms(1)
proof (cases rule: install_s9pk_cases)
  case (committed man w u v)
  then have "m_id man = pid" using assms(2) by (simp add: mislabelled_def)
  then show ?thesis using install_transaction_ok [OF committed(3) _ _ _ assms(5)] assms(3,4) committed(2,5) by simp
qed (use assms(3) in simp)

lemma install_s9pk_stages:
  assumes "install_s9pk fuel host pid ver unpack s = (r, t)" and "bt_get (sys_db s) pid = Some e" and "transient e"
  shows "stage_step (if is_ok r then {pid} else {}) (sys_db s) (sys_db t)"
proof (cases "is_ok r")
  case True
  then have "install_s9pk fuel host pid ver unpack s = (Ok (), t)" using assms(1) by (auto simp: is_ok_iff)
  then obtain man where "stage_get (sys_db t) = (stage_get (sys_db s))(pid \<mapsto> IsInstalled man)" by (rule install_s9pk_stage)
  then show ?thesis
    using True stage_leave_installed [OF assms(3)] assms(2)
    by (auto simp: stage_step_def stage_enter.stay stage_get_def [of "sys_db s"])
next
  case False
  have "sys_db t = sys_db s" using assms(1) by (cases rule: install_s9pk_cases) (use False in auto)
  then show ?thesis by (simp add: stage_refl)
qed

section \<open>Commands that keep every package at its stage\<close>

lemma packages_heal_one: "packages.rel.keeps (heal_now ctx p d :: ('w, unit) act)"
proof -
  have "packages.rel.keeps (heal_transitive fuel ctx p d :: ('w, unit) act)" for fuel
    unfolding packages.rel.keeps_def unfolding on_db_def
    by (intro allI) (rule heal_fall [unfolded errors_fall_def, THEN conjunct1])
  then show ?thesis unfolding heal_now_def by (intro packages.rel.keeps_bind packages.rel.keeps_basic)
qed

lemma keeps_ok_health: "ok.rel.keeps (health_check host pid commit :: ('w, unit) act)"
  unfolding health_check_def health_check_all_def Let_def
  by (auto intro!: ok.rel.world_rules keeps_ok_transaction keeps_fresh_maps ok.keeps_map_db keeps_ok_main
    ok.keeps_weaken [OF packages_heal_one] ok.keeps_weaken [OF packages_break] split: option.splits main_status.splits)

lemma keeps_ok_commands:
  "ok.rel.keeps (set_impl fuel ctx pid given timeout :: ('w, unit) act)"
  "ok.rel.keeps (configure_impl fuel ctx pid dep :: ('w, unit) act)"
  unfolding set_impl_def configure_impl_def
  by (auto intro!: ok.rel.world_rules keeps_ok_transaction ok.keeps_configure ok.rel.keeps_configure_logic keeps_fresh_maps)

section \<open>The backend as a transition system\<close>

text \<open>
  A task runs beside the commands for every package that is being installed, updated or restored, and
  for every package that is being removed. Each step is one transaction, so tasks and commands interleave in
  every order. A task that has failed to install may clean up or end without it. Archives are whatever they are; the packages
  that were installed from an archive of another package are recorded.
\<close>

record 'w machine =
  mc_sys :: "'w sys"
  mc_installs :: "package_id set"
  mc_removals :: "package_id set"
  mc_mislabelled :: "package_id set"

inductive step :: "'w host \<Rightarrow> 'w machine \<Rightarrow> 'w machine \<Rightarrow> bool" for host where
  set_config: "set_impl fuel (rpc host) pid given timeout (mc_sys m) = (r, t) \<Longrightarrow> step host m (m\<lparr>mc_sys := t\<rparr>)"
| auto_configure: "configure_impl fuel (rpc host) pid dep (mc_sys m) = (r, t) \<Longrightarrow> step host m (m\<lparr>mc_sys := t\<rparr>)"
| starting: "start (rpc host) (managers host) pid (mc_sys m) = (r, t) \<Longrightarrow> step host m (m\<lparr>mc_sys := t\<rparr>)"
| stopping: "stop_impl pid (mc_sys m) = (st, t) \<Longrightarrow> step host m (m\<lparr>mc_sys := t\<rparr>)"
| restarting: "restart pid (mc_sys m) = (r, t) \<Longrightarrow> step host m (m\<lparr>mc_sys := t\<rparr>)"
| check_health: "health_check host pid commit (mc_sys m) = (r, t) \<Longrightarrow> step host m (m\<lparr>mc_sys := t\<rparr>)"
| status_change: "step host m (m\<lparr>mc_sys := (mc_sys m)\<lparr>sys_db := main_set st pid (sys_db (mc_sys m))\<rparr>\<rparr>)"
| world_change: "step host m (m\<lparr>mc_sys := (mc_sys m)\<lparr>sys_world := w\<rparr>\<rparr>)"
| install_begin: "begin_install man (mc_sys m) = (r, t) \<Longrightarrow>
    step host m (m\<lparr>mc_sys := t, mc_installs := mc_installs m \<union> (if is_ok r then {m_id man} else {})\<rparr>)"
| restore_begin: "assure_restoring host ids (mc_sys m) = (r, t) \<Longrightarrow>
    step host m (m\<lparr>mc_sys := t, mc_installs := mc_installs m \<union> (if is_ok r then set ids else {})\<rparr>)"
| install_run: "pid \<in> mc_installs m \<Longrightarrow>
    install_s9pk fuel host pid ver unpack (mc_sys m) = (r, t) \<Longrightarrow>
    step host m (m\<lparr>mc_sys := t, mc_installs := mc_installs m - (if is_ok r then {pid} else {}),
      mc_mislabelled := mc_mislabelled m \<union> (if is_ok r \<and> mislabelled pid unpack (sys_world (mc_sys m)) then {pid} else {})\<rparr>)"
| install_cleanup: "pid \<in> mc_installs m \<Longrightarrow>
    st_bind (in_transaction True (cleanup_failed host pid)) (\<lambda>_. st_return ()) (mc_sys m) = (r, t) \<Longrightarrow>
    step host m (m\<lparr>mc_sys := t, mc_installs := mc_installs m - {pid}\<rparr>)"
| install_end: "step host m (m\<lparr>mc_installs := mc_installs m - {pid}\<rparr>)"
| remove_begin: "uninstall_impl pid (mc_sys m) = (r, t) \<Longrightarrow>
    step host m (m\<lparr>mc_sys := t, mc_removals := mc_removals m \<union> (if is_ok r then {pid} else {})\<rparr>)"
| remove_run: "pid \<in> mc_removals m \<Longrightarrow> uninstall fuel host pid (mc_sys m) = (r, t) \<Longrightarrow>
    step host m (m\<lparr>mc_sys := t, mc_removals := mc_removals m - {pid}\<rparr>)"

inductive reachable :: "'w host \<Rightarrow> 'w machine \<Rightarrow> bool" for host where
  initial: "sys_db s = [] \<Longrightarrow> reachable host \<lparr>mc_sys = s, mc_installs = {}, mc_removals = {}, mc_mislabelled = {}\<rparr>"
| further: "reachable host m \<Longrightarrow> step host m n \<Longrightarrow> reachable host n"

text \<open>The package of every task is at the stage the task works on, and the package data are consistent unless an archive was mislabelled.\<close>

definition in_transit :: "stage option \<Rightarrow> bool" where
  "in_transit x \<longleftrightarrow> (case x of Some (IsInstalling _) \<Rightarrow> True | Some (IsUpdating _) \<Rightarrow> True | Some (IsRestoring _) \<Rightarrow> True | _ \<Rightarrow> False)"

definition in_removal :: "stage option \<Rightarrow> bool" where
  "in_removal x \<longleftrightarrow> (case x of Some (IsRemoving _) \<Rightarrow> True | _ \<Rightarrow> False)"

definition owned :: "package_id set \<Rightarrow> package_id set \<Rightarrow> db \<Rightarrow> bool" where
  "owned I R d \<longleftrightarrow> (\<forall>p \<in> I. in_transit (stage_get d p)) \<and> (\<forall>p \<in> R. in_removal (stage_get d p))"

lemma owned_step:
  assumes "stage_step own d e" and "owned I R d" and "own \<inter> (I' \<union> R') = {}"
    and "\<And>p. p \<in> I' \<Longrightarrow> p \<in> I \<or> in_transit (stage_get e p)" and "\<And>p. p \<in> R' \<Longrightarrow> p \<in> R \<or> in_removal (stage_get e p)"
  shows "owned I' R' e"
proof -
  have stay: "stage_get e p = stage_get d p" if "in_transit (stage_get d p) \<or> in_removal (stage_get d p)" "p \<notin> own" for p
  proof -
    have "stage_enter (stage_get d p) (stage_get e p)" using assms(1) that(2) by (auto simp: stage_step_def)
    then show ?thesis
      using that(1) by (cases) (auto simp: in_transit_def in_removal_def)
  qed
  show ?thesis unfolding owned_def
  proof (intro conjI ballI)
    fix p assume p: "p \<in> I'"
    then have "p \<notin> own" using assms(3) by blast
    then show "in_transit (stage_get e p)" using p assms(2) assms(4) [of p] stay [of p] by (auto simp: owned_def)
  next
    fix p assume p: "p \<in> R'"
    then have "p \<notin> own" using assms(3) by blast
    then show "in_removal (stage_get e p)" using p assms(2) assms(5) [of p] stay [of p] by (auto simp: owned_def)
  qed
qed

lemma transit_entry: "in_transit (stage_get d p) \<Longrightarrow> \<exists>e. bt_get d p = Some e \<and> transient e"
  by (cases "bt_get d p"; cases "the (bt_get d p)") (auto simp: stage_get_def in_transit_def transient_def)

lemma begin_install_transit: "begin_install man s = (Ok (), t) \<Longrightarrow> in_transit (stage_get (sys_db t) (m_id man))"
  unfolding begin_install_def
  by (erule commit_cases)
     (auto simp: st_eval map_db_step stage_get_def in_transit_def split: option.splits package_data_entry.splits)

lemma uninstall_impl_removal: "uninstall_impl pid s = (Ok (), t) \<Longrightarrow> in_removal (stage_get (sys_db t) pid)"
  unfolding uninstall_impl_def
  by (erule commit_cases)
     (auto simp: st_eval map_db_step stage_get_def in_removal_def split: option.splits package_data_entry.splits)

lemma assure_restoring_transit:
  assumes "assure_restoring host ids s = (Ok (), t)"
  shows "\<forall>p \<in> set ids. in_transit (stage_get (sys_db t) p)"
  using assms unfolding assure_restoring_def
proof (cases rule: commit_cases)
  case (committed a u)
  have "True \<and> (\<forall>p \<in> set ids. in_transit (stage_get (sys_db u) p))"
  proof (rule st_for_each [OF committed(1)])
    let ?P = "\<lambda>pid s t. st_bind (st_get (\<lambda>s. bt_get (sys_db s) pid)) (\<lambda>pde.
         if pde \<noteq> None
         then st_lift (Err (Error InvalidRequest (Msg (''Can't restore over existing package: '' @ pid))))
         else st_bind (call_world (backup_manifest host pid)) (\<lambda>man. map_db (bt_insert pid (Restoring man)))) s = (Ok (), t)"
    have put: "\<exists>man. bt_get (sys_db s) pid = None \<and> sys_db t = bt_insert pid (Restoring man) (sys_db s)" if run: "?P pid s t" for pid s t
    proof -
      obtain man s1 where "bt_get (sys_db s) pid = None" and call: "call_world (backup_manifest host pid) s = (Ok man, s1)"
        and "sys_db t = bt_insert pid (Restoring man) (sys_db s1)"
        using run by (auto simp: st_bind_eq_Ok st_simps map_db_step split: if_splits)
      then show ?thesis using same_dbD [OF same_db.rel.keeps_call_world call] by auto
    qed
    show "True \<and> in_transit (stage_get (sys_db t) x)" if "?P x s t" for x s t
      using put [OF that] by (auto simp: stage_insert in_transit_def)
    show "in_transit (stage_get (sys_db t) x)" if "in_transit (stage_get (sys_db s) x)" "?P y s t" for x y s t
      using put [OF that(2)] that(1) by (auto simp: stage_insert in_transit_def)
  qed simp
  then show ?thesis using committed(3) by simp
qed simp

definition machine_ok :: "'w machine \<Rightarrow> bool" where
  "machine_ok m \<longleftrightarrow> owned (mc_installs m) (mc_removals m) (sys_db (mc_sys m)) \<and>
     (mc_mislabelled m = {} \<longrightarrow> db_ok (sys_db (mc_sys m)))"

text \<open>The packages whose tasks a step ends.\<close>

abbreviation released :: "'w machine \<Rightarrow> 'w machine \<Rightarrow> package_id set" where
  "released m n \<equiv> (mc_installs m \<union> mc_removals m) - (mc_installs n \<union> mc_removals n)"

lemma machine_quiet:
  assumes "keeps_ok (sys_db (mc_sys m)) (sys_db t)" and "machine_ok m"
  shows "machine_ok (m\<lparr>mc_sys := t\<rparr>) \<and> stage_step own (sys_db (mc_sys m)) (sys_db t)"
  using assms sound_stage [OF sound_keeps [OF assms(1)]] by (simp add: machine_ok_def owned_def keeps_ok_def)

lemma owned_disjoint: "owned I R d \<Longrightarrow> p \<in> I \<Longrightarrow> p \<notin> R"
proof -
  have "in_transit x \<Longrightarrow> \<not> in_removal x" for x
    by (auto simp: in_transit_def in_removal_def split: option.splits stage.splits)
  then show "owned I R d \<Longrightarrow> p \<in> I \<Longrightarrow> p \<notin> R" by (auto simp: owned_def)
qed

lemma machine_change:
  assumes "stage_step own (sys_db (mc_sys m)) (sys_db t)" and "machine_ok m" and "own \<inter> (I \<union> R) = {}"
    and "\<And>p. p \<in> I \<Longrightarrow> p \<in> mc_installs m \<or> in_transit (stage_get (sys_db t) p)"
    and "\<And>p. p \<in> R \<Longrightarrow> p \<in> mc_removals m \<or> in_removal (stage_get (sys_db t) p)"
    and "X = {} \<Longrightarrow> mc_mislabelled m = {} \<and> (db_ok (sys_db (mc_sys m)) \<longrightarrow> db_ok (sys_db t))"
  shows "machine_ok \<lparr>mc_sys = t, mc_installs = I, mc_removals = R, mc_mislabelled = X\<rparr>"
  using assms owned_step [OF assms(1) _ assms(3-5)] by (simp add: machine_ok_def)

lemma machine_sound:
  assumes "sound_step own (sys_db (mc_sys m)) (sys_db t)" and "machine_ok m" and "own \<inter> (I \<union> R) = {}"
    and "\<And>p. p \<in> I \<Longrightarrow> p \<in> mc_installs m \<or> in_transit (stage_get (sys_db t) p)"
    and "\<And>p. p \<in> R \<Longrightarrow> p \<in> mc_removals m \<or> in_removal (stage_get (sys_db t) p)"
  shows "machine_ok \<lparr>mc_sys = t, mc_installs = I, mc_removals = R, mc_mislabelled = mc_mislabelled m\<rparr>"
  by (rule machine_change [OF sound_stage [OF assms(1)] assms(2-5)]) (use assms(1) in \<open>simp_all add: sound_step_def\<close>)

lemma machine_eqs:
  "m\<lparr>mc_sys := t, mc_installs := I\<rparr> = \<lparr>mc_sys = t, mc_installs = I, mc_removals = mc_removals m, mc_mislabelled = mc_mislabelled m\<rparr>"
  "m\<lparr>mc_sys := t, mc_removals := R\<rparr> = \<lparr>mc_sys = t, mc_installs = mc_installs m, mc_removals = R, mc_mislabelled = mc_mislabelled m\<rparr>"
  "m\<lparr>mc_sys := t, mc_installs := I, mc_mislabelled := X\<rparr> = \<lparr>mc_sys = t, mc_installs = I, mc_removals = mc_removals m, mc_mislabelled = X\<rparr>"
  for m :: "'w machine"
  by simp_all

lemma stage_mono: "stage_step own d e \<Longrightarrow> own \<subseteq> own' \<Longrightarrow> stage_step own' d e"
  by (auto simp: stage_step_def)

lemma keeps_okD: "ok.rel.keeps f \<Longrightarrow> f s = (r, t) \<Longrightarrow> keeps_ok (sys_db s) (sys_db t)"
  by (drule (1) ok.rel.keepsD) (simp add: on_db_def)

lemma step_sound:
  assumes "step host m n" and "machine_ok m"
  shows "machine_ok n \<and> stage_step (released m n) (sys_db (mc_sys m)) (sys_db (mc_sys n))"
  using assms
proof (induction rule: step.induct)
  case (set_config fuel pid given timeout m r t)
  show ?case using machine_quiet [OF keeps_okD [OF keeps_ok_commands(1) set_config(1)] set_config(2)] by simp
next
  case (auto_configure fuel pid dep m r t)
  show ?case using machine_quiet [OF keeps_okD [OF keeps_ok_commands(2) auto_configure(1)] auto_configure(2)] by simp
next
  case (starting pid m r t)
  show ?case using machine_quiet [OF keeps_okD [OF keeps_ok_control(1) starting(1)] starting(2)] by simp
next
  case (stopping pid m st t)
  show ?case using machine_quiet [OF keeps_okD [OF keeps_ok_control(2) stopping(1)] stopping(2)] by simp
next
  case (restarting pid m r t)
  show ?case using machine_quiet [OF keeps_okD [OF keeps_ok_control(3) restarting(1)] restarting(2)] by simp
next
  case (check_health pid commit m r t)
  show ?case using machine_quiet [OF keeps_okD [OF keeps_ok_health check_health(1)] check_health(2)] by simp
next
  case (status_change m st pid)
  show ?case using machine_quiet [of m "(mc_sys m)\<lparr>sys_db := main_set st pid (sys_db (mc_sys m))\<rparr>"] status_change keeps_ok_main by simp
next
  case (world_change m w)
  show ?case using machine_quiet [of m "(mc_sys m)\<lparr>sys_world := w\<rparr>"] world_change ok.db_refl by simp
next
  case (install_begin man m r t)
  have "in_transit (stage_get (sys_db t) (m_id man))" if "is_ok r"
    using that install_begin(1) begin_install_transit by (auto simp: is_ok_iff)
  then show ?case
    unfolding machine_eqs using sound_begin_install [OF install_begin(1)] install_begin(2)
    by (auto intro!: machine_sound [where own = "{}"] sound_stage split: if_splits)
next
  case (restore_begin ids m r t)
  have "\<forall>p \<in> set ids. in_transit (stage_get (sys_db t) p)" if "is_ok r"
    using that restore_begin(1) assure_restoring_transit [of host ids "mc_sys m" t] by (auto simp: is_ok_iff)
  then show ?case
    unfolding machine_eqs using sound_assure_restoring [OF restore_begin(1)] restore_begin(2)
    by (auto intro!: machine_sound [where own = "{}"] sound_stage split: if_splits)
next
  case (install_run pid m fuel ver unpack r t)
  have own: "owned (mc_installs m) (mc_removals m) (sys_db (mc_sys m))" using install_run(3) by (simp add: machine_ok_def)
  obtain e where e: "bt_get (sys_db (mc_sys m)) pid = Some e" "transient e"
    using own install_run(1) transit_entry [of "sys_db (mc_sys m)" pid] by (auto simp: owned_def)
  note stages = install_s9pk_stages [OF install_run(2) e]
  have "pid \<notin> mc_removals m" using owned_disjoint [OF own install_run(1)] .
  moreover have "db_ok (sys_db t)" if "\<not> (is_ok r \<and> mislabelled pid unpack (sys_world (mc_sys m)))" "db_ok (sys_db (mc_sys m))"
    using install_s9pk_ok [OF install_run(2) that e] .
  ultimately show ?case
    unfolding machine_eqs using install_run(1,3) stages
    by (auto intro!: machine_change [where own = "if is_ok r then {pid} else {}"] elim!: stage_mono split: if_splits)
next
  case (install_cleanup pid m r t)
  have "pid \<notin> mc_removals m" using owned_disjoint [of "mc_installs m" "mc_removals m"] install_cleanup(1,3) by (auto simp: machine_ok_def)
  then show ?case
    unfolding machine_eqs using sound_cleanup_failed(1) [OF install_cleanup(2)] install_cleanup(1,3)
    by (auto intro!: machine_sound [where own = "{pid}"] stage_mono [OF sound_stage])
next
  case (install_end m pid)
  then show ?case by (auto simp: machine_ok_def owned_def stage_refl)
next
  case (remove_begin pid m r t)
  have "in_removal (stage_get (sys_db t) pid)" if "is_ok r"
    using that remove_begin(1) uninstall_impl_removal by (auto simp: is_ok_iff)
  then show ?case
    unfolding machine_eqs using sound_uninstall_impl [OF remove_begin(1)] remove_begin(2)
    by (auto intro!: machine_sound [where own = "{}"] sound_stage split: if_splits)
next
  case (remove_run pid m fuel r t)
  have "pid \<notin> mc_installs m" using owned_disjoint [of "mc_installs m" "mc_removals m"] remove_run(1,3) by (auto simp: machine_ok_def)
  then show ?case
    unfolding machine_eqs using sound_uninstall [OF remove_run(2)] remove_run(1,3)
    by (auto intro!: machine_sound [where own = "{pid}"] stage_mono [OF sound_stage])
qed

lemma reachable_ok: "reachable host m \<Longrightarrow> machine_ok m"
proof (induction rule: reachable.induct)
  case (initial s)
  then show ?case
    by (simp add: machine_ok_def owned_def db_ok_but_def row_defs keyed_def declared_def tidy_but_def receipt_defs
      installed_get_def removing_get_def bt_keys_def)
qed (use step_sound in blast)

end
