(* ===== verification/Install_Task.thy ===== *)
theory Install_Task
  imports Lifecycle_Steps
begin

text \<open>
  The task that installs, updates or restores a package (\<^verbatim>\<open>download_install_s9pk\<close>) as a run of the transition
  system, and what the package data look like when it has come to its end.
\<close>

section \<open>The installation task\<close>

text \<open>Computations that are runs of the transition system and leave the tasks alone.\<close>

definition step_run :: "'w host \<Rightarrow> 'w sys \<Rightarrow> 'w sys \<Rightarrow> bool" where
  "step_run host s t \<longleftrightarrow> (\<forall>m. mc_sys m = s \<longrightarrow> (step host)\<^sup>*\<^sup>* m (m\<lparr>mc_sys := t\<rparr>))"

interpretation quiet: state_rel "step_run host" for host
proof unfold_locales
  show "step_run host s s" for s
    unfolding step_run_def by (metis machine.surjective machine.update_convs(1) old.unit.exhaust rtranclp.rtrancl_refl)
  show "step_run host s u" if "step_run host s t" "step_run host t u" for s t u
    unfolding step_run_def
  proof (intro allI impI)
    fix m :: "'a machine" assume "mc_sys m = s"
    then have "(step host)\<^sup>*\<^sup>* m (m\<lparr>mc_sys := t\<rparr>)" using that(1) by (simp add: step_run_def)
    also have "(step host)\<^sup>*\<^sup>* (m\<lparr>mc_sys := t\<rparr>) (m\<lparr>mc_sys := u\<rparr>)"
      using that(2) [unfolded step_run_def, rule_format, of "m\<lparr>mc_sys := t\<rparr>"] by simp
    finally show "(step host)\<^sup>*\<^sup>* m (m\<lparr>mc_sys := u\<rparr>)" .
  qed
qed

lemma quiet_call: "quiet.keeps host (call_world f)"
proof -
  have "step_run host s (s\<lparr>sys_world := w\<rparr>)" for s w
    unfolding step_run_def by (auto intro: world_change)
  moreover have "\<exists>w. snd (call_world f s) = s\<lparr>sys_world := w\<rparr>" for s
    by (auto simp: call_world_def split: prod.splits sum.splits)
  ultimately show ?thesis unfolding quiet.keeps_def by metis
qed

lemma quiet_start: "quiet.keeps host (start (rpc host) (managers host) pid)"
  unfolding quiet.keeps_def step_run_def by (metis prod.collapse r_into_rtranclp starting)

lemma quiet_stop: "quiet.keeps host (stop_impl pid)"
  unfolding quiet.keeps_def step_run_def by (metis prod.collapse r_into_rtranclp stopping)

lemmas quiet_rules = quiet.keeps_bind quiet.keeps_basic quiet.keeps_catch quiet_call quiet_start quiet_stop

lemma step_runD: "quiet.keeps host f \<Longrightarrow> f (mc_sys m) = (r, t) \<Longrightarrow> (step host)\<^sup>*\<^sup>* m (m\<lparr>mc_sys := t\<rparr>)"
  by (drule (1) quiet.keepsD) (simp add: step_run_def)

text \<open>The parts of the task: what precedes the installation, the installation, and what follows it.\<close>

definition before_install :: "package_id \<Rightarrow> ('w, main_status option) act" where
  "before_install pid =
     st_bind (st_get (\<lambda>s. installed_get (sys_db s) pid \<noteq> None)) (\<lambda>exists.
     if exists then st_catch (st_bind (stop_impl pid) (\<lambda>m. st_return (Some m))) (\<lambda>_. st_return None)
     else st_return None)"

definition fetch_s9pk :: "manifest \<Rightarrow> ('w, unit) call \<Rightarrow> ('w, unit) act" where
  "fetch_s9pk man download =
     st_bind (st_get (\<lambda>s. map (\<lambda>e. pde_manifest (snd e)) (sys_db s))) (\<lambda>manifests.
     st_bind (st_lift (check_ports manifests man)) (\<lambda>_. call_world download))"

definition restart_if_running :: "'w host \<Rightarrow> package_id \<Rightarrow> main_status option \<Rightarrow> ('w, unit) act" where
  "restart_if_running host pid prev =
     (if (case prev of Some m \<Rightarrow> running m | None \<Rightarrow> False) then start (rpc host) (managers host) pid else st_return ())"

lemma st_bind_assoc: "st_bind (st_bind m f) g = st_bind m (\<lambda>a. st_bind (f a) g)"
  by (auto simp: fun_eq_iff st_bind_def split: prod.splits res.splits)

lemma download_install_parts:
  "download_install_s9pk fuel host man download unpack =
     st_bind (before_install (m_id man)) (\<lambda>prev.
     st_bind (st_catch
       (st_bind (fetch_s9pk man download) (\<lambda>_. install_s9pk fuel host (m_id man) (m_version man) unpack))
       (\<lambda>e. st_bind (restart_if_running host (m_id man) prev) (\<lambda>_.
        st_bind (st_catch (st_bind (in_transaction True (cleanup_failed host (m_id man))) (\<lambda>_. st_return ())) (\<lambda>_. st_return ())) (\<lambda>_.
        st_lift (Err e))))) (\<lambda>_.
     restart_if_running host (m_id man) prev))"
  by (simp add: download_install_s9pk_def before_install_def fetch_s9pk_def restart_if_running_def Let_def st_bind_assoc)

lemma quiet_parts:
  "quiet.keeps host (before_install pid)"
  "quiet.keeps host (fetch_s9pk man download)"
  "quiet.keeps host (restart_if_running host pid prev)"
  unfolding before_install_def fetch_s9pk_def restart_if_running_def by (auto intro!: quiet_rules)

lemma keeps_ok_parts:
  "ok.rel.keeps (before_install pid :: ('w, main_status option) act)"
  "ok.rel.keeps (fetch_s9pk man download :: ('w, unit) act)"
  "ok.rel.keeps (restart_if_running host pid prev :: ('w, unit) act)"
  unfolding before_install_def fetch_s9pk_def restart_if_running_def
  by (auto intro!: ok.rel.world_rules keeps_ok_control)

definition after_failure :: "'w host \<Rightarrow> package_id \<Rightarrow> main_status option \<Rightarrow> error \<Rightarrow> ('w, unit) act" where
  "after_failure host pid prev e =
     st_bind (restart_if_running host pid prev) (\<lambda>_.
     st_bind (st_catch (st_bind (in_transaction True (cleanup_failed host pid)) (\<lambda>_. st_return ())) (\<lambda>_. st_return ())) (\<lambda>_.
     st_lift (Err e)))"

lemma st_bind_catch:
  "m s = (Ok a, s') \<Longrightarrow> st_bind (st_catch m h) k s = k a s'"
  "m s = (Err e, s') \<Longrightarrow> st_bind (st_catch m h) k s = st_bind (h e) k s'"
  "m s = (Panic, s') \<Longrightarrow> st_bind (st_catch m h) k s = (Panic, s')"
  "m s = (Diverge, s') \<Longrightarrow> st_bind (st_catch m h) k s = (Diverge, s')"
  by (simp_all add: st_bind_def st_catch_def)

text \<open>How the task may come out: \<open>u\<close> is the state after all but the last part.\<close>

lemma after_failure_cases:
  assumes "after_failure host pid prev e s = (r, t)"
  obtains (early) "restart_if_running host pid prev s = (r, t)" "\<not> is_ok r"
  | (cleaned) u r' where "restart_if_running host pid prev s = (Ok (), u)" "\<not> is_ok r"
      "st_bind (in_transaction True (cleanup_failed host pid)) (\<lambda>_. st_return ()) u = (r', t)"
proof -
  obtain r1 u where re: "restart_if_running host pid prev s = (r1, u)" by fastforce
  obtain r2 v where cl: "st_bind (in_transaction True (cleanup_failed host pid)) (\<lambda>_. st_return ()) u = (r2, v)" by fastforce
  show thesis
  proof (cases r1)
    case (Ok x)
    then show thesis
      using assms re cl by (cases r2) (auto simp: after_failure_def st_catch_def st_bind_def st_simps intro: cleaned)
  qed (use assms re in \<open>auto simp: after_failure_def intro: early\<close>)
qed

lemma download_install_cases:
  assumes "download_install_s9pk fuel host man download unpack s = (r, t)"
  obtains (early) p where "before_install (m_id man) s = (p, t)" "\<not> is_ok r"
  | (unfetched) prev s1 rf s2 where "before_install (m_id man) s = (Ok prev, s1)" "fetch_s9pk man download s1 = (rf, s2)"
      "\<not> is_ok r" "t = s2 \<or> (\<exists>e. after_failure host (m_id man) prev e s2 = (r, t))"
  | (failed) prev s1 s2 ri s3 where "before_install (m_id man) s = (Ok prev, s1)" "fetch_s9pk man download s1 = (Ok (), s2)"
      "install_s9pk fuel host (m_id man) (m_version man) unpack s2 = (ri, s3)" "\<not> is_ok ri" "\<not> is_ok r"
      "t = s3 \<or> (\<exists>e. after_failure host (m_id man) prev e s3 = (r, t))"
  | (installed) prev s1 s2 s3 where "before_install (m_id man) s = (Ok prev, s1)" "fetch_s9pk man download s1 = (Ok (), s2)"
      "install_s9pk fuel host (m_id man) (m_version man) unpack s2 = (Ok (), s3)"
      "restart_if_running host (m_id man) prev s3 = (r, t)"
proof -
  note run = assms [unfolded download_install_parts, folded after_failure_def]
  have never: "\<not> is_ok r" if "after_failure host (m_id man) prev e s = (r, t)" for prev e s r t
    using that by (cases rule: after_failure_cases)
  have passed: "st_bind (after_failure host (m_id man) prev e) f s = after_failure host (m_id man) prev e s"
    for prev e s and f :: "unit \<Rightarrow> ('a, unit) act"
  proof -
    obtain r t where "after_failure host (m_id man) prev e s = (r, t)" by fastforce
    then show ?thesis using never [of prev e s r t] by (cases r) auto
  qed
  obtain p s1 where p: "before_install (m_id man) s = (p, s1)" by fastforce
  show thesis
  proof (cases p)
    case (Ok prev)
    obtain rf s2 where f: "fetch_s9pk man download s1 = (rf, s2)" by fastforce
    obtain ri s3 where i: "install_s9pk fuel host (m_id man) (m_version man) unpack s2 = (ri, s3)" by fastforce
    have "\<not> is_ok r \<and> (t = s2 \<or> (\<exists>e. after_failure host (m_id man) prev e s2 = (r, t)))" if "\<not> is_ok rf"
      using run p Ok f that never passed
      by (cases rf) (auto simp: st_bind_catch)
    moreover have "\<not> is_ok r \<and> (t = s3 \<or> (\<exists>e. after_failure host (m_id man) prev e s3 = (r, t)))" if "rf = Ok ()" "\<not> is_ok ri"
      using run p Ok f i that never passed
      by (cases ri) (auto simp: st_bind_catch)
    moreover have "restart_if_running host (m_id man) prev s3 = (r, t)" if "rf = Ok ()" "ri = Ok ()"
      using run p Ok f i that by (auto simp: st_bind_catch)
    ultimately show thesis
      using p Ok f i by (cases "is_ok rf"; cases "is_ok ri") (auto simp: is_ok_iff intro: unfetched failed installed)
  qed (use run p in \<open>auto intro: early\<close>)
qed

section \<open>The task as a run\<close>

lemma after_failure_steps:
  assumes "after_failure host pid prev e (mc_sys m) = (r, t)" and "pid \<in> mc_installs m"
  shows "\<exists>n. (step host)\<^sup>*\<^sup>* m n \<and> mc_sys n = t \<and> mc_installs n \<subseteq> mc_installs m"
  using assms(1)
proof (cases rule: after_failure_cases)
  case early
  have "(step host)\<^sup>*\<^sup>* m (m\<lparr>mc_sys := t\<rparr>)" by (rule step_runD [OF quiet_parts(3) early(1)])
  then show ?thesis by (intro exI [of _ "m\<lparr>mc_sys := t\<rparr>"]) simp
next
  case (cleaned u r')
  have "(step host)\<^sup>*\<^sup>* m (m\<lparr>mc_sys := u\<rparr>)" by (rule step_runD [OF quiet_parts(3) cleaned(1)])
  moreover have "step host (m\<lparr>mc_sys := u\<rparr>) (m\<lparr>mc_sys := t, mc_installs := mc_installs m - {pid}\<rparr>)"
    using install_cleanup [of pid "m\<lparr>mc_sys := u\<rparr>" host r' t] cleaned(3) assms(2) by simp
  ultimately show ?thesis
    by (intro exI [of _ "m\<lparr>mc_sys := t, mc_installs := mc_installs m - {pid}\<rparr>"]) auto
qed

text \<open>
  C5. The installation task refines the transition system: whatever stops, downloads, restarts and cleanups it goes
  through, its effect is that of a sequence of steps of the system, each a transaction of its own, that starts no other
  task. When the task succeeds the package is no longer being installed.
\<close>

theorem install_task_refines_steps:
  assumes "download_install_s9pk fuel host man download unpack (mc_sys m) = (r, t)"
    and "m_id man \<in> mc_installs m"
  shows "\<exists>n. (step host)\<^sup>*\<^sup>* m n \<and> mc_sys n = t \<and> mc_installs n \<subseteq> mc_installs m \<and> (is_ok r \<longrightarrow> m_id man \<notin> mc_installs n)"
proof -
  let ?pid = "m_id man"
  have pre: "(step host)\<^sup>*\<^sup>* m (m\<lparr>mc_sys := s1\<rparr>)" if "before_install ?pid (mc_sys m) = (p, s1)" for p s1
    by (rule step_runD [OF quiet_parts(1) that])
  have fetch: "(step host)\<^sup>*\<^sup>* (m\<lparr>mc_sys := s1\<rparr>) (m\<lparr>mc_sys := s2\<rparr>)" if "fetch_s9pk man download s1 = (rf, s2)" for s1 rf s2
    using step_runD [OF quiet_parts(2), of man download "m\<lparr>mc_sys := s1\<rparr>"] that by simp
  have handled: "\<exists>n. (step host)\<^sup>*\<^sup>* m n \<and> mc_sys n = t \<and> mc_installs n \<subseteq> mc_installs m"
    if "(step host)\<^sup>*\<^sup>* m (m\<lparr>mc_sys := s2\<rparr>)" "t = s2 \<or> (\<exists>e. after_failure host ?pid prev e s2 = (r, t))" for s2 prev
    using that(2)
  proof
    assume "t = s2"
    with that(1) show ?thesis by (intro exI [of _ "m\<lparr>mc_sys := s2\<rparr>"]) simp
  next
    assume "\<exists>e. after_failure host ?pid prev e s2 = (r, t)"
    then obtain e where "after_failure host ?pid prev e (mc_sys (m\<lparr>mc_sys := s2\<rparr>)) = (r, t)" by auto
    from after_failure_steps [OF this] assms(2)
    obtain n where "(step host)\<^sup>*\<^sup>* (m\<lparr>mc_sys := s2\<rparr>) n" "mc_sys n = t" "mc_installs n \<subseteq> mc_installs m" by auto
    then show ?thesis using rtranclp_trans [OF that(1)] by (intro exI [of _ n]) simp
  qed
  from assms(1) show ?thesis
  proof (cases rule: download_install_cases)
    case (early p)
    then show ?thesis using pre by (intro exI [of _ "m\<lparr>mc_sys := t\<rparr>"]) auto
  next
    case (unfetched prev s1 rf s2)
    then show ?thesis using handled [OF rtranclp_trans [OF pre fetch]] by blast
  next
    case (failed prev s1 s2 ri s3)
    have "step host (m\<lparr>mc_sys := s2\<rparr>) (m\<lparr>mc_sys := s3\<rparr>)"
      using install_run [of ?pid "m\<lparr>mc_sys := s2\<rparr>" fuel host "m_version man" unpack ri s3] failed(3,4) assms(2) by simp
    then have "(step host)\<^sup>*\<^sup>* m (m\<lparr>mc_sys := s3\<rparr>)"
      using rtranclp_trans [OF pre [OF failed(1)] fetch [OF failed(2)]] by (rule rtranclp.rtrancl_into_rtrancl [rotated])
    from handled [OF this failed(6)] failed(5) show ?thesis by blast
  next
    case (installed prev s1 s2 s3)
    let ?n = "m\<lparr>mc_sys := s3, mc_installs := mc_installs m - {?pid},
      mc_mislabelled := mc_mislabelled m \<union> (if mislabelled ?pid unpack (sys_world s2) then {?pid} else {})\<rparr>"
    have "step host (m\<lparr>mc_sys := s2\<rparr>) ?n"
      using install_run [of ?pid "m\<lparr>mc_sys := s2\<rparr>" fuel host "m_version man" unpack "Ok ()" s3] installed(3) assms(2) by simp
    then have "(step host)\<^sup>*\<^sup>* m ?n"
      using rtranclp_trans [OF pre [OF installed(1)] fetch [OF installed(2)]] by (rule rtranclp.rtrancl_into_rtrancl [rotated])
    also have "(step host)\<^sup>*\<^sup>* ?n (?n\<lparr>mc_sys := t\<rparr>)"
      using step_runD [OF quiet_parts(3), of host ?pid prev ?n r t] installed(4) by simp
    finally show ?thesis by (intro exI [of _ "?n\<lparr>mc_sys := t\<rparr>"]) auto
  qed
qed

section \<open>Outcomes\<close>

text \<open>The stages after part of the task, compared with those at its beginning.\<close>

definition progressed :: "package_id \<Rightarrow> db \<Rightarrow> db \<Rightarrow> bool" where
  "progressed pid d e \<longleftrightarrow> (\<forall>p. p \<noteq> pid \<longrightarrow> stage_get e p = stage_get d p) \<and>
     (stage_get e pid = stage_get d pid \<or> stage_leave (stage_get d pid) (stage_get e pid))"

lemma transient_stage: "bt_get d pid = Some e \<Longrightarrow> transient e \<Longrightarrow> in_transit (stage_get d pid)"
  by (cases e) (simp_all add: transient_def in_transit_def stage_get_def)

lemma same_stage_keeps:
  "keeps_ok d e \<Longrightarrow> db_ok d \<Longrightarrow> db_ok e \<and> stage_get e = stage_get d"
  by (simp add: keeps_ok_def)

lemma progressed_failure:
  assumes "after_failure host pid prev x u = (r, t)" and "in_transit (stage_get d pid)"
    and "db_ok (sys_db u)" and "stage_get (sys_db u) = stage_get d"
  shows "progressed pid d (sys_db t) \<and> db_ok (sys_db t)"
  using assms(1)
proof (cases rule: after_failure_cases)
  case early
  then show ?thesis using same_stage_keeps [OF keeps_okD [OF keeps_ok_parts(3) early(1)] assms(3)] assms(4) by (simp add: progressed_def)
next
  case (cleaned v r')
  have v: "db_ok (sys_db v)" "stage_get (sys_db v) = stage_get d"
    using same_stage_keeps [OF keeps_okD [OF keeps_ok_parts(3) cleaned(1)] assms(3)] assms(4) by simp_all
  have sound: "sound_step {pid} (sys_db v) (sys_db t)" by (rule sound_cleanup_failed(1) [OF cleaned(3)])
  then have "stage_enter (stage_get d pid) (stage_get (sys_db t) pid) \<or> stage_leave (stage_get d pid) (stage_get (sys_db t) pid)"
    using v by (auto simp: sound_step_def)
  then have "stage_get (sys_db t) pid = stage_get d pid \<or> stage_leave (stage_get d pid) (stage_get (sys_db t) pid)"
    using assms(2) by (auto simp: in_transit_def elim: stage_enter.cases)
  then show ?thesis using sound v sound_cleanup_failed(2) [OF cleaned(3)] by (simp add: progressed_def sound_step_def)
qed

text \<open>What the task has installed: the manifest of the archive, and consistent data if and only if it has the announced id.\<close>

definition unpacked :: "('w, manifest) call \<Rightarrow> manifest \<Rightarrow> bool" where
  "unpacked unpack man \<longleftrightarrow> (\<exists>w w'. unpack w = (Inr man, w'))"

lemma installed_from:
  assumes "install_s9pk fuel host pid ver unpack s = (Ok (), u)" and "restart_if_running host pid prev u = (r, t)"
    and "db_ok (sys_db s)" and "in_transit (stage_get (sys_db s) pid)"
  shows "\<exists>man. unpacked unpack man \<and> stage_get (sys_db t) = (stage_get (sys_db s))(pid \<mapsto> IsInstalled man) \<and>
    (db_ok (sys_db t) \<longleftrightarrow> m_id man = pid)"
proof -
  obtain man w where man: "unpack (sys_world s) = (Inr man, w)" "manifest_get (sys_db u) pid = Some man"
    "stage_get (sys_db u) = (stage_get (sys_db s))(pid \<mapsto> IsInstalled man)"
    by (rule install_s9pk_stage [OF assms(1)])
  have same: "keeps_ok (sys_db u) (sys_db t)" by (rule keeps_okD [OF keeps_ok_parts(3) assms(2)])
  obtain e where e: "bt_get (sys_db s) pid = Some e" "transient e" using transit_entry [OF assms(4)] by blast
  have "db_ok (sys_db t)" if "m_id man = pid"
    using install_s9pk_ok [OF assms(1) _ assms(3) e] same that man(1) by (simp add: mislabelled_def keeps_ok_def)
  moreover have "m_id man = pid" if "db_ok (sys_db t)"
    using that same man(2) by (simp add: keeps_ok_def db_ok_but_def keyed_def)
  moreover have "unpacked unpack man" using man(1) by (auto simp: unpacked_def)
  ultimately show ?thesis using man(3) same by (intro exI [of _ man]) (auto simp: keeps_ok_def)
qed

lemma install_progress:
  assumes "download_install_s9pk fuel host man download unpack s = (r, t)"
    and "db_ok (sys_db s)" and "bt_get (sys_db s) (m_id man) = Some e" and "transient e"
  shows "progressed (m_id man) (sys_db s) (sys_db t) \<and>
    (db_ok (sys_db t) \<and> \<not> is_ok r \<or>
     (\<exists>man'. unpacked unpack man' \<and> stage_get (sys_db t) (m_id man) = Some (IsInstalled man') \<and> (db_ok (sys_db t) \<longleftrightarrow> m_id man' = m_id man)))"
proof -
  let ?pid = "m_id man"
  have transit: "in_transit (stage_get (sys_db s) ?pid)" using transient_stage assms(3,4) by blast
  have pre: "db_ok (sys_db s1) \<and> stage_get (sys_db s1) = stage_get (sys_db s)" if "before_install ?pid s = (p, s1)" for p s1
    by (rule same_stage_keeps [OF keeps_okD [OF keeps_ok_parts(1) that] assms(2)])
  have fetch: "db_ok (sys_db s2) \<and> stage_get (sys_db s2) = stage_get (sys_db s)"
    if "before_install ?pid s = (p, s1)" "fetch_s9pk man download s1 = (rf, s2)" for p s1 rf s2
    using same_stage_keeps [OF keeps_okD [OF keeps_ok_parts(2) that(2)]] pre [OF that(1)] by simp
  have handled: "progressed ?pid (sys_db s) (sys_db t) \<and> db_ok (sys_db t)"
    if "db_ok (sys_db u) \<and> stage_get (sys_db u) = stage_get (sys_db s)"
      "t = u \<or> (\<exists>x. after_failure host ?pid prev x u = (r, t))" for u prev
    using that(2)
  proof
    assume "\<exists>x. after_failure host ?pid prev x u = (r, t)"
    then show ?thesis using progressed_failure [OF _ transit] that(1) by blast
  qed (use that(1) in \<open>simp add: progressed_def\<close>)
  from assms(1) show ?thesis
  proof (cases rule: download_install_cases)
    case (early p)
    then show ?thesis using pre by (auto simp: progressed_def)
  next
    case (unfetched prev s1 rf s2)
    then show ?thesis using handled [OF fetch] by blast
  next
    case (failed prev s1 s2 ri s3)
    have "sys_db s3 = sys_db s2" using failed(3) by (cases rule: install_s9pk_cases) (use failed(4) in auto)
    then show ?thesis using handled [of s3 prev] fetch [OF failed(1,2)] failed(5,6) by simp
  next
    case (installed prev s1 s2 s3)
    have s2: "db_ok (sys_db s2)" "stage_get (sys_db s2) = stage_get (sys_db s)" using fetch [OF installed(1,2)] by simp_all
    obtain man' where "unpacked unpack man'" "stage_get (sys_db t) = (stage_get (sys_db s))(?pid \<mapsto> IsInstalled man')"
      "db_ok (sys_db t) \<longleftrightarrow> m_id man' = ?pid"
      using installed_from [OF installed(3,4) s2(1)] s2(2) transit by auto
    moreover have "stage_leave (stage_get (sys_db s) ?pid) (Some (IsInstalled man'))"
      using stage_leave_installed [OF assms(4)] assms(3) by (simp add: stage_get_def)
    ultimately show ?thesis by (auto simp: progressed_def)
  qed
qed

text \<open>
  C3. What the installation task leaves behind, on every outcome, when it starts with a package in a transient stage and
  consistent package data: every other package at its stage, and the package itself either at the stage it had or at
  one that may follow it. Either it failed and the data are consistent, or the package is installed with the manifest that was in
  the archive; then the data are consistent if and only if this manifest has the id under which the package was announced, which nothing
  checks. An update that fails never loses the package.
\<close>

theorem install_outcomes:
  assumes "download_install_s9pk fuel host man download unpack s = (r, t)"
    and "db_ok (sys_db s)" and "bt_get (sys_db s) (m_id man) = Some e" and "transient e"
  shows "(\<forall>p. p \<noteq> m_id man \<longrightarrow> stage_get (sys_db t) p = stage_get (sys_db s) p) \<and>
    (stage_get (sys_db t) (m_id man) = stage_get (sys_db s) (m_id man) \<or>
     stage_leave (stage_get (sys_db s) (m_id man)) (stage_get (sys_db t) (m_id man))) \<and>
    (db_ok (sys_db t) \<and> \<not> is_ok r \<or>
     (\<exists>man'. unpacked unpack man' \<and> stage_get (sys_db t) (m_id man) = Some (IsInstalled man') \<and> (db_ok (sys_db t) \<longleftrightarrow> m_id man' = m_id man))) \<and>
    (installed_get (sys_db s) (m_id man) \<noteq> None \<longrightarrow> installed_get (sys_db t) (m_id man) \<noteq> None)"
proof -
  have "installed_get (sys_db t) (m_id man) \<noteq> None" if old: "installed_get (sys_db s) (m_id man) \<noteq> None"
  proof -
    obtain m i where "e = Updating m i" using old assms(3,4) by (cases e) (auto simp: transient_def installed_get_def)
    then have "stage_get (sys_db s) (m_id man) = Some (IsUpdating m)" using assms(3) by (simp add: stage_get_def)
    then have "stage_get (sys_db t) (m_id man) = Some (IsUpdating m) \<or> (\<exists>m'. stage_get (sys_db t) (m_id man) = Some (IsInstalled m'))"
      using install_progress [OF assms] by (auto simp: progressed_def elim: stage_leave.cases)
    then show ?thesis by (auto simp: stage_get_def installed_get_def elim: pde_stage.elims)
  qed
  then show ?thesis using install_progress [OF assms] unfolding progressed_def by blast
qed

section \<open>A sample installation\<close>

definition sample_host :: "nat host" where
  "sample_host = \<lparr>rpc = sample_ctx, managers = \<lambda>_ _. Some (\<lambda>w. (Inr (), Suc w)), manager_add = \<lambda>_ w. (Inr (), Suc w),
     manager_remove = \<lambda>_ _. Suc, datadir = [''data''], list_images = \<lambda>_ w. (Inr [], w),
     remove_image = \<lambda>_ w. (Inr (), w), path_exists = \<lambda>_ _. False, create_dir_all = \<lambda>_ w. (Inr (), w),
     remove_dir_all = \<lambda>_ w. (Inr (), w), at_path = \<lambda>_ _. id, tor_insert = \<lambda>_ _ w. (Inr (), w),
     tor_select = \<lambda>_ _ w. (Inr ''KEY'', w), tor_delete = \<lambda>_ w. (Inr (), w), onion = id,
     exec_migration = \<lambda>_ _ _ _ _ w. (Inr (Inr True), w), exec_restore = \<lambda>_ _ _ _ w. (Inr (Inr ()), w),
     exec_health = \<lambda>_ _ _ _ _ _ w. (Inr (Inr ()), w), backup_metadata = \<lambda>_ w. (Inr (), w),
     backup_manifest = \<lambda>_ w. (Inr b_manifest, w), newer = \<lambda>_ _. False\<rparr>"

definition empty_sys :: "nat sys" where
  "empty_sys = \<lparr>sys_db = [], sys_breakages = [], sys_overrides = [], sys_world = 0\<rparr>"

text \<open>The package \<open>b\<close> while it is being installed on an empty system.\<close>

definition begun_sys :: "nat sys" where
  "begun_sys = empty_sys\<lparr>sys_db := [(''b'', Installing b_manifest)]\<rparr>"

lemma begun: "begin_install b_manifest empty_sys = (Ok (), begun_sys)"
  by (simp add: begin_install_def in_transaction_def st_eval st_bind_def map_db_step empty_sys_def begun_sys_def b_manifest_def)

definition sample_download :: "(nat, unit) call" where
  "sample_download w = (Inr (), Suc w)"

definition sample_unpack :: "(nat, manifest) call" where
  "sample_unpack w = (Inr b_manifest, Suc w)"

lemma sample_install_ok: "fst (download_install_s9pk 3 sample_host b_manifest sample_download sample_unpack begun_sys) = Ok ()"
  by code_simp

definition begun_machine :: "nat machine" where
  "begun_machine = \<lparr>mc_sys = begun_sys, mc_installs = {''b''}, mc_removals = {}, mc_mislabelled = {}\<rparr>"

theorem install_task_refines_steps_witness:
  "\<exists>n. (step sample_host)\<^sup>*\<^sup>* begun_machine n \<and> ''b'' \<notin> mc_installs n \<and>
     mc_sys n = snd (download_install_s9pk 3 sample_host b_manifest sample_download sample_unpack begun_sys)"
proof -
  obtain r t where run: "download_install_s9pk 3 sample_host b_manifest sample_download sample_unpack (mc_sys begun_machine) = (r, t)"
    by fastforce
  then have "r = Ok ()" using sample_install_ok by (simp add: begun_machine_def)
  moreover have "m_id b_manifest = ''b''" by (simp add: b_manifest_def)
  ultimately show ?thesis
    using install_task_refines_steps [OF run] run by (auto simp: begun_machine_def)
qed

lemma begun_ok: "db_ok (sys_db begun_sys)"
  by (simp add: begun_sys_def empty_sys_def db_ok_defs removing_get_def receipt_defs installed_get_def bt_keys_def)

text \<open>The same archive, announced as \<open>c\<close>.\<close>

definition misannounced :: manifest where
  "misannounced = b_manifest\<lparr>m_id := ''c''\<rparr>"

definition misannounced_sys :: "nat sys" where
  "misannounced_sys = empty_sys\<lparr>sys_db := [(''c'', Installing misannounced)]\<rparr>"

lemma misannounced_ok: "db_ok (sys_db misannounced_sys)"
  by (simp add: misannounced_sys_def empty_sys_def db_ok_defs removing_get_def receipt_defs installed_get_def bt_keys_def)

lemma misannounced_installs: "fst (download_install_s9pk 3 sample_host misannounced sample_download sample_unpack misannounced_sys) = Ok ()"
  by code_simp

theorem install_outcomes_witness:
  "db_ok (sys_db (snd (download_install_s9pk 3 sample_host b_manifest sample_download sample_unpack begun_sys))) \<and>
   \<not> db_ok (sys_db (snd (download_install_s9pk 3 sample_host misannounced sample_download sample_unpack misannounced_sys)))"
proof
  have from_b: "unpacked sample_unpack man \<longleftrightarrow> man = b_manifest" for man by (auto simp: unpacked_def sample_unpack_def)
  have id_b: "m_id b_manifest = ''b''" "m_id misannounced = ''c''" by (simp_all add: b_manifest_def misannounced_def)
  obtain r t where run: "download_install_s9pk 3 sample_host b_manifest sample_download sample_unpack begun_sys = (r, t)"
    by fastforce
  have "bt_get (sys_db begun_sys) ''b'' = Some (Installing b_manifest)" by (simp add: begun_sys_def)
  then show "db_ok (sys_db (snd (download_install_s9pk 3 sample_host b_manifest sample_download sample_unpack begun_sys)))"
    using install_outcomes [OF run begun_ok, of "Installing b_manifest"] run by (auto simp: transient_def id_b from_b)
  obtain r' t' where run': "download_install_s9pk 3 sample_host misannounced sample_download sample_unpack misannounced_sys = (r', t')"
    by fastforce
  then have "is_ok r'" using misannounced_installs by (simp add: is_ok_iff)
  moreover have "bt_get (sys_db misannounced_sys) ''c'' = Some (Installing misannounced)" by (simp add: misannounced_sys_def)
  ultimately show "\<not> db_ok (sys_db (snd (download_install_s9pk 3 sample_host misannounced sample_download sample_unpack misannounced_sys)))"
    using install_outcomes [OF run' misannounced_ok, of "Installing misannounced"] run' by (auto simp: transient_def id_b from_b)
qed

end
