(* ===== verification/Lifecycle_Props.thy ===== *)
theory Lifecycle_Props
  imports Install_Task
begin

text \<open>
  The properties of the life cycle of packages: reachable states are consistent as long as archives hold what they are announced as, stages change along their edges
  only, removal leaves no trace, and what the check for conflicting LAN ports sees.
\<close>

section \<open>Reachable states\<close>







section \<open>Removal\<close>

text \<open>
  C4. When the removal of a package succeeds its entry is gone, no list of dependents names it any more, the manifests of
  all installed packages are as before, every dependent that declares it has the error \<open>NotInstalled\<close> for it, and the
  package data are consistent.
\<close>

theorem uninstall_complete:
  assumes "uninstall fuel host pid s = (Ok u, t)" and "db_ok (sys_db s)" and "removing_get (sys_db s) pid = Some i"
  shows "bt_get (sys_db t) pid = None \<and>
    (\<forall>q ds. dependents_get (sys_db t) q = Some ds \<longrightarrow> bt_get ds pid = None) \<and>
    manifest_get (sys_db t) = manifest_get (sys_db s) \<and> db_ok (sys_db t) \<and>
    (\<forall>p m. bt_get (ip_current_dependents i) p \<noteq> None \<longrightarrow> manifest_get (sys_db t) p = Some m \<longrightarrow>
       bt_get (m_dependencies m) pid \<noteq> None \<longrightarrow> bt_get (errs (sys_db t) p) pid = Some NotInstalled)"
proof (intro conjI allI impI)
  fix q ds assume "dependents_get (sys_db t) q = Some ds"
  then show "bt_get ds pid = None" by (rule uninstall_effect(3) [OF assms(1,2)])
next
  fix p m assume "bt_get (ip_current_dependents i) p \<noteq> None" "manifest_get (sys_db t) p = Some m" "bt_get (m_dependencies m) pid \<noteq> None"
  then show "bt_get (errs (sys_db t) p) pid = Some NotInstalled"
    using uninstall_effect(5) [OF assms] by simp
qed (rule uninstall_effect [OF assms(1,2)])+

text \<open>The package \<open>a\<close>, on which \<open>b\<close> depends, while it is being removed.\<close>

definition a_leaving :: "nat sys" where
  "a_leaving = conf_sys\<lparr>sys_db := map (\<lambda>(p, e). (p, case e of Installed m i \<Rightarrow> if p = ''a'' then Removing m i else e | _ \<Rightarrow> e)) (sys_db conf_sys)\<rparr>"

lemma a_leaving_ok: "db_ok (sys_db a_leaving)"
  by (auto simp: db_ok_defs removing_get_def bt_keys_def a_leaving_def conf_defs split: if_splits)

theorem uninstall_complete_witness:
  "bt_get (sys_db (snd (uninstall 3 sample_host ''a'' a_leaving))) ''a'' = None \<and>
   bt_get (errs (sys_db (snd (uninstall 3 sample_host ''a'' a_leaving))) ''b'') ''a'' = Some NotInstalled"
proof -
  have ok: "fst (uninstall 3 sample_host ''a'' a_leaving) = Ok ()" by code_simp
  then obtain t where run: "uninstall 3 sample_host ''a'' a_leaving = (Ok (), t)" by (metis prod.collapse)
  obtain i where i: "removing_get (sys_db a_leaving) ''a'' = Some i" and dep: "bt_get (ip_current_dependents i) ''b'' \<noteq> None"
    by (simp add: a_leaving_def removing_get_def conf_defs)
  have "manifest_get (sys_db a_leaving) ''b'' = Some b_manifest"
    by (simp add: a_leaving_def b_manifest_def conf_defs)
  moreover have "bt_get (m_dependencies b_manifest) ''a'' \<noteq> None" by (simp add: b_manifest_def sample_deps_def)
  ultimately show ?thesis using uninstall_complete [OF run a_leaving_ok i] dep run by auto
qed

end
