(* ===== verification/Boot.thy ===== *)
theory Boot
  imports Lifecycle_Props
begin

text \<open>
  What the backend does to the package data when it starts (\<^verbatim>\<open>RpcContext::cleanup\<close> of \<^verbatim>\<open>context/rpc.rs\<close>): the lists of
  dependents are rebuilt from the current dependencies, then every package is brought out of the stage it was in when
  the system went down.
\<close>

section \<open>The code\<close>

definition rebuild_entry :: "package_id \<Rightarrow> package_id \<times> current_dependency_info \<Rightarrow>
    (package_id, current_dependents) btmap \<Rightarrow> (package_id, current_dependents) btmap" where
  "rebuild_entry pid e m =
     bt_insert (fst e) (bt_insert pid (snd e) (case bt_get m (fst e) of Some ds \<Rightarrow> ds | None \<Rightarrow> [])) m"

definition rebuilt_dependents :: "db \<Rightarrow> (package_id, current_dependents) btmap" where
  "rebuilt_dependents db =
     fold (\<lambda>p. fold (rebuild_entry (fst p)) (case pde_installed (snd p) of Some i \<Rightarrow> ip_current_dependencies i | None \<Rightarrow> []))
       db (map (\<lambda>k. (k, [])) (bt_keys db))"

definition removing_dependents_set :: "current_dependents \<Rightarrow> package_id \<Rightarrow> db \<Rightarrow> db" where
  "removing_dependents_set ds pid db =
     map (\<lambda>(k, e). (k, case e of
        Removing m i \<Rightarrow> if k = pid then Removing m (i\<lparr>ip_current_dependents := ds\<rparr>) else e
      | _ \<Rightarrow> e)) db"

definition put_dependents :: "package_id \<times> current_dependents \<Rightarrow> db \<Rightarrow> db" where
  "put_dependents p db =
     (if installed_get db (fst p) \<noteq> None then dependents_set (snd p) (fst p) db
      else if removing_get db (fst p) \<noteq> None then removing_dependents_set (snd p) (fst p) db
      else db)"

definition rebuild_dependents :: "db \<Rightarrow> db" where
  "rebuild_dependents db = fold put_dependents (rebuilt_dependents db) db"

definition path_text :: "path \<Rightarrow> string" where
  "path_text p = concat (map (\<lambda>c. CHR ''/'' # c) p)"

text \<open>\<open>to_tmp_path\<close>; the root has no parent, and \<open>..\<close> is no file name.\<close>

definition to_tmp_path :: "path \<Rightarrow> (error, path) res" where
  "to_tmp_path p =
     (if p = [] \<or> last p = ''..'' then Err (Error Filesystem (Msg (''invalid path: '' @ path_text p)))
      else Ok (butlast p @ [CHR ''.'' # last p @ ''.tmp'']))"

fun boot_main :: "main_status \<Rightarrow> main_status" where
  "boot_main (BackingUp (Some _) _) = Starting False"
| "boot_main (BackingUp None _) = Stopped"
| "boot_main (Running _ _) = Starting False"
| "boot_main m = m"

definition remove_tmp :: "'w host \<Rightarrow> package_id \<Rightarrow> manifest \<Rightarrow> string \<times> volume \<Rightarrow> ('w, unit) act" where
  "remove_tmp host pid man v =
     st_bind (st_lift (to_tmp_path (path_for (datadir host) pid (m_version man) (fst v) (snd v)))) (\<lambda>tmp.
     st_bind (st_get (\<lambda>s. path_exists host tmp (sys_world s))) (\<lambda>b.
     if b then call_world (remove_dir_all host tmp) else st_return ()))"

definition boot_installed :: "installed_package_data_entry \<Rightarrow> installed_package_data_entry" where
  "boot_installed i = i\<lparr>ip_status := (ip_status i)\<lparr>main := boot_main (main (ip_status i))\<rparr>\<rparr>"

definition boot_package :: "nat \<Rightarrow> 'w host \<Rightarrow> package_id \<times> package_data_entry \<Rightarrow> ('w, unit) act" where
  "boot_package fuel host p =
     (case snd p of
        Removing _ _ \<Rightarrow> uninstall fuel host (fst p)
      | Installed man i \<Rightarrow>
          st_bind (st_for (remove_tmp host (fst p) man) (m_volumes man)) (\<lambda>_.
          map_db (bt_insert (fst p) (Installed man (boot_installed i))))
      | _ \<Rightarrow> cleanup_failed host (fst p))"

text \<open>An error with one package is logged, and the next one is handled.\<close>

definition boot :: "nat \<Rightarrow> 'w host \<Rightarrow> ('w, unit) act" where
  "boot fuel host =
     st_bind (map_db rebuild_dependents) (\<lambda>_.
     st_bind (st_get sys_db) (\<lambda>packages.
     st_for (\<lambda>p. st_catch (boot_package fuel host p) (\<lambda>_. st_return ())) packages))"

section \<open>The rebuilt lists\<close>

definition listed :: "(package_id, current_dependents) btmap \<Rightarrow> package_id \<Rightarrow> package_id \<Rightarrow> current_dependency_info option" where
  "listed m q p = Option.bind (bt_get m q) (\<lambda>ds. bt_get ds p)"

lemma listed_rebuild_entry:
  "listed (rebuild_entry pid e m) q p = (if q = fst e \<and> p = pid then Some (snd e) else listed m q p)"
  by (auto simp: listed_def rebuild_entry_def split: option.splits)

lemma listed_rebuild_entries:
  "bt_ok cds \<Longrightarrow> listed (fold (rebuild_entry pid) cds m) q p =
     (if p = pid \<and> bt_get cds q \<noteq> None then bt_get cds q else listed m q p)"
proof (induction cds arbitrary: m)
  case (Cons e cds)
  obtain k v where e: "e = (k, v)" by (cases e)
  have "bt_get cds k = None"
    using bt_ok_distinct [OF Cons.prems] bt_get_None [of cds k] by (auto simp: e bt_keys_def)
  moreover have "bt_ok cds" using Cons.prems by simp
  note Cons.IH [OF this, of "rebuild_entry pid (k, v) m"]
  ultimately show ?case by (auto simp: e listed_rebuild_entry)
qed simp

definition dependencies_of :: "package_data_entry \<Rightarrow> current_dependencies" where
  "dependencies_of e = (case pde_installed e of Some i \<Rightarrow> ip_current_dependencies i | None \<Rightarrow> [])"

lemma listed_rebuild_all:
  assumes "bt_ok d" and "\<forall>p \<in> set d. bt_ok (dependencies_of (snd p))"
  shows "listed (fold (\<lambda>p. fold (rebuild_entry (fst p)) (dependencies_of (snd p))) d m) q p =
    (case Option.bind (bt_get d p) (\<lambda>e. bt_get (dependencies_of e) q) of Some v \<Rightarrow> Some v | None \<Rightarrow> listed m q p)"
  using assms
proof (induction d arbitrary: m)
  case (Cons x d)
  obtain a e where x: "x = (a, e)" by (cases x)
  let ?m = "fold (rebuild_entry a) (dependencies_of e) m"
  have absent: "bt_get d a = None"
    using bt_ok_distinct [OF Cons.prems(1)] bt_get_None [of d a] by (auto simp: x bt_keys_def)
  have head: "listed ?m q p =
      (if p = a \<and> bt_get (dependencies_of e) q \<noteq> None then bt_get (dependencies_of e) q else listed m q p)"
    using Cons.prems by (intro listed_rebuild_entries) (simp add: x)
  have "bt_ok d" "\<forall>p \<in> set d. bt_ok (dependencies_of (snd p))" using Cons.prems by simp_all
  note IH = Cons.IH [OF this, of ?m]
  show ?case
  proof (cases "p = a")
    case True
    then show ?thesis using IH head absent by (cases "bt_get (dependencies_of e) q") (simp_all add: x)
  next
    case False
    then have same: "listed ?m q p = listed m q p" using head by simp
    show ?thesis using IH False unfolding same by (simp add: x)
  qed
qed (simp add: listed_def)

lemma rebuild_entry_keys: "bt_ok m \<Longrightarrow> bt_ok (rebuild_entry pid e m)" "set (bt_keys (rebuild_entry pid e m)) = insert (fst e) (set (bt_keys m))"
  by (simp_all add: rebuild_entry_def bt_ok_insert bt_keys_def)

lemma rebuild_keys:
  "bt_ok m \<Longrightarrow> bt_ok (fold (\<lambda>p. fold (rebuild_entry (fst p)) (dependencies_of (snd p))) d m) \<and>
     set (bt_keys m) \<subseteq> set (bt_keys (fold (\<lambda>p. fold (rebuild_entry (fst p)) (dependencies_of (snd p))) d m))"
proof (induction d arbitrary: m)
  case (Cons x d)
  have "bt_ok (fold (rebuild_entry pid) es m) \<and> set (bt_keys m) \<subseteq> set (bt_keys (fold (rebuild_entry pid) es m))"
    if "bt_ok m" for pid es m
    using that
  proof (induction es arbitrary: m)
    case (Cons e es)
    from Cons.IH [OF rebuild_entry_keys(1) [OF Cons.prems], of pid e] show ?case by (auto simp: rebuild_entry_keys(2))
  qed simp
  from this [OF Cons.prems] Cons.IH [of "fold (rebuild_entry (fst x)) (dependencies_of (snd x)) m"] show ?case by auto
qed simp

text \<open>The maps inside the package data are sorted, as maps are.\<close>

definition maps_sorted :: "db \<Rightarrow> bool" where
  "maps_sorted db \<longleftrightarrow> bt_ok db \<and> (\<forall>p \<in> set db. bt_ok (dependencies_of (snd p)))"

lemma rebuilt_unfold: "rebuilt_dependents db = fold (\<lambda>p. fold (rebuild_entry (fst p)) (dependencies_of (snd p))) db (map (\<lambda>k. (k, [])) (bt_keys db))"
  by (simp add: rebuilt_dependents_def dependencies_of_def)

lemma empty_lists: "listed (map (\<lambda>k. (k, [])) ks) q p = None" "k \<in> set ks \<Longrightarrow> bt_get (map (\<lambda>k. (k, [])) ks) k \<noteq> None"
  by (induction ks) (auto simp: listed_def)

lemma dependencies_get_of: "(case dependencies_get db p of Some cds \<Rightarrow> bt_get cds q | None \<Rightarrow> None) = Option.bind (bt_get db p) (\<lambda>e. bt_get (dependencies_of e) q)"
  by (cases "bt_get db p") (auto simp: dependencies_get_def installed_get_def dependencies_of_def split: option.splits)

lemma rebuilt_dependents_get:
  assumes "maps_sorted db"
  shows "listed (rebuilt_dependents db) q p = (case dependencies_get db p of Some cds \<Rightarrow> bt_get cds q | None \<Rightarrow> None)"
    and "bt_ok (rebuilt_dependents db)" and "bt_get db q \<noteq> None \<Longrightarrow> bt_get (rebuilt_dependents db) q \<noteq> None"
proof -
  have sorted: "bt_ok (map (\<lambda>k. (k, [])) (bt_keys db))"
    using assms by (simp add: maps_sorted_def bt_keys_def o_def)
  have d: "bt_ok db" "\<forall>p \<in> set db. bt_ok (dependencies_of (snd p))" using assms by (simp_all add: maps_sorted_def)
  show "listed (rebuilt_dependents db) q p = (case dependencies_get db p of Some cds \<Rightarrow> bt_get cds q | None \<Rightarrow> None)"
    unfolding rebuilt_unfold listed_rebuild_all [OF d] dependencies_get_of empty_lists by (auto split: option.splits)
  show "bt_ok (rebuilt_dependents db)" unfolding rebuilt_unfold using rebuild_keys [OF sorted] by blast
  have "set (bt_keys (map (\<lambda>k. (k, [] :: current_dependents)) (bt_keys db))) = set (bt_keys db)" by (auto simp: bt_keys_def)
  then show "bt_get (rebuilt_dependents db) q \<noteq> None" if "bt_get db q \<noteq> None"
    unfolding rebuilt_unfold using rebuild_keys [OF sorted, of db] that
      bt_get_None [of db q] bt_get_None [of "rebuilt_dependents db" q] unfolding rebuilt_unfold by auto
qed

section \<open>Writing the lists\<close>

lemma removing_set_frames:
  "installed_get (removing_dependents_set ds pid db) = installed_get db"
  "bt_keys (removing_dependents_set ds pid db) = bt_keys db"
  "stage_get (removing_dependents_set ds pid db) = stage_get db"
  "removing_get (removing_dependents_set ds pid db) p =
     (if p = pid then map_option (\<lambda>i. i\<lparr>ip_current_dependents := ds\<rparr>) (removing_get db p) else removing_get db p)"
proof -
  have get: "bt_get (removing_dependents_set ds pid db) p = map_option (\<lambda>e. case e of
      Removing m i \<Rightarrow> if p = pid then Removing m (i\<lparr>ip_current_dependents := ds\<rparr>) else e | _ \<Rightarrow> e) (bt_get db p)" for p
    unfolding removing_dependents_set_def by (induction db) auto
  show "installed_get (removing_dependents_set ds pid db) = installed_get db"
  proof
    show "installed_get (removing_dependents_set ds pid db) p = installed_get db p" for p
      by (cases "bt_get db p") (auto simp: installed_get_def get split: package_data_entry.splits)
  qed
  show "stage_get (removing_dependents_set ds pid db) = stage_get db"
  proof
    show "stage_get (removing_dependents_set ds pid db) p = stage_get db p" for p
      by (cases "bt_get db p") (auto simp: stage_get_def get split: package_data_entry.splits)
  qed
  show "removing_get (removing_dependents_set ds pid db) p =
     (if p = pid then map_option (\<lambda>i. i\<lparr>ip_current_dependents := ds\<rparr>) (removing_get db p) else removing_get db p)"
    by (cases "bt_get db p") (auto simp: removing_get_def get split: package_data_entry.splits)
  show "bt_keys (removing_dependents_set ds pid db) = bt_keys db"
    unfolding removing_dependents_set_def by (induction db) (auto simp: bt_keys_def)
qed

text \<open>Everything but the lists of dependents.\<close>

definition removing_core :: "db \<Rightarrow> package_id \<Rightarrow> (manifest \<times> current_dependencies) option" where
  "removing_core db p = map_option (\<lambda>i. (ip_manifest i, ip_current_dependencies i)) (removing_get db p)"

definition same_but_lists :: "db \<Rightarrow> db \<Rightarrow> bool" where
  "same_but_lists d e \<longleftrightarrow> bt_keys e = bt_keys d \<and> manifest_get e = manifest_get d \<and> dependencies_get e = dependencies_get d \<and>
     stage_get e = stage_get d \<and> removing_core e = removing_core d"

lemma same_put: "same_but_lists d (put_dependents p d)"
proof (cases "installed_get d (fst p) \<noteq> None")
  case True
  then show ?thesis
    by (auto simp: same_but_lists_def put_dependents_def removing_core_def fun_eq_iff dependents.keys_store)
next
  case False
  have "removing_core (removing_dependents_set (snd p) (fst p) d) = removing_core d"
    by (auto simp: fun_eq_iff removing_core_def removing_set_frames option.map_comp o_def)
  then show ?thesis using False
    by (auto simp: same_but_lists_def put_dependents_def receipt_defs removing_set_frames fun_eq_iff)
qed

lemma same_put_all: "same_but_lists d (fold put_dependents R d)"
proof (induction R arbitrary: d)
  case (Cons p R)
  then show ?case using same_put [of d p] Cons [of "put_dependents p d"] by (simp add: same_but_lists_def)
qed (simp add: same_but_lists_def)

lemma dependents_put:
  "dependents_get (put_dependents p d) q = (if q = fst p \<and> dependents_get d q \<noteq> None then Some (snd p) else dependents_get d q)"
  using dependents.fetch_None [of d "fst p"]
  by (auto simp: put_dependents_def dependents.fetch_store receipt_defs removing_set_frames)

lemma dependents_put_all:
  "distinct (map fst R) \<Longrightarrow> dependents_get (fold put_dependents R d) q =
     (case bt_get R q of Some ds \<Rightarrow> map_option (\<lambda>_. ds) (dependents_get d q) | None \<Rightarrow> dependents_get d q)"
proof (induction R arbitrary: d)
  case (Cons p R)
  obtain k ds where p: "p = (k, ds)" by (cases p)
  have "bt_get R k = None" using Cons.prems bt_get_None [of R k] by (auto simp: p bt_keys_def)
  then show ?case using Cons by (cases "dependents_get d q") (auto simp: p dependents_put split: option.splits)
qed simp

lemma rebuilt_exact:
  assumes "maps_sorted db" and "dependents_get (rebuild_dependents db) q = Some ds"
  shows "bt_get ds p = (case dependencies_get db p of Some cds \<Rightarrow> bt_get cds q | None \<Rightarrow> None)"
proof -
  note R = rebuilt_dependents_get [OF assms(1)]
  have "dependents_get db q \<noteq> None"
    using assms(2) dependents_put_all [OF bt_ok_distinct [OF R(2)], of db q]
    by (auto simp: rebuild_dependents_def split: option.splits)
  moreover from this have "bt_get db q \<noteq> None" by (cases "bt_get db q") (auto simp: dependents_get_def installed_get_def)
  then obtain ds' where "bt_get (rebuilt_dependents db) q = Some ds'" using R(3) [of q] by auto
  ultimately have "bt_get (rebuilt_dependents db) q = Some ds"
    using assms(2) dependents_put_all [OF bt_ok_distinct [OF R(2)], of db q]
    by (auto simp: rebuild_dependents_def)
  then show ?thesis using R(1) [of q p] by (simp add: listed_def)
qed

lemma rebuilt_ok:
  assumes "maps_sorted db" and "keyed db" and "declared db"
  shows "db_ok (rebuild_dependents db)"
proof -
  have same: "same_but_lists db (rebuild_dependents db)" unfolding rebuild_dependents_def by (rule same_put_all)
  have "removing_get (rebuild_dependents db) p = Some i \<Longrightarrow> \<exists>j. removing_get db p = Some j \<and> ip_manifest j = ip_manifest i" for p i
    using same unfolding same_but_lists_def removing_core_def fun_eq_iff by (cases "removing_get db p") (auto dest: spec [of _ p])
  then have "keyed (rebuild_dependents db)"
    using assms(2) same unfolding keyed_def same_but_lists_def by metis
  moreover have "declared (rebuild_dependents db)" using assms(3) same by (simp add: declared_def same_but_lists_def)
  moreover have "linked_but {} (rebuild_dependents db)"
    using rebuilt_exact [OF assms(1)] same by (auto simp: row_defs same_but_lists_def)
  moreover have "tidy_but {} (rebuild_dependents db)"
    using rebuilt_exact [OF assms(1)] same
    by (fastforce simp: tidy_but_def same_but_lists_def receipt_defs split: option.splits)
  moreover have "sorted_wrt (<) (bt_keys (rebuild_dependents db))"
    using assms(1) same by (simp add: same_but_lists_def maps_sorted_def bt_keys_def)
  ultimately show ?thesis by (simp add: db_ok_but_def)
qed

section \<open>Settling the packages\<close>

lemma cleaned_get: "p \<noteq> pid \<Longrightarrow> bt_get (cleaned pid e d) p = bt_get d p"
  by (cases e) (simp_all add: cleaned_def)

lemma bt_keys_insert_same: "bt_ok m \<Longrightarrow> bt_get m k \<noteq> None \<Longrightarrow> bt_keys (bt_insert k v m) = bt_keys m"
proof (induction m)
  case (Cons x m)
  obtain a b where x: "x = (a, b)" by (cases x)
  have "a < k" if "bt_get m k \<noteq> None" using that Cons.prems(1) bt_get_SomeD [of m k] by (fastforce simp: x)
  then show ?case using Cons by (auto simp: x bt_keys_def)
qed simp

lemma boot_installed_keeps:
  assumes "bt_ok d" and "bt_get d pid = Some (Installed m i)"
  shows "keeps_ok d (bt_insert pid (Installed m (boot_installed i)) d)"
  using assms bt_keys_insert_same [OF assms(1), of pid]
  by (intro keeps_ok_same ext)
     (auto simp: receipt_defs entry_insert boot_installed_def stage_insert stage_get_def installed_get_def removing_get_def)

text \<open>
  One package is settled: the data stay consistent, other entries are untouched, the stage is kept or left, and it is left for
  sure when the files and images of the package can be cleaned up.
\<close>

definition settled_at :: "bool \<Rightarrow> package_id \<Rightarrow> db \<Rightarrow> db \<Rightarrow> bool" where
  "settled_at clean pid d e \<longleftrightarrow> (db_ok d \<longrightarrow> db_ok e) \<and> (\<forall>p. p \<noteq> pid \<longrightarrow> bt_get e p = bt_get d p) \<and>
     (stage_get e pid = stage_get d pid \<or> stage_leave (stage_get d pid) (stage_get e pid)) \<and>
     (clean \<longrightarrow> \<not> in_transit (stage_get e pid))"

definition cleanup_works :: "'w host \<Rightarrow> bool" where
  "cleanup_works host \<longleftrightarrow> (\<forall>pid ver s. is_ok (fst (cleanup host pid ver s)))"

lemma cleanup_failed_works:
  assumes "cleanup_works host" and "cleanup_failed host pid s = (r, t)" and "bt_get (sys_db s) pid = Some e" and "transient e"
  shows "r = Ok () \<and> \<not> in_transit (stage_get (sys_db t) pid)"
proof -
  let ?clean = "case (case e of Installing man \<Rightarrow> Some man | Restoring man \<Rightarrow> Some man
      | Updating man i \<Rightarrow> if m_version man \<noteq> m_version (ip_manifest i) then Some man else None | _ \<Rightarrow> None) of
    Some man \<Rightarrow> cleanup host pid (m_version man) | None \<Rightarrow> st_return ()"
  have "is_ok (fst (?clean s))" using assms(1) by (auto simp: cleanup_works_def st_return_def split: option.split)
  then obtain u s1 where cl: "?clean s = (Ok u, s1)" by (cases "?clean s") (auto simp: is_ok_iff)
  have "st_bind ?clean (\<lambda>_. case e of Installing _ \<Rightarrow> map_db (bt_remove pid) | Restoring _ \<Rightarrow> map_db (bt_remove pid)
     | Updating _ i \<Rightarrow> map_db (bt_insert pid (Installed (ip_manifest i) i)) | _ \<Rightarrow> st_return ()) s = (r, t)"
    using assms(2,3) unfolding cleanup_failed_def by (simp only: st_eval ok_or_simps)
  then have "(case e of Installing _ \<Rightarrow> map_db (bt_remove pid) | Restoring _ \<Rightarrow> map_db (bt_remove pid)
     | Updating _ i \<Rightarrow> map_db (bt_insert pid (Installed (ip_manifest i) i)) | _ \<Rightarrow> st_return ()) s1 = (r, t)"
    using cl by (simp only: st_bind_outcomes)
  then show ?thesis using assms(4) by (cases e) (auto simp: map_db_step in_transit_def stage_get_def transient_def)
qed

lemma boot_package_settles:
  assumes "boot_package fuel host (pid, e) s = (r, t)" and "bt_get (sys_db s) pid = Some e" and "pde_removing e = None"
    and "bt_ok (sys_db s)"
  shows "settled_at (cleanup_works host) pid (sys_db s) (sys_db t)"
proof (cases "transient e")
  case True
  then have run: "cleanup_failed host pid s = (r, t)" using assms(1) by (cases e) (auto simp: boot_package_def transient_def)
  have works: "\<not> in_transit (stage_get (sys_db t) pid)" if "cleanup_works host"
    using cleanup_failed_works [OF that run assms(2) True] by simp
  from cleanup_failed_run [OF run] show ?thesis
  proof
    assume "(\<exists>e. bt_get (sys_db s) pid = Some e \<and> sys_db t = cleaned pid e (sys_db s)) \<and> r = Ok ()"
    then have t: "sys_db t = cleaned pid e (sys_db s)" using assms(2) by auto
    have "stage_enter (stage_get (sys_db s) pid) (stage_get (sys_db t) pid) \<or> stage_leave (stage_get (sys_db s) pid) (stage_get (sys_db t) pid)"
      using sound_cleaned [OF assms(2)] unfolding t by (auto simp: sound_step_def)
    then have "stage_get (sys_db t) pid = stage_get (sys_db s) pid \<or> stage_leave (stage_get (sys_db s) pid) (stage_get (sys_db t) pid)"
      using transient_stage [OF assms(2) True] by (auto simp: in_transit_def elim: stage_enter.cases)
    then show ?thesis using sound_cleaned [OF assms(2)] cleaned_get works unfolding t settled_at_def by (auto simp: sound_step_def)
  qed (use works in \<open>simp add: settled_at_def\<close>)
next
  case False
  then obtain m i where e: "e = Installed m i" using assms(3) by (cases e) (auto simp: transient_def)
  let ?clear = "st_for (remove_tmp host pid m) (m_volumes m)"
  obtain r1 s1 where clear: "?clear s = (r1, s1)" by fastforce
  have "same_db.rel.keeps ?clear" unfolding remove_tmp_def by (auto intro!: same_db.rel.world_rules)
  from same_dbD [OF this clear] have s1: "sys_db s1 = sys_db s" .
  have t: "sys_db t = sys_db s \<or> sys_db t = bt_insert pid (Installed m (boot_installed i)) (sys_db s)"
    using assms(1) clear s1 by (cases r1) (auto simp: boot_package_def e map_db_step)
  then have "\<not> in_transit (stage_get (sys_db t) pid)" using assms(2) e by (auto simp: in_transit_def stage_get_def)
  then show ?thesis
    using t boot_installed_keeps [OF assms(4), of pid m i] assms(2) e by (auto simp: settled_at_def keeps_ok_def)
qed

lemma remove_tmp_returns: "returns (fst (st_for (remove_tmp host pid m) vs s))"
proof (induction vs arbitrary: s)
  case (Cons v vs)
  have "returns (fst (remove_tmp host pid m v s))"
    by (auto simp: remove_tmp_def to_tmp_path_def st_bind_def st_lift_def st_get_def st_return_def call_world_def split: prod.splits sum.splits)
  then show ?case using Cons.IH by (cases "remove_tmp host pid m v s"; cases "fst (remove_tmp host pid m v s)") auto
qed (simp add: st_return_def)

lemma boot_package_returns:
  assumes "boot_package fuel host (pid, e) s = (r, t)" and "bt_get (sys_db s) pid = Some e" and "pde_removing e = None"
    and "cleanup_works host"
  shows "returns r"
proof (cases "transient e")
  case True
  then have run: "cleanup_failed host pid s = (r, t)" using assms(1) by (cases e) (auto simp: boot_package_def transient_def)
  show ?thesis using cleanup_failed_works [OF assms(4) run assms(2) True] by simp
next
  case False
  then obtain m i where e: "e = Installed m i" using assms(3) by (cases e) (auto simp: transient_def)
  obtain r1 s1 where clear: "st_for (remove_tmp host pid m) (m_volumes m) s = (r1, s1)" by fastforce
  then have "returns r1" using remove_tmp_returns [of host pid m "m_volumes m" s] by simp
  then show ?thesis using assms(1) clear by (cases r1) (auto simp: boot_package_def e map_db_step)
qed

lemma settled_sorted: "settled_at clean pid d e \<Longrightarrow> db_ok d \<Longrightarrow> bt_ok e"
  by (auto simp: settled_at_def db_ok_but_def bt_keys_def)

lemma boot_loop:
  assumes "st_for (\<lambda>p. st_catch (boot_package fuel host p) (\<lambda>_. st_return ())) ps s = (r, t)" and "db_ok (sys_db s)"
    and "\<forall>p \<in> set ps. bt_get (sys_db s) (fst p) = Some (snd p) \<and> pde_removing (snd p) = None" and "distinct (map fst ps)"
  shows "db_ok (sys_db t) \<and> (\<forall>p. stage_get (sys_db t) p = stage_get (sys_db s) p \<or>
      stage_leave (stage_get (sys_db s) p) (stage_get (sys_db t) p)) \<and>
    (\<forall>p. p \<notin> fst ` set ps \<longrightarrow> bt_get (sys_db t) p = bt_get (sys_db s) p) \<and>
    (cleanup_works host \<longrightarrow> is_ok r \<and> (\<forall>p \<in> fst ` set ps. \<not> in_transit (stage_get (sys_db t) p)))"
  using assms
proof (induction ps arbitrary: s)
  case (Cons x ps)
  obtain pid e where x: "x = (pid, e)" by (cases x)
  obtain r1 u where one: "boot_package fuel host (pid, e) s = (r1, u)" by fastforce
  have "bt_ok (sys_db s)" using Cons.prems(2) by (simp add: db_ok_but_def bt_keys_def)
  then have settled: "settled_at (cleanup_works host) pid (sys_db s) (sys_db u)"
    using Cons.prems(3) by (intro boot_package_settles [OF one]) (simp_all add: x)
  have ok: "db_ok (sys_db u)" using settled Cons.prems(2) by (simp add: settled_at_def)
  have stage: "stage_get (sys_db u) p = stage_get (sys_db s) p \<or>
      p = pid \<and> stage_leave (stage_get (sys_db s) p) (stage_get (sys_db u) p)" for p
    using settled by (cases "p = pid") (auto simp: settled_at_def stage_get_def)
  show ?case
  proof (cases "r1 = Panic \<or> r1 = Diverge")
    case True
    then have "t = u" "\<not> cleanup_works host"
      using Cons.prems(1,3) one boot_package_returns [OF one] by (auto simp: x st_bind_catch)
    then show ?thesis using ok stage settled by (auto simp: x settled_at_def)
  next
    case False
    then have rest: "st_for (\<lambda>p. st_catch (boot_package fuel host p) (\<lambda>_. st_return ())) ps u = (r, t)"
      using Cons.prems(1) one by (cases r1) (auto simp: x st_bind_catch st_bind_step)
    have "fst p \<noteq> pid" if "p \<in> set ps" for p using Cons.prems(4) that by (auto simp: x)
    then have "\<forall>p \<in> set ps. bt_get (sys_db u) (fst p) = Some (snd p) \<and> pde_removing (snd p) = None"
      using Cons.prems(3) settled by (simp add: settled_at_def)
    from Cons.IH [OF rest ok this] have IH: "db_ok (sys_db t)"
      "\<And>p. stage_get (sys_db t) p = stage_get (sys_db u) p \<or> stage_leave (stage_get (sys_db u) p) (stage_get (sys_db t) p)"
      "\<And>p. p \<notin> fst ` set ps \<Longrightarrow> bt_get (sys_db t) p = bt_get (sys_db u) p"
      "cleanup_works host \<Longrightarrow> is_ok r \<and> (\<forall>p \<in> fst ` set ps. \<not> in_transit (stage_get (sys_db t) p))"
      using Cons.prems(4) by auto
    have "pid \<notin> fst ` set ps" using Cons.prems(4) by (simp add: x)
    then have "stage_get (sys_db t) pid = stage_get (sys_db u) pid" using IH(3) by (simp add: stage_get_def)
    then show ?thesis using IH stage settled by (auto simp: x settled_at_def) metis+
  qed
qed (auto simp: st_simps)

text \<open>
  C6. Starting up repairs the package data. Whatever the lists of dependents hold, if entries are sorted, stored under
  their ids and depend on declared packages only, and no package is being removed, then on every outcome the data are
  consistent afterwards, and every package is at the stage it had or has left its transient stage. When the files and images
  of unfinished packages can be cleaned up, starting up succeeds and no package is left that is being installed, updated or restored.
\<close>

theorem boot_repairs:
  assumes "boot fuel host s = (r, t)" and "maps_sorted (sys_db s)" and "keyed (sys_db s)" and "declared (sys_db s)"
    and "\<And>p. removing_get (sys_db s) p = None"
  shows "db_ok (sys_db t) \<and> (\<forall>p. stage_get (sys_db t) p = stage_get (sys_db s) p \<or>
      stage_leave (stage_get (sys_db s) p) (stage_get (sys_db t) p)) \<and>
    (cleanup_works host \<longrightarrow> is_ok r \<and> (\<forall>p. \<not> in_transit (stage_get (sys_db t) p)))"
proof -
  let ?d = "rebuild_dependents (sys_db s)"
  have loop: "st_for (\<lambda>p. st_catch (boot_package fuel host p) (\<lambda>_. st_return ())) ?d (s\<lparr>sys_db := ?d\<rparr>) = (r, t)"
    using assms(1) by (simp add: boot_def map_db_step st_bind_step)
  have same: "same_but_lists (sys_db s) ?d" unfolding rebuild_dependents_def by (rule same_put_all)
  have ok: "db_ok ?d" by (rule rebuilt_ok [OF assms(2-4)])
  then have sorted: "bt_ok ?d" by (simp add: db_ok_but_def bt_keys_def)
  have none: "removing_get ?d p = None" for p
  proof -
    have "removing_core ?d p = removing_core (sys_db s) p" using same by (simp add: same_but_lists_def)
    then show ?thesis using assms(5) [of p] by (simp add: removing_core_def)
  qed
  have "\<forall>p \<in> set ?d. bt_get ?d (fst p) = Some (snd p) \<and> pde_removing (snd p) = None"
  proof
    fix p assume "p \<in> set ?d"
    then have "bt_get ?d (fst p) = Some (snd p)" using bt_get_mem [OF sorted] by simp
    then show "bt_get ?d (fst p) = Some (snd p) \<and> pde_removing (snd p) = None" using none [of "fst p"] by (simp add: removing_get_def)
  qed
  from boot_loop [OF loop _ _ bt_ok_distinct [OF sorted]] ok this
  have t: "db_ok (sys_db t)" "\<And>p. stage_get (sys_db t) p = stage_get ?d p \<or> stage_leave (stage_get ?d p) (stage_get (sys_db t) p)"
    "\<And>p. p \<notin> fst ` set ?d \<Longrightarrow> bt_get (sys_db t) p = bt_get ?d p"
    "cleanup_works host \<Longrightarrow> is_ok r \<and> (\<forall>p \<in> fst ` set ?d. \<not> in_transit (stage_get (sys_db t) p))" by simp_all
  have "\<not> in_transit (stage_get (sys_db t) p)" if "p \<notin> fst ` set ?d" for p
    using t(3) [OF that] that bt_get_None [of ?d p] by (simp add: stage_get_def in_transit_def bt_keys_def)
  then have "is_ok r \<and> (\<forall>p. \<not> in_transit (stage_get (sys_db t) p))" if "cleanup_works host" using t(4) [OF that] by blast
  then show ?thesis using t(1,2) same by (simp add: same_but_lists_def)
qed

text \<open>The sample packages with lists of dependents that are wrong, and a third one whose installation was interrupted.\<close>

definition crashed_sys :: "nat sys" where
  "crashed_sys = conf_sys\<lparr>sys_db := [(''a'', conf_installed ''a'' [] []), (''b'', conf_installed ''b'' [''a''] [''a'']),
     (''c'', Installing b_manifest)]\<rparr>"

lemma sample_cleanup_works: "cleanup_works sample_host"
proof -
  have f: "list_images sample_host x w = (Inr [], w)" "path_exists sample_host d w = False" for x w d
    by (simp_all add: sample_host_def)
  have dir: "handle_remove_dir sample_host d es u = (Ok es, u)" for d es u
    by (simp add: handle_remove_dir_def st_eval f)
  have images: "handle (list_images sample_host x) es u = (Ok (Some [], es), u)" for x es u
    by (simp add: handle_def f)
  show ?thesis unfolding cleanup_works_def cleanup_def on_world_def st_bind_step
    by (simp add: images dir st_eval into_result_def)
qed

theorem boot_repairs_witness:
  "db_ok (sys_db (snd (boot 3 sample_host crashed_sys))) \<and> \<not> in_transit (stage_get (sys_db (snd (boot 3 sample_host crashed_sys))) ''c'') \<and>
   in_transit (stage_get (sys_db crashed_sys) ''c'')"
proof -
  have sorted: "maps_sorted (sys_db crashed_sys)"
    by (simp add: maps_sorted_def crashed_sys_def conf_installed_def dependencies_of_def Let_def)
  have ok: "keyed (sys_db crashed_sys)" "declared (sys_db crashed_sys)" "removing_get (sys_db crashed_sys) p = None" for p
    by (auto simp: keyed_def declared_def crashed_sys_def removing_get_def conf_defs split: if_splits)
  obtain r t where run: "boot 3 sample_host crashed_sys = (r, t)" by fastforce
  have "in_transit (stage_get (sys_db crashed_sys) ''c'')" by (simp add: crashed_sys_def stage_get_def in_transit_def)
  then show ?thesis using boot_repairs [OF run sorted ok] sample_cleanup_works run by simp
qed

text \<open>
  When a package was being removed, starting up completes the removal but writes the entries of the other packages back
  as they were read before: the error \<open>NotInstalled\<close> that the removal records with a dependent is lost when the
  dependent comes later in the order of ids.
\<close>

theorem boot_forgets_removal:
  "bt_get (sys_db (snd (boot 3 sample_host a_leaving))) ''a'' = None \<and>
   bt_get (errs (sys_db (snd (uninstall 3 sample_host ''a'' a_leaving))) ''b'') ''a'' = Some NotInstalled \<and>
   bt_get (errs (sys_db (snd (boot 3 sample_host a_leaving))) ''b'') ''a'' = None"
  by code_simp

end
