(* ===== verification/S9pk_Header.thy ===== *)
theory S9pk_Header
  imports Config_Types "HOL-Library.Word"
begin

text \<open>
  The header of a package archive (\<^verbatim>\<open>s9pk/header.rs\<close>): magic bytes, version, the key and the signature of the
  developer, and the table of contents with the position and the length of every section, as bytes and back.
\<close>

section \<open>Bytes\<close>

type_synonym byte = "8 word"

text \<open>\<open>to_be_bytes\<close> and \<open>from_be_bytes\<close> of integers of \<open>n\<close> bytes.\<close>

definition to_be_bytes :: "nat \<Rightarrow> 'a::len word \<Rightarrow> byte list" where
  "to_be_bytes n x = map (\<lambda>i. of_nat (unat x div 256 ^ i)) (rev [0..<n])"

definition from_be_bytes :: "byte list \<Rightarrow> 'a::len word" where
  "from_be_bytes bs = of_nat (fold (\<lambda>b acc. acc * 256 + unat b) bs 0)"

definition ascii :: "string \<Rightarrow> byte list" where
  "ascii s = map (\<lambda>c. of_nat (of_char c)) s"

text \<open>Reading from a stream; too few bytes are an unexpected end of the file.\<close>

datatype io_error = UnexpectedEof string | OtherIo string

definition read_exact :: "nat \<Rightarrow> byte list \<Rightarrow> (io_error, byte list \<times> byte list) res" where
  "read_exact n bs = (if n \<le> length bs then Ok (take n bs, drop n bs) else Err (UnexpectedEof ''early eof''))"

fun error_of_io :: "io_error \<Rightarrow> error" where
  "error_of_io (UnexpectedEof m) = Error Filesystem (Msg m)"
| "error_of_io (OtherIo m) = Error Filesystem (Msg m)"

definition show_nat :: "nat \<Rightarrow> string" where
  "show_nat n = map char_of (show_usize n)"

section \<open>File sections\<close>

record file_section =
  fs_position :: "64 word"
  fs_length :: "64 word"

definition file_section_default :: file_section where
  "file_section_default = \<lparr>fs_position = 0, fs_length = 0\<rparr>"

definition serialize_entry :: "string \<Rightarrow> file_section \<Rightarrow> byte list" where
  "serialize_entry label fs =
     [of_nat (length label)] @ ascii label @ to_be_bytes 8 (fs_position fs) @ to_be_bytes 8 (fs_length fs)"

text \<open>Nothing at the end of the stream, otherwise the label, the section and the rest of the stream.\<close>

definition deserialize_entry :: "byte list \<Rightarrow> (io_error, ((byte list \<times> file_section) \<times> byte list) option) res" where
  "deserialize_entry bs =
     (case bs of
        [] \<Rightarrow> Ok None
      | n # bs \<Rightarrow>
          rbind (read_exact (unat n) bs) (\<lambda>(label, bs).
          rbind (read_exact 8 bs) (\<lambda>(pos, bs).
          rbind (read_exact 8 bs) (\<lambda>(len, bs).
          Ok (Some ((label, \<lparr>fs_position = from_be_bytes pos, fs_length = from_be_bytes len\<rparr>), bs))))))"

lemma deserialize_entry_shorter: "deserialize_entry bs = Ok (Some (e, rest)) \<Longrightarrow> length rest < length bs"
  by (auto simp: deserialize_entry_def read_exact_def rbind_eq_Ok split: list.splits if_splits prod.splits)

section \<open>The table of contents\<close>

record table_of_contents =
  toc_manifest :: file_section
  toc_license :: file_section
  toc_instructions :: file_section
  toc_icon :: file_section
  toc_docker_images :: file_section
  toc_assets :: file_section
  toc_scripts :: "file_section option"

definition toc_default :: table_of_contents where
  "toc_default = \<lparr>toc_manifest = file_section_default, toc_license = file_section_default,
     toc_instructions = file_section_default, toc_icon = file_section_default,
     toc_docker_images = file_section_default, toc_assets = file_section_default, toc_scripts = None\<rparr>"

definition toc_len :: "32 word" where
  "toc_len = of_nat ((1 + length ''manifest'' + 16) + (1 + length ''license'' + 16) + (1 + length ''instructions'' + 16)
     + (1 + length ''icon'' + 16) + (1 + length ''docker_images'' + 16) + (1 + length ''assets'' + 16)
     + (1 + length ''scripts'' + 16))"

definition toc_entries :: "table_of_contents \<Rightarrow> (string \<times> file_section) list" where
  "toc_entries toc =
     [(''manifest'', toc_manifest toc), (''license'', toc_license toc), (''instructions'', toc_instructions toc),
      (''icon'', toc_icon toc), (''docker_images'', toc_docker_images toc), (''assets'', toc_assets toc),
      (''scripts'', case toc_scripts toc of Some s \<Rightarrow> s | None \<Rightarrow> file_section_default)]"

definition toc_serialize :: "table_of_contents \<Rightarrow> byte list" where
  "toc_serialize toc = to_be_bytes 4 toc_len @ concat (map (\<lambda>(label, fs). serialize_entry label fs) (toc_entries toc))"

text \<open>The table of labels: a label that occurs again replaces the earlier entry.\<close>

function toc_table :: "byte list \<Rightarrow> (byte list, file_section) btmap \<Rightarrow> (io_error, (byte list, file_section) btmap) res" where
  "toc_table bs table =
     (case deserialize_entry bs of
        Ok (Some ((label, fs), rest)) \<Rightarrow> toc_table rest (bt_insert label fs table)
      | Ok None \<Rightarrow> Ok table
      | Err e \<Rightarrow> Err e
      | Panic \<Rightarrow> Panic
      | Diverge \<Rightarrow> Diverge)"
  by pat_completeness auto
termination
  by (relation "measure (\<lambda>(bs, _). length bs)") (auto dest: deserialize_entry_shorter)

declare toc_table.simps [simp del]

definition from_table :: "(byte list, file_section) btmap \<Rightarrow> string \<Rightarrow> (io_error, file_section) res" where
  "from_table table label = ok_or (bt_get table (ascii label)) (UnexpectedEof (''Missing Required Label: '' @ label))"

text \<open>The limited reader gives at most as many bytes as announced; the rest of the stream follows.\<close>

definition toc_deserialize :: "byte list \<Rightarrow> (io_error, table_of_contents \<times> byte list) res" where
  "toc_deserialize bs =
     rbind (read_exact 4 bs) (\<lambda>(len, bs).
     let n = unat (from_be_bytes len :: 32 word) in
     rbind (toc_table (take n bs) []) (\<lambda>table.
     rbind (from_table table ''manifest'') (\<lambda>manifest.
     rbind (from_table table ''license'') (\<lambda>license.
     rbind (from_table table ''instructions'') (\<lambda>instructions.
     rbind (from_table table ''icon'') (\<lambda>icon.
     rbind (from_table table ''docker_images'') (\<lambda>docker_images.
     rbind (from_table table ''assets'') (\<lambda>assets.
     Ok (\<lparr>toc_manifest = manifest, toc_license = license, toc_instructions = instructions, toc_icon = icon,
          toc_docker_images = docker_images, toc_assets = assets, toc_scripts = bt_get table (ascii ''scripts'')\<rparr>,
         drop n bs)))))))))"

section \<open>The header\<close>

definition MAGIC :: "byte list" where "MAGIC = [59, 59]"

definition VERSION :: byte where "VERSION = 1"

text \<open>The key and the signature as their bytes; which bytes are a key or a signature is up to the library.\<close>

record key_ops =
  pubkey_ok :: "byte list \<Rightarrow> bool"
  sig_ok :: "byte list \<Rightarrow> bool"
  pubkey_default :: "byte list"

record header =
  hd_pubkey :: "byte list"
  hd_signature :: "byte list"
  hd_toc :: table_of_contents

definition header_placeholder :: "key_ops \<Rightarrow> header" where
  "header_placeholder ops = \<lparr>hd_pubkey = pubkey_default ops, hd_signature = replicate 64 0, hd_toc = toc_default\<rparr>"

definition header_serialize :: "header \<Rightarrow> byte list" where
  "header_serialize h = MAGIC @ [VERSION] @ hd_pubkey h @ hd_signature h @ toc_serialize (hd_toc h)"

definition header_deserialize :: "key_ops \<Rightarrow> byte list \<Rightarrow> (error, header \<times> byte list) res" where
  "header_deserialize ops bs =
     rbind (map_err error_of_io (read_exact 2 bs)) (\<lambda>(magic, bs).
     if magic \<noteq> MAGIC then
       Err (Error ParseS9pk (Msg (''Incorrect Magic: ['' @ show_nat (unat (magic ! 0)) @ '', '' @ show_nat (unat (magic ! 1)) @ '']'')))
     else
     rbind (map_err error_of_io (read_exact 1 bs)) (\<lambda>(version, bs).
     if version \<noteq> [VERSION] then Err (Error ParseS9pk (Msg (''Unknown Version: '' @ show_nat (unat (version ! 0)))))
     else
     rbind (map_err error_of_io (read_exact 32 bs)) (\<lambda>(pubkey, bs).
     if \<not> pubkey_ok ops pubkey then Err (Error ParseS9pk (Msg ''signature error''))
     else
     rbind (map_err error_of_io (read_exact 64 bs)) (\<lambda>(sig, bs).
     if \<not> sig_ok ops sig then Panic
     else
     rbind (map_err error_of_io (toc_deserialize bs)) (\<lambda>(toc, bs).
     Ok (\<lparr>hd_pubkey = pubkey, hd_signature = sig, hd_toc = toc\<rparr>, bs))))))"

section \<open>Reading back\<close>

lemma fold_be: "fold (\<lambda>b acc. acc * 256 + unat b) (map (\<lambda>i. of_nat (x div 256 ^ i) :: byte) (rev [0..<n])) a = a * 256 ^ n + x mod 256 ^ n"
proof (induction n arbitrary: a)
  case (Suc n)
  have "unat (of_nat (x div 256 ^ n) :: byte) = x div 256 ^ n mod 256" by (simp add: unat_of_nat)
  moreover have "x mod 256 ^ Suc n = x div 256 ^ n mod 256 * 256 ^ n + x mod 256 ^ n"
    by (metis mod_mult2_eq mult.commute power_Suc2)
  moreover have "(a * 256 + c) * 256 ^ n = a * 256 ^ Suc n + c * 256 ^ n" for c by (simp add: algebra_simps)
  ultimately show ?case by (simp add: Suc.IH)
qed simp

lemma be_roundtrip: "LENGTH('a) \<le> 8 * n \<Longrightarrow> from_be_bytes (to_be_bytes n x) = (x :: 'a::len word)"
proof -
  assume "LENGTH('a) \<le> 8 * n"
  then have "(2::nat) ^ LENGTH('a) \<le> 2 ^ (8 * n)" by simp
  also have "(2::nat) ^ (8 * n) = 256 ^ n" by (simp add: power_mult)
  finally have "unat x < 256 ^ n" by (rule less_le_trans [OF unsigned_less])
  then show ?thesis by (simp add: from_be_bytes_def to_be_bytes_def fold_be)
qed

lemma length_be [simp]: "length (to_be_bytes n x) = n"
  by (simp add: to_be_bytes_def)

lemma length_ascii [simp]: "length (ascii s) = length s"
  by (simp add: ascii_def)

lemma read_exact_append: "length xs = n \<Longrightarrow> read_exact n (xs @ ys) = Ok (xs, ys)"
  by (auto simp: read_exact_def)

lemma entry_roundtrip:
  assumes "length label < 256"
  shows "deserialize_entry (serialize_entry label fs @ rest) = Ok (Some ((ascii label, fs), rest))"
proof -
  have "unat (of_nat (length label) :: byte) = length label" using assms by (simp add: unat_of_nat)
  then show ?thesis
    by (simp add: deserialize_entry_def serialize_entry_def read_exact_append be_roundtrip)
qed

lemma table_roundtrip:
  "\<forall>e \<in> set es. length (fst e) < 256 \<Longrightarrow>
   toc_table (concat (map (\<lambda>(label, fs). serialize_entry label fs) es)) table =
     Ok (fold (\<lambda>(label, fs). bt_insert (ascii label) fs) es table)"
proof (induction es arbitrary: table)
  case Nil
  then show ?case by (simp add: toc_table.simps deserialize_entry_def)
next
  case (Cons e es)
  then show ?case by (cases e) (simp add: toc_table.simps [of "serialize_entry _ _ @ _"] entry_roundtrip)
qed

lemma length_entry [simp]: "length (serialize_entry label fs) = 17 + length label"
  by (simp add: serialize_entry_def)

lemma toc_len_unat: "unat toc_len = 176"
  by (simp add: toc_len_def)

lemma length_entries: "length (concat (map (\<lambda>(label, fs). serialize_entry label fs) (toc_entries toc))) = 176"
  by (simp add: toc_entries_def)

lemma toc_roundtrip:
  "toc_deserialize (toc_serialize toc @ rest) =
     Ok (toc\<lparr>toc_scripts := Some (case toc_scripts toc of Some s \<Rightarrow> s | None \<Rightarrow> file_section_default)\<rparr>, rest)"
proof -
  let ?es = "concat (map (\<lambda>(label, fs). serialize_entry label fs) (toc_entries toc))"
  have "take 176 (?es @ rest) = ?es" "drop 176 (?es @ rest) = rest" using length_entries [of toc] by simp_all
  moreover have "unat (from_be_bytes (to_be_bytes 4 toc_len) :: 32 word) = 176" by (simp add: be_roundtrip toc_len_unat)
  moreover have "toc_table ?es [] = Ok (fold (\<lambda>(label, fs). bt_insert (ascii label) fs) (toc_entries toc) [])"
    by (rule table_roundtrip) (simp add: toc_entries_def)
  ultimately show ?thesis
    unfolding toc_deserialize_def toc_serialize_def append_assoc
    by (simp add: read_exact_append from_table_def Let_def toc_entries_def ascii_def)
qed

text \<open>The sizes that the library guarantees.\<close>

definition header_wf :: "key_ops \<Rightarrow> header \<Rightarrow> bool" where
  "header_wf ops h \<longleftrightarrow> length (hd_pubkey h) = 32 \<and> pubkey_ok ops (hd_pubkey h) \<and>
     length (hd_signature h) = 64 \<and> sig_ok ops (hd_signature h)"

definition with_scripts :: "table_of_contents \<Rightarrow> table_of_contents" where
  "with_scripts toc = toc\<lparr>toc_scripts := Some (case toc_scripts toc of Some s \<Rightarrow> s | None \<Rightarrow> file_section_default)\<rparr>"

text \<open>
  Writing a header and reading it from the front of a stream gives the header back and leaves the stream behind it,
  with one exception: a table of contents without scripts is read back as one with an empty section at position 0.
\<close>

lemma header_roundtrip:
  assumes "header_wf ops h"
  shows "header_deserialize ops (header_serialize h @ rest) = Ok (h\<lparr>hd_toc := with_scripts (hd_toc h)\<rparr>, rest)"
  using assms toc_roundtrip [of "hd_toc h" rest]
  by (simp add: header_serialize_def header_deserialize_def header_wf_def read_exact_append MAGIC_def with_scripts_def
    read_exact_def [of 2] read_exact_def [of "Suc 0"])

text \<open>Every header has the same size, whatever is in it, so that the packer can write the final header over the placeholder.\<close>

lemma header_size:
  assumes "length (hd_pubkey h) = 32" and "length (hd_signature h) = 64"
  shows "length (header_serialize h) = 279"
  using assms length_entries [of "hd_toc h"] by (simp add: header_serialize_def MAGIC_def toc_serialize_def)

end
