(* ===== verification/S9pk_Archive.thy ===== *)
theory S9pk_Archive
  imports S9pk_Header State_Res Volumes
begin

text \<open>
  Package archives: packing (\<^verbatim>\<open>s9pk/builder.rs\<close>) and the reader that checks the signature and hands
  out the sections (\<^verbatim>\<open>s9pk/reader.rs\<close>, \<^verbatim>\<open>s9pk/docker.rs\<close>). Hashing, signatures and tar archives
  are libraries and parameters of the model.
\<close>

section \<open>The libraries\<close>

record archive_ops =
  ar_keys :: key_ops
  ar_sha512 :: "byte list \<Rightarrow> byte list"
  ar_verify :: "byte list \<Rightarrow> byte list \<Rightarrow> byte list \<Rightarrow> byte list \<Rightarrow> bool"
  ar_base32 :: "byte list \<Rightarrow> string"

record keypair =
  kp_public :: "byte list"
  kp_sign :: "byte list \<Rightarrow> byte list \<Rightarrow> (string, byte list) res"

definition SIG_CONTEXT :: "byte list" where "SIG_CONTEXT = ascii ''s9pk''"

section \<open>Packing\<close>

text \<open>A file that is written at a position. Seeking past the end and writing there fills the gap with zeros.\<close>

record writer =
  w_bytes :: "byte list"
  w_at :: nat

definition write_all :: "byte list \<Rightarrow> writer \<Rightarrow> writer" where
  "write_all bs w = w\<lparr>w_bytes := take (w_at w) (w_bytes w) @ replicate (w_at w - length (w_bytes w)) 0 @ bs @
     drop (w_at w + length bs) (w_bytes w), w_at := w_at w + length bs\<rparr>"

definition seek_start :: "64 word \<Rightarrow> writer \<Rightarrow> writer" where
  "seek_start n w = w\<lparr>w_at := unat n\<rparr>"

definition stream_position :: "writer \<Rightarrow> 64 word" where
  "stream_position w = of_nat (w_at w)"

text \<open>\<open>HashWriter\<close>: what was written so far goes into the hash as well.\<close>

record hash_writer =
  hw_hashed :: "byte list"
  hw_inner :: writer

definition hash_write :: "byte list \<Rightarrow> hash_writer \<Rightarrow> hash_writer" where
  "hash_write bs hw = hw\<lparr>hw_hashed := hw_hashed hw @ bs, hw_inner := write_all bs (hw_inner hw)\<rparr>"

record pack_input =
  pk_manifest :: "(string, byte list) res"
  pk_license :: "(string, byte list) res"
  pk_instructions :: "(string, byte list) res"
  pk_icon :: "(string, byte list) res"
  pk_docker_images :: "(string, byte list) res"
  pk_assets :: "(string, byte list) res"
  pk_scripts :: "(string, byte list) res option"

definition to_cbor_async_writer :: "(string, byte list) res \<Rightarrow> hash_writer \<Rightarrow> (error, hash_writer) res" where
  "to_cbor_async_writer cbor hw =
     rbind (map_err (\<lambda>e. Error Serialization (Msg e)) cbor) (\<lambda>bs. Ok (hash_write (bs @ ascii [char_of (10 :: nat)]) hw))"

definition copy_into :: "string \<Rightarrow> (string, byte list) res \<Rightarrow> hash_writer \<Rightarrow> (error, hash_writer) res" where
  "copy_into what src hw = rbind (with_ctx Filesystem what src) (\<lambda>bs. Ok (hash_write bs hw))"

definition section_to :: "64 word \<Rightarrow> hash_writer \<Rightarrow> file_section" where
  "section_to position hw = \<lparr>fs_position = position, fs_length = stream_position (hw_inner hw) - position\<rparr>"

text \<open>The header is written twice: a placeholder first, and over it the one that records the sections and the signature.\<close>

definition pack :: "archive_ops \<Rightarrow> keypair \<Rightarrow> pack_input \<Rightarrow> writer \<Rightarrow> (error, writer) res" where
  "pack ops key p w =
     (let header_pos = stream_position w;
          w = write_all (header_serialize (header_placeholder (ar_keys ops))) w;
          p0 = stream_position w in
      rbind (to_cbor_async_writer (pk_manifest p) \<lparr>hw_hashed = [], hw_inner = w\<rparr>) (\<lambda>h1.
      let manifest = section_to p0 h1; p1 = stream_position (hw_inner h1) in
      rbind (copy_into ''Copying License'' (pk_license p) h1) (\<lambda>h2.
      let license = section_to p1 h2; p2 = stream_position (hw_inner h2) in
      rbind (copy_into ''Copying Instructions'' (pk_instructions p) h2) (\<lambda>h3.
      let instructions = section_to p2 h3; p3 = stream_position (hw_inner h3) in
      rbind (copy_into ''Copying Icon'' (pk_icon p) h3) (\<lambda>h4.
      let icon = section_to p3 h4; p4 = stream_position (hw_inner h4) in
      rbind (copy_into ''Copying Docker Images'' (pk_docker_images p) h4) (\<lambda>h5.
      let docker_images = section_to p4 h5; p5 = stream_position (hw_inner h5) in
      rbind (copy_into ''Copying Assets'' (pk_assets p) h5) (\<lambda>h6.
      let assets = section_to p5 h6; p6 = stream_position (hw_inner h6) in
      rbind (case pk_scripts p of
               None \<Rightarrow> Ok (None, h6, p6)
             | Some src \<Rightarrow> rbind (copy_into ''Copying Scripts'' src h6) (\<lambda>h7.
                 Ok (Some (section_to p6 h7), h7, stream_position (hw_inner h7)))) (\<lambda>(scripts, h7, position).
      let toc = \<lparr>toc_manifest = manifest, toc_license = license, toc_instructions = instructions, toc_icon = icon,
                 toc_docker_images = docker_images, toc_assets = assets, toc_scripts = scripts\<rparr>;
          w = seek_start header_pos (hw_inner h7) in
      rbind (map_err (\<lambda>e. Error InvalidSignature (Msg e)) (kp_sign key (ar_sha512 ops (hw_hashed h7)) SIG_CONTEXT)) (\<lambda>sig.
      let w = write_all (header_serialize \<lparr>hd_pubkey = kp_public key, hd_signature = sig, hd_toc = toc\<rparr>) w in
      Ok (seek_start position w))))))))))"

section \<open>Opening an archive\<close>

text \<open>The reader with the file it reads from: its bytes and the position of the file, beside the position that it remembers.\<close>

record s9pk_reader =
  rd_hash :: "byte list option"
  rd_hash_string :: "string option"
  rd_developer_key :: "byte list"
  rd_toc :: table_of_contents
  rd_pos :: "64 word"
  rd_bytes :: "byte list"
  rd_at :: nat

text \<open>Hashing the rest of the file through a buffer of 1024 bytes; the result is what was hashed and where the file ends.\<close>

function hash_rest :: "byte list \<Rightarrow> nat \<Rightarrow> byte list \<Rightarrow> byte list \<times> nat" where
  "hash_rest bytes off acc =
     (let buf = take 1024 (drop off bytes) in
      if buf = [] then (acc, off) else hash_rest bytes (off + length buf) (acc @ buf))"
  by pat_completeness auto
termination
  by (relation "measure (\<lambda>(bytes, off, _). length bytes - off)") auto

declare hash_rest.simps [simp del]

definition from_reader :: "archive_ops \<Rightarrow> byte list \<Rightarrow> nat \<Rightarrow> bool \<Rightarrow> (error, s9pk_reader) res" where
  "from_reader ops bytes off check_sig =
     rbind (header_deserialize (ar_keys ops) (drop off bytes)) (\<lambda>(h, rest).
     let off = length bytes - length rest in
     if check_sig then
       let (input, off) = hash_rest bytes off []; hash = ar_sha512 ops input in
       if \<not> ar_verify ops (hd_pubkey h) hash SIG_CONTEXT (hd_signature h)
       then Err (Error InvalidSignature (Msg ''signature error''))
       else Ok \<lparr>rd_hash = Some hash, rd_hash_string = Some (ar_base32 ops hash), rd_developer_key = hd_pubkey h,
                rd_toc = hd_toc h, rd_pos = of_nat off, rd_bytes = bytes, rd_at = off\<rparr>
     else Ok \<lparr>rd_hash = None, rd_hash_string = None, rd_developer_key = hd_pubkey h,
              rd_toc = hd_toc h, rd_pos = of_nat off, rd_bytes = bytes, rd_at = off\<rparr>)"

section \<open>Reading sections\<close>

text \<open>A handle is a range of the file; it shares the remembered position with the reader.\<close>

record section_handle =
  rh_start :: "64 word"
  rh_end :: "64 word"

type_synonym 'a reading = "(s9pk_reader, io_error, 'a) st"

definition reset :: "s9pk_reader \<Rightarrow> s9pk_reader" where
  "reset s = s\<lparr>rd_at := 0\<rparr>"

definition read_handle :: "file_section \<Rightarrow> section_handle reading" where
  "read_handle fs s =
     (let s = (if rd_pos s \<noteq> fs_position fs then s\<lparr>rd_at := unat (fs_position fs), rd_pos := fs_position fs\<rparr> else s) in
      (Ok \<lparr>rh_start = rd_pos s, rh_end = rd_pos s + fs_length fs\<rparr>, s))"

text \<open>
  One read of the file gives at most as many bytes as were asked for, and at most \<open>chunk\<close>; none only at the end of the
  file. The handle asks for no more than the rest of its range.
\<close>

definition inner_read :: "nat \<Rightarrow> nat \<Rightarrow> byte list reading" where
  "inner_read chunk n s =
     (let bs = take (min chunk n) (drop (rd_at s) (rd_bytes s)) in (Ok bs, s\<lparr>rd_at := rd_at s + length bs\<rparr>))"

definition saturating_sub :: "'a::len word \<Rightarrow> 'a word \<Rightarrow> 'a word" where
  "saturating_sub a b = (if b \<le> a then a - b else 0)"

definition poll_read :: "nat \<Rightarrow> section_handle \<Rightarrow> nat \<Rightarrow> byte list reading" where
  "poll_read chunk h n s =
     st_bind (inner_read chunk (min n (unat (saturating_sub (rh_end h) (rd_pos s))))) (\<lambda>bs.
     st_bind (st_modify (\<lambda>s. s\<lparr>rd_pos := rd_pos s + of_nat (length bs)\<rparr>)) (\<lambda>_. st_return bs)) s"

lemma poll_read_result:
  "poll_read chunk h n s =
     (let bs = take (min chunk (min n (unat (saturating_sub (rh_end h) (rd_pos s))))) (drop (rd_at s) (rd_bytes s)) in
      (Ok bs, s\<lparr>rd_at := rd_at s + length bs, rd_pos := rd_pos s + of_nat (length bs)\<rparr>))"
  by (simp add: poll_read_def inner_read_def st_bind_def st_modify_def st_return_def Let_def)

text \<open>\<open>read_exact\<close> reads until the buffer is full.\<close>

function fill_buf :: "nat \<Rightarrow> section_handle \<Rightarrow> nat \<Rightarrow> byte list \<Rightarrow> byte list reading" where
  "fill_buf chunk h n acc s =
     (if n = 0 then (Ok acc, s) else
      case poll_read chunk h n s of
        (Ok bs, t) \<Rightarrow> if bs = [] then (Err (UnexpectedEof ''early eof''), t) else fill_buf chunk h (n - length bs) (acc @ bs) t
      | r \<Rightarrow> r)"
  by pat_completeness auto
termination
  by (relation "measure (\<lambda>(_, _, n, _, _). n)") (auto simp: poll_read_result Let_def)

declare fill_buf.simps [simp del]

definition to_vec :: "nat \<Rightarrow> section_handle \<Rightarrow> byte list reading" where
  "to_vec chunk h = fill_buf chunk h (unat (rh_end h - rh_start h)) []"

text \<open>\<open>tokio::io::copy\<close> reads through a buffer until a read gives nothing.\<close>

function copy_out :: "nat \<Rightarrow> section_handle \<Rightarrow> byte list \<Rightarrow> byte list reading" where
  "copy_out chunk h acc s =
     (case poll_read chunk h 8192 s of
        (Ok bs, t) \<Rightarrow> if bs = [] then (Ok acc, t) else copy_out chunk h (acc @ bs) t
      | r \<Rightarrow> r)"
  by pat_completeness auto
termination
  by (relation "measure (\<lambda>(_, _, _, s). length (rd_bytes s) - rd_at s)") (auto simp: poll_read_result Let_def)

declare copy_out.simps [simp del]

text \<open>Seeking in a handle is relative to its range, and the remembered position follows.\<close>

datatype seek_from = SeekStart "64 word" | SeekEnd "64 word" | SeekCurrent "64 word"

fun inner_seek :: "seek_from \<Rightarrow> (64 word) reading" where
  "inner_seek (SeekStart n) s = (Ok n, s\<lparr>rd_at := unat n\<rparr>)"
| "inner_seek (SeekCurrent n) s =
     (let p = int (rd_at s) + sint n in
      if p < 0 then (Err (OtherIo ''Invalid argument''), s) else (Ok (of_int p), s\<lparr>rd_at := nat p\<rparr>))"
| "inner_seek (SeekEnd n) s =
     (let p = int (length (rd_bytes s)) + sint n in
      if p < 0 then (Err (OtherIo ''Invalid argument''), s) else (Ok (of_int p), s\<lparr>rd_at := nat p\<rparr>))"

fun start_seek :: "section_handle \<Rightarrow> seek_from \<Rightarrow> seek_from" where
  "start_seek h (SeekCurrent n) = SeekCurrent n"
| "start_seek h (SeekEnd n) = SeekStart (rh_end h + n)"
| "start_seek h (SeekStart n) = SeekStart (rh_start h + n)"

definition handle_seek :: "section_handle \<Rightarrow> seek_from \<Rightarrow> (64 word) reading" where
  "handle_seek h p =
     st_bind (inner_seek (start_seek h p)) (\<lambda>n.
     let r = saturating_sub n (rh_start h) in
     st_bind (st_modify (\<lambda>s. s\<lparr>rd_pos := rh_start h + r\<rparr>)) (\<lambda>_. st_return r))"

definition manifest_raw :: "section_handle reading" where "manifest_raw s = read_handle (toc_manifest (rd_toc s)) s"
definition license :: "section_handle reading" where "license s = read_handle (toc_license (rd_toc s)) s"
definition instructions :: "section_handle reading" where "instructions s = read_handle (toc_instructions (rd_toc s)) s"
definition icon :: "section_handle reading" where "icon s = read_handle (toc_icon (rd_toc s)) s"
definition assets :: "section_handle reading" where "assets s = read_handle (toc_assets (rd_toc s)) s"

definition scripts :: "section_handle option reading" where
  "scripts s =
     (case toc_scripts (rd_toc s) of
        None \<Rightarrow> st_return None s
      | Some fs \<Rightarrow> st_bind (read_handle fs) (\<lambda>h. st_return (Some h)) s)"

section \<open>Images per architecture\<close>

text \<open>
  The tar library gives the entries of an archive one after the other, each with its path and contents, or an error;
  \<open>tar_used\<close> is how far it reads the archive.
\<close>

record tar_ops =
  tar_entries :: "byte list \<Rightarrow> (io_error, string \<times> byte list) res list"
  tar_used :: "byte list \<Rightarrow> nat"
  tar_multiarch :: "byte list \<Rightarrow> (string, string \<times> string list) res"

datatype docker_reader = SingleArch section_handle | MultiArch "byte list"

fun find_entry :: "string \<Rightarrow> (io_error, string \<times> byte list) res list \<Rightarrow> (io_error, byte list option) res" where
  "find_entry path [] = Ok None"
| "find_entry path (e # es) = rbind e (\<lambda>(p, bs). if p = path then Ok (Some bs) else find_entry path es)"

text \<open>Searching an entry reads the handle from its current position.\<close>

definition search_tar :: "tar_ops \<Rightarrow> section_handle \<Rightarrow> string \<Rightarrow> (s9pk_reader, error, byte list option) st" where
  "search_tar tar h path s =
     (let bs = take (unat (saturating_sub (rh_end h) (rd_pos s))) (drop (rd_at s) (rd_bytes s));
          n = min (tar_used tar bs) (length bs) in
      (map_err error_of_io (find_entry path (tar_entries tar bs)),
       s\<lparr>rd_at := rd_at s + n, rd_pos := rd_pos s + of_nat n\<rparr>))"

definition docker_reader_new :: "tar_ops \<Rightarrow> string \<Rightarrow> section_handle \<Rightarrow> (s9pk_reader, error, docker_reader) st" where
  "docker_reader_new tar arch h =
     st_bind (search_tar tar h ''multiarch.cbor'') (\<lambda>multiarch.
     st_bind (case multiarch of
                None \<Rightarrow> st_return None
              | Some bs \<Rightarrow> st_bind (st_lift (map_err (\<lambda>e. Error Deserialization (Msg e)) (tar_multiarch tar bs)))
                  (\<lambda>(default, available). st_return (Some (if arch \<in> set available then arch else default)))) (\<lambda>choice.
     st_bind (st_map_err error_of_io (handle_seek h (SeekStart 0))) (\<lambda>_.
     case choice of
       None \<Rightarrow> st_return (SingleArch h)
     | Some a \<Rightarrow> st_bind (search_tar tar h (a @ ''.tar'')) (\<lambda>image.
         case image of
           Some bs \<Rightarrow> st_return (MultiArch bs)
         | None \<Rightarrow> st_lift (Err (Error ParseS9pk (Msg ''Docker image section does not contain tarball for architecture'')))))))"

definition docker_images :: "tar_ops \<Rightarrow> string \<Rightarrow> (s9pk_reader, error, docker_reader) st" where
  "docker_images tar arch s =
     st_bind (st_map_err error_of_io (read_handle (toc_docker_images (rd_toc s)))) (docker_reader_new tar arch) s"

section \<open>Reading what a section holds\<close>

lemma hash_rest_all: "hash_rest bytes off acc = (acc @ drop off bytes, max off (length bytes))"
proof (induction bytes off acc rule: hash_rest.induct)
  case (1 bytes off acc)
  let ?buf = "take 1024 (drop off bytes)"
  show ?case
  proof (cases "?buf = []")
    case True
    then show ?thesis by (subst hash_rest.simps) (simp add: Let_def)
  next
    case False
    then have "off < length bytes" by simp
    moreover have "?buf @ drop (off + length ?buf) bytes = drop off bytes"
      using append_take_drop_id [of 1024 "drop off bytes"] by (cases "1024 \<le> length bytes - off") (simp_all add: add.commute)
    ultimately show ?thesis using 1 [OF refl False] False by (subst hash_rest.simps) (simp add: Let_def max_def)
  qed
qed

text \<open>The remembered position is the one of the file.\<close>

definition synced :: "s9pk_reader \<Rightarrow> bool" where
  "synced s \<longleftrightarrow> rd_pos s = of_nat (rd_at s) \<and> rd_at s < 2 ^ 64 \<and> length (rd_bytes s) < 2 ^ 64"

definition section_holds :: "byte list \<Rightarrow> file_section \<Rightarrow> byte list \<Rightarrow> bool" where
  "section_holds bytes fs bs \<longleftrightarrow> unat (fs_position fs) + unat (fs_length fs) \<le> length bytes \<and>
     take (unat (fs_length fs)) (drop (unat (fs_position fs)) bytes) = bs"

definition moved :: "nat \<Rightarrow> s9pk_reader \<Rightarrow> s9pk_reader" where
  "moved n s = s\<lparr>rd_at := n, rd_pos := of_nat n\<rparr>"

lemma moved_simps [simp]:
  "rd_at (moved n s) = n" "rd_pos (moved n s) = of_nat n" "rd_bytes (moved n s) = rd_bytes s" "rd_toc (moved n s) = rd_toc s"
  "moved m (moved n s) = moved m s"
  by (simp_all add: moved_def)

lemma synced_moved: "synced s \<Longrightarrow> n < 2 ^ 64 \<Longrightarrow> synced (moved n s)"
  by (simp add: synced_def)

lemma synced_moved_self: "synced s \<Longrightarrow> moved (rd_at s) s = s"
  by (simp add: moved_def synced_def)

lemma saturating_sub_of_nat:
  "a + n < 2 ^ 64 \<Longrightarrow> saturating_sub (of_nat (a + n)) (of_nat a :: 64 word) = of_nat n"
proof -
  assume n: "a + n < 2 ^ 64"
  then have "(of_nat a :: 64 word) \<le> of_nat (a + n)"
    unfolding word_le_nat_alt by (simp add: unat_of_nat del: of_nat_add)
  then show ?thesis by (simp add: saturating_sub_def)
qed

lemma unat_of_nat_64: "n < 2 ^ 64 \<Longrightarrow> unat (of_nat n :: 64 word) = n"
  by (simp add: unat_of_nat)

lemma take_then_rest: "k \<le> n \<Longrightarrow> take k xs @ take (n - k) (drop k xs) = take n xs"
  by (metis le_add_diff_inverse take_add)

text \<open>
  One read in the middle of a range. The remembered position only limits how much is read, so that the rules hold
  as well when it is not the one of the file.
\<close>

definition placed :: "nat \<Rightarrow> nat \<Rightarrow> s9pk_reader \<Rightarrow> s9pk_reader" where
  "placed a p s = s\<lparr>rd_at := a, rd_pos := of_nat p\<rparr>"

lemma placed_simps [simp]:
  "rd_at (placed a p s) = a" "rd_pos (placed a p s) = of_nat p" "rd_bytes (placed a p s) = rd_bytes s"
  "placed b q (placed a p s) = placed b q s"
  by (simp_all add: placed_def)

lemma placed_self: "rd_pos s = of_nat p \<Longrightarrow> placed (rd_at s) p s = s"
  by (simp add: placed_def)

definition in_range :: "s9pk_reader \<Rightarrow> nat \<Rightarrow> nat \<Rightarrow> section_handle \<Rightarrow> bool" where
  "in_range s p n h \<longleftrightarrow> rd_pos s = of_nat p \<and> p + n < 2 ^ 64 \<and> rd_at s + n \<le> length (rd_bytes s) \<and> rh_end h = of_nat (p + n)"

lemma in_range_left: "in_range s p n h \<Longrightarrow> unat (saturating_sub (rh_end h) (rd_pos s)) = n"
  unfolding in_range_def using saturating_sub_of_nat [of p n] by (simp add: unat_of_nat_64)

lemma in_range_step: "in_range s p n h \<Longrightarrow> k \<le> n \<Longrightarrow> in_range (placed (rd_at s + k) (p + k) s) (p + k) (n - k) h"
  by (simp add: in_range_def)

lemma poll_read_moves:
  assumes "in_range s p n h" and "k = min chunk (min m n)"
  shows "poll_read chunk h m s = (Ok (take k (drop (rd_at s) (rd_bytes s))), placed (rd_at s + k) (p + k) s)"
    and "length (take k (drop (rd_at s) (rd_bytes s))) = k"
    and "take k (drop (rd_at s) (rd_bytes s)) @ take (n - k) (drop (rd_at s + k) (rd_bytes s)) =
      take n (drop (rd_at s) (rd_bytes s))"
proof -
  show len: "length (take k (drop (rd_at s) (rd_bytes s))) = k" using assms by (auto simp: in_range_def min_def)
  show "poll_read chunk h m s = (Ok (take k (drop (rd_at s) (rd_bytes s))), placed (rd_at s + k) (p + k) s)"
    unfolding poll_read_result in_range_left [OF assms(1)] assms(2) [symmetric] Let_def len
    using assms(1) by (simp add: placed_def in_range_def)
  show "take k (drop (rd_at s) (rd_bytes s)) @ take (n - k) (drop (rd_at s + k) (rd_bytes s)) =
      take n (drop (rd_at s) (rd_bytes s))"
    using assms take_then_rest [of k n "drop (rd_at s) (rd_bytes s)"] by (simp add: add.commute)
qed

lemma fill_buf_reads:
  assumes "0 < chunk"
  shows "in_range s p n h \<Longrightarrow>
    fill_buf chunk h n acc s = (Ok (acc @ take n (drop (rd_at s) (rd_bytes s))), placed (rd_at s + n) (p + n) s)"
proof (induction n arbitrary: acc s p rule: less_induct)
  case (less n)
  show ?case
  proof (cases "n = 0")
    case True
    then show ?thesis using less.prems placed_self [of s p] by (subst fill_buf.simps) (simp add: in_range_def)
  next
    case False
    define k where "k = min chunk (min n n)"
    then have k: "0 < k" "k \<le> n" using False assms by auto
    note r = poll_read_moves [OF less.prems k_def]
    have "fill_buf chunk h (n - k) (acc @ take k (drop (rd_at s) (rd_bytes s))) (placed (rd_at s + k) (p + k) s) =
        (Ok (acc @ take n (drop (rd_at s) (rd_bytes s))), placed (rd_at s + n) (p + n) s)"
      using less.IH [OF _ in_range_step [OF less.prems k(2)]] k r(3) by auto
    then show ?thesis using r(1,2) False k by (subst fill_buf.simps) auto
  qed
qed

lemma copy_out_reads:
  assumes "0 < chunk"
  shows "in_range s p n h \<Longrightarrow>
    copy_out chunk h acc s = (Ok (acc @ take n (drop (rd_at s) (rd_bytes s))), placed (rd_at s + n) (p + n) s)"
proof (induction n arbitrary: acc s p rule: less_induct)
  case (less n)
  define k where "k = min chunk (min 8192 n)"
  note r = poll_read_moves [OF less.prems k_def]
  show ?case
  proof (cases "n = 0")
    case True
    then show ?thesis using r(1) k_def less.prems placed_self [of s p] by (subst copy_out.simps) (simp add: in_range_def)
  next
    case False
    then have k: "0 < k" "k \<le> n" using k_def assms by auto
    have "copy_out chunk h (acc @ take k (drop (rd_at s) (rd_bytes s))) (placed (rd_at s + k) (p + k) s) =
        (Ok (acc @ take n (drop (rd_at s) (rd_bytes s))), placed (rd_at s + n) (p + n) s)"
      using less.IH [OF _ in_range_step [OF less.prems k(2)]] k r(3) by auto
    then show ?thesis using r(1,2) False k by (subst copy_out.simps) auto
  qed
qed

lemma moved_placed: "moved n s = placed n n s" "placed a p (moved n s) = placed a p s"
  by (simp_all add: moved_def placed_def)

text \<open>Opening a handle moves the file to the section unless it is there already.\<close>

definition handle_of :: "file_section \<Rightarrow> section_handle" where
  "handle_of fs = \<lparr>rh_start = fs_position fs, rh_end = fs_position fs + fs_length fs\<rparr>"

lemma handle_of_simps [simp]: "rh_start (handle_of fs) = fs_position fs" "rh_end (handle_of fs) = fs_position fs + fs_length fs"
  by (simp_all add: handle_of_def)

lemma read_handle_moves:
  "synced s \<Longrightarrow> read_handle fs s = (Ok (handle_of fs), moved (unat (fs_position fs)) s)"
proof (cases "rd_pos s = fs_position fs")
  case True
  assume s: "synced s"
  then have "unat (rd_pos s) = rd_at s" by (simp add: synced_def unat_of_nat_64)
  with True have "unat (fs_position fs) = rd_at s" by simp
  then show ?thesis using True synced_moved_self [OF s] by (simp add: read_handle_def handle_of_def)
qed (simp add: read_handle_def handle_of_def moved_def Let_def)

lemma synced_at_section: "synced s \<Longrightarrow> synced (moved (unat (fs_position fs)) s)"
  using unsigned_less [of "fs_position fs"] by (intro synced_moved) simp_all

lemma in_range_section:
  "synced s \<Longrightarrow> section_holds (rd_bytes s) fs bs \<Longrightarrow>
   in_range (moved (unat (fs_position fs)) s) (unat (fs_position fs)) (unat (fs_length fs)) (handle_of fs)"
  by (simp add: in_range_def section_holds_def synced_def)

definition section_end :: "file_section \<Rightarrow> nat" where
  "section_end fs = unat (fs_position fs) + unat (fs_length fs)"

lemma section_to_vec:
  assumes "synced s" and "section_holds (rd_bytes s) fs bs" and "0 < chunk"
  shows "st_bind (read_handle fs) (to_vec chunk) s = (Ok bs, moved (section_end fs) s)"
  using assms fill_buf_reads [OF assms(3) in_range_section [OF assms(1,2)]]
  by (simp add: read_handle_moves to_vec_def section_holds_def section_end_def moved_placed)

lemma section_copy_out:
  assumes "synced s" and "section_holds (rd_bytes s) fs bs" and "0 < chunk"
  shows "st_bind (read_handle fs) (\<lambda>h. copy_out chunk h []) s = (Ok bs, moved (section_end fs) s)"
  using assms copy_out_reads [OF assms(3) in_range_section [OF assms(1,2)]]
  by (simp add: read_handle_moves section_holds_def section_end_def moved_placed)

lemma synced_after_section: "synced s \<Longrightarrow> section_holds (rd_bytes s) fs bs \<Longrightarrow> synced (moved (section_end fs) s)"
  by (intro synced_moved) (auto simp: section_holds_def synced_def section_end_def)

section \<open>Any order of reads\<close>

text \<open>The image for an architecture, as a function of the bytes of the section.\<close>

definition image_for :: "tar_ops \<Rightarrow> string \<Rightarrow> byte list \<Rightarrow> (error, byte list) res" where
  "image_for tar arch bs =
     rbind (map_err error_of_io (find_entry ''multiarch.cbor'' (tar_entries tar bs))) (\<lambda>multiarch.
     case multiarch of
       None \<Rightarrow> Ok bs
     | Some m \<Rightarrow> rbind (map_err (\<lambda>e. Error Deserialization (Msg e)) (tar_multiarch tar m)) (\<lambda>(default, available).
         rbind (map_err error_of_io (find_entry ((if arch \<in> set available then arch else default) @ ''.tar'') (tar_entries tar bs)))
           (\<lambda>img. ok_or img (Error ParseS9pk (Msg ''Docker image section does not contain tarball for architecture'')))))"

text \<open>The sections as the installation reads them: the manifest into memory, the others copied out.\<close>

datatype part = PManifest | PLicense | PInstructions | PIcon | PDockerImages | PAssets | PScripts

fun read_part :: "tar_ops \<Rightarrow> string \<Rightarrow> nat \<Rightarrow> part \<Rightarrow> (s9pk_reader, error, byte list) st" where
  "read_part tar arch chunk PManifest = st_map_err error_of_io (st_bind manifest_raw (to_vec chunk))"
| "read_part tar arch chunk PLicense = st_map_err error_of_io (st_bind license (\<lambda>h. copy_out chunk h []))"
| "read_part tar arch chunk PInstructions = st_map_err error_of_io (st_bind instructions (\<lambda>h. copy_out chunk h []))"
| "read_part tar arch chunk PIcon = st_map_err error_of_io (st_bind icon (\<lambda>h. copy_out chunk h []))"
| "read_part tar arch chunk PAssets = st_map_err error_of_io (st_bind assets (\<lambda>h. copy_out chunk h []))"
| "read_part tar arch chunk PScripts = st_map_err error_of_io (st_bind scripts (\<lambda>h.
     case h of None \<Rightarrow> st_return [] | Some h \<Rightarrow> copy_out chunk h []))"
| "read_part tar arch chunk PDockerImages = st_bind (docker_images tar arch) (\<lambda>r.
     case r of SingleArch h \<Rightarrow> st_map_err error_of_io (copy_out chunk h []) | MultiArch bs \<Rightarrow> st_return bs)"

fun read_parts :: "tar_ops \<Rightarrow> string \<Rightarrow> nat \<Rightarrow> part list \<Rightarrow> (s9pk_reader, error, byte list list) st" where
  "read_parts tar arch chunk [] = st_return []"
| "read_parts tar arch chunk (p # ps) =
     st_bind (read_part tar arch chunk p) (\<lambda>b. st_bind (read_parts tar arch chunk ps) (\<lambda>bs. st_return (b # bs)))"

lemma search_tar_moves:
  assumes "synced s" and "in_range s (rd_at s) n h"
  obtains t where "search_tar tar h path s =
      (map_err error_of_io (find_entry path (tar_entries tar (take n (drop (rd_at s) (rd_bytes s))))), t)"
    and "synced t" and "\<exists>k. t = moved k s"
proof -
  let ?k = "min (tar_used tar (take n (drop (rd_at s) (rd_bytes s)))) n"
  have len: "length (take n (drop (rd_at s) (rd_bytes s))) = n" using assms by (auto simp: in_range_def)
  have "search_tar tar h path s =
      (map_err error_of_io (find_entry path (tar_entries tar (take n (drop (rd_at s) (rd_bytes s))))), moved (rd_at s + ?k) s)"
    unfolding search_tar_def in_range_left [OF assms(2)] Let_def len
    using assms(2) by (simp add: moved_def in_range_def)
  moreover have "synced (moved (rd_at s + ?k) s)" using assms by (intro synced_moved) (auto simp: in_range_def)
  ultimately show thesis using that by blast
qed

lemma seek_to_start:
  "handle_seek (handle_of fs) (SeekStart 0) s = (Ok 0, moved (unat (fs_position fs)) s)"
  by (simp add: handle_seek_def st_bind_def st_modify_def st_return_def saturating_sub_def moved_def Let_def)

lemma docker_part:
  assumes s: "synced s" and holds: "section_holds (rd_bytes s) (toc_docker_images (rd_toc s)) bs"
    and img: "image_for tar arch bs = Ok img" and chunk: "0 < chunk"
  shows "\<exists>k. read_part tar arch chunk PDockerImages s = (Ok img, moved k s) \<and> synced (moved k s)"
proof -
  let ?fs = "toc_docker_images (rd_toc s)"
  let ?h = "handle_of ?fs" and ?n = "unat (fs_length (toc_docker_images (rd_toc s)))"
  let ?s = "moved (unat (fs_position ?fs)) s"
  have at: "synced ?s" "in_range ?s (rd_at ?s) ?n ?h"
    using synced_at_section [OF s] in_range_section [OF s holds] by simp_all
  have bs: "take ?n (drop (rd_at ?s) (rd_bytes ?s)) = bs" using holds by (simp add: section_holds_def)
  obtain t where t: "search_tar tar ?h ''multiarch.cbor'' ?s = (map_err error_of_io (find_entry ''multiarch.cbor'' (tar_entries tar bs)), t)"
    "\<exists>k. t = moved k ?s"
    using search_tar_moves [OF at, of tar "''multiarch.cbor''"] unfolding bs by blast
  have seek: "st_map_err error_of_io (handle_seek ?h (SeekStart 0)) t = (Ok 0, ?s)"
    using t(2) by (auto simp: st_map_err_def seek_to_start)
  have run: "docker_images tar arch s = docker_reader_new tar arch ?h ?s"
    by (simp add: docker_images_def st_map_err_def st_bind_def read_handle_moves [OF s])
  from img obtain multiarch where m: "find_entry ''multiarch.cbor'' (tar_entries tar bs) = Ok multiarch"
    by (auto simp: image_for_def res_simps)
  show ?thesis
  proof (cases multiarch)
    case None
    have "docker_images tar arch s = (Ok (SingleArch ?h), ?s)"
      unfolding run docker_reader_new_def using t(1) m None seek by (simp add: st_return_def)
    moreover have "copy_out chunk ?h [] ?s = (Ok bs, moved (section_end ?fs) s)"
      using copy_out_reads [OF chunk at(2), of "[]"] bs by (simp add: section_end_def moved_placed)
    ultimately show ?thesis
      using img m None synced_after_section [OF s holds] by (auto simp: image_for_def st_map_err_def)
  next
    case (Some mb)
    with img m obtain d av where d: "tar_multiarch tar mb = Ok (d, av)" by (auto simp: image_for_def res_simps)
    let ?path = "(if arch \<in> set av then arch else d) @ ''.tar''"
    obtain u where u: "search_tar tar ?h ?path ?s = (map_err error_of_io (find_entry ?path (tar_entries tar bs)), u)"
      "synced u" "\<exists>k. u = moved k ?s"
      using search_tar_moves [OF at, of tar ?path] unfolding bs by blast
    have f: "find_entry ?path (tar_entries tar bs) = Ok (Some img)"
      using img m Some d by (auto simp: image_for_def res_simps)
    have "docker_images tar arch s = (Ok (MultiArch img), u)"
      unfolding run docker_reader_new_def using t(1) m Some d seek u(1) f by (simp add: st_return_def st_lift_def)
    then show ?thesis using u(2,3) by (auto simp: st_return_def)
  qed
qed

section \<open>What the packer writes\<close>

text \<open>The state of the packer behind the placeholder: \<open>front\<close> was in the file, the rest is what was hashed.\<close>

definition packing :: "byte list \<Rightarrow> byte list \<Rightarrow> hash_writer" where
  "packing front body = \<lparr>hw_hashed = body, hw_inner = \<lparr>w_bytes = front @ body, w_at = length front + length body\<rparr>\<rparr>"

definition section_at :: "byte list \<Rightarrow> byte list \<Rightarrow> byte list \<Rightarrow> file_section" where
  "section_at front body bs = \<lparr>fs_position = of_nat (length front + length body), fs_length = of_nat (length bs)\<rparr>"

lemma write_all_end: "w_at w = length (w_bytes w) \<Longrightarrow> write_all bs w = \<lparr>w_bytes = w_bytes w @ bs, w_at = w_at w + length bs\<rparr>"
  by (simp add: write_all_def)

lemma hash_write_packing: "hash_write bs (packing front body) = packing front (body @ bs)"
  by (simp add: hash_write_def packing_def write_all_end)

lemma position_packing: "stream_position (hw_inner (packing front body)) = of_nat (length front + length body)"
  by (simp add: stream_position_def packing_def)

lemma copy_into_packing: "copy_into what (Ok bs) (packing front body) = Ok (packing front (body @ bs))"
  by (simp add: copy_into_def with_ctx_def hash_write_packing)

lemma to_cbor_packing:
  "to_cbor_async_writer (Ok bs) (packing front body) = Ok (packing front (body @ bs @ ascii [char_of (10 :: nat)]))"
  by (simp add: to_cbor_async_writer_def hash_write_packing)

lemma section_at_holds:
  assumes "length (front @ body @ bs @ rest) < 2 ^ 64"
  shows "section_holds (front @ body @ bs @ rest) (section_at front body bs) bs"
proof -
  have "unat (fs_position (section_at front body bs)) = length front + length body"
    "unat (fs_length (section_at front body bs)) = length bs"
    using assms unfolding section_at_def file_section.simps by (simp_all add: unat_of_nat_64 del: of_nat_add)
  then show ?thesis by (simp add: section_holds_def)
qed

text \<open>What a part of the archive is made from. An archive without scripts gives an empty one.\<close>

fun part_source :: "pack_input \<Rightarrow> part \<Rightarrow> (string, byte list) res" where
  "part_source p PManifest = rmap (\<lambda>bs. bs @ ascii [char_of (10 :: nat)]) (pk_manifest p)"
| "part_source p PLicense = pk_license p"
| "part_source p PInstructions = pk_instructions p"
| "part_source p PIcon = pk_icon p"
| "part_source p PDockerImages = pk_docker_images p"
| "part_source p PAssets = pk_assets p"
| "part_source p PScripts = (case pk_scripts p of None \<Rightarrow> Ok [] | Some src \<Rightarrow> src)"

fun part_section :: "table_of_contents \<Rightarrow> part \<Rightarrow> file_section" where
  "part_section toc PManifest = toc_manifest toc"
| "part_section toc PLicense = toc_license toc"
| "part_section toc PInstructions = toc_instructions toc"
| "part_section toc PIcon = toc_icon toc"
| "part_section toc PDockerImages = toc_docker_images toc"
| "part_section toc PAssets = toc_assets toc"
| "part_section toc PScripts = (case toc_scripts toc of None \<Rightarrow> file_section_default | Some fs \<Rightarrow> fs)"

definition packed_body :: "(part \<Rightarrow> byte list) \<Rightarrow> byte list" where
  "packed_body c = c PManifest @ c PLicense @ c PInstructions @ c PIcon @ c PDockerImages @ c PAssets @ c PScripts"

definition packed_toc :: "byte list \<Rightarrow> bool \<Rightarrow> (part \<Rightarrow> byte list) \<Rightarrow> table_of_contents" where
  "packed_toc front has c =
     \<lparr>toc_manifest = section_at front [] (c PManifest),
      toc_license = section_at front (c PManifest) (c PLicense),
      toc_instructions = section_at front (c PManifest @ c PLicense) (c PInstructions),
      toc_icon = section_at front (c PManifest @ c PLicense @ c PInstructions) (c PIcon),
      toc_docker_images = section_at front (c PManifest @ c PLicense @ c PInstructions @ c PIcon) (c PDockerImages),
      toc_assets = section_at front (c PManifest @ c PLicense @ c PInstructions @ c PIcon @ c PDockerImages) (c PAssets),
      toc_scripts = (if has then Some (section_at front
        (c PManifest @ c PLicense @ c PInstructions @ c PIcon @ c PDockerImages @ c PAssets) (c PScripts)) else None)\<rparr>"

text \<open>The assumptions on the libraries: sizes, and that a signature verifies.\<close>

definition keys_ok :: "archive_ops \<Rightarrow> keypair \<Rightarrow> bool" where
  "keys_ok ops key \<longleftrightarrow> length (pubkey_default (ar_keys ops)) = 32 \<and> length (kp_public key) = 32 \<and>
     pubkey_ok (ar_keys ops) (kp_public key) \<and>
     (\<forall>hash sig. kp_sign key hash SIG_CONTEXT = Ok sig \<longrightarrow>
        length sig = 64 \<and> sig_ok (ar_keys ops) sig \<and> ar_verify ops (kp_public key) hash SIG_CONTEXT sig)"

definition placeholder_front :: "archive_ops \<Rightarrow> writer \<Rightarrow> byte list" where
  "placeholder_front ops w = w_bytes w @ header_serialize (header_placeholder (ar_keys ops))"

lemma pack_hashed:
  assumes "\<And>q. part_source p q = Ok (c q)" and "w_at w = length (w_bytes w)"
  shows "pack ops key p w =
    (let front = placeholder_front ops w;
         toc = packed_toc front (pk_scripts p \<noteq> None) c in
     rbind (map_err (\<lambda>e. Error InvalidSignature (Msg e)) (kp_sign key (ar_sha512 ops (packed_body c)) SIG_CONTEXT)) (\<lambda>sig.
     Ok (seek_start (of_nat (length front + length (packed_body c)))
       (write_all (header_serialize \<lparr>hd_pubkey = kp_public key, hd_signature = sig, hd_toc = toc\<rparr>)
         (seek_start (of_nat (length (w_bytes w))) (hw_inner (packing front (packed_body c))))))))"
proof -
  obtain m where m: "pk_manifest p = Ok m" "c PManifest = m @ ascii [char_of (10 :: nat)]"
    using assms(1) [of PManifest] by (auto simp: res_simps)
  have start: "\<lparr>hw_hashed = [], hw_inner = write_all (header_serialize (header_placeholder (ar_keys ops))) w\<rparr> =
      packing (placeholder_front ops w) []"
    using assms(2) by (simp add: packing_def write_all_end placeholder_front_def)
  have at: "stream_position (write_all (header_serialize (header_placeholder (ar_keys ops))) w) =
      of_nat (length (placeholder_front ops w) + length [])"
    using assms(2) by (simp add: stream_position_def write_all_end placeholder_front_def)
  have s: "pk_license p = Ok (c PLicense)" "pk_instructions p = Ok (c PInstructions)" "pk_icon p = Ok (c PIcon)"
    "pk_docker_images p = Ok (c PDockerImages)" "pk_assets p = Ok (c PAssets)"
    using assms(1) [of PLicense] assms(1) [of PInstructions] assms(1) [of PIcon] assms(1) [of PDockerImages]
      assms(1) [of PAssets] by simp_all
  have hashed: "hw_hashed (packing f b) = b" for f b by (simp add: packing_def)
  have pos: "stream_position w = of_nat (length (w_bytes w))" using assms(2) by (simp add: stream_position_def)
  show ?thesis
    using assms(1) [of PScripts]
    unfolding pack_def Let_def pos start
    by (subst at, cases "pk_scripts p")
      (simp_all add: m s to_cbor_packing copy_into_packing position_packing hashed section_to_def section_at_def
        packed_toc_def packed_body_def algebra_simps)
qed

lemma pack_needs:
  assumes "pack ops key p w = Ok w'"
  shows "\<exists>c. (\<forall>q. part_source p q = Ok (c q))"
proof -
  have "\<exists>bs. part_source p q = Ok bs" for q
    using assms by (cases q) (auto simp: pack_def Let_def copy_into_def with_ctx_def to_cbor_async_writer_def res_simps
      split: option.splits)
  then show ?thesis by metis
qed

lemma pack_signs:
  assumes "pack ops key p w = Ok w'" and "\<And>q. part_source p q = Ok (c q)" and "w_at w = length (w_bytes w)"
  obtains sig where "kp_sign key (ar_sha512 ops (packed_body c)) SIG_CONTEXT = Ok sig"
  using assms(1) pack_hashed [OF assms(2,3), where ops = ops and key = key] by (auto simp: Let_def res_simps)

text \<open>The file afterwards: what was there, the header and the sections.\<close>

lemma pack_file:
  assumes sources: "\<And>q. part_source p q = Ok (c q)" and w: "w_at w = length (w_bytes w)"
    and sig: "kp_sign key (ar_sha512 ops (packed_body c)) SIG_CONTEXT = Ok sig" and keys: "keys_ok ops key"
    and small: "length (w_bytes w) + 279 + length (packed_body c) < 2 ^ 64"
  defines "h \<equiv> \<lparr>hd_pubkey = kp_public key, hd_signature = sig,
      hd_toc = packed_toc (placeholder_front ops w) (pk_scripts p \<noteq> None) c\<rparr>"
  shows "pack ops key p w = Ok \<lparr>w_bytes = w_bytes w @ header_serialize h @ packed_body c,
      w_at = length (w_bytes w) + 279 + length (packed_body c)\<rparr>"
    and "length (header_serialize h) = 279" and "length (placeholder_front ops w) = length (w_bytes w) + 279"
    and "header_wf (ar_keys ops) h"
proof -
  show wf: "header_wf (ar_keys ops) h" using keys sig by (auto simp: header_wf_def h_def keys_ok_def)
  show len: "length (header_serialize h) = 279" using wf by (intro header_size) (auto simp: header_wf_def)
  have placeholder: "length (header_serialize (header_placeholder (ar_keys ops))) = 279"
    using keys by (intro header_size) (auto simp: header_placeholder_def keys_ok_def)
  then show front: "length (placeholder_front ops w) = length (w_bytes w) + 279" by (simp add: placeholder_front_def)
  have "length (w_bytes w) < 2 ^ 64" using small by linarith
  then have start: "unat (of_nat (length (w_bytes w)) :: 64 word) = length (w_bytes w)" by (rule unat_of_nat_64)
  have stop: "unat (of_nat (length (w_bytes w) + 279 + length (packed_body c)) :: 64 word) =
      length (w_bytes w) + 279 + length (packed_body c)"
    using small by (rule unat_of_nat_64)
  show "pack ops key p w = Ok \<lparr>w_bytes = w_bytes w @ header_serialize h @ packed_body c,
      w_at = length (w_bytes w) + 279 + length (packed_body c)\<rparr>"
    unfolding pack_hashed [OF sources w] Let_def sig rbind.simps map_err.simps h_def [symmetric] front packing_def seek_start_def hash_writer.simps
      writer.simps stop start write_all_def
    using len placeholder by (simp add: placeholder_front_def)
qed

text \<open>The parts before and behind a part.\<close>

definition part_order :: "part list" where
  "part_order = [PManifest, PLicense, PInstructions, PIcon, PDockerImages, PAssets, PScripts]"

definition before_part :: "(part \<Rightarrow> byte list) \<Rightarrow> part \<Rightarrow> byte list" where
  "before_part c q = concat (map c (takeWhile (\<lambda>r. r \<noteq> q) part_order))"

definition behind_part :: "(part \<Rightarrow> byte list) \<Rightarrow> part \<Rightarrow> byte list" where
  "behind_part c q = concat (map c (tl (dropWhile (\<lambda>r. r \<noteq> q) part_order)))"

lemma split_at_part: "packed_body c = before_part c q @ c q @ behind_part c q"
  by (cases q) (simp_all add: packed_body_def before_part_def behind_part_def part_order_def)

lemma section_of_part:
  "has \<or> q \<noteq> PScripts \<Longrightarrow> part_section (with_scripts (packed_toc front has c)) q = section_at front (before_part c q) (c q)"
  by (cases q) (simp_all add: packed_toc_def with_scripts_def before_part_def part_order_def)

lemma packed_sections:
  assumes "length (front @ packed_body c) < 2 ^ 64" and "has \<or> c PScripts = []"
  shows "section_holds (front @ packed_body c) (part_section (with_scripts (packed_toc front has c)) q) (c q)"
proof (cases "has \<or> q \<noteq> PScripts")
  case True
  then show ?thesis
    using section_at_holds [of front "before_part c q" "c q" "behind_part c q"] assms(1)
    by (simp only: section_of_part split_at_part [of c q] append_assoc)
next
  case False
  then show ?thesis using assms(2) by (simp add: packed_toc_def with_scripts_def section_holds_def file_section_default_def)
qed

section \<open>Packing and reading back\<close>

lemma open_written:
  assumes "header_wf (ar_keys ops) h" and "ar_verify ops (hd_pubkey h) (ar_sha512 ops body) SIG_CONTEXT (hd_signature h)"
    and "bytes = pre @ header_serialize h @ body"
  shows "from_reader ops bytes (length pre) True =
    Ok \<lparr>rd_hash = Some (ar_sha512 ops body), rd_hash_string = Some (ar_base32 ops (ar_sha512 ops body)),
        rd_developer_key = hd_pubkey h, rd_toc = with_scripts (hd_toc h), rd_pos = of_nat (length bytes),
        rd_bytes = bytes, rd_at = length bytes\<rparr>"
  using assms by (simp add: from_reader_def header_roundtrip hash_rest_all Let_def)

lemma part_read:
  assumes s: "synced s" and some: "toc_scripts (rd_toc s) \<noteq> None" and chunk: "0 < chunk"
    and holds: "\<And>q. section_holds (rd_bytes s) (part_section (rd_toc s) q) (c q)"
    and img: "image_for tar arch (c PDockerImages) = Ok img"
  shows "\<exists>k. read_part tar arch chunk q s = (Ok ((c(PDockerImages := img)) q), moved k s) \<and> synced (moved k s)"
proof (cases "q = PDockerImages")
  case True
  then show ?thesis using docker_part [OF s _ img chunk] holds [of PDockerImages] by simp
next
  case False
  note copy = section_copy_out [OF s _ chunk] and vec = section_to_vec [OF s _ chunk] and after = synced_after_section [OF s]
  have accessors: "st_bind manifest_raw f s = st_bind (read_handle (toc_manifest (rd_toc s))) f s"
    "st_bind license f s = st_bind (read_handle (toc_license (rd_toc s))) f s"
    "st_bind instructions f s = st_bind (read_handle (toc_instructions (rd_toc s))) f s"
    "st_bind icon f s = st_bind (read_handle (toc_icon (rd_toc s))) f s"
    "st_bind assets f s = st_bind (read_handle (toc_assets (rd_toc s))) f s" for f :: "section_handle \<Rightarrow> byte list reading"
    by (simp_all add: st_bind_def manifest_raw_def license_def instructions_def icon_def assets_def)
  have scripts: "st_bind scripts (\<lambda>h. case h of None \<Rightarrow> st_return [] | Some h \<Rightarrow> copy_out chunk h []) s =
      st_bind (read_handle (part_section (rd_toc s) PScripts)) (\<lambda>h. copy_out chunk h []) s"
    using some by (auto simp: st_bind_def scripts_def st_return_def read_handle_moves [OF s])
  show ?thesis
    using False holds [of q] accessors scripts copy [of _ "c q"] vec [of _ "c q"] after [of _ "c q"]
    by (cases q) (auto simp: st_map_err_def)
qed

lemma parts_read:
  assumes chunk: "0 < chunk" and img: "image_for tar arch (c PDockerImages) = Ok img"
  shows "synced s \<Longrightarrow> toc_scripts (rd_toc s) \<noteq> None \<Longrightarrow>
    (\<And>q. section_holds (rd_bytes s) (part_section (rd_toc s) q) (c q)) \<Longrightarrow>
    \<exists>t. read_parts tar arch chunk qs s = (Ok (map (c(PDockerImages := img)) qs), t)"
proof (induction qs arbitrary: s)
  case (Cons q qs)
  then obtain k where k: "read_part tar arch chunk q s = (Ok ((c(PDockerImages := img)) q), moved k s)" "synced (moved k s)"
    using part_read [where c = c and s = s and q = q, OF _ _ chunk _ img] by blast
  moreover obtain t where "read_parts tar arch chunk qs (moved k s) = (Ok (map (c(PDockerImages := img)) qs), t)"
    using Cons.IH [OF k(2)] Cons.prems by auto
  ultimately show ?case by (simp add: st_return_def)
qed (simp add: st_return_def)

lemma packed_toc_front: "length front = length front' \<Longrightarrow> packed_toc front has c = packed_toc front' has c"
  by (simp add: packed_toc_def section_at_def)

lemma write_all_keeps_length: "length bs \<le> length (w_bytes (write_all cs \<lparr>w_bytes = bs, w_at = n\<rparr>))"
  by (simp add: write_all_def)

text \<open>
  C26. An archive survives packing. When the packer succeeds, opening the file it wrote with a check of the signature
  succeeds, gives the key of the developer, and every sequence of reads of its parts, in any order and with repetitions
  and however many bytes one read of the file yields, returns what was packed: the manifest with a line feed behind it,
  of the images the one for the architecture, and an empty scripts section when there were no scripts.
\<close>

theorem archive_roundtrip:
  assumes run: "pack ops key p w = Ok w'" and w: "w_at w = length (w_bytes w)" and small: "length (w_bytes w') < 2 ^ 64"
    and keys: "keys_ok ops key" and chunk: "0 < chunk"
    and img: "pk_docker_images p = Ok images" "image_for tar arch images = Ok img"
  shows "\<exists>s t c. from_reader ops (w_bytes w') (length (w_bytes w)) True = Ok s \<and>
    rd_developer_key s = kp_public key \<and> map (part_source p) qs = map (Ok \<circ> c) qs \<and>
    read_parts tar arch chunk qs s = (Ok (map (c(PDockerImages := img)) qs), t)"
proof -
  obtain c where c: "\<And>q. part_source p q = Ok (c q)" using pack_needs [OF run] by blast
  obtain sig where sig: "kp_sign key (ar_sha512 ops (packed_body c)) SIG_CONTEXT = Ok sig" by (rule pack_signs [OF run c w])
  let ?front = "placeholder_front ops w" and ?has = "pk_scripts p \<noteq> None"
  have front: "length ?front = length (w_bytes w) + 279"
    using keys header_size [of "header_placeholder (ar_keys ops)"]
    by (simp add: placeholder_front_def keys_ok_def header_placeholder_def)
  have "length (?front @ packed_body c) \<le> length (w_bytes w')"
    using run write_all_keeps_length [of "?front @ packed_body c"] unfolding pack_hashed [OF c w] Let_def sig
    by (auto simp: seek_start_def packing_def)
  then have "length (w_bytes w) + 279 + length (packed_body c) < 2 ^ 64" using small front by simp
  note f = pack_file [OF c w sig keys this]
  let ?h = "\<lparr>hd_pubkey = kp_public key, hd_signature = sig, hd_toc = packed_toc ?front ?has c\<rparr>"
  have bytes: "w_bytes w' = w_bytes w @ header_serialize ?h @ packed_body c" using run f(1) by auto
  have "ar_verify ops (hd_pubkey ?h) (ar_sha512 ops (packed_body c)) SIG_CONTEXT (hd_signature ?h)"
    using keys sig by (simp add: keys_ok_def)
  note opened = open_written [OF f(4) this bytes]
  define front' where "front' = w_bytes w @ header_serialize ?h"
  have bytes': "w_bytes w' = front' @ packed_body c" by (simp add: bytes front'_def)
  have toc: "packed_toc ?front ?has c = packed_toc front' ?has c"
    using f(2) front by (intro packed_toc_front) (simp only: front'_def length_append)
  have "?has \<or> c PScripts = []" using c [of PScripts] by (auto split: option.splits)
  then have "section_holds (w_bytes w') (part_section (with_scripts (packed_toc ?front ?has c)) q) (c q)" for q
    unfolding toc bytes' using small by (intro packed_sections) (simp_all add: bytes')
  then have "\<exists>t. read_parts tar arch chunk qs s = (Ok (map (c(PDockerImages := img)) qs), t)"
    if "from_reader ops (w_bytes w') (length (w_bytes w)) True = Ok s" for s
    using that opened img c [of PDockerImages] small
    by (intro parts_read [OF chunk]) (auto simp: synced_def with_scripts_def)
  then show ?thesis using opened c by fastforce
qed

text \<open>
  What a read returns after \<open>reset\<close>. It moves the file to its start but not the remembered position, so that
  a section which begins there is read from the start of the file; every other section is read as it should be.
\<close>

theorem read_after_reset:
  assumes "synced s" and "section_holds (rd_bytes s) fs bs" and "0 < chunk"
  shows "fst (st_bind (read_handle fs) (to_vec chunk) (reset s)) =
    Ok (if rd_pos s = fs_position fs then take (unat (fs_length fs)) (rd_bytes s) else bs)"
proof (cases "rd_pos s = fs_position fs")
  case True
  then have "read_handle fs (reset s) = (Ok (handle_of fs), reset s)"
    by (simp add: read_handle_def reset_def handle_of_def)
  moreover have "in_range (reset s) (unat (fs_position fs)) (unat (fs_length fs)) (handle_of fs)"
    using True assms by (auto simp: in_range_def reset_def section_holds_def synced_def)
  ultimately show ?thesis
    using True fill_buf_reads [OF assms(3), of "reset s"] by (simp add: to_vec_def) (simp add: reset_def)
next
  case False
  then have "read_handle fs (reset s) = (Ok (handle_of fs), moved (unat (fs_position fs)) s)"
    by (simp add: read_handle_def reset_def handle_of_def moved_def Let_def)
  then show ?thesis
    using False assms fill_buf_reads [OF assms(3) in_range_section [OF assms(1,2)]] by (simp add: to_vec_def section_holds_def)
qed

text \<open>
  C27. The signature covers the sections but not the table of contents: an archive is accepted, whatever its table is, just when its signature
  fits the hash of all that follows its header, and then it is accepted as the same with any other table.
\<close>

theorem table_not_signed:
  assumes "header_wf (ar_keys ops) h"
  shows "(is_ok (from_reader ops (header_serialize (h\<lparr>hd_toc := toc\<rparr>) @ body) 0 True) \<longleftrightarrow>
      ar_verify ops (hd_pubkey h) (ar_sha512 ops body) SIG_CONTEXT (hd_signature h)) \<and>
    (\<forall>s. from_reader ops (header_serialize h @ body) 0 True = Ok s \<longrightarrow>
      from_reader ops (header_serialize (h\<lparr>hd_toc := toc\<rparr>) @ body) 0 True =
        Ok (s\<lparr>rd_toc := with_scripts toc, rd_bytes := header_serialize (h\<lparr>hd_toc := toc\<rparr>) @ body\<rparr>))"
proof -
  have wf': "header_wf (ar_keys ops) (h\<lparr>hd_toc := toc\<rparr>)" using assms by (simp add: header_wf_def)
  have "length (header_serialize (h\<lparr>hd_toc := toc\<rparr>)) = length (header_serialize h)"
    using assms by (simp add: header_size header_wf_def)
  then show ?thesis
    by (auto simp: from_reader_def header_roundtrip [OF assms] header_roundtrip [OF wf'] hash_rest_all Let_def
      split: if_splits)
qed

section \<open>A small archive\<close>

text \<open>Libraries for examples: a key that signs everything with zeros, and tar archives without entries.\<close>

definition any_key :: key_ops where
  "any_key = \<lparr>pubkey_ok = \<lambda>_. True, sig_ok = \<lambda>_. True, pubkey_default = replicate 32 0\<rparr>"

definition sample_ops :: archive_ops where
  "sample_ops = \<lparr>ar_keys = any_key, ar_sha512 = (\<lambda>bs. take 64 bs), ar_verify = (\<lambda>_ _ _ sig. sig = replicate 64 0),
     ar_base32 = (\<lambda>_. '''')\<rparr>"

definition sample_key :: keypair where
  "sample_key = \<lparr>kp_public = replicate 32 1, kp_sign = (\<lambda>_ _. Ok (replicate 64 0))\<rparr>"

definition sample_tar :: tar_ops where
  "sample_tar = \<lparr>tar_entries = (\<lambda>_. []), tar_used = length, tar_multiarch = (\<lambda>_. Err '''')\<rparr>"

definition sample_input :: pack_input where
  "sample_input = \<lparr>pk_manifest = Ok [1], pk_license = Ok [2, 3], pk_instructions = Ok [4], pk_icon = Ok [5],
     pk_docker_images = Ok [6, 7], pk_assets = Ok [], pk_scripts = None\<rparr>"

lemma sample_keys: "keys_ok sample_ops sample_key"
  by (simp add: keys_ok_def sample_ops_def sample_key_def any_key_def)

theorem archive_roundtrip_witness:
  "\<exists>w s t. pack sample_ops sample_key sample_input \<lparr>w_bytes = [], w_at = 0\<rparr> = Ok w \<and>
     from_reader sample_ops (w_bytes w) 0 True = Ok s \<and>
     read_parts sample_tar ''x86_64'' 3 [PLicense, PManifest, PDockerImages, PScripts, PLicense] s =
       (Ok [[2, 3], [1, 10], [6, 7], [], [2, 3]], t)"
proof -
  let ?c = "\<lambda>q. case part_source sample_input q of Ok bs \<Rightarrow> bs | _ \<Rightarrow> []"
  have c: "part_source sample_input q = Ok (?c q)" for q by (cases q) (simp_all add: sample_input_def)
  have sig: "kp_sign sample_key (ar_sha512 sample_ops (packed_body ?c)) SIG_CONTEXT = Ok (replicate 64 0)"
    by (simp add: sample_key_def)
  have body: "packed_body ?c = [1, 10, 2, 3, 4, 5, 6, 7]" by (simp add: packed_body_def sample_input_def ascii_def)
  note f = pack_file [OF c _ sig sample_keys, of "\<lparr>w_bytes = [], w_at = 0\<rparr>", unfolded body, simplified]
  let ?w = "\<lparr>w_bytes = header_serialize \<lparr>hd_pubkey = kp_public sample_key, hd_signature = replicate 64 0,
      hd_toc = packed_toc (placeholder_front sample_ops \<lparr>w_bytes = [], w_at = 0\<rparr>) (pk_scripts sample_input \<noteq> None) ?c\<rparr> @
      [1, 10, 2, 3, 4, 5, 6, 7], w_at = 287\<rparr>"
  have run: "pack sample_ops sample_key sample_input \<lparr>w_bytes = [], w_at = 0\<rparr> = Ok ?w"
    and small: "length (w_bytes ?w) < 2 ^ 64"
    using f(1,2) by simp_all
  have img: "image_for sample_tar ''x86_64'' [6, 7] = Ok [6, 7]" by (simp add: image_for_def sample_tar_def)
  have src: "pk_docker_images sample_input = Ok [6, 7]" by (simp add: sample_input_def)
  show ?thesis
    using archive_roundtrip [OF run _ small sample_keys _ src img, of 3 "[PLicense, PManifest, PDockerImages, PScripts, PLicense]"] run
    by (fastforce simp: sample_input_def ascii_def)
qed

text \<open>A file of two sections; the reader has just read the first.\<close>

definition sample_reader :: s9pk_reader where
  "sample_reader = \<lparr>rd_hash = None, rd_hash_string = None, rd_developer_key = [], rd_toc = toc_default, rd_pos = 2,
     rd_bytes = [1, 2, 3, 4], rd_at = 2\<rparr>"

theorem read_after_reset_witness:
  "fst (st_bind (read_handle \<lparr>fs_position = 2, fs_length = 2\<rparr>) (to_vec 1) (reset sample_reader)) = Ok [1, 2] \<and>
   fst (st_bind (read_handle \<lparr>fs_position = 0, fs_length = 2\<rparr>) (to_vec 1) (reset sample_reader)) = Ok [1, 2] \<and>
   fst (st_bind (read_handle \<lparr>fs_position = 2, fs_length = 2\<rparr>) (to_vec 1) sample_reader) = Ok [3, 4]"
proof -
  have s: "synced sample_reader" by (simp add: synced_def sample_reader_def)
  have a: "section_holds (rd_bytes sample_reader) \<lparr>fs_position = 2, fs_length = 2\<rparr> [3, 4]"
    by (simp add: section_holds_def sample_reader_def)
  have b: "section_holds (rd_bytes sample_reader) \<lparr>fs_position = 0, fs_length = 2\<rparr> [1, 2]"
    by (simp add: section_holds_def sample_reader_def)
  have "rd_pos sample_reader = 2" "rd_bytes sample_reader = [1, 2, 3, 4]" by (simp_all add: sample_reader_def)
  then show ?thesis
    using read_after_reset [OF s a, of 1] read_after_reset [OF s b, of 1] section_to_vec [OF s a, of 1] by simp
qed

text \<open>A key whose signature is one of a hash of two bytes, and a table of contents.\<close>

definition signed_ops :: archive_ops where
  "signed_ops = sample_ops\<lparr>ar_verify := \<lambda>_ hash _ sig. hash = [1, 2] \<and> sig = replicate 64 0\<rparr>"

definition other_toc :: table_of_contents where
  "other_toc = toc_default\<lparr>toc_icon := \<lparr>fs_position = 279, fs_length = 1\<rparr>\<rparr>"

theorem table_not_signed_witness:
  "is_ok (from_reader signed_ops (header_serialize ((header_placeholder any_key)\<lparr>hd_toc := other_toc\<rparr>) @ [1, 2]) 0 True) \<and>
   \<not> is_ok (from_reader signed_ops (header_serialize ((header_placeholder any_key)\<lparr>hd_toc := other_toc\<rparr>) @ [1, 3]) 0 True)"
proof -
  have wf: "header_wf (ar_keys signed_ops) (header_placeholder any_key)"
    by (simp add: header_wf_def header_placeholder_def any_key_def signed_ops_def sample_ops_def)
  show ?thesis using table_not_signed [OF wf, of other_toc "[1, 2]"] table_not_signed [OF wf, of other_toc "[1, 3]"]
    by (simp add: signed_ops_def sample_ops_def header_placeholder_def)
qed

end
