(* ===== verification/Manager.thy ===== *)
theory Manager
  imports Status State_Res "HOL-Library.Word"
begin

text \<open>
  The manager of an installed package (\<^verbatim>\<open>manager/mod.rs\<close>, \<^verbatim>\<open>manager/sync.rs\<close>). Two tasks share its state: the thread
  that runs the service, again when it ends, and the synchronizer that compares the status of the manager with the one
  recorded in the database and starts, stops, pauses or resumes the service. They interleave where the code awaits:
  the state of each task is the point at which it waits, and the answers of Docker, the end of the service and the
  commands that change the recorded status are steps of the environment.
\<close>

section \<open>Shared state\<close>

datatype mgr_status = MStarting | MRunning | MStopped | MPaused | MShutdown

datatype on_stop = Restart | Sleep | Exit

text \<open>
  A watch channel with the mark by which a receiver notices that something was sent: for the thread on \<open>on_stop\<close>, for
  \<open>wait_for_status\<close> on the status. \<open>ms_killed\<close> is the notification of the killer that a waiting \<open>run_main\<close> got.
\<close>

record shared_state =
  ms_status :: mgr_status
  ms_status_changed :: bool
  ms_on_stop :: on_stop
  ms_on_stop_changed :: bool
  ms_killed :: bool
  ms_commit :: bool
  ms_next_gid :: "32 word"
  ms_main_gid :: "32 word"

text \<open>\<open>send_modify\<close> marks the channel even when the value stays.\<close>

definition modify_status :: "(mgr_status \<Rightarrow> mgr_status) \<Rightarrow> shared_state \<Rightarrow> shared_state" where
  "modify_status f m = m\<lparr>ms_status := f (ms_status m), ms_status_changed := True\<rparr>"

definition modify_on_stop :: "(on_stop \<Rightarrow> on_stop) \<Rightarrow> shared_state \<Rightarrow> shared_state" where
  "modify_on_stop f m = m\<lparr>ms_on_stop := f (ms_on_stop m), ms_on_stop_changed := True\<rparr>"

definition fetch_starting_to_running :: "shared_state \<Rightarrow> shared_state" where
  "fetch_starting_to_running = modify_status (\<lambda>x. if x = MStarting then MRunning else x)"

definition set_commit_health_true :: "shared_state \<Rightarrow> shared_state" where
  "set_commit_health_true m = m\<lparr>ms_commit := True\<rparr>"

definition mgr_start :: "shared_state \<Rightarrow> shared_state" where
  "mgr_start m =
     modify_status (\<lambda>x. if x \<noteq> MRunning then MStarting else x)
       (modify_on_stop (\<lambda>x. if x = Sleep then Restart else x) m)"

definition new_gid :: "shared_state \<Rightarrow> 32 word \<times> shared_state" where
  "new_gid m = (ms_next_gid m, m\<lparr>ms_next_gid := ms_next_gid m + 1\<rparr>)"

definition new_main_gid :: "shared_state \<Rightarrow> 32 word \<times> shared_state" where
  "new_main_gid m = (let (gid, m) = new_gid m in (gid, m\<lparr>ms_main_gid := gid\<rparr>))"

section \<open>The tasks\<close>

text \<open>
  Where the thread is: at the top of its loop, waiting for a change of \<open>on_stop\<close>, starting the container, in the
  \<open>select!\<close> of \<open>run_main\<close>, in the pause behind a crash, or behind the loop.
\<close>

datatype thread_pc = AtTop | Asleep | StartingUp | InMain | Backoff | Ended

text \<open>
  Where the synchronizer is: between two rounds, or in a call to Docker from \<open>pause\<close>, \<open>resume\<close> and \<open>stop\<close>, or in
  \<open>wait_for_status\<close>. It holds the record of the main status while it is not idle.
\<close>

datatype sync_pc = SyncIdle | Pausing | Resuming | StopResuming | StopSignalling | StopWaiting

record manager =
  mn_shared :: shared_state
  mn_persistent :: bool
  mn_main :: "main_status option"
  mn_thread :: thread_pc
  mn_sync :: sync_pc

definition on_shared :: "(shared_state \<Rightarrow> shared_state) \<Rightarrow> manager \<Rightarrow> manager" where
  "on_shared f m = m\<lparr>mn_shared := f (mn_shared m)\<rparr>"

abbreviation mgr_status :: "manager \<Rightarrow> mgr_status" where "mgr_status m \<equiv> ms_status (mn_shared m)"
abbreviation mgr_on_stop :: "manager \<Rightarrow> on_stop" where "mgr_on_stop m \<equiv> ms_on_stop (mn_shared m)"

definition mgr_create :: "bool \<Rightarrow> main_status option \<Rightarrow> manager" where
  "mgr_create persistent st = \<lparr>mn_shared = \<lparr>ms_status = MStopped, ms_status_changed = False, ms_on_stop = Sleep,
       ms_on_stop_changed = False, ms_killed = False, ms_commit = True, ms_next_gid = 1, ms_main_gid = 0\<rparr>,
     mn_persistent = persistent, mn_main = st, mn_thread = AtTop, mn_sync = SyncIdle\<rparr>"

subsection \<open>The thread\<close>

text \<open>The top of \<open>manager_thread_loop\<close>: act on \<open>on_stop\<close>.\<close>

definition thread_top :: "manager \<Rightarrow> manager" where
  "thread_top m =
     (let m = on_shared (\<lambda>x. x\<lparr>ms_on_stop_changed := False\<rparr>) m in
      case mgr_on_stop m of
        Sleep \<Rightarrow> (on_shared (modify_status (\<lambda>_. MStopped)) m)\<lparr>mn_thread := Asleep\<rparr>
      | Exit \<Rightarrow> (on_shared (modify_status (\<lambda>_. MShutdown)) m)\<lparr>mn_thread := Ended\<rparr>
      | Restart \<Rightarrow> (on_shared (modify_status (\<lambda>_. MRunning)) m)\<lparr>mn_thread := StartingUp\<rparr>)"

text \<open>How \<open>run_main\<close> ends: the service ended well, it crashed or was killed, or it could not be run.\<close>

datatype run_result = RunOk | RunCrash int string | RunErr

fun after_run :: "run_result \<Rightarrow> thread_pc" where
  "after_run RunOk = AtTop"
| "after_run (RunCrash _ _) = Backoff"
| "after_run RunErr = AtTop"

text \<open>The container is up and has its addresses; \<open>run_main\<close> goes on to wait for its end.\<close>

definition main_up :: "manager \<Rightarrow> manager" where
  "main_up m = (on_shared (\<lambda>x. (fetch_starting_to_running (set_commit_health_true x))\<lparr>ms_killed := False\<rparr>) m)\<lparr>mn_thread := InMain\<rparr>"

definition main_end :: "run_result \<Rightarrow> manager \<Rightarrow> manager" where
  "main_end r m = (on_shared (\<lambda>x. x\<lparr>ms_killed := False\<rparr>) m)\<lparr>mn_thread := after_run r\<rparr>"

subsection \<open>The synchronizer\<close>

text \<open>\<open>killer.notify_waiters\<close> reaches only a task that waits.\<close>

definition notify_killer :: "manager \<Rightarrow> manager" where
  "notify_killer m = (if mn_thread m = InMain then on_shared (\<lambda>x. x\<lparr>ms_killed := True\<rparr>) m else m)"

text \<open>
  \<open>send_signal\<close> up to its call to Docker, or to the container that was started with the manager, for which it takes a new
  process group.
\<close>

definition mgr_send_signal :: "manager \<Rightarrow> manager" where
  "mgr_send_signal m =
     on_shared (\<lambda>x. let x = x\<lparr>ms_commit := False\<rparr> in if mn_persistent m then snd (new_gid x) else x) m"

text \<open>The first part of \<open>stop\<close>, up to its first call to Docker.\<close>

definition stop_begin :: "manager \<Rightarrow> manager" where
  "stop_begin m =
     (let m = on_shared (\<lambda>x. modify_on_stop (\<lambda>y. if y = Restart then Sleep else y) (x\<lparr>ms_commit := False\<rparr>)) m in
      if mgr_status m = MPaused then m\<lparr>mn_sync := StopResuming\<rparr> else (mgr_send_signal m)\<lparr>mn_sync := StopSignalling\<rparr>)"

text \<open>\<open>synchronize_once\<close> up to its first call to Docker.\<close>

definition sync_begin :: "string \<Rightarrow> manager \<Rightarrow> manager" where
  "sync_begin now m =
     (case mn_main m of
        None \<Rightarrow> m
      | Some st \<Rightarrow>
          (case mgr_status m of
             MStopped \<Rightarrow>
               (case st of
                  Stopped \<Rightarrow> m
                | Stopping \<Rightarrow> m\<lparr>mn_main := Some Stopped\<rparr>
                | Restarting \<Rightarrow> m\<lparr>mn_main := Some (Starting True)\<rparr>
                | Starting _ \<Rightarrow> on_shared mgr_start m
                | Running _ health \<Rightarrow> on_shared mgr_start (m\<lparr>mn_main := Some (Running now health)\<rparr>)
                | BackingUp _ _ \<Rightarrow> m)
           | MStarting \<Rightarrow>
               (case st of
                  Stopped \<Rightarrow> stop_begin m | Stopping \<Rightarrow> stop_begin m | Restarting \<Rightarrow> stop_begin m
                | Starting _ \<Rightarrow> m | Running _ _ \<Rightarrow> m
                | BackingUp _ _ \<Rightarrow> m\<lparr>mn_sync := Pausing\<rparr>)
           | MRunning \<Rightarrow>
               (case st of
                  Stopped \<Rightarrow> stop_begin m | Stopping \<Rightarrow> stop_begin m | Restarting \<Rightarrow> stop_begin m
                | Starting _ \<Rightarrow> m\<lparr>mn_main := Some (Running now [])\<rparr>
                | Running _ _ \<Rightarrow> m
                | BackingUp _ _ \<Rightarrow> m\<lparr>mn_sync := Pausing\<rparr>)
           | MPaused \<Rightarrow>
               (case st of
                  Stopped \<Rightarrow> stop_begin m | Stopping \<Rightarrow> stop_begin m | Restarting \<Rightarrow> stop_begin m
                | Starting _ \<Rightarrow> m\<lparr>mn_sync := Resuming\<rparr>
                | Running _ _ \<Rightarrow> m\<lparr>mn_sync := Resuming\<rparr>
                | BackingUp _ _ \<Rightarrow> m)
           | MShutdown \<Rightarrow> m))"

text \<open>
  Docker answers. An error leaves \<open>synchronize_once\<close>, but a failed pause becomes a stop. Behind the signal, \<open>stop\<close>
  waits for the status unless it is reached already.
\<close>

definition docker_reply :: "bool \<Rightarrow> manager \<Rightarrow> manager" where
  "docker_reply ok m =
     (case mn_sync m of
        Pausing \<Rightarrow>
          if ok then (on_shared (modify_status (\<lambda>_. MPaused)) m)\<lparr>mn_sync := SyncIdle\<rparr>
          else stop_begin m
      | Resuming \<Rightarrow>
          if ok then (on_shared (modify_status (\<lambda>_. MRunning)) m)\<lparr>mn_sync := SyncIdle\<rparr>
          else m\<lparr>mn_sync := SyncIdle\<rparr>
      | StopResuming \<Rightarrow>
          if ok then (mgr_send_signal (on_shared (modify_status (\<lambda>_. MRunning)) m))\<lparr>mn_sync := StopSignalling\<rparr>
          else m\<lparr>mn_sync := SyncIdle\<rparr>
      | StopSignalling \<Rightarrow>
          if ok then (on_shared (\<lambda>x. x\<lparr>ms_status_changed := False\<rparr>) m)\<lparr>mn_sync := StopWaiting\<rparr>
          else m\<lparr>mn_sync := SyncIdle\<rparr>
      | _ \<Rightarrow> m)"

text \<open>The end of \<open>wait_for_status\<close>: the status is there, or anything was sent on its channel, or the time is over.\<close>

definition wait_over :: "bool \<Rightarrow> manager \<Rightarrow> bool" where
  "wait_over timeout m \<longleftrightarrow> timeout \<or> mgr_status m = MStopped \<or> ms_status_changed (mn_shared m)"

definition stop_end :: "manager \<Rightarrow> manager" where
  "stop_end m = (notify_killer m)\<lparr>mn_sync := SyncIdle\<rparr>"

text \<open>The first part of \<open>Manager::exit\<close>; behind the call to Docker it notifies the killer.\<close>

definition exit_begin :: "manager \<Rightarrow> manager" where
  "exit_begin = on_shared (\<lambda>x. modify_on_stop (\<lambda>_. Exit) (x\<lparr>ms_commit := False\<rparr>))"

section \<open>Interleaving\<close>

text \<open>
  One step of a task or of the environment. The recorded status is changed by others only between two rounds of the
  synchronizer, which holds a lock during a round. When the thread has ended, the synchronizer is dropped.
\<close>

inductive mgr_step :: "manager \<Rightarrow> manager \<Rightarrow> bool" where
  top: "mn_thread m = AtTop \<Longrightarrow> mgr_step m (thread_top m)"
| wake: "mn_thread m = Asleep \<Longrightarrow> ms_on_stop_changed (mn_shared m) \<Longrightarrow> mgr_step m (m\<lparr>mn_thread := AtTop\<rparr>)"
| up: "mn_thread m = StartingUp \<Longrightarrow> mgr_step m (main_up m)"
| early: "mn_thread m = StartingUp \<Longrightarrow> mgr_step m (main_end r m)"
| ended: "mn_thread m = InMain \<Longrightarrow> mgr_step m (main_end r m)"
| killed: "mn_thread m = InMain \<Longrightarrow> ms_killed (mn_shared m) \<Longrightarrow> mgr_step m (main_end (RunCrash 137 ''Killed'') m)"
| rested: "mn_thread m = Backoff \<Longrightarrow> mgr_step m (m\<lparr>mn_thread := AtTop\<rparr>)"
| sync: "mn_thread m \<noteq> Ended \<Longrightarrow> mn_sync m = SyncIdle \<Longrightarrow> mgr_step m (sync_begin now m)"
| reply: "mn_thread m \<noteq> Ended \<Longrightarrow> mn_sync m \<in> {Pausing, Resuming, StopResuming, StopSignalling} \<Longrightarrow>
    mgr_step m (docker_reply ok m)"
| waited: "mn_thread m \<noteq> Ended \<Longrightarrow> mn_sync m = StopWaiting \<Longrightarrow> wait_over timeout m \<Longrightarrow> mgr_step m (stop_end m)"
| recorded: "mn_sync m = SyncIdle \<Longrightarrow> mgr_step m (m\<lparr>mn_main := st\<rparr>)"
| exiting: "mgr_step m (exit_begin m)"
| kill: "mgr_step m (notify_killer m)"
| signalled: "mgr_step m (mgr_send_signal m)"

inductive mgr_reachable :: "manager \<Rightarrow> bool" where
  created: "mgr_reachable (mgr_create persistent st)"
| stepped: "mgr_reachable m \<Longrightarrow> mgr_step m n \<Longrightarrow> mgr_reachable n"

lemmas mgr_ops = mgr_send_signal_def new_gid_def thread_top_def main_up_def main_end_def notify_killer_def stop_begin_def sync_begin_def docker_reply_def
  stop_end_def exit_begin_def on_shared_def modify_status_def modify_on_stop_def fetch_starting_to_running_def
  set_commit_health_true_def mgr_start_def Let_def

section \<open>Invariants\<close>

text \<open>
  A sleeping thread has seen every request, or will be woken by it; \<open>Exit\<close> is final; when the manager says that the
  service is stopped, the thread does not run it and is not about to, and when it says that the service is starting,
  the thread has not yet begun to start it.
\<close>

definition mgr_ok :: "manager \<Rightarrow> bool" where
  "mgr_ok m \<longleftrightarrow>
     (mn_thread m = Asleep \<longrightarrow> mgr_on_stop m = Sleep \<or> ms_on_stop_changed (mn_shared m)) \<and>
     (mn_thread m = Ended \<longrightarrow> mgr_on_stop m = Exit) \<and>
     (mgr_status m = MShutdown \<longrightarrow> mn_thread m = Ended) \<and>
     (mgr_status m = MStopped \<longrightarrow> mgr_on_stop m \<noteq> Restart) \<and>
     (mgr_status m \<in> {MStopped, MStarting} \<longrightarrow> mn_thread m \<in> {AtTop, Asleep, Ended})"

lemma mgr_ok_create: "mgr_ok (mgr_create persistent st)"
  by (simp add: mgr_ok_def mgr_create_def)

lemma mgr_ok_top: "mgr_ok m \<Longrightarrow> mgr_ok (thread_top m)"
  by (cases "mgr_on_stop m") (simp_all add: mgr_ok_def mgr_ops)

lemma mgr_ok_up: "mgr_ok m \<Longrightarrow> mn_thread m = StartingUp \<Longrightarrow> mgr_ok (main_up m)"
  by (simp add: mgr_ok_def mgr_ops)

lemma mgr_ok_end: "mgr_ok m \<Longrightarrow> mn_thread m \<in> {StartingUp, InMain} \<Longrightarrow> mgr_ok (main_end r m)"
  by (cases r; cases "mn_thread m"; cases "mgr_status m") (simp_all add: mgr_ok_def main_end_def on_shared_def)

lemma mgr_ok_signal: "mgr_ok m \<Longrightarrow> mgr_ok (mgr_send_signal m)"
  by (simp add: mgr_ok_def mgr_ops)

lemma mgr_ok_stop_begin: "mgr_ok m \<Longrightarrow> mgr_ok (stop_begin m)"
  by (auto simp: mgr_ok_def mgr_ops)

lemma mgr_ok_start: "mgr_ok m \<Longrightarrow> mgr_status m = MStopped \<Longrightarrow> mgr_ok (on_shared mgr_start m)"
  by (auto simp: mgr_ok_def mgr_ops)

lemma mgr_ok_main: "mgr_ok (m\<lparr>mn_main := st\<rparr>) = mgr_ok m" "mgr_ok (m\<lparr>mn_sync := p\<rparr>) = mgr_ok m"
  by (simp_all add: mgr_ok_def)

lemma mgr_ok_sync: "mgr_ok m \<Longrightarrow> mgr_ok (sync_begin now m)"
  using mgr_ok_stop_begin [of m] mgr_ok_start [of m] mgr_ok_start [of "m\<lparr>mn_main := _\<rparr>"]
  by (simp add: sync_begin_def mgr_ok_main split: option.split mgr_status.split main_status.split)

lemma mgr_ok_reply: "mgr_ok m \<Longrightarrow> mgr_ok (docker_reply ok m)"
  using mgr_ok_stop_begin [of m]
  by (auto simp: docker_reply_def split: sync_pc.splits)
    (auto simp: mgr_ok_def mgr_send_signal_def new_gid_def Let_def on_shared_def modify_status_def)

lemma mgr_ok_step: "mgr_step m n \<Longrightarrow> mgr_ok m \<Longrightarrow> mgr_ok n"
  by (induction rule: mgr_step.induct)
    (auto intro: mgr_ok_top mgr_ok_up mgr_ok_end mgr_ok_sync mgr_ok_reply mgr_ok_signal,
     auto simp: mgr_ok_def stop_end_def notify_killer_def exit_begin_def on_shared_def modify_on_stop_def)

lemma mgr_ok_reachable: "mgr_reachable m \<Longrightarrow> mgr_ok m"
  by (induction rule: mgr_reachable.induct) (auto intro: mgr_ok_create mgr_ok_step)

text \<open>\<open>Exit\<close> is never taken back.\<close>

lemma exit_final: "mgr_step m n \<Longrightarrow> mgr_on_stop m = Exit \<Longrightarrow> mgr_on_stop n = Exit"
  by (induction rule: mgr_step.induct)
    (auto simp: mgr_ops split: option.splits mgr_status.splits main_status.splits sync_pc.splits)

section \<open>A stopped service stays stopped\<close>

definition quiet_step :: "manager \<Rightarrow> manager \<Rightarrow> bool" where
  "quiet_step m n \<longleftrightarrow> mgr_step m n \<and> mn_main n = mn_main m"

definition at_rest :: "manager \<Rightarrow> bool" where
  "at_rest m \<longleftrightarrow> mn_main m = Some Stopped \<and> mn_sync m = SyncIdle \<and>
     (mn_thread m = Ended \<or> mgr_status m = MStopped \<and> mgr_on_stop m \<noteq> Restart \<and> mn_thread m \<in> {AtTop, Asleep})"

lemma at_rest_step: "mgr_step m n \<Longrightarrow> mn_main n = mn_main m \<Longrightarrow> at_rest m \<Longrightarrow> at_rest n"
  by (induction rule: mgr_step.induct) (auto simp: at_rest_def mgr_ops split: on_stop.splits)

text \<open>
  C7. When the synchronizer records that a service has stopped, the thread does not run the service, and it does not
  start it again as long as the recorded status stays: whatever the tasks and the environment do, in any interleaving.
\<close>

theorem stopped_stays_stopped:
  assumes "mgr_reachable m" and "mn_sync m = SyncIdle" and "mgr_status m = MStopped" and "mn_main m = Some Stopping"
    and "quiet_step\<^sup>*\<^sup>* (sync_begin now m) n"
  shows "mn_main n = Some Stopped \<and> mn_thread n \<in> {AtTop, Asleep, Ended}"
proof -
  have "at_rest (sync_begin now m)"
    using mgr_ok_reachable [OF assms(1)] assms(2,3,4) by (auto simp: at_rest_def sync_begin_def mgr_ok_def)
  with assms(5) have "at_rest n" by (induction rule: rtranclp_induct) (auto simp: quiet_step_def intro: at_rest_step)
  then show ?thesis by (auto simp: at_rest_def)
qed

section \<open>The synchronizer reaches its goal\<close>

text \<open>
  A cooperative environment: Docker does what it is asked to, the container comes up, and the service ends when it is
  asked to stop and not before.
\<close>

definition thread_next :: "manager \<Rightarrow> manager" where
  "thread_next m =
     (case mn_thread m of
        AtTop \<Rightarrow> thread_top m
      | Asleep \<Rightarrow> if ms_on_stop_changed (mn_shared m) then m\<lparr>mn_thread := AtTop\<rparr> else m
      | StartingUp \<Rightarrow> main_up m
      | InMain \<Rightarrow> if mgr_on_stop m \<noteq> Restart then main_end RunOk m else m
      | Backoff \<Rightarrow> m\<lparr>mn_thread := AtTop\<rparr>
      | Ended \<Rightarrow> m)"

definition thread_run :: "manager \<Rightarrow> manager" where
  "thread_run m = thread_next (thread_next (thread_next (thread_next (thread_next m))))"

definition sync_next :: "manager \<Rightarrow> manager" where
  "sync_next m =
     (case mn_sync m of
        SyncIdle \<Rightarrow> m
      | StopWaiting \<Rightarrow> stop_end (thread_run m)
      | _ \<Rightarrow> docker_reply True m)"

text \<open>A round: the synchronizer runs to its end, then the thread.\<close>

definition mgr_round :: "string \<Rightarrow> manager \<Rightarrow> manager" where
  "mgr_round now m = thread_run (sync_next (sync_next (sync_next (sync_begin now m))))"

text \<open>
  What decides the course of a round: the two statuses, the request to the thread with its mark, and where the tasks are.
  On this view a round is a function of its own, on which its course can be computed.
\<close>

type_synonym mgr_view = "main_status option \<times> sync_pc \<times> mgr_status \<times> on_stop \<times> bool \<times> thread_pc"

definition mgr_view :: "manager \<Rightarrow> mgr_view" where
  "mgr_view m = (mn_main m, mn_sync m, mgr_status m, mgr_on_stop m, ms_on_stop_changed (mn_shared m), mn_thread m)"

fun v_thread :: "mgr_view \<Rightarrow> mgr_view" where
  "v_thread (d, p, s, Sleep, c, AtTop) = (d, p, MStopped, Sleep, False, Asleep)"
| "v_thread (d, p, s, Restart, c, AtTop) = (d, p, MRunning, Restart, False, StartingUp)"
| "v_thread (d, p, s, Exit, c, AtTop) = (d, p, MShutdown, Exit, False, Ended)"
| "v_thread (d, p, s, a, c, Asleep) = (d, p, s, a, c, if c then AtTop else Asleep)"
| "v_thread (d, p, s, a, c, StartingUp) = (d, p, if s = MStarting then MRunning else s, a, c, InMain)"
| "v_thread (d, p, s, a, c, InMain) = (d, p, s, a, c, if a = Restart then InMain else AtTop)"
| "v_thread (d, p, s, a, c, Backoff) = (d, p, s, a, c, AtTop)"
| "v_thread (d, p, s, a, c, Ended) = (d, p, s, a, c, Ended)"

definition v_run :: "mgr_view \<Rightarrow> mgr_view" where
  "v_run v = v_thread (v_thread (v_thread (v_thread (v_thread v))))"

fun v_stop :: "mgr_view \<Rightarrow> mgr_view" where
  "v_stop (d, p, s, a, c, t) =
     (d, if s = MPaused then StopResuming else StopSignalling, s, if a = Restart then Sleep else a, True, t)"

fun v_begin :: "string \<Rightarrow> mgr_view \<Rightarrow> mgr_view" where
  "v_begin now (None, v) = (None, v)"
| "v_begin now (Some st, p, s, a, c, t) =
     (if s = MShutdown then (Some st, p, s, a, c, t)
      else if st \<in> {Stopped, Stopping, Restarting} then
        if s = MStopped
        then (Some (if st = Restarting then Starting True else Stopped), p, s, a, c, t)
        else v_stop (Some st, p, s, a, c, t)
      else case st of
        BackingUp _ _ \<Rightarrow> (Some st, if s \<in> {MStopped, MPaused} then p else Pausing, s, a, c, t)
      | Running _ h \<Rightarrow>
          if s = MStopped then (Some (Running now h), p, MStarting, if a = Sleep then Restart else a, True, t)
          else (Some st, if s = MPaused then Resuming else p, s, a, c, t)
      | _ \<Rightarrow>
          if s = MStopped then (Some st, p, MStarting, if a = Sleep then Restart else a, True, t)
          else if s = MRunning then (Some (Running now []), p, s, a, c, t)
          else (Some st, if s = MPaused then Resuming else p, s, a, c, t))"

fun v_sync :: "mgr_view \<Rightarrow> mgr_view" where
  "v_sync (d, SyncIdle, s, a, c, t) = (d, SyncIdle, s, a, c, t)"
| "v_sync (d, Pausing, s, a, c, t) = (d, SyncIdle, MPaused, a, c, t)"
| "v_sync (d, Resuming, s, a, c, t) = (d, SyncIdle, MRunning, a, c, t)"
| "v_sync (d, StopResuming, s, a, c, t) = (d, StopSignalling, MRunning, a, c, t)"
| "v_sync (d, StopSignalling, s, a, c, t) = (d, StopWaiting, s, a, c, t)"
| "v_sync (d, StopWaiting, s, a, c, t) = (case v_run (d, StopWaiting, s, a, c, t) of (d, p, v) \<Rightarrow> (d, SyncIdle, v))"

definition v_round :: "string \<Rightarrow> mgr_view \<Rightarrow> mgr_view" where
  "v_round now v = v_run (v_sync (v_sync (v_sync (v_begin now v))))"

lemma view_thread: "mgr_view (thread_next m) = v_thread (mgr_view m)"
  by (cases "mn_thread m"; cases "mgr_on_stop m") (simp_all add: mgr_view_def thread_next_def mgr_ops)

lemma view_run: "mgr_view (thread_run m) = v_run (mgr_view m)"
  by (simp add: thread_run_def v_run_def view_thread)

lemma view_stop: "mgr_view (stop_begin m) = v_stop (mgr_view m)"
  by (simp add: mgr_view_def mgr_ops)

lemma view_begin: "mgr_view (sync_begin now m) = v_begin now (mgr_view m)"
proof (cases "mn_main m")
  case (Some st)
  then show ?thesis
    using view_stop [of m]
    by (cases "mgr_status m"; cases st) (simp_all add: sync_begin_def mgr_view_def mgr_start_def on_shared_def
      modify_status_def modify_on_stop_def)
qed (simp add: sync_begin_def mgr_view_def)

lemma view_sync: "mgr_view (sync_next m) = v_sync (mgr_view m)"
  using view_run [of m]
  by (cases "mn_sync m") (auto simp: sync_next_def mgr_view_def docker_reply_def stop_end_def notify_killer_def
    mgr_send_signal_def new_gid_def Let_def on_shared_def modify_status_def split: prod.splits)

lemma view_round: "mgr_view (mgr_round now m) = v_round now (mgr_view m)"
  by (simp add: mgr_round_def v_round_def view_run view_sync view_begin)

text \<open>What the recorded status asks for, and what the manager reaches.\<close>

fun v_settled :: "main_status \<Rightarrow> mgr_view \<Rightarrow> bool" where
  "v_settled st (d, p, s, a, c, t) \<longleftrightarrow> p = SyncIdle \<and>
     (case st of
        BackingUp b h \<Rightarrow> d = Some (BackingUp b h) \<and>
          (s = MStopped \<and> a = Sleep \<and> t = Asleep \<or> s = MPaused \<and> a = Restart \<and> t = InMain)
      | _ \<Rightarrow>
          if st \<in> {Stopped, Stopping} then d = Some Stopped \<and> s = MStopped \<and> a = Sleep \<and> t = Asleep
          else (case d of Some (Running _ _) \<Rightarrow> s = MRunning \<and> a = Restart \<and> t = InMain | _ \<Rightarrow> False))"

fun v_live :: "main_status \<Rightarrow> mgr_view \<Rightarrow> bool" where
  "v_live st (d, p, s, a, c, t) \<longleftrightarrow> d = Some st \<and> p = SyncIdle \<and> a \<noteq> Exit \<and> t \<noteq> Ended \<and> s \<noteq> MShutdown \<and>
     (s = MStopped \<longrightarrow> a = Sleep) \<and> (s \<in> {MStopped, MStarting} \<longrightarrow> t \<in> {AtTop, Asleep}) \<and>
     (t = Asleep \<longrightarrow> (a = Sleep \<or> c) \<and> (s = MStopped \<or> c \<or> st \<in> {Stopped, Stopping, Restarting}))"

text \<open>The thread sleeps behind another status, and nothing that is asked for wakes it up.\<close>

fun v_stranded :: "mgr_view \<Rightarrow> bool" where
  "v_stranded (d, p, s, a, c, t) \<longleftrightarrow> p = SyncIdle \<and> s \<noteq> MStopped \<and> s \<noteq> MShutdown \<and> a = Sleep \<and> \<not> c \<and> t = Asleep \<and>
     (case d of Some st \<Rightarrow> st \<notin> {Stopped, Stopping, Restarting} | None \<Rightarrow> False)"

lemma v_stranded_stays: "v_stranded v \<Longrightarrow> v_stranded (v_round now v)"
proof -
  assume "v_stranded v"
  obtain d p s a c t where v: "v = (d, p, s, a, c, t)" by (cases v) auto
  obtain st where st: "d = Some st" using \<open>v_stranded v\<close> unfolding v by (cases d) auto
  show ?thesis
    using \<open>v_stranded v\<close> unfolding v st by (cases st; cases s) (simp_all add: v_round_def v_run_def)
qed

lemma v_stranded_unsettled: "v_stranded v \<Longrightarrow> st \<notin> {Stopped, Stopping, Restarting} \<Longrightarrow> \<not> v_settled st v"
  by (cases v; cases st) (auto split: option.splits main_status.splits)

lemma v_run_sync: "fst (snd (v_run v)) = fst (snd v)"
proof -
  have "fst (snd (v_thread v)) = fst (snd v)" for v by (cases v rule: v_thread.cases) simp_all
  then show ?thesis by (simp add: v_run_def)
qed

lemma v_sync_idle: "fst (snd v) = SyncIdle \<Longrightarrow> v_sync v = v"
  by (cases v) auto

text \<open>No call of the synchronizer needs more than three waits.\<close>

lemma v_round_idle: "fst (snd (v_round now v)) = SyncIdle"
proof -
  have "fst (snd (v_sync (v_sync (v_sync v)))) = SyncIdle" for v
    by (cases v rule: v_sync.cases) (simp_all add: split_beta v_sync_idle)
  then show ?thesis by (simp add: v_round_def v_run_sync)
qed

lemma v_settles:
  assumes "v_live st v"
  shows "v_settled st (v_round n4 (v_round n3 (v_round n2 (v_round n1 v))))"
proof -
  obtain d p s a c t where v: "v = (d, p, s, a, c, t)" by (cases v) auto
  show ?thesis
    using assms unfolding v
    by (cases st; cases a; cases t; cases s; cases c) (simp_all add: v_round_def v_run_def)
qed

lemma v_stays: "v_settled st v \<Longrightarrow> v_settled st (v_round now v)"
proof -
  assume "v_settled st v"
  obtain d p s a c t where v: "v = (d, p, s, a, c, t)" by (cases v) auto
  show ?thesis
    using \<open>v_settled st v\<close> unfolding v
    by (cases st; cases c) (auto simp: v_round_def v_run_def split: option.splits main_status.splits)
qed

section \<open>Rounds as runs\<close>

lemma thread_next_runs: "mgr_step\<^sup>*\<^sup>* m (thread_next m)"
  by (cases "mn_thread m") (auto simp: thread_next_def intro: mgr_step.intros)

lemma thread_run_runs: "mgr_step\<^sup>*\<^sup>* m (thread_run m)"
  unfolding thread_run_def by (intro rtranclp_trans [OF _ thread_next_runs] thread_next_runs)

lemma mgr_ok_runs: "mgr_step\<^sup>*\<^sup>* m n \<Longrightarrow> mgr_ok m \<Longrightarrow> mgr_ok n"
  by (induction rule: rtranclp_induct) (auto intro: mgr_ok_step)

text \<open>Without a request to exit the thread goes on.\<close>

definition lively :: "manager \<Rightarrow> bool" where
  "lively m \<longleftrightarrow> mgr_ok m \<and> mgr_on_stop m \<noteq> Exit"

lemma lively_thread: "lively m \<Longrightarrow> mn_thread m \<noteq> Ended"
  by (auto simp: lively_def mgr_ok_def)

lemma thread_next_on_stop: "mgr_on_stop (thread_next m) = mgr_on_stop m" "mn_sync (thread_next m) = mn_sync m"
  by (auto simp: thread_next_def mgr_ops split: thread_pc.splits on_stop.splits)

lemma lively_thread_run: "lively m \<Longrightarrow> lively (thread_run m)"
  using mgr_ok_runs [OF thread_run_runs] by (auto simp: lively_def thread_run_def thread_next_on_stop)

lemma sync_next_runs:
  assumes "lively m"
  shows "mgr_step\<^sup>*\<^sup>* m (sync_next m) \<and> lively (sync_next m)"
proof (cases "mn_sync m = StopWaiting")
  case True
  have "mgr_step (thread_run m) (stop_end (thread_run m))"
    using True lively_thread [OF lively_thread_run [OF assms]]
    by (intro mgr_step.waited [of _ True]) (simp_all add: thread_run_def thread_next_on_stop wait_over_def)
  then have run: "mgr_step\<^sup>*\<^sup>* m (sync_next m)"
    using thread_run_runs [of m] True by (simp add: sync_next_def)
  moreover have "mgr_on_stop (sync_next m) = mgr_on_stop m"
    using True by (simp add: sync_next_def stop_end_def notify_killer_def on_shared_def thread_run_def thread_next_on_stop)
  ultimately show ?thesis using assms mgr_ok_runs by (auto simp: lively_def)
next
  case False
  then have run: "mgr_step\<^sup>*\<^sup>* m (sync_next m)"
    using lively_thread [OF assms] by (cases "mn_sync m") (auto simp: sync_next_def intro: mgr_step.reply)
  moreover have "mgr_on_stop (sync_next m) = mgr_on_stop m"
    using False by (cases "mn_sync m") (simp_all add: sync_next_def mgr_ops)
  ultimately show ?thesis using assms mgr_ok_runs by (auto simp: lively_def)
qed

lemma mgr_round_runs:
  assumes "lively m" and "mn_sync m = SyncIdle"
  shows "mgr_step\<^sup>*\<^sup>* m (mgr_round now m) \<and> lively (mgr_round now m)"
proof -
  have step: "mgr_step m (sync_begin now m)" using assms lively_thread by (intro mgr_step.sync)
  then have "lively (sync_begin now m)"
    using assms mgr_ok_step view_begin [of now m]
    by (auto simp: lively_def mgr_ops split: option.splits mgr_status.splits main_status.splits)
  note runs = sync_next_runs [OF this]
  note runs2 = sync_next_runs [OF conjunct2 [OF runs]]
  note runs3 = sync_next_runs [OF conjunct2 [OF runs2]]
  show ?thesis
    using step runs runs2 runs3 thread_run_runs lively_thread_run unfolding mgr_round_def
    by (meson converse_rtranclp_into_rtranclp rtranclp_trans)
qed

definition mgr_settled :: "main_status \<Rightarrow> manager \<Rightarrow> bool" where
  "mgr_settled st m \<longleftrightarrow> v_settled st (mgr_view m)"

lemma view_sync_pc: "mn_sync m = fst (snd (mgr_view m))"
  by (simp add: mgr_view_def)

lemma rounds_run:
  "lively m \<Longrightarrow> mn_sync m = SyncIdle \<Longrightarrow> mgr_step\<^sup>*\<^sup>* m (fold mgr_round nows m)"
proof (induction nows arbitrary: m)
  case (Cons now nows)
  have "mn_sync (mgr_round now m) = SyncIdle"
    using view_round [of now m] v_round_idle [of now "mgr_view m"] by (simp add: view_sync_pc)
  then show ?case using mgr_round_runs [OF Cons.prems, of now] Cons.IH by (auto intro: rtranclp_trans)
qed simp

lemma settled_rounds:
  "v_settled st (mgr_view m) \<Longrightarrow> v_settled st (mgr_view (fold mgr_round nows m))"
  by (induction nows arbitrary: m) (simp_all add: view_round v_stays)

lemma stranded_rounds:
  "v_stranded (mgr_view m) \<Longrightarrow> v_stranded (mgr_view (fold mgr_round nows m))"
  by (induction nows arbitrary: m) (simp_all add: view_round v_stranded_stays)

text \<open>
  The thread sleeps only when it has said that the service is stopped, or when it is about to wake up. This can fail: when a pause
  takes effect after the thread went to sleep, the status becomes that of a paused service.
\<close>

definition awake :: "manager \<Rightarrow> bool" where
  "awake m \<longleftrightarrow> (mn_thread m = Asleep \<longrightarrow> mgr_status m = MStopped \<or> ms_on_stop_changed (mn_shared m))"

text \<open>
  C8. When the manager does what the recorded status asks for. From a reachable state between two rounds of the synchronizer in
  which no exit was requested, four or more rounds with a cooperative environment, which are runs of the manager, lead to a settled
  state if and only if the thread is awake, or sleeps behind the status of a stopped service, or the service should stop or restart.
  Settled means: a service that should stop is recorded as stopped and its thread sleeps, a service that should start, run or restart is
  recorded as running and runs, and during a backup it is stopped or its process is paused. Otherwise the thread sleeps on for ever.
\<close>

theorem manager_converges:
  assumes reach: "mgr_reachable m" and idle: "mn_sync m = SyncIdle" and st: "mn_main m = Some st"
    and no_exit: "mgr_on_stop m \<noteq> Exit" and rounds: "4 \<le> length nows"
  shows "mgr_step\<^sup>*\<^sup>* m (fold mgr_round nows m) \<and>
    (mgr_settled st (fold mgr_round nows m) \<longleftrightarrow> awake m \<or> st \<in> {Stopped, Stopping, Restarting})"
proof -
  note ok = mgr_ok_reachable [OF reach]
  have "lively m" using ok no_exit by (simp add: lively_def)
  note run = rounds_run [OF this idle, of nows]
  obtain n1 n2 n3 n4 rest where nows: "nows = n1 # n2 # n3 # n4 # rest"
    using rounds by (auto simp: numeral_eq_Suc Suc_le_length_iff)
  have "mgr_settled st (fold mgr_round nows m)" if "awake m \<or> st \<in> {Stopped, Stopping, Restarting}"
  proof -
    have "v_live st (mgr_view m)"
      using ok idle st no_exit that by (cases "mgr_on_stop m") (auto simp: mgr_view_def mgr_ok_def awake_def)
    from v_settles [OF this, of n4 n3 n2 n1] have "v_settled st (mgr_view (fold mgr_round [n1, n2, n3, n4] m))"
      by (simp add: view_round)
    then show ?thesis using settled_rounds [of st "fold mgr_round [n1, n2, n3, n4] m" rest] by (simp add: nows mgr_settled_def)
  qed
  moreover have "\<not> mgr_settled st (fold mgr_round nows m)" if "\<not> (awake m \<or> st \<in> {Stopped, Stopping, Restarting})"
  proof -
    have "v_stranded (mgr_view m)"
      using ok idle st no_exit that by (cases "mgr_on_stop m") (auto simp: mgr_view_def mgr_ok_def awake_def)
    from v_stranded_unsettled [OF stranded_rounds [OF this]] that show ?thesis by (simp add: mgr_settled_def)
  qed
  ultimately show ?thesis using run by blast
qed

text \<open>
  The manager reports a service as running before its container is up: while the thread starts the container the
  status is never \<open>Starting\<close>, so that the synchronizer records \<open>Running\<close>, and that the container came up changes nothing.
\<close>

theorem running_recorded_before_start:
  assumes "mgr_reachable m" and "mn_thread m = StartingUp" and "mn_main m = Some (Starting b)" and "mgr_status m \<noteq> MPaused"
  shows "mn_main (sync_begin now m) = Some (Running now []) \<and> mn_thread (sync_begin now m) = StartingUp \<and>
    mgr_status (main_up m) = mgr_status m"
proof -
  have "mgr_status m = MRunning" using mgr_ok_reachable [OF assms(1)] assms(2,4) by (cases "mgr_status m") (auto simp: mgr_ok_def)
  then show ?thesis using assms by (simp add: sync_begin_def main_up_def on_shared_def fetch_starting_to_running_def
    modify_status_def set_commit_health_true_def)
qed

text \<open>
  \<open>wait_for_status\<close> does not wait for the status: any change ends it. When a service is told to stop while its
  container comes up, that the container is up ends the wait at once, long before the timeout and although the service
  has not stopped, and it is killed.
\<close>

theorem stop_kills_early:
  assumes "mgr_reachable m" and "mn_thread m = StartingUp" and "mn_sync m = StopWaiting"
  shows "mgr_status (main_up m) \<noteq> MStopped \<and> wait_over False (main_up m) \<and>
    ms_killed (mn_shared (stop_end (main_up m))) \<and> mgr_reachable (stop_end (main_up m))"
proof -
  have up: "mgr_step m (main_up m)" using assms(2) by (rule mgr_step.up)
  have over: "wait_over False (main_up m)"
    by (simp add: wait_over_def main_up_def on_shared_def fetch_starting_to_running_def modify_status_def)
  have at: "mn_thread (main_up m) = InMain" "mn_sync (main_up m) = StopWaiting" using assms(3) by (simp_all add: main_up_def on_shared_def)
  have "mgr_step (main_up m) (stop_end (main_up m))" using at over by (intro mgr_step.waited [of _ False]) simp_all
  then have reach: "mgr_reachable (stop_end (main_up m))" using assms(1) up by (blast intro: mgr_reachable.stepped)
  have "mgr_status (main_up m) \<noteq> MStopped"
    using mgr_ok_up [OF mgr_ok_reachable [OF assms(1)] assms(2)] at(1) by (auto simp: mgr_ok_def)
  moreover have "ms_killed (mn_shared (stop_end (main_up m)))"
    using at by (simp add: stop_end_def notify_killer_def on_shared_def)
  ultimately show ?thesis using over reach by blast
qed

section \<open>A service that is started and stopped\<close>

text \<open>The container comes up after a start, and the same with a stop in between.\<close>

definition starting_mgr :: manager where
  "starting_mgr = thread_top ((sync_begin ''1'' (thread_top (mgr_create False (Some (Starting False)))))\<lparr>mn_thread := AtTop\<rparr>)"

definition stopping_mgr :: manager where
  "stopping_mgr = docker_reply True (sync_begin ''2'' (starting_mgr\<lparr>mn_main := Some Stopping\<rparr>))"

lemma starting_mgr_reachable: "mgr_reachable starting_mgr"
proof -
  let ?c = "mgr_create False (Some (Starting False))"
  have 1: "mgr_reachable (thread_top ?c)"
    by (rule mgr_reachable.stepped [OF mgr_reachable.created mgr_step.top]) (simp add: mgr_create_def)
  have 2: "mgr_reachable (sync_begin ''1'' (thread_top ?c))"
    by (rule mgr_reachable.stepped [OF 1 mgr_step.sync]) (simp_all add: mgr_create_def thread_top_def on_shared_def modify_status_def)
  have 3: "mgr_reachable ((sync_begin ''1'' (thread_top ?c))\<lparr>mn_thread := AtTop\<rparr>)"
    by (rule mgr_reachable.stepped [OF 2 mgr_step.wake]) (simp_all add: mgr_create_def mgr_ops)
  show ?thesis unfolding starting_mgr_def by (rule mgr_reachable.stepped [OF 3 mgr_step.top]) simp
qed

lemma starting_mgr_state:
  "mn_thread starting_mgr = StartingUp" "mn_sync starting_mgr = SyncIdle" "mn_main starting_mgr = Some (Starting False)"
  "mgr_status starting_mgr = MRunning"
  by (simp_all add: starting_mgr_def mgr_create_def mgr_ops)

lemma stopping_mgr_reachable: "mgr_reachable stopping_mgr"
proof -
  let ?m = "starting_mgr\<lparr>mn_main := Some Stopping\<rparr>"
  have 1: "mgr_reachable ?m"
    by (rule mgr_reachable.stepped [OF starting_mgr_reachable mgr_step.recorded]) (simp add: starting_mgr_state)
  have 2: "mgr_reachable (sync_begin ''2'' ?m)"
    by (rule mgr_reachable.stepped [OF 1 mgr_step.sync]) (simp_all add: starting_mgr_state)
  show ?thesis unfolding stopping_mgr_def
    by (rule mgr_reachable.stepped [OF 2 mgr_step.reply]) (simp_all add: starting_mgr_state sync_begin_def stop_begin_def modify_on_stop_def
      mgr_send_signal_def on_shared_def Let_def)
qed

theorem stopped_stays_stopped_witness:
  "mn_main (sync_begin ''2'' ((thread_top (mgr_create False None))\<lparr>mn_main := Some Stopping\<rparr>)) = Some Stopped"
proof -
  let ?m = "(thread_top (mgr_create False None))\<lparr>mn_main := Some Stopping\<rparr>"
  have 1: "mgr_reachable (thread_top (mgr_create False None))"
    by (rule mgr_reachable.stepped [OF mgr_reachable.created mgr_step.top]) (simp add: mgr_create_def)
  have 2: "mgr_reachable ?m"
    by (rule mgr_reachable.stepped [OF 1 mgr_step.recorded]) (simp add: mgr_create_def mgr_ops)
  show ?thesis
    using stopped_stays_stopped [OF 2 _ _ _ rtranclp.rtrancl_refl, of "''2''"] by (simp add: mgr_create_def thread_top_def on_shared_def
      modify_status_def)
qed

text \<open>A stop that fails, a backup whose pause takes effect after the service has ended.\<close>

definition half_stopped_mgr :: manager where
  "half_stopped_mgr = docker_reply False (sync_begin ''2'' ((main_up starting_mgr)\<lparr>mn_main := Some Stopping\<rparr>))"

definition stranded_mgr :: manager where
  "stranded_mgr = docker_reply True (thread_top (main_end RunOk (sync_begin ''3'' (half_stopped_mgr\<lparr>mn_main := Some (BackingUp None [])\<rparr>))))"

lemma half_stopped_mgr_state:
  "mn_thread half_stopped_mgr = InMain" "mn_sync half_stopped_mgr = SyncIdle" "mgr_status half_stopped_mgr = MRunning"
  "mgr_on_stop half_stopped_mgr = Sleep"
  by (simp_all add: half_stopped_mgr_def starting_mgr_def mgr_create_def mgr_ops)

lemma half_stopped_mgr_reachable: "mgr_reachable half_stopped_mgr"
proof -
  let ?up = "main_up starting_mgr"
  have 1: "mgr_reachable ?up" by (rule mgr_reachable.stepped [OF starting_mgr_reachable mgr_step.up]) (simp add: starting_mgr_state)
  have 2: "mgr_reachable (?up\<lparr>mn_main := Some Stopping\<rparr>)"
    by (rule mgr_reachable.stepped [OF 1 mgr_step.recorded]) (simp add: main_up_def on_shared_def starting_mgr_state)
  have 3: "mgr_reachable (sync_begin ''2'' (?up\<lparr>mn_main := Some Stopping\<rparr>))"
    by (rule mgr_reachable.stepped [OF 2 mgr_step.sync]) (simp_all add: main_up_def on_shared_def starting_mgr_state)
  show ?thesis unfolding half_stopped_mgr_def
    by (rule mgr_reachable.stepped [OF 3 mgr_step.reply]) (simp_all add: starting_mgr_def mgr_create_def mgr_ops)
qed

lemma stranded_mgr_state:
  "mn_thread stranded_mgr = Asleep" "mn_sync stranded_mgr = SyncIdle" "mgr_status stranded_mgr = MPaused"
  "mgr_on_stop stranded_mgr = Sleep" "\<not> ms_on_stop_changed (mn_shared stranded_mgr)" "mn_main stranded_mgr = Some (BackingUp None [])"
  using half_stopped_mgr_state by (simp_all add: stranded_mgr_def mgr_ops)

lemma stranded_mgr_reachable: "mgr_reachable stranded_mgr"
proof -
  let ?b = "sync_begin ''3'' (half_stopped_mgr\<lparr>mn_main := Some (BackingUp None [])\<rparr>)"
  have 1: "mgr_reachable (half_stopped_mgr\<lparr>mn_main := Some (BackingUp None [])\<rparr>)"
    by (rule mgr_reachable.stepped [OF half_stopped_mgr_reachable mgr_step.recorded]) (simp add: half_stopped_mgr_state)
  have 2: "mgr_reachable ?b"
    by (rule mgr_reachable.stepped [OF 1 mgr_step.sync]) (simp_all add: half_stopped_mgr_state)
  have 3: "mgr_reachable (main_end RunOk ?b)"
    by (rule mgr_reachable.stepped [OF 2 mgr_step.ended]) (simp add: half_stopped_mgr_state sync_begin_def)
  have 4: "mgr_reachable (thread_top (main_end RunOk ?b))"
    by (rule mgr_reachable.stepped [OF 3 mgr_step.top]) (simp add: main_end_def on_shared_def)
  show ?thesis unfolding stranded_mgr_def
    by (rule mgr_reachable.stepped [OF 4 mgr_step.reply]) (use half_stopped_mgr_state in \<open>simp_all add: mgr_ops\<close>)
qed

theorem manager_converges_witness:
  "mgr_settled (Starting False) (fold mgr_round [''1'', ''2'', ''3'', ''4''] (mgr_create False (Some (Starting False)))) \<and>
   \<not> mgr_settled (BackingUp None []) (fold mgr_round [''4'', ''5'', ''6'', ''7''] stranded_mgr)"
proof
  show "mgr_settled (Starting False) (fold mgr_round [''1'', ''2'', ''3'', ''4''] (mgr_create False (Some (Starting False))))"
    using manager_converges [OF mgr_reachable.created, of False "Some (Starting False)" "Starting False" "[''1'', ''2'', ''3'', ''4'']"]
    by (simp add: mgr_create_def awake_def)
  show "\<not> mgr_settled (BackingUp None []) (fold mgr_round [''4'', ''5'', ''6'', ''7''] stranded_mgr)"
    using manager_converges [OF stranded_mgr_reachable stranded_mgr_state(2,6), of "[''4'', ''5'', ''6'', ''7'']"]
    by (simp add: stranded_mgr_state awake_def)
qed

theorem running_recorded_before_start_witness:
  "mn_main (sync_begin ''2'' starting_mgr) = Some (Running ''2'' [])"
  using running_recorded_before_start [OF starting_mgr_reachable, of False "''2''"] by (simp add: starting_mgr_state)

theorem stop_kills_early_witness: "ms_killed (mn_shared (stop_end (main_up stopping_mgr)))"
proof -
  have "mn_thread stopping_mgr = StartingUp" "mn_sync stopping_mgr = StopWaiting"
    by (simp_all add: stopping_mgr_def starting_mgr_state sync_begin_def stop_begin_def modify_on_stop_def mgr_send_signal_def on_shared_def
      docker_reply_def Let_def)
  then show ?thesis using stop_kills_early [OF stopping_mgr_reachable] by blast
qed

end
