(* ===== verification/Net_Registry.thy ===== *)
theory Net_Registry
  imports Prelude "HOL-Library.Multiset"
begin

text \<open>
  Reference-counted registrations. The controllers of \<^verbatim>\<open>net\<close> hand out an \<^verbatim>\<open>Arc<()>\<close> for every binding
  and keep a \<^verbatim>\<open>Weak<()>\<close> to it: a binding is in force as long as somebody holds its \<^verbatim>\<open>Arc\<close>. This theory has the
  cells behind the two kinds of pointers and, as a locale, what a controller promises about its registrations, with
  the accounting that its clients rest on.
\<close>

section \<open>Cells\<close>

text \<open>A cell with the number of strong references to it. Cells are numbered in the order of their allocation.\<close>

record cells =
  cl_next :: nat
  cl_count :: "nat \<Rightarrow> nat"

definition no_cells :: cells where
  "no_cells = \<lparr>cl_next = 0, cl_count = \<lambda>_. 0\<rparr>"

definition alive :: "cells \<Rightarrow> nat \<Rightarrow> bool" where
  "alive c w \<longleftrightarrow> 0 < cl_count c w"

definition arc_new :: "cells \<Rightarrow> nat \<times> cells" where
  "arc_new c = (cl_next c, c\<lparr>cl_next := Suc (cl_next c), cl_count := (cl_count c)(cl_next c := 1)\<rparr>)"

definition arc_drop :: "nat \<Rightarrow> cells \<Rightarrow> cells" where
  "arc_drop w c = c\<lparr>cl_count := (cl_count c)(w := cl_count c w - 1)\<rparr>"

text \<open>\<open>Weak::upgrade\<close> of a pointer that may be absent, and a new cell when there is nothing to upgrade to.\<close>

definition acquire :: "nat option \<Rightarrow> cells \<Rightarrow> nat \<times> cells" where
  "acquire w c =
     (case w of
        Some w \<Rightarrow> if alive c w then (w, c\<lparr>cl_count := (cl_count c)(w := Suc (cl_count c w))\<rparr>) else arc_new c
      | None \<Rightarrow> arc_new c)"

section \<open>Registries\<close>

locale weak_registry =
  fixes entry :: "'m \<Rightarrow> 'k \<Rightarrow> nat option"
    and add :: "'k \<Rightarrow> 'm \<times> cells \<Rightarrow> nat \<times> 'm \<times> cells"
    and gc :: "'k \<Rightarrow> 'm \<times> cells \<Rightarrow> 'm \<times> cells"
    and ok :: "'m \<Rightarrow> bool"
  assumes add_law: "ok m \<Longrightarrow> add k (m, c) = (w, n, d) \<Longrightarrow>
      (w, d) = acquire (entry m k) c \<and> entry n = (entry m)(k \<mapsto> w) \<and> ok n"
    and gc_law: "ok m \<Longrightarrow> gc k (m, c) = (n, d) \<Longrightarrow> d = c \<and> ok n"
    and gc_keeps: "ok m \<Longrightarrow> gc k (m, c) = (n, d) \<Longrightarrow> entry m l = Some w \<Longrightarrow> alive c w \<Longrightarrow> entry n l = Some w"
    and gc_adds_nothing: "ok m \<Longrightarrow> gc k (m, c) = (n, d) \<Longrightarrow> entry n l = Some w \<Longrightarrow> entry m l = Some w"
    and gc_sweeps: "ok m \<Longrightarrow> gc k (m, c) = (n, d) \<Longrightarrow> entry n k = Some w \<Longrightarrow> alive c w"
begin

text \<open>How many hold a binding. Two bindings never share a cell, and cells that were not allocated are free.\<close>

definition holders :: "'m \<times> cells \<Rightarrow> 'k \<Rightarrow> nat" where
  "holders r k = (case entry (fst r) k of Some w \<Rightarrow> cl_count (snd r) w | None \<Rightarrow> 0)"

definition inv :: "'m \<times> cells \<Rightarrow> bool" where
  "inv r \<longleftrightarrow> ok (fst r) \<and> (\<forall>k w. entry (fst r) k = Some w \<longrightarrow> w < cl_next (snd r)) \<and>
     (\<forall>k l w. entry (fst r) k = Some w \<longrightarrow> entry (fst r) l = Some w \<longrightarrow> k = l) \<and>
     (\<forall>w. cl_next (snd r) \<le> w \<longrightarrow> cl_count (snd r) w = 0)"

text \<open>The references in \<open>W\<close> are on top of a base of other holders.\<close>

definition owned :: "('k \<Rightarrow> nat) \<Rightarrow> 'm \<times> cells \<Rightarrow> nat multiset \<Rightarrow> bool" where
  "owned base r W \<longleftrightarrow> inv r \<and> (\<forall>w \<in># W. \<exists>k. entry (fst r) k = Some w) \<and>
     (\<forall>k. holders r k = base k + (case entry (fst r) k of Some w \<Rightarrow> count W w | None \<Rightarrow> 0))"

lemma owned_start: "inv r \<Longrightarrow> owned (holders r) r {#}"
  by (auto simp: owned_def split: option.splits)

lemma owned_end: "owned base r {#} \<Longrightarrow> inv r \<and> holders r = base"
  by (auto simp: owned_def fun_eq_iff split: option.splits)

lemma owned_alive: "owned base r W \<Longrightarrow> w \<in># W \<Longrightarrow> alive (snd r) w"
proof -
  assume o: "owned base r W" and w: "w \<in># W"
  then obtain k where k: "entry (fst r) k = Some w" by (auto simp: owned_def)
  have "holders r k = base k + count W w" using o k by (simp add: owned_def)
  then show ?thesis using k w by (simp add: holders_def alive_def)
qed

lemma owned_holders: "owned base r W \<Longrightarrow> holders r k = base k + (case entry (fst r) k of Some w \<Rightarrow> count W w | None \<Rightarrow> 0)"
  by (simp add: owned_def)

text \<open>Adding gives another reference to the cell of a binding in force, and a new cell otherwise.\<close>

lemma add_cases:
  assumes "inv r" and "add k r = (w, r')"
  obtains (renewed) "entry (fst r) k = Some w" "alive (snd r) w" "entry (fst r') = entry (fst r)"
      "snd r' = (snd r)\<lparr>cl_count := (cl_count (snd r))(w := Suc (cl_count (snd r) w))\<rparr>" "ok (fst r')"
    | (fresh) "holders r k = 0" "w = cl_next (snd r)" "entry (fst r') = (entry (fst r))(k \<mapsto> w)"
      "snd r' = (snd r)\<lparr>cl_next := Suc w, cl_count := (cl_count (snd r))(w := 1)\<rparr>" "ok (fst r')"
proof -
  obtain m c n d where r: "r = (m, c)" and r': "r' = (n, d)" by (cases r, cases r')
  have l: "(w, d) = acquire (entry m k) c" "entry n = (entry m)(k \<mapsto> w)" "ok n"
    using add_law [of m k c w n d] assms by (simp_all add: inv_def r r')
  show thesis
  proof (cases "\<exists>v. entry m k = Some v \<and> alive c v")
    case True
    then obtain v where v: "entry m k = Some v" "alive c v" by blast
    with l(1) have "w = v" "d = c\<lparr>cl_count := (cl_count c)(v := Suc (cl_count c v))\<rparr>" by (simp_all add: acquire_def)
    then show thesis using v l(2,3) by (intro renewed) (auto simp: r r')
  next
    case False
    with l(1) have "w = cl_next c" "d = c\<lparr>cl_next := Suc w, cl_count := (cl_count c)(w := 1)\<rparr>"
      by (auto simp: acquire_def arc_new_def split: option.splits if_splits)
    then show thesis
      using False l(2,3) by (intro fresh) (auto simp: r r' holders_def alive_def split: option.splits)
  qed
qed

lemma holders_add:
  assumes i: "inv r" and "add k r = (w, r')"
  shows "inv r'" and "holders r' = (holders r)(k := Suc (holders r k))" and "entry (fst r') = (entry (fst r))(k \<mapsto> w)"
proof -
  have bound: "\<And>l v. entry (fst r) l = Some v \<Longrightarrow> v < cl_next (snd r)" using i by (simp add: inv_def)
  have inj: "\<And>l v. entry (fst r) k = Some v \<Longrightarrow> entry (fst r) l = Some v \<Longrightarrow> l = k" using i by (auto simp: inv_def)
  have "inv r' \<and> holders r' = (holders r)(k := Suc (holders r k)) \<and> entry (fst r') = (entry (fst r))(k \<mapsto> w)"
    using assms
  proof (cases rule: add_cases)
    case renewed
    have "holders r' l = ((holders r)(k := Suc (holders r k))) l" for l
    proof (cases "l = k")
      case False
      then have "entry (fst r) l \<noteq> Some w" using inj renewed(1) by blast
      with False show ?thesis by (auto simp: holders_def renewed(3) renewed(4) split: option.splits)
    qed (simp add: holders_def renewed(1) renewed(3) renewed(4))
    moreover have "w < cl_next (snd r)" using bound [OF renewed(1)] .
    then have "inv r'" using i unfolding inv_def renewed(3) unfolding renewed(4) using renewed(5) by simp
    ultimately show ?thesis using renewed by (auto simp: fun_eq_iff)
  next
    case fresh
    have "holders r' l = ((holders r)(k := Suc (holders r k))) l" for l
      using fresh(1,2) bound [of l] by (auto simp: holders_def fresh(3) fresh(4) split: option.splits)
    moreover have "inv r'"
      unfolding inv_def fresh(3,4) using fresh(2,5) i bound by (auto simp: inv_def less_SucI dest: bound)
    ultimately show ?thesis using fresh by (auto simp: fun_eq_iff)
  qed
  then show "inv r'" and "holders r' = (holders r)(k := Suc (holders r k))" and "entry (fst r') = (entry (fst r))(k \<mapsto> w)"
    by blast+
qed

lemma owned_add:
  assumes o: "owned base r W" and a: "add k r = (w, r')"
  shows "owned base r' (add_mset w W)"
proof -
  have i: "inv r" using o by (simp add: owned_def)
  note h = holders_add [OF i a]
  have W: "\<exists>l. entry (fst r) l = Some v \<and> alive (snd r) v" if "v \<in># W" for v
    using o that owned_alive [OF o that] by (auto simp: owned_def)
  show ?thesis
    using i a
  proof (cases rule: add_cases)
    case renewed
    have inj: "entry (fst r) l = Some w \<longleftrightarrow> l = k" for l using i renewed(1) by (auto simp: inv_def)
    have "holders r' l = base l + (case entry (fst r') l of Some v \<Rightarrow> count (add_mset w W) v | None \<Rightarrow> 0)" for l
      using owned_holders [OF o, of l] h(2) renewed(3) inj [of l] by (auto simp: renewed(1) split: option.splits)
    then show ?thesis using o h(1) renewed(1,3) by (auto simp: owned_def)
  next
    case fresh
    have new: "w \<notin># W" using W i fresh(2) by (auto simp: inv_def)
    have "\<exists>l. entry (fst r') l = Some v" if v: "v \<in># W" for v
    proof -
      obtain l where l: "entry (fst r) l = Some v" "alive (snd r) v" using W [OF v] by blast
      then have "l \<noteq> k" using fresh(1) by (auto simp: holders_def alive_def)
      then show ?thesis using l fresh(3) by auto
    qed
    moreover have "base k = 0" using owned_holders [OF o, of k] fresh(1) by simp
    moreover have "entry (fst r) l \<noteq> Some w" for l using i fresh(2) by (auto simp: inv_def)
    ultimately show ?thesis
      using o h fresh new count_inI [of W w] by (auto simp: owned_def fun_upd_def not_in_iff split: option.splits)
  qed
qed

lemma owned_drop:
  assumes o: "owned base r (add_mset w W)"
  shows "owned base (fst r, arc_drop w (snd r)) W"
proof -
  have i: "inv r" and "\<exists>k. entry (fst r) k = Some w" using o by (auto simp: owned_def)
  then obtain k where k: "entry (fst r) k = Some w" by blast
  have other: "entry (fst r) l \<noteq> Some w" if "l \<noteq> k" for l using i k that by (auto simp: inv_def)
  have "holders (fst r, arc_drop w (snd r)) l = base l + (case entry (fst r) l of Some v \<Rightarrow> count W v | None \<Rightarrow> 0)" for l
    using owned_holders [OF o, of l] k other [of l] by (cases "l = k") (auto simp: holders_def arc_drop_def split: option.splits)
  moreover have "inv (fst r, arc_drop w (snd r))" using i by (auto simp: inv_def arc_drop_def)
  ultimately show ?thesis using o by (auto simp: owned_def)
qed

lemma owned_gc:
  assumes o: "owned base r W" and g: "gc k r = r'"
  shows "owned base r' W"
proof -
  obtain m c n d where r: "r = (m, c)" and r': "r' = (n, d)" by (cases r, cases r')
  have i: "inv r" using o by (simp add: owned_def)
  then have ok: "ok m" by (simp add: inv_def r)
  have g': "gc k (m, c) = (n, d)" using g by (simp add: r r')
  note l = gc_law [OF ok g'] and keeps = gc_keeps [OF ok g'] and only_old = gc_adds_nothing [OF ok g']
  have hold: "holders r' l = holders r l" for l
  proof (cases "entry m l")
    case None
    then have "entry n l = None" by (cases "entry n l") (auto dest: only_old)
    with None show ?thesis by (simp add: holders_def r r')
  next
    case (Some v)
    show ?thesis
    proof (cases "alive c v")
      case True
      then show ?thesis using keeps [OF Some True] Some l by (simp add: holders_def r r')
    next
      case False
      then show ?thesis using Some l by (cases "entry n l") (auto simp: holders_def r r' alive_def dest: only_old)
    qed
  qed
  have "inv r'" using i l only_old by (auto simp: inv_def r r')
  moreover have "\<exists>l. entry (fst r') l = Some v" if "v \<in># W" for v
    using o that owned_alive [OF o that] keeps by (fastforce simp: owned_def r r')
  moreover have "(case entry n l of Some v \<Rightarrow> count W v | None \<Rightarrow> 0) = (case entry m l of Some v \<Rightarrow> count W v | None \<Rightarrow> 0)" for l
  proof (cases "entry m l")
    case None
    then have "entry n l = None" by (cases "entry n l") (auto dest: only_old)
    with None show ?thesis by simp
  next
    case (Some v)
    show ?thesis
    proof (cases "v \<in># W")
      case True
      then have "entry n l = Some v" using keeps [OF Some] owned_alive [OF o] by (simp add: r)
      with Some show ?thesis by simp
    next
      case False
      then show ?thesis using Some by (cases "entry n l") (auto simp: not_in_iff dest: only_old)
    qed
  qed
  ultimately show ?thesis using o hold by (simp add: owned_def r r')
qed

text \<open>A binding is in force while somebody holds it; sweeping changes nothing in force, and no swept binding is left dead.\<close>

lemma gc_tidies: "inv r \<Longrightarrow> entry (fst (gc k r)) k \<noteq> None \<Longrightarrow> 0 < holders (gc k r) k"
proof -
  assume i: "inv r" and e: "entry (fst (gc k r)) k \<noteq> None"
  obtain m c n d where r: "r = (m, c)" and g: "gc k r = (n, d)" by (cases r, cases "gc k r")
  have ok: "ok m" using i by (simp add: inv_def r)
  obtain w where w: "entry n k = Some w" using e g by auto
  show ?thesis
    using gc_sweeps [OF ok, of k c n d w] gc_law [OF ok, of k c n d] w g by (simp add: r holders_def alive_def)
qed

end

end
