(* ===== verification/Net_Controllers.thy ===== *)
theory Net_Controllers
  imports Net_Registry Config_Types "HOL-Library.Word" "HOL-Library.Option_ord"
begin

text \<open>
  The controllers of \<^verbatim>\<open>net\<close>: names of services (\<^verbatim>\<open>dns.rs\<close>), virtual hosts (\<^verbatim>\<open>vhost.rs\<close>), aliases on the local network
  (\<^verbatim>\<open>mdns.rs\<close>) and onion services (\<^verbatim>\<open>tor.rs\<close>), each a map of maps that ends in weak pointers, and that each keeps the
  contract of a registry.
\<close>

type_synonym ipv4 = "32 word"
type_synonym port = "16 word"
type_synonym socket_addr = "ipv4 \<times> port"

text \<open>\<open>Key\<close>: the interface, the base and the Tor key; the order of the fields is the derived order.\<close>

type_synonym net_key = "(package_id \<times> interface_id) option \<times> string \<times> string"

text \<open>
  \<open>TargetInfo\<close>: address, how to connect, key. \<open>None\<close> stands for SSL to the target, \<open>Some None\<close> for reflected protocols
  and \<open>Some (Some ps)\<close> for specified ones, in the derived order.
\<close>

type_synonym target_info = "socket_addr \<times> string list option option \<times> net_key"

section \<open>Maps of weak pointers\<close>

definition sub_get :: "('a, ('b, 'v) btmap) btmap \<Rightarrow> 'a \<Rightarrow> ('b, 'v) btmap" where
  "sub_get m k = (case bt_get m k of Some s \<Rightarrow> s | None \<Rightarrow> [])"

text \<open>Taking a map out, changing it and putting it back when something is left.\<close>

definition put_nonempty :: "'a::linorder \<Rightarrow> ('b, 'v) btmap \<Rightarrow> ('a, ('b, 'v) btmap) btmap \<Rightarrow> ('a, ('b, 'v) btmap) btmap" where
  "put_nonempty k s m = (if s \<noteq> [] then bt_insert k s (bt_remove k m) else bt_remove k m)"

definition sweep :: "cells \<Rightarrow> ('b, nat) btmap \<Rightarrow> ('b, nat) btmap" where
  "sweep c s = filter (\<lambda>e. alive c (snd e)) s"

definition nested_ok :: "('b \<Rightarrow> bool) \<Rightarrow> ('a::linorder, 'b) btmap \<Rightarrow> bool" where
  "nested_ok P m \<longleftrightarrow> bt_ok m \<and> (\<forall>e \<in> set m. P (snd e))"

lemma nested_ok_insert: "nested_ok P m \<Longrightarrow> P s \<Longrightarrow> nested_ok P (bt_insert k s m)"
proof -
  have "set (bt_insert k s m) \<subseteq> insert (k, s) (set m)"
    by (induction k s m rule: bt_insert.induct) auto
  then show "nested_ok P m \<Longrightarrow> P s \<Longrightarrow> nested_ok P (bt_insert k s m)"
    by (auto simp: nested_ok_def bt_ok_insert)
qed

lemma nested_ok_remove: "nested_ok P m \<Longrightarrow> nested_ok P (bt_remove k m)"
  using bt.ok_del [of m k] by (auto simp: nested_ok_def bt_remove_def)

lemma nested_ok_get: "nested_ok P m \<Longrightarrow> bt_get m k = Some s \<Longrightarrow> P s"
  by (fastforce simp: nested_ok_def dest: bt_get_SomeD)

lemma nested_ok_sub: "nested_ok P m \<Longrightarrow> P [] \<Longrightarrow> P (sub_get m k)"
  by (auto simp: sub_get_def nested_ok_get split: option.splits)

lemma bt_ok_sweep: "bt_ok s \<Longrightarrow> bt_ok (sweep c s)"
  by (simp add: sweep_def sorted_wrt_map sorted_wrt_filter)

lemma bt_get_sweep:
  assumes "bt_ok s"
  shows "bt_get (sweep c s) k = (case bt_get s k of Some w \<Rightarrow> if alive c w then Some w else None | None \<Rightarrow> None)"
  using bt_ok_distinct [OF assms]
proof (induction s)
  case (Cons e s)
  obtain k' v where e: "e = (k', v)" by (cases e)
  have "bt_get s k' = None" using Cons.prems by (simp add: e bt_get_None bt_keys_def)
  then show ?case using Cons by (auto simp: e sweep_def)
qed (simp add: sweep_def)

lemma sub_get_insert: "sub_get (bt_insert k s (bt_remove k m)) l = (if l = k then s else sub_get m l)"
  by (simp add: sub_get_def)

lemma sub_get_put: "sub_get (put_nonempty k s m) l = (if l = k then s else sub_get m l)"
  by (simp add: sub_get_def put_nonempty_def)

lemma nested_ok_put: "nested_ok P m \<Longrightarrow> P s \<Longrightarrow> nested_ok P (put_nonempty k s m)"
  by (simp add: put_nonempty_def nested_ok_insert nested_ok_remove)

section \<open>Names\<close>

type_synonym dns_services = "(package_id option, (ipv4, nat) btmap) btmap"

definition dns_entry :: "dns_services \<Rightarrow> package_id option \<times> ipv4 \<Rightarrow> nat option" where
  "dns_entry m k = bt_get (sub_get m (fst k)) (snd k)"

fun dns_add :: "package_id option \<times> ipv4 \<Rightarrow> dns_services \<times> cells \<Rightarrow> nat \<times> dns_services \<times> cells" where
  "dns_add (pkg, ip) (m, c) =
     (let ips = sub_get m pkg;
          (rc, c) = acquire (bt_get ips ip) c in
      (rc, bt_insert pkg (bt_insert ip rc (bt_remove ip ips)) (bt_remove pkg m), c))"

fun dns_gc :: "package_id option \<times> ipv4 \<Rightarrow> dns_services \<times> cells \<Rightarrow> dns_services \<times> cells" where
  "dns_gc (pkg, ip) (m, c) =
     (let ips = sub_get m pkg;
          ips' = (case bt_get ips ip of
            Some w \<Rightarrow> if alive c w then bt_insert ip w (bt_remove ip ips) else bt_remove ip ips
          | None \<Rightarrow> bt_remove ip ips) in
      (put_nonempty pkg ips' m, c))"

definition dns_ok :: "dns_services \<Rightarrow> bool" where
  "dns_ok = nested_ok bt_ok"

interpretation dns: weak_registry dns_entry dns_add dns_gc dns_ok
proof unfold_locales
  fix m n :: dns_services and k l :: "package_id option \<times> ipv4" and c d :: cells and w :: nat
  assume ok: "dns_ok m"
  obtain pkg ip where k: "k = (pkg, ip)" by (cases k)
  have sub: "bt_ok (sub_get m pkg)" using ok nested_ok_sub [of bt_ok m pkg] by (simp add: dns_ok_def)
  show "(w, d) = acquire (dns_entry m k) c \<and> dns_entry n = (dns_entry m)(k \<mapsto> w) \<and> dns_ok n" if "dns_add k (m, c) = (w, n, d)"
    using that ok sub
    by (auto simp: k dns_entry_def dns_ok_def sub_get_insert fun_eq_iff Let_def split: prod.splits
      intro!: nested_ok_insert nested_ok_remove bt_ok_insert bt.ok_del)
  assume g: "dns_gc k (m, c) = (n, d)"
  show "d = c \<and> dns_ok n"
    using g ok sub by (auto simp: k dns_ok_def Let_def intro!: nested_ok_put bt_ok_insert bt.ok_del split: option.splits if_splits)
  have e: "dns_entry n x = (if x = k then (case dns_entry m k of Some v \<Rightarrow> if alive c v then Some v else None | None \<Rightarrow> None) else dns_entry m x)" for x
    using g by (cases x) (auto simp: k dns_entry_def sub_get_put Let_def split: option.splits if_splits)
  show "dns_entry n l = Some w" if "dns_entry m l = Some w" "alive c w" using that e [of l] by auto
  show "dns_entry m l = Some w" if "dns_entry n l = Some w" using that e [of l] by (auto split: if_splits option.splits)
  show "alive c w" if "dns_entry n k = Some w" using that e [of k] by (auto split: if_splits option.splits)
qed

text \<open>\<open>Resolver::resolve\<close> over the labels of a name: only names that end in \<^verbatim>\<open>embassy\<close> are known.\<close>

definition dns_resolve :: "(string \<Rightarrow> package_id) \<Rightarrow> dns_services \<times> cells \<Rightarrow> string list \<Rightarrow> ipv4 list option" where
  "dns_resolve parse r labels =
     (case rev labels of
        [] \<Rightarrow> None
      | label # rest \<Rightarrow>
          if label = ''embassy'' then
            map_option (\<lambda>ips. map fst (sweep (snd r) ips))
              (bt_get (fst r) (case rest of pkg # _ \<Rightarrow> Some (parse pkg) | [] \<Rightarrow> None))
          else None)"

section \<open>Virtual hosts\<close>

text \<open>A server for every port: targets by the name of the host.\<close>

type_synonym vhost_server = "(string option, (target_info, nat) btmap) btmap"
type_synonym vhost_key = "port \<times> string option \<times> target_info"

definition vhost_entry :: "(port, vhost_server) btmap \<Rightarrow> vhost_key \<Rightarrow> nat option" where
  "vhost_entry m k = bt_get (sub_get (sub_get m (fst k)) (fst (snd k))) (snd (snd k))"

definition server_add :: "string option \<Rightarrow> target_info \<Rightarrow> vhost_server \<times> cells \<Rightarrow> nat \<times> vhost_server \<times> cells" where
  "server_add hostname target sc =
     (let targets = sub_get (fst sc) hostname;
          (rc, c) = acquire (bt_get targets target) (snd sc) in
      (rc, bt_insert hostname (bt_insert target rc (bt_remove target targets)) (bt_remove hostname (fst sc)), c))"

definition server_gc :: "string option \<Rightarrow> vhost_server \<times> cells \<Rightarrow> vhost_server" where
  "server_gc hostname sc = put_nonempty hostname (sweep (snd sc) (sub_get (fst sc) hostname)) (fst sc)"

fun vhost_add :: "vhost_key \<Rightarrow> (port, vhost_server) btmap \<times> cells \<Rightarrow> nat \<times> (port, vhost_server) btmap \<times> cells" where
  "vhost_add (external, hostname, target) (m, c) =
     (let (rc, server, c) = server_add hostname target (sub_get m external, c) in
      (rc, bt_insert external server (bt_remove external m), c))"

fun vhost_gc :: "vhost_key \<Rightarrow> (port, vhost_server) btmap \<times> cells \<Rightarrow> (port, vhost_server) btmap \<times> cells" where
  "vhost_gc (external, hostname, target) (m, c) =
     (case bt_get m external of
        None \<Rightarrow> (m, c)
      | Some server \<Rightarrow> (put_nonempty external (server_gc hostname (server, c)) m, c))"

definition vhost_ok :: "(port, vhost_server) btmap \<Rightarrow> bool" where
  "vhost_ok = nested_ok (nested_ok bt_ok)"

lemma nested_ok_Nil: "nested_ok P []"
  by (simp add: nested_ok_def)

interpretation vhost: weak_registry vhost_entry vhost_add vhost_gc vhost_ok
proof unfold_locales
  fix m n :: "(port, vhost_server) btmap" and k l :: vhost_key and c d :: cells and w :: nat
  assume ok: "vhost_ok m"
  obtain p h t where k: "k = (p, h, t)" by (cases k)
  have server: "nested_ok bt_ok (sub_get m p)" using ok nested_ok_sub [of "nested_ok bt_ok" m p] by (simp add: vhost_ok_def nested_ok_Nil)
  have sub: "bt_ok (sub_get (sub_get m p) h)" using server nested_ok_sub [of bt_ok "sub_get m p" h] by simp
  show "(w, d) = acquire (vhost_entry m k) c \<and> vhost_entry n = (vhost_entry m)(k \<mapsto> w) \<and> vhost_ok n" if "vhost_add k (m, c) = (w, n, d)"
    using that ok server sub
    by (auto simp: k vhost_entry_def vhost_ok_def server_add_def sub_get_insert fun_eq_iff Let_def split: prod.splits
      intro!: nested_ok_insert nested_ok_remove bt_ok_insert bt.ok_del)
  assume g: "vhost_gc k (m, c) = (n, d)"
  show "d = c \<and> vhost_ok n"
    using g ok nested_ok_get [of "nested_ok bt_ok" m p] nested_ok_sub [of bt_ok _ h]
    by (auto simp: k vhost_ok_def server_gc_def intro!: nested_ok_put bt_ok_sweep split: option.splits)
  have e: "vhost_entry n x =
      (if fst x = p \<and> fst (snd x) = h
       then (case vhost_entry m x of Some v \<Rightarrow> if alive c v then Some v else None | None \<Rightarrow> None) else vhost_entry m x)" for x
  proof (cases "bt_get m p")
    case None
    then have "sub_get m p = []" by (simp add: sub_get_def)
    then show ?thesis using g None by (auto simp: k vhost_entry_def sub_get_def)
  next
    case (Some server)
    then have "sub_get m p = server" by (simp add: sub_get_def)
    then show ?thesis using g Some sub by (auto simp: k vhost_entry_def server_gc_def sub_get_put bt_get_sweep)
  qed
  show "vhost_entry n l = Some w" if "vhost_entry m l = Some w" "alive c w" using that e [of l] by auto
  show "vhost_entry m l = Some w" if "vhost_entry n l = Some w" using that e [of l] by (auto split: if_splits option.splits)
  show "alive c w" if "vhost_entry n k = Some w" using that e [of k] by (auto simp: k split: if_splits option.splits)
qed

text \<open>
  Where a connection goes: to the first target in force under the name the client asked for, and for an address or no
  name also to those that are registered without a name.
\<close>

definition vhost_find :: "(string \<Rightarrow> bool) \<Rightarrow> vhost_server \<times> cells \<Rightarrow> string option \<Rightarrow> target_info option" where
  "vhost_find is_ip sc name =
     (case sweep (snd sc) (sub_get (fst sc) name) of
        (t, _) # _ \<Rightarrow> Some t
      | [] \<Rightarrow>
          if (case name of Some n \<Rightarrow> is_ip n | None \<Rightarrow> True)
          then (case sweep (snd sc) (sub_get (fst sc) None) of (t, _) # _ \<Rightarrow> Some t | [] \<Rightarrow> None)
          else None)"

section \<open>Aliases\<close>

type_synonym mdns_services = "(string, nat) btmap"

fun mdns_add :: "string \<Rightarrow> mdns_services \<times> cells \<Rightarrow> nat \<times> mdns_services \<times> cells" where
  "mdns_add alias (m, c) =
     (let (rc, c) = acquire (bt_get m alias) c in (rc, bt_insert alias rc (bt_remove alias m), c))"

fun mdns_gc :: "string \<Rightarrow> mdns_services \<times> cells \<Rightarrow> mdns_services \<times> cells" where
  "mdns_gc alias (m, c) =
     ((case bt_get m alias of
         Some w \<Rightarrow> if alive c w then bt_insert alias w (bt_remove alias m) else bt_remove alias m
       | None \<Rightarrow> bt_remove alias m), c)"

text \<open>\<open>sync\<close>: the aliases that are announced.\<close>

definition mdns_aliases :: "mdns_services \<times> cells \<Rightarrow> string list" where
  "mdns_aliases r = map fst (sweep (snd r) (fst r))"

interpretation mdns: weak_registry bt_get mdns_add mdns_gc bt_ok
proof unfold_locales
  fix m n :: mdns_services and k l :: string and c d :: cells and w :: nat
  assume ok: "bt_ok m"
  show "(w, d) = acquire (bt_get m k) c \<and> bt_get n = (bt_get m)(k \<mapsto> w) \<and> bt_ok n" if "mdns_add k (m, c) = (w, n, d)"
    using that ok by (auto simp: fun_eq_iff split: prod.splits intro!: bt_ok_insert bt.ok_del)
  assume g: "mdns_gc k (m, c) = (n, d)"
  show "d = c \<and> bt_ok n" using g ok by (auto intro!: bt_ok_insert bt.ok_del split: option.splits)
  have e: "bt_get n x = (if x = k then (case bt_get m k of Some v \<Rightarrow> if alive c v then Some v else None | None \<Rightarrow> None) else bt_get m x)" for x
    using g by (auto split: option.splits if_splits)
  show "bt_get n l = Some w" if "bt_get m l = Some w" "alive c w" using that e [of l] by auto
  show "bt_get m l = Some w" if "bt_get n l = Some w" using that e [of l] by (auto split: if_splits option.splits)
  show "alive c w" if "bt_get n k = Some w" using that e [of k] by (auto split: if_splits option.splits)
qed

section \<open>Onion services\<close>

text \<open>By key, by port, by target. What is published is the first target in force of every port.\<close>

type_synonym tor_service = "(port, (socket_addr, nat) btmap) btmap"
type_synonym tor_services = "(string, tor_service) btmap"
type_synonym tor_index = "string \<times> port \<times> socket_addr"

definition tor_entry :: "tor_services \<Rightarrow> tor_index \<Rightarrow> nat option" where
  "tor_entry m k = bt_get (sub_get (sub_get m (fst k)) (fst (snd k))) (snd (snd k))"

definition tor_bindings :: "cells \<Rightarrow> tor_service \<Rightarrow> (port \<times> socket_addr) list" where
  "tor_bindings c service =
     concat (map (\<lambda>(ext, int). case sweep c int of (addr, _) # _ \<Rightarrow> [(ext, addr)] | [] \<Rightarrow> []) service)"

fun tor_add :: "tor_index \<Rightarrow> tor_services \<times> cells \<Rightarrow> nat \<times> tor_services \<times> cells" where
  "tor_add (key, external, target) (m, c) =
     (let service = sub_get m key;
          binding = sub_get service external;
          (rc, c) = acquire (bt_get binding target) c in
      (rc, bt_insert key (bt_insert external (bt_insert target rc (bt_remove target binding)) (bt_remove external service))
         (bt_remove key m), c))"

definition tor_gc_service :: "cells \<Rightarrow> port \<Rightarrow> tor_service \<Rightarrow> tor_service" where
  "tor_gc_service c external service =
     (case bt_get service external of
        None \<Rightarrow> service
      | Some binding \<Rightarrow> put_nonempty external (sweep c binding) service)"

fun tor_gc :: "tor_index \<Rightarrow> tor_services \<times> cells \<Rightarrow> tor_services \<times> cells" where
  "tor_gc (key, external, target) (m, c) =
     (case bt_get m key of
        None \<Rightarrow> (m, c)
      | Some service \<Rightarrow>
          let service = tor_gc_service c external service in
          if tor_bindings c service \<noteq> [] then (bt_insert key service (bt_remove key m), c) else (bt_remove key m, c))"

definition tor_ok :: "tor_services \<Rightarrow> bool" where
  "tor_ok = nested_ok (nested_ok bt_ok)"

lemma tor_bindings_alive:
  assumes "bt_get service p = Some b" and "bt_get b t = Some w" and "alive c w"
  shows "tor_bindings c service \<noteq> []"
proof -
  have "(p, b) \<in> set service" "(t, w) \<in> set (sweep c b)"
    using assms by (auto simp: sweep_def dest: bt_get_SomeD)
  then show ?thesis by (fastforce simp: tor_bindings_def split: list.splits)
qed

lemma tor_gc_service_ok: "nested_ok bt_ok s \<Longrightarrow> nested_ok bt_ok (tor_gc_service c p s)"
  using nested_ok_get [of bt_ok s p]
  by (auto simp: tor_gc_service_def intro!: nested_ok_put bt_ok_sweep split: option.splits)

lemma sub_get_gc_service:
  assumes "nested_ok bt_ok s"
  shows "bt_get (sub_get (tor_gc_service c p s) q) t =
    (if q = p then (case bt_get (sub_get s q) t of Some v \<Rightarrow> if alive c v then Some v else None | None \<Rightarrow> None)
     else bt_get (sub_get s q) t)"
  using assms nested_ok_get [of bt_ok s p]
  by (auto simp: tor_gc_service_def sub_get_put bt_get_sweep sub_get_def [of s] split: option.splits)

interpretation tor: weak_registry tor_entry tor_add tor_gc tor_ok
proof unfold_locales
  fix m n :: tor_services and k l :: tor_index and c d :: cells and w :: nat
  assume ok: "tor_ok m"
  obtain key p t where k: "k = (key, p, t)" by (cases k)
  have service: "nested_ok bt_ok (sub_get m key)" using ok nested_ok_sub [of "nested_ok bt_ok" m key] by (simp add: tor_ok_def nested_ok_Nil)
  have sub: "bt_ok (sub_get (sub_get m key) p)" using service nested_ok_sub [of bt_ok "sub_get m key" p] by simp
  show "(w, d) = acquire (tor_entry m k) c \<and> tor_entry n = (tor_entry m)(k \<mapsto> w) \<and> tor_ok n" if "tor_add k (m, c) = (w, n, d)"
    using that ok service sub
    by (auto simp: k tor_entry_def tor_ok_def sub_get_insert fun_eq_iff Let_def split: prod.splits
      intro!: nested_ok_insert nested_ok_remove bt_ok_insert bt.ok_del)
  assume g: "tor_gc k (m, c) = (n, d)"
  let ?s = "tor_gc_service c p (sub_get m key)"
  have ok': "nested_ok bt_ok ?s" using service by (rule tor_gc_service_ok)
  show "d = c \<and> tor_ok n"
    using g ok ok' by (auto simp: k tor_ok_def sub_get_def Let_def intro!: nested_ok_insert nested_ok_remove split: option.splits if_splits)
  have e: "tor_entry n x = tor_entry m x" if "fst x \<noteq> key" for x
    using g that by (auto simp: k tor_entry_def sub_get_def Let_def split: option.splits if_splits)
  have f: "tor_entry n (key, q, a) = (if tor_bindings c ?s = [] then None else bt_get (sub_get ?s q) a)" for q a
    using g by (auto simp: k tor_entry_def sub_get_def tor_gc_service_def tor_bindings_def Let_def split: option.splits if_splits)
  have dead: "\<not> alive c v" if "tor_bindings c ?s = []" "bt_get (sub_get ?s q) a = Some v" for q a v
    using that tor_bindings_alive [of ?s q "sub_get ?s q" a v c] by (auto simp: sub_get_def split: option.splits)
  note old = sub_get_gc_service [OF service, of c p]
  show "tor_entry n l = Some w" if l: "tor_entry m l = Some w" "alive c w"
  proof (cases "fst l = key")
    case True
    obtain q a where q: "l = (key, q, a)" using True by (cases l) auto
    have "bt_get (sub_get ?s q) a = Some w" using l by (auto simp: old q tor_entry_def)
    then show ?thesis using dead [of q a w] l(2) by (auto simp: q f)
  qed (use l e in simp)
  show "tor_entry m l = Some w" if l: "tor_entry n l = Some w"
  proof (cases "fst l = key")
    case True
    obtain q a where q: "l = (key, q, a)" using True by (cases l) auto
    have "bt_get (sub_get ?s q) a = Some w" using l by (simp add: q f split: if_splits)
    then show ?thesis by (simp add: q old tor_entry_def split: if_splits option.splits)
  qed (use l e in simp)
  show "alive c w" if "tor_entry n k = Some w"
    using that by (auto simp: k f old split: if_splits option.splits)
qed

text \<open>
  After a restart of Tor the onion services are published anew, from a map that is taken out of its place: an error
  leaves the loop.
\<close>

fun tor_restore :: "(string \<Rightarrow> (port \<times> socket_addr) list \<Rightarrow> bool) \<Rightarrow> cells \<Rightarrow> tor_services \<Rightarrow> tor_services \<Rightarrow>
    (error, unit) res \<times> tor_services" where
  "tor_restore publish c [] kept = (Ok (), kept)"
| "tor_restore publish c ((key, service) # rest) kept =
     (let bindings = tor_bindings c service in
      if bindings = [] then tor_restore publish c rest kept
      else if publish key bindings then tor_restore publish c rest (bt_insert key service kept)
      else (Err (Error Tor (Msg ''ADD_ONION failed'')), bt_insert key service kept))"

lemma tor_restore_kept:
  "bt_get (snd (tor_restore publish c xs kept)) k = Some s \<Longrightarrow> bt_get kept k = Some s \<or> (k, s) \<in> set xs"
  by (induction publish c xs kept rule: tor_restore.induct) (auto simp: Let_def split: if_splits)

lemma tor_restore_append:
  assumes "fst (tor_restore publish c xs kept) = Ok ()"
  shows "tor_restore publish c (xs @ ys) kept = tor_restore publish c ys (snd (tor_restore publish c xs kept))"
  using assms by (induction publish c xs kept rule: tor_restore.induct) (auto simp: Let_def)

text \<open>
  Onion services are lost when Tor restarts: when one of them cannot be published, all services behind it in the
  order of the keys are gone from the map, although their bindings are in force.
\<close>

theorem tor_restart_forgets:
  assumes ok: "tor_ok (before @ (key, service) # behind)" and "fst (tor_restore publish c before []) = Ok ()"
    and "tor_bindings c service \<noteq> []" and "\<not> publish key (tor_bindings c service)"
    and lost: "(k, s) \<in> set behind"
  shows "fst (tor_restore publish c (before @ (key, service) # behind) []) \<noteq> Ok () \<and>
    bt_get (snd (tor_restore publish c (before @ (key, service) # behind) [])) k = None"
proof -
  let ?kept = "snd (tor_restore publish c before [])"
  have run: "tor_restore publish c (before @ (key, service) # behind) [] =
      (Err (Error Tor (Msg ''ADD_ONION failed'')), bt_insert key service ?kept)"
    using assms(2,3,4) by (simp add: tor_restore_append Let_def)
  have "distinct (map fst (before @ (key, service) # behind))" 
    using ok unfolding tor_ok_def nested_ok_def by (intro bt_ok_distinct) simp
  moreover have "k \<in> fst ` set behind" using lost by (metis fst_conv image_eqI)
  ultimately have new: "k \<noteq> key" "k \<notin> fst ` set before" by auto
  have "bt_get ?kept k = None"
  proof (cases "bt_get ?kept k")
    case (Some s')
    then have "(k, s') \<in> set before" using tor_restore_kept [of publish c before "[]" k s'] by simp
    then show ?thesis using new(2) by (metis fst_conv image_eqI)
  qed
  then show ?thesis using run new(1) by simp
qed

theorem tor_restart_forgets_witness:
  "bt_get (snd (tor_restore (\<lambda>k _. k \<noteq> ''b'') \<lparr>cl_next = 3, cl_count = \<lambda>_. 1\<rparr>
     [(''a'', [(80, [((1, 80), 0)])]), (''b'', [(80, [((1, 81), 1)])]), (''c'', [(80, [((1, 82), 2)])])] [])) ''c'' = None"
proof -
  let ?c = "\<lparr>cl_next = 3, cl_count = \<lambda>_. 1 :: nat\<rparr>"
  have "tor_ok ([(''a'', [(80, [((1, 80), 0)])])] @ (''b'', [(80, [((1, 81), 1)])]) # [(''c'', [(80, [((1, 82), 2)])])])"
    by (simp add: tor_ok_def nested_ok_def less_list_code)
  from tor_restart_forgets [OF this, of "\<lambda>k _. k \<noteq> ''b''" ?c "''c''"] show ?thesis
    by (simp add: tor_bindings_def sweep_def alive_def)
qed

end
