(* ===== verification/Net_Service.thy ===== *)
theory Net_Service
  imports Net_Controllers Lifecycle
begin

text \<open>
  The network controller and the bindings of one service (\<^verbatim>\<open>net/net_controller.rs\<close>). A service holds references to the
  registrations it made; what it removes or loses is dropped and swept. The accounting of \<open>weak_registry\<close> shows that a
  service that is removed leaves no binding behind and takes none away from others.
\<close>

section \<open>The controller\<close>

text \<open>An \<^verbatim>\<open>Arc\<close> with the controller that it belongs to.\<close>

datatype rc = is_dns: DnsRc (rc_cell: nat) | is_vhost: VhostRc (rc_cell: nat) | is_mdns: MdnsRc (rc_cell: nat) | is_tor: TorRc (rc_cell: nat)

record net_controller =
  nc_dns :: "dns_services \<times> cells"
  nc_vhost :: "(port, vhost_server) btmap \<times> cells"
  nc_mdns :: "mdns_services \<times> cells"
  nc_tor :: "tor_services \<times> cells"

text \<open>
  The outside: whether a port can be bound, the process that announces aliases, whether the tasks behind the controllers
  and the controller itself are there, the address that belongs to a Tor key without and with its ending, the text of an error,
  and the key of an interface.
\<close>

record net_env =
  ne_bind :: "port \<Rightarrow> (string, unit) res"
  ne_avahi :: "string list \<Rightarrow> (string, unit) res"
  ne_dns_up :: bool
  ne_tor_up :: bool
  ne_tor_booted :: bool
  ne_controller_up :: bool
  ne_onion_address :: "string \<Rightarrow> string"
  ne_tor_address :: "string \<Rightarrow> string"
  ne_display :: "error \<Rightarrow> string"
  ne_key :: "package_id \<times> interface_id \<Rightarrow> (error, net_key) res"

type_synonym 'a net_act = "(net_controller, error, 'a) st"

fun net_drop :: "rc \<Rightarrow> net_controller \<Rightarrow> net_controller" where
  "net_drop (DnsRc w) n = n\<lparr>nc_dns := (fst (nc_dns n), arc_drop w (snd (nc_dns n)))\<rparr>"
| "net_drop (VhostRc w) n = n\<lparr>nc_vhost := (fst (nc_vhost n), arc_drop w (snd (nc_vhost n)))\<rparr>"
| "net_drop (MdnsRc w) n = n\<lparr>nc_mdns := (fst (nc_mdns n), arc_drop w (snd (nc_mdns n)))\<rparr>"
| "net_drop (TorRc w) n = n\<lparr>nc_tor := (fst (nc_tor n), arc_drop w (snd (nc_tor n)))\<rparr>"

definition drop_all :: "rc list \<Rightarrow> net_controller \<Rightarrow> net_controller" where
  "drop_all rcs n = fold net_drop rcs n"

definition base_address :: "net_env \<Rightarrow> net_key \<Rightarrow> string" where
  "base_address env key = ne_onion_address env (snd (snd key))"

definition local_address :: "net_env \<Rightarrow> net_key \<Rightarrow> string" where
  "local_address env key = base_address env key @ ''.local''"

definition net_error :: "string \<Rightarrow> error" where
  "net_error m = Error Network (Msg m)"

definition dns_register :: "net_env \<Rightarrow> package_id option \<times> ipv4 \<Rightarrow> rc net_act" where
  "dns_register env k n =
     (if ne_dns_up env then let (w, r) = dns_add k (nc_dns n) in (Ok (DnsRc w), n\<lparr>nc_dns := r\<rparr>)
      else (Err (net_error ''DNS Server Thread has exited''), n))"

definition dns_collect :: "net_env \<Rightarrow> package_id option \<times> ipv4 \<Rightarrow> unit net_act" where
  "dns_collect env k n =
     (if ne_dns_up env then (Ok (), n\<lparr>nc_dns := dns_gc k (nc_dns n)\<rparr>)
      else (Err (net_error ''DNS Server Thread has exited''), n))"

text \<open>
  The first host on a port binds it. The table of a server belongs to its thread, a loop without an exit that lasts as long as the server
  is in the map of servers: the errors for a thread that has exited are those of a pointer that cannot be upgraded, and it always can.
\<close>

definition vhost_register :: "net_env \<Rightarrow> net_key \<Rightarrow> string option \<Rightarrow> port \<Rightarrow> socket_addr \<Rightarrow> string list option option \<Rightarrow> rc net_act" where
  "vhost_register env key hostname external target connect_ssl n =
     (case (if bt_get (fst (nc_vhost n)) external = None then ne_bind env external else Ok ()) of
        Ok () \<Rightarrow>
          let (w, r) = vhost_add (external, hostname, (target, connect_ssl, key)) (nc_vhost n) in
          (Ok (VhostRc w), n\<lparr>nc_vhost := r\<rparr>)
      | Err e \<Rightarrow> (Err (net_error e), n)
      | Panic \<Rightarrow> (Panic, n)
      | Diverge \<Rightarrow> (Diverge, n))"

definition vhost_collect :: "string option \<Rightarrow> port \<Rightarrow> unit net_act" where
  "vhost_collect hostname external n =
     (Ok (), n\<lparr>nc_vhost := vhost_gc (external, hostname, ((0, 0), None, (None, '''', ''''))) (nc_vhost n)\<rparr>)"

text \<open>The aliases are announced anew after every change; the reference is lost when that fails.\<close>

definition mdns_register :: "net_env \<Rightarrow> string \<Rightarrow> rc net_act" where
  "mdns_register env alias n =
     (let (w, r) = mdns_add alias (nc_mdns n); n = n\<lparr>nc_mdns := r\<rparr> in
      case ne_avahi env (mdns_aliases r) of
        Ok () \<Rightarrow> (Ok (MdnsRc w), n)
      | Err e \<Rightarrow> (Err (net_error e), net_drop (MdnsRc w) n)
      | Panic \<Rightarrow> (Panic, net_drop (MdnsRc w) n)
      | Diverge \<Rightarrow> (Diverge, net_drop (MdnsRc w) n))"

definition mdns_collect :: "net_env \<Rightarrow> string \<Rightarrow> unit net_act" where
  "mdns_collect env alias n =
     (let r = mdns_gc alias (nc_mdns n) in
      (map_err net_error (ne_avahi env (mdns_aliases r)), n\<lparr>nc_mdns := r\<rparr>))"

definition tor_register :: "net_env \<Rightarrow> string \<Rightarrow> port \<Rightarrow> socket_addr \<Rightarrow> rc net_act" where
  "tor_register env key external target n =
     (if ne_tor_up env then let (w, r) = tor_add (key, external, target) (nc_tor n) in (Ok (TorRc w), n\<lparr>nc_tor := r\<rparr>)
      else (Err (Error Tor (Msg ''TorControl died'')), n))"

text \<open>A request to sweep that comes before Tor is ready is ignored.\<close>

definition tor_collect :: "net_env \<Rightarrow> string \<Rightarrow> port \<Rightarrow> unit net_act" where
  "tor_collect env key external n =
     (if ne_tor_up env then (Ok (), if ne_tor_booted env then n\<lparr>nc_tor := tor_gc (key, external, (0, 0)) (nc_tor n)\<rparr> else n)
      else (Err (Error Tor (Msg ''TorControl died'')), n))"

definition ctl_add_tor :: "net_env \<Rightarrow> net_key \<Rightarrow> port \<Rightarrow> socket_addr \<Rightarrow> rc list net_act" where
  "ctl_add_tor env key external target =
     st_bind (tor_register env (snd (snd key)) external target) (\<lambda>r. st_return [r])"

definition ctl_remove_tor :: "net_env \<Rightarrow> net_key \<Rightarrow> port \<Rightarrow> rc list \<Rightarrow> unit net_act" where
  "ctl_remove_tor env key external rcs =
     st_bind (st_modify (drop_all rcs)) (\<lambda>_. tor_collect env (snd (snd key)) external)"

text \<open>When the alias cannot be announced, the reference to the virtual host goes with the vector that held it.\<close>

definition ctl_add_lan :: "net_env \<Rightarrow> net_key \<Rightarrow> port \<Rightarrow> socket_addr \<Rightarrow> string list option option \<Rightarrow> rc list net_act" where
  "ctl_add_lan env key external target connect_ssl =
     st_bind (vhost_register env key (Some (local_address env key)) external target connect_ssl) (\<lambda>v n.
     case mdns_register env (base_address env key) n of
       (Ok m, n) \<Rightarrow> (Ok [v, m], n)
     | (Err e, n) \<Rightarrow> (Err e, net_drop v n)
     | (Panic, n) \<Rightarrow> (Panic, net_drop v n)
     | (Diverge, n) \<Rightarrow> (Diverge, net_drop v n))"

definition ctl_remove_lan :: "net_env \<Rightarrow> net_key \<Rightarrow> port \<Rightarrow> rc list \<Rightarrow> unit net_act" where
  "ctl_remove_lan env key external rcs =
     st_bind (st_modify (drop_all rcs)) (\<lambda>_.
     st_bind (mdns_collect env (base_address env key)) (\<lambda>_.
     vhost_collect (Some (local_address env key)) external))"

section \<open>Services\<close>

record net_service =
  sv_id :: package_id
  sv_ip :: ipv4
  sv_dns :: rc
  sv_tor :: "(interface_id \<times> port, net_key \<times> rc list) btmap"
  sv_lan :: "(interface_id \<times> port, net_key \<times> rc list) btmap"

record service_state =
  ss_net :: net_controller
  ss_svc :: net_service

type_synonym svc_act = "(service_state, error, unit) st"

definition create_service :: "net_env \<Rightarrow> package_id \<Rightarrow> ipv4 \<Rightarrow> net_service net_act" where
  "create_service env pkg ip =
     st_bind (dns_register env (Some pkg, ip)) (\<lambda>r.
     st_return \<lparr>sv_id = pkg, sv_ip = ip, sv_dns = r, sv_tor = [], sv_lan = []\<rparr>)"

text \<open>\<open>net_controller\<close>: the controller may be gone.\<close>

definition with_controller :: "net_env \<Rightarrow> svc_act \<Rightarrow> svc_act" where
  "with_controller env m s =
     (if ne_controller_up env then m s else (Err (net_error ''NetController is shutdown''), s))"

text \<open>
  Registering another time under the same index: the entry is taken out first, and is put back with the new references
  only when they were obtained. An error drops the references it had.
\<close>

definition add_binding :: "(interface_id \<times> port, net_key \<times> rc list) btmap \<Rightarrow> interface_id \<times> port \<Rightarrow> net_key \<Rightarrow>
    rc list net_act \<Rightarrow> net_controller \<Rightarrow> (error, unit) res \<times> net_controller \<times> (interface_id \<times> port, net_key \<times> rc list) btmap" where
  "add_binding m idx key register n =
     (let (k, rcs) = (case bt_get m idx of Some e \<Rightarrow> e | None \<Rightarrow> (key, []));
          m = bt_remove idx m in
      case register n of
        (Ok new, n) \<Rightarrow> (Ok (), n, bt_insert idx (k, rcs @ new) m)
      | (Err e, n) \<Rightarrow> (Err e, drop_all rcs n, m)
      | (Panic, n) \<Rightarrow> (Panic, drop_all rcs n, m)
      | (Diverge, n) \<Rightarrow> (Diverge, drop_all rcs n, m))"

definition svc_add_tor :: "net_env \<Rightarrow> interface_id \<Rightarrow> port \<Rightarrow> port \<Rightarrow> svc_act" where
  "svc_add_tor env iid external internal s =
     st_bind (st_lift (ne_key env (sv_id (ss_svc s), iid))) (\<lambda>key.
     with_controller env (\<lambda>s.
       case add_binding (sv_tor (ss_svc s)) (iid, external) key (ctl_add_tor env key external (sv_ip (ss_svc s), internal)) (ss_net s) of
         (r, n, m) \<Rightarrow> (r, s\<lparr>ss_net := n, ss_svc := (ss_svc s)\<lparr>sv_tor := m\<rparr>\<rparr>))) s"

definition svc_add_lan :: "net_env \<Rightarrow> interface_id \<Rightarrow> port \<Rightarrow> port \<Rightarrow> string list option option \<Rightarrow> svc_act" where
  "svc_add_lan env iid external internal connect_ssl s =
     st_bind (st_lift (ne_key env (sv_id (ss_svc s), iid))) (\<lambda>key.
     with_controller env (\<lambda>s.
       case add_binding (sv_lan (ss_svc s)) (iid, external) key
           (ctl_add_lan env key external (sv_ip (ss_svc s), internal) connect_ssl) (ss_net s) of
         (r, n, m) \<Rightarrow> (r, s\<lparr>ss_net := n, ss_svc := (ss_svc s)\<lparr>sv_lan := m\<rparr>\<rparr>))) s"

definition svc_remove_tor :: "net_env \<Rightarrow> interface_id \<Rightarrow> port \<Rightarrow> svc_act" where
  "svc_remove_tor env iid external =
     with_controller env (\<lambda>s.
       case bt_get (sv_tor (ss_svc s)) (iid, external) of
         None \<Rightarrow> (Ok (), s)
       | Some (key, rcs) \<Rightarrow>
           let (r, n) = ctl_remove_tor env key external rcs (ss_net s) in
           (r, s\<lparr>ss_net := n, ss_svc := (ss_svc s)\<lparr>sv_tor := bt_remove (iid, external) (sv_tor (ss_svc s))\<rparr>\<rparr>))"

definition svc_remove_lan :: "net_env \<Rightarrow> interface_id \<Rightarrow> port \<Rightarrow> svc_act" where
  "svc_remove_lan env iid external =
     with_controller env (\<lambda>s.
       case bt_get (sv_lan (ss_svc s)) (iid, external) of
         None \<Rightarrow> (Ok (), s)
       | Some (key, rcs) \<Rightarrow>
           let (r, n) = ctl_remove_lan env key external rcs (ss_net s) in
           (r, s\<lparr>ss_net := n, ss_svc := (ss_svc s)\<lparr>sv_lan := bt_remove (iid, external) (sv_lan (ss_svc s))\<rparr>\<rparr>))"

text \<open>\<open>remove_all\<close> collects the errors and goes on; without a controller it does nothing and keeps its references.\<close>

definition collect_error :: "unit net_act \<Rightarrow> error list \<Rightarrow> error list net_act" where
  "collect_error m es n =
     (case m n of
        (Ok _, n) \<Rightarrow> (Ok es, n)
      | (Err e, n) \<Rightarrow> (Ok (es @ [e]), n)
      | (Panic, n) \<Rightarrow> (Panic, n)
      | (Diverge, n) \<Rightarrow> (Diverge, n))"

definition svc_rcs :: "net_service \<Rightarrow> rc list" where
  "svc_rcs svc = sv_dns svc # concat (map (snd \<circ> snd) (sv_lan svc)) @ concat (map (snd \<circ> snd) (sv_tor svc))"

definition remove_all :: "net_env \<Rightarrow> net_service \<Rightarrow> unit net_act" where
  "remove_all env svc =
     (if ne_controller_up env then
        st_bind (st_fold (\<lambda>((_, external), (key, rcs)). collect_error (ctl_remove_lan env key external rcs)) (sv_lan svc) []) (\<lambda>es.
        st_bind (st_fold (\<lambda>((_, external), (key, rcs)). collect_error (ctl_remove_tor env key external rcs)) (sv_tor svc) es) (\<lambda>es.
        st_bind (st_modify (net_drop (sv_dns svc))) (\<lambda>_.
        st_bind (collect_error (dns_collect env (Some (sv_id svc), sv_ip svc)) es) (\<lambda>es.
        st_lift (into_result (ne_display env) es)))))
      else st_lift (Err (net_error ''NetController is shutdown'')))"

text \<open>
  Dropping a service: a task removes it, unless its address was cleared, which \<open>remove_all\<close> does at its end. A service that could
  not be removed is dropped again at the end of the task. The value \<open>None\<close> stands for tasks without end.
\<close>

partial_function (option) drop_service :: "net_env \<Rightarrow> net_service \<Rightarrow> net_controller \<Rightarrow> net_controller option" where
  "drop_service env svc n =
     (if sv_ip svc = 0 then Some n
      else if ne_controller_up env then Some (snd (remove_all env svc n))
      else drop_service env svc n)"

section \<open>The bindings of the system\<close>

definition host_ip :: ipv4 where
  "host_ip = 0xAC120001"

definition localhost :: ipv4 where
  "localhost = 0x7F000001"

text \<open>The reference to the first virtual host is not kept: it is dropped where the statement ends.\<close>

definition add_os_bindings :: "net_env \<Rightarrow> string \<Rightarrow> net_key \<Rightarrow> rc list net_act" where
  "add_os_bindings env hostname key =
     (let alpn = Some (Some [''http/1.1'', ''h2'']);
          host = (\<lambda>name. vhost_register env key name 443 (localhost, 80) alpn) in
      st_bind (host (Some ''embassy'')) (\<lambda>unkept.
      st_bind (st_modify (net_drop unkept)) (\<lambda>_.
      st_bind (dns_register env (None, host_ip)) (\<lambda>r1.
      st_bind (host None) (\<lambda>r2.
      st_bind (host (Some ''localhost'')) (\<lambda>r3.
      st_bind (host (Some hostname)) (\<lambda>r4.
      st_bind (host (Some (hostname @ ''.local''))) (\<lambda>r5.
      st_bind (tor_register env (snd (snd key)) 80 (localhost, 80)) (\<lambda>r6.
      st_bind (host (Some (ne_tor_address env (snd (snd key))))) (\<lambda>r7.
      st_bind (tor_register env (snd (snd key)) 443 (localhost, 443)) (\<lambda>r8.
      st_return [r1, r2, r3, r4, r5, r6, r7, r8])))))))))))"

section \<open>Accounting\<close>

type_synonym holders = "(package_id option \<times> ipv4 \<Rightarrow> nat) \<times> (vhost_key \<Rightarrow> nat) \<times> (string \<Rightarrow> nat) \<times> (tor_index \<Rightarrow> nat)"

text \<open>How many references there are to every binding.\<close>

definition net_holders :: "net_controller \<Rightarrow> holders" where
  "net_holders n = (dns.holders (nc_dns n), vhost.holders (nc_vhost n), mdns.holders (nc_mdns n), tor.holders (nc_tor n))"

definition net_inv :: "net_controller \<Rightarrow> bool" where
  "net_inv n \<longleftrightarrow> dns.inv (nc_dns n) \<and> vhost.inv (nc_vhost n) \<and> mdns.inv (nc_mdns n) \<and> tor.inv (nc_tor n)"

definition part_of :: "(rc \<Rightarrow> bool) \<Rightarrow> rc multiset \<Rightarrow> nat multiset" where
  "part_of P M = image_mset rc_cell (filter_mset P M)"

text \<open>The references in \<open>M\<close> are on top of the holders in \<open>base\<close>.\<close>

definition net_owned :: "holders \<Rightarrow> net_controller \<Rightarrow> rc multiset \<Rightarrow> bool" where
  "net_owned base n M \<longleftrightarrow>
     dns.owned (fst base) (nc_dns n) (part_of is_dns M) \<and>
     vhost.owned (fst (snd base)) (nc_vhost n) (part_of is_vhost M) \<and>
     mdns.owned (fst (snd (snd base))) (nc_mdns n) (part_of is_mdns M) \<and>
     tor.owned (snd (snd (snd base))) (nc_tor n) (part_of is_tor M)"

lemma net_owned_start: "net_inv n \<Longrightarrow> net_owned (net_holders n) n {#}"
  by (simp add: net_owned_def net_inv_def net_holders_def part_of_def dns.owned_start vhost.owned_start mdns.owned_start tor.owned_start)

lemma net_owned_end: "net_owned base n {#} \<Longrightarrow> net_inv n \<and> net_holders n = base"
  by (cases base) (auto simp: net_owned_def net_inv_def net_holders_def part_of_def
    dest: dns.owned_end vhost.owned_end mdns.owned_end tor.owned_end)

lemma part_of_add [simp]: "part_of P (add_mset r M) = (if P r then add_mset (rc_cell r) (part_of P M) else part_of P M)"
  by (simp add: part_of_def)

lemma net_owned_drop: "net_owned base n (add_mset r M) \<Longrightarrow> net_owned base (net_drop r n) M"
  by (cases r) (auto simp: net_owned_def dest: dns.owned_drop vhost.owned_drop mdns.owned_drop tor.owned_drop)

lemma net_owned_drops: "net_owned base n (mset rcs + M) \<Longrightarrow> net_owned base (drop_all rcs n) M"
  unfolding drop_all_def by (induction rcs arbitrary: n) (auto dest: net_owned_drop)

text \<open>
  The contract of an operation: it keeps the accounts and hands out the references it returns; an error hands out none.
\<close>

definition gives :: "('a \<Rightarrow> rc list) \<Rightarrow> 'a net_act \<Rightarrow> bool" where
  "gives f m \<longleftrightarrow> (\<forall>base n M. net_owned base n M \<longrightarrow>
     (case m n of (r, n') \<Rightarrow> net_owned base n' ((case r of Ok a \<Rightarrow> mset (f a) | _ \<Rightarrow> {#}) + M)))"

abbreviation settles :: "'a net_act \<Rightarrow> bool" where
  "settles \<equiv> gives (\<lambda>_. [])"

lemma givesD: "gives f m \<Longrightarrow> net_owned base n M \<Longrightarrow> m n = (r, n') \<Longrightarrow> net_owned base n' ((case r of Ok a \<Rightarrow> mset (f a) | _ \<Rightarrow> {#}) + M)"
  unfolding gives_def by (metis (mono_tags, lifting) case_prod_conv)

lemma gives_dns: "gives (\<lambda>r. [r]) (dns_register env k)"
  by (auto simp: gives_def dns_register_def net_owned_def Let_def split: prod.splits intro: dns.owned_add)

lemma gives_dns_collect: "settles (dns_collect env k)"
  by (auto simp: gives_def dns_collect_def net_owned_def intro: dns.owned_gc)

lemma gives_vhost: "gives (\<lambda>r. [r]) (vhost_register env key h p t ssl)"
  by (auto simp: gives_def vhost_register_def net_owned_def Let_def split: prod.splits res.splits unit.splits intro: vhost.owned_add)

lemma gives_vhost_collect: "settles (vhost_collect h p)"
  by (auto simp: gives_def vhost_collect_def net_owned_def intro: vhost.owned_gc)

lemma gives_mdns: "gives (\<lambda>r. [r]) (mdns_register env a)"
proof -
  have add: "net_owned base (n\<lparr>nc_mdns := r\<rparr>) (add_mset (MdnsRc w) M)" if "net_owned base n M" "mdns_add a (nc_mdns n) = (w, r)" for base n M w r
    using that by (auto simp: net_owned_def intro: mdns.owned_add)
  show ?thesis
    unfolding gives_def mdns_register_def Let_def
    using add net_owned_drop [OF add]
    by (simp del: net_drop.simps split: prod.split res.split unit.split)
qed

lemma gives_mdns_collect: "settles (mdns_collect env a)"
  by (auto simp: gives_def mdns_collect_def net_owned_def Let_def split: res.splits intro: mdns.owned_gc)

lemma gives_tor: "gives (\<lambda>r. [r]) (tor_register env key p t)"
  by (auto simp: gives_def tor_register_def net_owned_def Let_def split: prod.splits intro: tor.owned_add)

lemma gives_tor_collect: "settles (tor_collect env key p)"
  by (auto simp: gives_def tor_collect_def net_owned_def intro: tor.owned_gc)

lemma givesI: "(\<And>base n M r n'. net_owned base n M \<Longrightarrow> m n = (r, n') \<Longrightarrow>
    net_owned base n' ((case r of Ok a \<Rightarrow> mset (f a) | _ \<Rightarrow> {#}) + M)) \<Longrightarrow> gives f m"
  unfolding gives_def by (simp split: prod.split)

lemma settles_bind:
  assumes "settles m" and "\<And>a. settles (f a)"
  shows "settles (st_bind m f)"
proof (rule givesI)
  fix base n M r n'
  assume o: "net_owned base n M" and run: "st_bind m f n = (r, n')"
  obtain r1 n1 where m: "m n = (r1, n1)" by (cases "m n")
  note o1 = givesD [OF assms(1) o m]
  show "net_owned base n' ((case r of Ok a \<Rightarrow> mset [] | _ \<Rightarrow> {#}) + M)"
  proof (cases r1)
    case (Ok a)
    then show ?thesis using givesD [OF assms(2) _, of base n1 M a r n'] o1 run m by simp
  qed (use o1 run m in auto)
qed

lemma gives_ctl_add_tor: "gives id (ctl_add_tor env key p t)"
proof (rule givesI)
  fix base n M r n'
  assume o: "net_owned base n M" and run: "ctl_add_tor env key p t n = (r, n')"
  let ?t = "tor_register env (snd (snd key)) p t"
  obtain r1 n1 where m: "?t n = (r1, n1)" by (cases "?t n")
  show "net_owned base n' ((case r of Ok a \<Rightarrow> mset (id a) | _ \<Rightarrow> {#}) + M)"
    using givesD [OF gives_tor o m] run m by (cases r1) (auto simp: ctl_add_tor_def st_return_def)
qed

lemma gives_ctl_add_lan: "gives id (ctl_add_lan env key p t ssl)"
  unfolding gives_def
proof (intro allI impI)
  fix base n M
  assume o: "net_owned base n M"
  let ?v = "vhost_register env key (Some (local_address env key)) p t ssl"
  obtain r n1 where v: "?v n = (r, n1)" by (cases "?v n")
  note o1 = givesD [OF gives_vhost o v]
  show "case ctl_add_lan env key p t ssl n of (r, n') \<Rightarrow> net_owned base n' ((case r of Ok a \<Rightarrow> mset (id a) | _ \<Rightarrow> {#}) + M)"
  proof (cases r)
    case (Ok v')
    let ?m = "mdns_register env (base_address env key)"
    obtain r2 n2 where m: "?m n1 = (r2, n2)" by (cases "?m n1")
    from o1 Ok have "net_owned base n1 (add_mset v' M)" by simp
    note o2 = givesD [OF gives_mdns this m]
    show ?thesis
      using o2 net_owned_drop [of base n2 v' M] v m Ok
      by (cases r2) (simp_all add: ctl_add_lan_def add_mset_commute)
  qed (use o1 v in \<open>simp_all add: ctl_add_lan_def\<close>)
qed

lemma ctl_remove_tor_owned:
  assumes "net_owned base n (mset rcs + M)" and "ctl_remove_tor env key p rcs n = (r, n')"
  shows "net_owned base n' M"
  using givesD [OF gives_tor_collect net_owned_drops [OF assms(1)], of env "snd (snd key)" p r n'] assms(2)
  by (cases r) (simp_all add: ctl_remove_tor_def st_bind_def st_modify_def)

lemma ctl_remove_lan_owned:
  assumes "net_owned base n (mset rcs + M)" and "ctl_remove_lan env key p rcs n = (r, n')"
  shows "net_owned base n' M"
proof -
  have "settles (st_bind (mdns_collect env (base_address env key)) (\<lambda>_. vhost_collect (Some (local_address env key)) p))"
    by (intro settles_bind gives_mdns_collect gives_vhost_collect)
  from givesD [OF this net_owned_drops [OF assms(1)], of r n'] assms(2) show ?thesis
    by (cases r) (simp_all add: ctl_remove_lan_def st_bind_def [of "st_modify _"] st_modify_def)
qed

section \<open>The references of a service\<close>

abbreviation rcs_of :: "(interface_id \<times> port, net_key \<times> rc list) btmap \<Rightarrow> rc list" where
  "rcs_of m \<equiv> concat (map (snd \<circ> snd) m)"

lemma rcs_insert: "bt_get m idx = None \<Longrightarrow> mset (rcs_of (bt_insert idx e m)) = mset (snd e) + mset (rcs_of m)"
  by (induction idx e m rule: bt_insert.induct) (auto split: if_splits)

lemma rcs_remove:
  "bt_ok m \<Longrightarrow> mset (rcs_of m) = (case bt_get m idx of Some e \<Rightarrow> mset (snd e) | None \<Rightarrow> {#}) + mset (rcs_of (bt_remove idx m))"
proof (induction m)
  case (Cons e m)
  obtain k v where e: "e = (k, v)" by (cases e)
  have "bt_get m k = None" using bt_ok_distinct [OF Cons.prems] by (simp add: e bt_get_None bt_keys_def)
  then have same: "bt_remove k m = m" by (auto simp: bt_remove_def bt_get_None bt_keys_def intro!: filter_True)
  show ?case
    using Cons same by (auto simp: e bt_remove_def split: option.splits)
qed (simp add: bt_remove_def)

definition svc_ok :: "holders \<Rightarrow> service_state \<Rightarrow> bool" where
  "svc_ok base s \<longleftrightarrow> bt_ok (sv_tor (ss_svc s)) \<and> bt_ok (sv_lan (ss_svc s)) \<and>
     net_owned base (ss_net s) (mset (svc_rcs (ss_svc s)))"

lemma add_binding_owned:
  assumes register: "gives id register" and m: "bt_ok m"
    and o: "net_owned base n (mset (rcs_of m) + M)"
    and a: "add_binding m idx key register n = (r, n', m')"
  shows "net_owned base n' (mset (rcs_of m') + M)" and "bt_ok m'"
proof -
  obtain k rcs where e: "(case bt_get m idx of Some e \<Rightarrow> e | None \<Rightarrow> (key, [])) = (k, rcs)"
    by (cases "bt_get m idx") auto
  have rest: "mset (rcs_of m) = mset rcs + mset (rcs_of (bt_remove idx m))"
    using rcs_remove [OF m, of idx] e by (auto split: option.splits)
  obtain r2 n2 where g: "register n = (r2, n2)" by (cases "register n")
  note o2 = givesD [OF register o g]
  have ins: "mset (rcs_of (bt_insert idx (k, rcs @ new) (bt_remove idx m))) = mset rcs + mset new + mset (rcs_of (bt_remove idx m))" for new
    by (simp add: rcs_insert)
  show "net_owned base n' (mset (rcs_of m') + M)"
  proof (cases r2)
    case (Ok new)
    then have "n' = n2" "m' = bt_insert idx (k, rcs @ new) (bt_remove idx m)" using a e g by (simp_all add: add_binding_def)
    then show ?thesis using o2 Ok rest ins [of new] by (simp add: ac_simps)
  qed (use o2 a e g rest net_owned_drops [of base n2 rcs "mset (rcs_of m') + M"] in
      \<open>simp_all add: add_binding_def ac_simps\<close>)
  show "bt_ok m'" using a e g bt.ok_del [OF m, of idx] by (cases r2) (auto simp: add_binding_def intro!: bt_ok_insert)
qed

lemma svc_ok_add_tor: "svc_ok base s \<Longrightarrow> svc_ok base (snd (svc_add_tor env iid p q s))"
proof -
  assume s: "svc_ok base s"
  show ?thesis
  proof (cases "ne_key env (sv_id (ss_svc s), iid)")
    case (Ok key)
    let ?a = "add_binding (sv_tor (ss_svc s)) (iid, p) key (ctl_add_tor env key p (sv_ip (ss_svc s), q)) (ss_net s)"
    obtain r n m where a: "?a = (r, n, m)" by (cases ?a)
    have "net_owned base (ss_net s) (mset (rcs_of (sv_tor (ss_svc s))) + (add_mset (sv_dns (ss_svc s)) (mset (rcs_of (sv_lan (ss_svc s))))))"
      using s by (simp add: svc_ok_def svc_rcs_def ac_simps)
    note owned = add_binding_owned [OF gives_ctl_add_tor _ this a]
    show ?thesis
      using owned s Ok a by (auto simp: svc_ok_def svc_add_tor_def with_controller_def st_bind_def st_lift_def svc_rcs_def ac_simps)
  qed (use s in \<open>simp_all add: svc_add_tor_def st_bind_def st_lift_def\<close>)
qed

lemma svc_ok_add_lan: "svc_ok base s \<Longrightarrow> svc_ok base (snd (svc_add_lan env iid p q ssl s))"
proof -
  assume s: "svc_ok base s"
  show ?thesis
  proof (cases "ne_key env (sv_id (ss_svc s), iid)")
    case (Ok key)
    let ?a = "add_binding (sv_lan (ss_svc s)) (iid, p) key (ctl_add_lan env key p (sv_ip (ss_svc s), q) ssl) (ss_net s)"
    obtain r n m where a: "?a = (r, n, m)" by (cases ?a)
    have "net_owned base (ss_net s) (mset (rcs_of (sv_lan (ss_svc s))) + (add_mset (sv_dns (ss_svc s)) (mset (rcs_of (sv_tor (ss_svc s))))))"
      using s by (simp add: svc_ok_def svc_rcs_def ac_simps)
    note owned = add_binding_owned [OF gives_ctl_add_lan _ this a]
    show ?thesis
      using owned s Ok a by (auto simp: svc_ok_def svc_add_lan_def with_controller_def st_bind_def st_lift_def svc_rcs_def ac_simps)
  qed (use s in \<open>simp_all add: svc_add_lan_def st_bind_def st_lift_def\<close>)
qed

lemma svc_ok_remove_tor: "svc_ok base s \<Longrightarrow> svc_ok base (snd (svc_remove_tor env iid p s))"
proof -
  assume s: "svc_ok base s"
  show ?thesis
  proof (cases "bt_get (sv_tor (ss_svc s)) (iid, p)")
    case (Some e)
    obtain key rcs where e: "e = (key, rcs)" by (cases e)
    obtain r n where c: "ctl_remove_tor env key p rcs (ss_net s) = (r, n)" by (cases "ctl_remove_tor env key p rcs (ss_net s)")
    let ?m = "bt_remove (iid, p) (sv_tor (ss_svc s))"
    have "net_owned base (ss_net s) (mset rcs + (add_mset (sv_dns (ss_svc s)) (mset (rcs_of (sv_lan (ss_svc s))) + mset (rcs_of ?m))))"
      using s Some e rcs_remove [of "sv_tor (ss_svc s)" "(iid, p)"] by (simp add: svc_ok_def svc_rcs_def ac_simps)
    from ctl_remove_tor_owned [OF this c] show ?thesis
      using s Some e c bt.ok_del by (auto simp: svc_ok_def svc_remove_tor_def with_controller_def svc_rcs_def)
  qed (use s in \<open>simp add: svc_remove_tor_def with_controller_def\<close>)
qed

lemma svc_ok_remove_lan: "svc_ok base s \<Longrightarrow> svc_ok base (snd (svc_remove_lan env iid p s))"
proof -
  assume s: "svc_ok base s"
  show ?thesis
  proof (cases "bt_get (sv_lan (ss_svc s)) (iid, p)")
    case (Some e)
    obtain key rcs where e: "e = (key, rcs)" by (cases e)
    obtain r n where c: "ctl_remove_lan env key p rcs (ss_net s) = (r, n)" by (cases "ctl_remove_lan env key p rcs (ss_net s)")
    let ?m = "bt_remove (iid, p) (sv_lan (ss_svc s))"
    have "net_owned base (ss_net s) (mset rcs + (add_mset (sv_dns (ss_svc s)) (mset (rcs_of ?m) + mset (rcs_of (sv_tor (ss_svc s))))))"
      using s Some e rcs_remove [of "sv_lan (ss_svc s)" "(iid, p)"] by (simp add: svc_ok_def svc_rcs_def ac_simps)
    from ctl_remove_lan_owned [OF this c] show ?thesis
      using s Some e c bt.ok_del by (auto simp: svc_ok_def svc_remove_lan_def with_controller_def svc_rcs_def)
  qed (use s in \<open>simp add: svc_remove_lan_def with_controller_def\<close>)
qed

text \<open>What happens to a service between its creation and its removal; the outside may be another one every time.\<close>

datatype svc_op =
    AddTor interface_id port port
  | AddLan interface_id port port "string list option option"
  | RemoveTor interface_id port
  | RemoveLan interface_id port

fun run_op :: "net_env \<times> svc_op \<Rightarrow> service_state \<Rightarrow> service_state" where
  "run_op (env, AddTor iid p q) s = snd (svc_add_tor env iid p q s)"
| "run_op (env, AddLan iid p q ssl) s = snd (svc_add_lan env iid p q ssl s)"
| "run_op (env, RemoveTor iid p) s = snd (svc_remove_tor env iid p s)"
| "run_op (env, RemoveLan iid p) s = snd (svc_remove_lan env iid p s)"

lemma svc_ok_op: "svc_ok base s \<Longrightarrow> svc_ok base (run_op eo s)"
  by (cases "(eo, s)" rule: run_op.cases) (simp_all add: svc_ok_add_tor svc_ok_add_lan svc_ok_remove_tor svc_ok_remove_lan)

lemma svc_ok_ops: "svc_ok base s \<Longrightarrow> svc_ok base (fold run_op eos s)"
  by (induction eos arbitrary: s) (simp_all add: svc_ok_op)

lemma collect_error_eqs [simp]:
  "m n = (Ok u, n') \<Longrightarrow> collect_error m es n = (Ok es, n')"
  "m n = (Err e, n') \<Longrightarrow> collect_error m es n = (Ok (es @ [e]), n')"
  "m n = (Panic, n') \<Longrightarrow> collect_error m es n = (Panic, n')"
  "m n = (Diverge, n') \<Longrightarrow> collect_error m es n = (Diverge, n')"
  by (simp_all add: collect_error_def)

lemma collect_owned:
  assumes "\<And>e n M r n'. e \<in> set xs \<Longrightarrow> net_owned base n (mset (snd (snd e)) + M) \<Longrightarrow> f e n = (r, n') \<Longrightarrow> net_owned base n' M"
  shows "net_owned base n (mset (rcs_of xs) + M) \<Longrightarrow> st_fold (\<lambda>e. collect_error (f e)) xs es n = (Ok es', n') \<Longrightarrow> net_owned base n' M"
  using assms
proof (induction xs arbitrary: n es)
  case (Cons e xs)
  obtain r n1 where e: "f e n = (r, n1)" by (cases "f e n")
  have "net_owned base n (mset (snd (snd e)) + (mset (rcs_of xs) + M))" using Cons.prems(1) by (simp add: ac_simps comp_def)
  from Cons.prems(3) [OF _ this e] have n1: "net_owned base n1 (mset (rcs_of xs) + M)" by simp
  obtain es1 where c: "collect_error (f e) es n = (Ok es1, n1)"
    using Cons.prems(2) e by (cases r) simp_all
  with Cons.prems(2) have "st_fold (\<lambda>e. collect_error (f e)) xs es1 n1 = (Ok es', n')" by simp
  from Cons.IH [OF n1 this] show ?case using Cons.prems(3) by (meson list.set_intros(2))
qed (simp add: st_return_def)

text \<open>Collecting errors never fails, so a removal that returns has gone through all of its bindings.\<close>

lemma collect_not_Err: "st_fold (\<lambda>e. collect_error (f e)) xs es n \<noteq> (Err x, n')"
proof (induction xs arbitrary: es n)
  case (Cons e xs)
  obtain r n1 where "f e n = (r, n1)" by (cases "f e n")
  then show ?case using Cons.IH by (cases r) simp_all
qed (simp add: st_return_def)

lemma collect_returns:
  assumes "st_bind (st_fold (\<lambda>e. collect_error (f e)) xs es) g n = (r, n')" and "returns r"
  obtains es1 n1 where "st_fold (\<lambda>e. collect_error (f e)) xs es n = (Ok es1, n1)" "g es1 n1 = (r, n')"
proof -
  obtain r1 n1 where f: "st_fold (\<lambda>e. collect_error (f e)) xs es n = (r1, n1)"
    by (cases "st_fold (\<lambda>e. collect_error (f e)) xs es n")
  then show thesis using assms collect_not_Err [of f xs es n] that by (cases r1) (auto simp: st_bind_def)
qed

lemma remove_all_owned:
  assumes o: "net_owned base n (mset (svc_rcs svc))" and run: "remove_all env svc n = (r, n')"
    and "returns r" and up: "ne_controller_up env"
  shows "net_owned base n' {#}"
proof -
  let ?lan = "\<lambda>e :: (interface_id \<times> port) \<times> net_key \<times> rc list. ctl_remove_lan env (fst (snd e)) (snd (fst e)) (snd (snd e))"
  let ?tor = "\<lambda>e :: (interface_id \<times> port) \<times> net_key \<times> rc list. ctl_remove_tor env (fst (snd e)) (snd (fst e)) (snd (snd e))"
  have run': "remove_all env svc =
      st_bind (st_fold (\<lambda>e. collect_error (?lan e)) (sv_lan svc) []) (\<lambda>es.
      st_bind (st_fold (\<lambda>e. collect_error (?tor e)) (sv_tor svc) es) (\<lambda>es.
      st_bind (st_modify (net_drop (sv_dns svc))) (\<lambda>_.
      st_bind (collect_error (dns_collect env (Some (sv_id svc), sv_ip svc)) es) (\<lambda>es. st_lift (into_result (ne_display env) es)))))"
    using up by (simp add: remove_all_def split_beta')
  obtain es1 n1 where 1: "st_fold (\<lambda>e. collect_error (?lan e)) (sv_lan svc) [] n = (Ok es1, n1)"
    and rest1: "st_bind (st_fold (\<lambda>e. collect_error (?tor e)) (sv_tor svc) es1) (\<lambda>es.
      st_bind (st_modify (net_drop (sv_dns svc))) (\<lambda>_.
      st_bind (collect_error (dns_collect env (Some (sv_id svc), sv_ip svc)) es) (\<lambda>es. st_lift (into_result (ne_display env) es)))) n1 = (r, n')"
    using run [unfolded run'] \<open>returns r\<close> by (rule collect_returns)
  obtain es2 n2 where 2: "st_fold (\<lambda>e. collect_error (?tor e)) (sv_tor svc) es1 n1 = (Ok es2, n2)"
    and rest2: "st_bind (st_modify (net_drop (sv_dns svc))) (\<lambda>_.
      st_bind (collect_error (dns_collect env (Some (sv_id svc), sv_ip svc)) es2) (\<lambda>es. st_lift (into_result (ne_display env) es))) n2 = (r, n')"
    using rest1 \<open>returns r\<close> by (rule collect_returns)
  have "net_owned base n (mset (rcs_of (sv_lan svc)) + add_mset (sv_dns svc) (mset (rcs_of (sv_tor svc))))"
    using o by (simp add: svc_rcs_def ac_simps)
  then have "net_owned base n1 (mset (rcs_of (sv_tor svc)) + {#sv_dns svc#})"
    using collect_owned [where f = ?lan, OF ctl_remove_lan_owned _ 1]
    by (simp add: ac_simps)
  then have "net_owned base n2 {#sv_dns svc#}"
    using collect_owned [where f = ?tor, OF ctl_remove_tor_owned _ 2]
    by simp
  then have dropped: "net_owned base (net_drop (sv_dns svc) n2) {#}" by (intro net_owned_drop) simp
  obtain r3 n3 where 3: "dns_collect env (Some (sv_id svc), sv_ip svc) (net_drop (sv_dns svc) n2) = (r3, n3)"
    by (cases "dns_collect env (Some (sv_id svc), sv_ip svc) (net_drop (sv_dns svc) n2)")
  have "net_owned base n3 {#}" using givesD [OF gives_dns_collect dropped 3] by (cases r3) simp_all
  moreover have "n' = n3"
    using rest2 3 by (cases r3) (simp_all add: st_bind_step st_lift_def)
  ultimately show ?thesis by simp
qed

section \<open>Properties\<close>

text \<open>
  C9. Between its creation and its removal a service may add and remove bindings in any order, with whatever errors; once it is
  removed, every binding of the controllers is held as often as before it was created, and no unheld binding is
  counted as held: nothing of the service stays and nothing of the others goes.
\<close>

theorem service_leaves_no_trace:
  assumes "net_inv n0" and created: "create_service env pkg ip n0 = (Ok svc, n1)"
    and removed: "remove_all env' (ss_svc (fold run_op eos \<lparr>ss_net = n1, ss_svc = svc\<rparr>)) (ss_net (fold run_op eos \<lparr>ss_net = n1, ss_svc = svc\<rparr>)) = (r, n2)"
    and "returns r" and "ne_controller_up env'"
  shows "net_inv n2 \<and> net_holders n2 = net_holders n0"
proof -
  let ?s0 = "\<lparr>ss_net = n1, ss_svc = svc\<rparr>"
  obtain w where d: "dns_register env (Some pkg, ip) n0 = (Ok w, n1)"
    and svc: "svc = \<lparr>sv_id = pkg, sv_ip = ip, sv_dns = w, sv_tor = [], sv_lan = []\<rparr>"
    using created by (cases "dns_register env (Some pkg, ip) n0") (auto simp: create_service_def st_bind_def st_return_def split: res.splits)
  have "net_owned (net_holders n0) n1 {#w#}"
    using givesD [OF gives_dns net_owned_start [OF assms(1)] d] by simp
  then have "svc_ok (net_holders n0) ?s0" by (simp add: svc_ok_def svc svc_rcs_def)
  then have "net_owned (net_holders n0) (ss_net (fold run_op eos ?s0)) (mset (svc_rcs (ss_svc (fold run_op eos ?s0))))"
    using svc_ok_ops unfolding svc_ok_def by blast
  from remove_all_owned [OF this removed assms(4,5)] show ?thesis by (rule net_owned_end)
qed

lemma st_bind_OkE:
  assumes "st_bind m f s = (Ok b, s')"
  obtains a s1 where "m s = (Ok a, s1)" "f a s1 = (Ok b, s')"
  using assms by (cases "m s") (auto simp: st_bind_def split: res.splits)

text \<open>The references to hosts other than \<open>h\<close> do not count for \<open>h\<close>.\<close>

definition unheld :: "port \<Rightarrow> string option \<Rightarrow> net_controller \<Rightarrow> bool" where
  "unheld p h n \<longleftrightarrow> vhost.inv (nc_vhost n) \<and> (\<forall>t. vhost.holders (nc_vhost n) (p, h, t) = 0)"

definition spares :: "port \<Rightarrow> string option \<Rightarrow> 'a net_act \<Rightarrow> bool" where
  "spares p h m \<longleftrightarrow> (\<forall>n r n'. unheld p h n \<longrightarrow> m n = (Ok r, n') \<longrightarrow> unheld p h n')"

lemma spares_vhost:
  assumes "h' \<noteq> h"
  shows "spares p h (vhost_register env key h' q t ssl)"
  unfolding spares_def
proof (intro allI impI)
  fix n r n'
  assume u: "unheld p h n" and "vhost_register env key h' q t ssl n = (Ok r, n')"
  then obtain w v where v: "vhost_add (q, h', (t, ssl, key)) (nc_vhost n) = (w, v)" and n': "n' = n\<lparr>nc_vhost := v\<rparr>"
    by (cases "vhost_add (q, h', (t, ssl, key)) (nc_vhost n)") (auto simp: vhost_register_def split: res.splits unit.splits if_splits)
  from u have "vhost.inv (nc_vhost n)" by (simp add: unheld_def)
  from vhost.holders_add [OF this v] show "unheld p h n'" using u assms by (auto simp: unheld_def n')
qed

lemma spares_others:
  "spares p h (dns_register env k)"
  "spares p h (tor_register env key q t)"
  "spares p h (st_return a)"
  by (auto simp: spares_def unheld_def dns_register_def tor_register_def st_return_def Let_def split: if_splits prod.splits)

lemma spares_bind: "spares p h m \<Longrightarrow> (\<And>a. spares p h (f a)) \<Longrightarrow> spares p h (st_bind m f)"
  unfolding spares_def by (metis st_bind_OkE)

lemma unheld_not_found:
  assumes u: "unheld p h n" and "vhost_ok (fst (nc_vhost n))"
  shows "sweep (snd (nc_vhost n)) (sub_get (sub_get (fst (nc_vhost n)) p) h) = []"
proof -
  let ?s = "sub_get (sub_get (fst (nc_vhost n)) p) h"
  have "nested_ok bt_ok (sub_get (fst (nc_vhost n)) p)"
    using assms(2) nested_ok_sub [of "nested_ok bt_ok" "fst (nc_vhost n)" p] by (simp add: vhost_ok_def nested_ok_Nil)
  then have "bt_ok ?s" using nested_ok_sub [of bt_ok "sub_get (fst (nc_vhost n)) p" h] by simp
  moreover have "\<not> alive (snd (nc_vhost n)) w" if "bt_get ?s t = Some w" for t w
  proof -
    have "vhost.holders (nc_vhost n) (p, h, t) = 0" using u by (simp only: unheld_def)
    then show ?thesis using that by (simp add: vhost.holders_def alive_def vhost_entry_def)
  qed
  ultimately have "\<not> alive (snd (nc_vhost n)) (snd e)" if "e \<in> set ?s" for e
    using that by (metis bt_get_mem prod.collapse)
  then show ?thesis by (simp add: sweep_def filter_empty_conv)
qed

text \<open>
  The name under which containers reach the system, \<^verbatim>\<open>embassy\<close>, is not served: after the bindings of the system were
  added without an error, no target is in force for it on port 443, since nobody kept its reference.
\<close>

theorem embassy_host_not_served:
  assumes u: "unheld 443 (Some ''embassy'') n" and i: "net_inv n"
    and run: "add_os_bindings env hostname key n = (Ok rcs, n')"
    and "hostname \<noteq> ''embassy''" "ne_tor_address env (snd (snd key)) \<noteq> ''embassy''" "\<not> is_ip ''embassy''"
  shows "vhost_find is_ip (sub_get (fst (nc_vhost n')) 443, snd (nc_vhost n')) (Some ''embassy'') = None"
proof -
  let ?host = "\<lambda>name. vhost_register env key name 443 (localhost, 80) (Some (Some [''http/1.1'', ''h2'']))"
  let ?rest = "st_bind (dns_register env (None, host_ip)) (\<lambda>r1.
      st_bind (?host None) (\<lambda>r2.
      st_bind (?host (Some ''localhost'')) (\<lambda>r3.
      st_bind (?host (Some hostname)) (\<lambda>r4.
      st_bind (?host (Some (hostname @ ''.local''))) (\<lambda>r5.
      st_bind (tor_register env (snd (snd key)) 80 (localhost, 80)) (\<lambda>r6.
      st_bind (?host (Some (ne_tor_address env (snd (snd key))))) (\<lambda>r7.
      st_bind (tor_register env (snd (snd key)) 443 (localhost, 443)) (\<lambda>r8.
      st_return [r1, r2, r3, r4, r5, r6, r7, r8]))))))))"
  have local: "hostname @ ''.local'' \<noteq> ''embassy''"
    by (auto dest: arg_cong [where f = last])
  have first: "add_os_bindings env hostname key = st_bind (?host (Some ''embassy'')) (\<lambda>v. st_bind (st_modify (net_drop v)) (\<lambda>_. ?rest))"
    by (simp add: add_os_bindings_def Let_def)
  obtain v n1 n2 where v: "?host (Some ''embassy'') n = (Ok v, n1)" and "n2 = net_drop v n1" and rest: "?rest n2 = (Ok rcs, n')"
    using run unfolding first by (elim st_bind_OkE) (auto simp: st_modify_def)
  have spare: "spares 443 (Some ''embassy'') ?rest"
    using assms(4,5) local by (intro spares_bind spares_vhost spares_others) simp_all
  have "net_owned (net_holders n) n2 {#}"
    using givesD [OF gives_vhost net_owned_start [OF i] v] net_owned_drop \<open>n2 = _\<close> by simp
  then have "vhost.inv (nc_vhost n2)" "vhost.holders (nc_vhost n2) = vhost.holders (nc_vhost n)"
    using net_owned_end [of "net_holders n" n2] by (simp_all add: net_inv_def net_holders_def)
  then have "unheld 443 (Some ''embassy'') n'" using spare rest u unfolding spares_def unheld_def by metis
  then have "sweep (snd (nc_vhost n')) (sub_get (sub_get (fst (nc_vhost n')) 443) (Some ''embassy'')) = []"
    by (intro unheld_not_found) (simp_all add: unheld_def vhost.inv_def)
  then show ?thesis using assms(6) by (simp add: vhost_find_def)
qed

definition quiet_env :: net_env where
  "quiet_env = \<lparr>ne_bind = \<lambda>_. Ok (), ne_avahi = \<lambda>_. Ok (), ne_dns_up = True, ne_tor_up = True, ne_tor_booted = True, ne_controller_up = True,
     ne_onion_address = (\<lambda>k. k), ne_tor_address = (\<lambda>k. k @ ''.onion''), ne_display = (\<lambda>_. ''''),
     ne_key = (\<lambda>i. Ok (Some i, '''', snd i))\<rparr>"

definition new_controller :: net_controller where
  "new_controller = \<lparr>nc_dns = ([], no_cells), nc_vhost = ([], no_cells), nc_mdns = ([], no_cells), nc_tor = ([], no_cells)\<rparr>"

lemma new_controller_inv: "net_inv new_controller"
  unfolding net_inv_def dns.inv_def vhost.inv_def mdns.inv_def tor.inv_def
  by (simp add: new_controller_def no_cells_def dns_ok_def vhost_ok_def tor_ok_def nested_ok_def dns_entry_def vhost_entry_def
    tor_entry_def sub_get_def)

lemma new_controller_unheld: "unheld p h new_controller"
  using new_controller_inv by (simp add: unheld_def net_inv_def) (simp add: new_controller_def vhost.holders_def vhost_entry_def sub_get_def)

theorem embassy_host_not_served_witness:
  "vhost_find (\<lambda>_. False)
     (sub_get (fst (nc_vhost (snd (add_os_bindings quiet_env ''calm-otter'' (None, '''', ''k'') new_controller)))) 443,
      snd (nc_vhost (snd (add_os_bindings quiet_env ''calm-otter'' (None, '''', ''k'') new_controller)))) (Some ''embassy'') = None"
proof -
  let ?m = "add_os_bindings quiet_env ''calm-otter'' (None, '''', ''k'') new_controller"
  have "fst ?m = Ok [DnsRc 0, VhostRc 1, VhostRc 2, VhostRc 3, VhostRc 4, TorRc 0, VhostRc 5, TorRc 1]"
    by code_simp
  then have run: "?m = (Ok [DnsRc 0, VhostRc 1, VhostRc 2, VhostRc 3, VhostRc 4, TorRc 0, VhostRc 5, TorRc 1], snd ?m)"
    by (cases ?m) simp
  show ?thesis
    by (rule embassy_host_not_served [OF new_controller_unheld new_controller_inv run]) (simp_all add: quiet_env_def)
qed

text \<open>
  Adding a binding that the service already has, and failing, takes the binding away: the operation returns the error,
  the service has no entry for the interface and port any more, and the references it had are dropped.
\<close>

lemma failed_add_drops_binding:
  assumes "ne_controller_up env" and "ne_key env (sv_id svc, iid) = Ok key"
    and "bt_get (sv_lan svc) (iid, p) = Some (k, rcs)"
    and "ctl_add_lan env key p (sv_ip svc, q) ssl n = (Err e, n')"
  shows "svc_add_lan env iid p q ssl \<lparr>ss_net = n, ss_svc = svc\<rparr> =
    (Err e, \<lparr>ss_net = drop_all rcs n', ss_svc = svc\<lparr>sv_lan := bt_remove (iid, p) (sv_lan svc)\<rparr>\<rparr>)"
  using assms by (simp add: svc_add_lan_def st_bind_def st_lift_def with_controller_def add_binding_def)

text \<open>
  Dropping a service removes it when the controller is there, and never comes to an end when the controller was shut down:
  every task that fails to remove the service drops it again.
\<close>

lemma drop_service_ends_iff:
  "drop_service env svc n = (if sv_ip svc = 0 then Some n else if ne_controller_up env then Some (snd (remove_all env svc n)) else None)"
proof (cases "sv_ip svc = 0 \<or> ne_controller_up env")
  case False
  have "drop_service env svc n = Some m \<Longrightarrow> sv_ip svc = 0 \<or> ne_controller_up env" for m
    by (rule drop_service.raw_induct [where P = "\<lambda>env svc n m. sv_ip svc = 0 \<or> ne_controller_up env"]) (auto split: if_splits)
  with False show ?thesis by (cases "drop_service env svc n") auto
qed (subst drop_service.simps, auto)

theorem service_leaves_no_trace_witness:
  "let svc = \<lparr>sv_id = ''bitcoind'', sv_ip = 5, sv_dns = DnsRc 0, sv_tor = [], sv_lan = []\<rparr>;
       ops = [(quiet_env, AddLan ''main'' 443 80 None), (quiet_env, AddTor ''main'' 80 80), (quiet_env, RemoveTor ''main'' 80)];
       s = fold run_op ops \<lparr>ss_net = snd (create_service quiet_env ''bitcoind'' 5 new_controller), ss_svc = svc\<rparr> in
   net_holders (snd (remove_all quiet_env (ss_svc s) (ss_net s))) = net_holders new_controller"
proof -
  let ?svc = "\<lparr>sv_id = ''bitcoind'', sv_ip = 5, sv_dns = DnsRc 0, sv_tor = [], sv_lan = []\<rparr>"
  let ?ops = "[(quiet_env, AddLan ''main'' 443 80 None), (quiet_env, AddTor ''main'' 80 80), (quiet_env, RemoveTor ''main'' 80)]"
  let ?s = "fold run_op ?ops \<lparr>ss_net = snd (create_service quiet_env ''bitcoind'' 5 new_controller), ss_svc = ?svc\<rparr>"
  have "fst (create_service quiet_env ''bitcoind'' 5 new_controller) = Ok ?svc" by code_simp
  then have created: "create_service quiet_env ''bitcoind'' 5 new_controller = (Ok ?svc, snd (create_service quiet_env ''bitcoind'' 5 new_controller))"
    by (metis prod.collapse)
  have "fst (remove_all quiet_env (ss_svc ?s) (ss_net ?s)) = Ok ()" by code_simp
  then have removed: "remove_all quiet_env (ss_svc ?s) (ss_net ?s) = (Ok (), snd (remove_all quiet_env (ss_svc ?s) (ss_net ?s)))"
    by (metis prod.collapse)
  have "returns (Ok () :: (error, unit) res)" "ne_controller_up quiet_env" by (simp_all add: quiet_env_def)
  from service_leaves_no_trace [OF new_controller_inv created removed this] show ?thesis by (simp only: Let_def)
qed

end
