(* ===== verification/Versions.thy ===== *)
theory Versions
  imports Json State_Res Errors Config_Types
begin

text \<open>
  Migrations between versions of the system (\<^verbatim>\<open>version\<close>). Every version knows its predecessor and how to migrate the
  database up from it and down to it; \<open>init\<close> brings the database to the current version at every start. The second
  half has what the migrations do to the database and to the values that the user interface keeps in it.
\<close>

section \<open>Values of the user interface\<close>

text \<open>\<open>Index\<close> and \<open>IndexMut\<close> of \<open>Value\<close> with a key; the latter makes an object of \<open>null\<close> and panics for other values.\<close>

fun json_get :: "json \<Rightarrow> string \<Rightarrow> json option" where
  "json_get (JObject m) k = im_get m k"
| "json_get _ k = None"

definition json_index :: "json \<Rightarrow> string \<Rightarrow> json" where
  "json_index v k = (case json_get v k of Some w \<Rightarrow> w | None \<Rightarrow> JNull)"

fun json_entry :: "string \<Rightarrow> (json \<Rightarrow> ('e, json) res) \<Rightarrow> json \<Rightarrow> ('e, json) res" where
  "json_entry k f (JObject m) =
     rmap (\<lambda>w. JObject (im_insert k w m)) (f (case im_get m k of Some w \<Rightarrow> w | None \<Rightarrow> JNull))"
| "json_entry k f JNull = rmap (\<lambda>w. JObject [(k, w)]) (f JNull)"
| "json_entry k f _ = Panic"

fun json_path :: "string list \<Rightarrow> (json \<Rightarrow> json) \<Rightarrow> json \<Rightarrow> ('e, json) res" where
  "json_path [] f v = Ok (f v)"
| "json_path (k # ks) f v = json_entry k (json_path ks f) v"

definition json_put :: "string list \<Rightarrow> json \<Rightarrow> json \<Rightarrow> ('e, json) res" where
  "json_put ks w v = json_path ks (\<lambda>_. w) v"

text \<open>Removing keys, from objects only.\<close>

fun json_remove :: "string \<Rightarrow> json \<Rightarrow> json" where
  "json_remove k (JObject m) = JObject (im_remove k m)"
| "json_remove k v = v"

text \<open>\<open>get_mut\<close> and a change of what is there.\<close>

fun json_adjust :: "string \<Rightarrow> (json \<Rightarrow> json) \<Rightarrow> json \<Rightarrow> json" where
  "json_adjust k f (JObject m) = (case im_get m k of Some w \<Rightarrow> JObject (im_insert k (f w) m) | None \<Rightarrow> JObject m)"
| "json_adjust k f v = v"

fun as_string :: "json \<Rightarrow> string option" where
  "as_string (JString s) = Some s"
| "as_string _ = None"

fun object_entries :: "json \<Rightarrow> (string \<times> json) list" where
  "object_entries (JObject m) = m"
| "object_entries _ = []"

definition ensure_trailing_slashes :: "string \<Rightarrow> string" where
  "ensure_trailing_slashes url = (if url \<noteq> [] \<and> last url = CHR ''/'' then url else url @ ''/'')"

definition DEFAULT_MARKETPLACE :: string where
  "DEFAULT_MARKETPLACE = ''https://registry.start9.com''"

definition default_url :: string where
  "default_url = DEFAULT_MARKETPLACE @ ''/''"

abbreviation known_hosts :: "string list" where
  "known_hosts \<equiv> [''marketplace'', ''known-hosts'']"

text \<open>\<open>up\<close> of version 0.3.3: known hosts are kept by their address instead of by an id, the selected one by its address.\<close>

definition selected_host :: "json \<Rightarrow> json option" where
  "selected_host ui =
     (case json_get (json_index ui ''marketplace'') ''selected-id'' of
        Some (JString i) \<Rightarrow> json_get (json_index (json_index ui ''marketplace'') ''known-hosts'') i
      | _ \<Rightarrow> None)"

definition ui_0_3_3_up :: "json \<Rightarrow> ('e, json) res" where
  "ui_0_3_3_up ui =
     rbind (case selected_host ui of
              Some (JString url) \<Rightarrow> json_put [''marketplace'', ''selected-url''] (JString url) ui
            | _ \<Rightarrow> Ok ui) (\<lambda>ui.
     let ui = json_remove ''auto-check-updates'' (json_remove ''pkg-order'' ui) in
     rbind (json_put known_hosts JNull ui) (\<lambda>taken.
     let hosts = json_index (json_index ui ''marketplace'') ''known-hosts'' in
     rbind (json_put known_hosts (JObject []) taken) (\<lambda>ui.
     rbind (rfold (\<lambda>e ui. case as_string (json_index (snd e) ''url'') of
                Some url \<Rightarrow> json_put (known_hosts @ [ensure_trailing_slashes url]) (JObject []) ui
              | None \<Rightarrow> Ok ui) (object_entries hosts) ui) (\<lambda>ui.
     rbind (json_put (known_hosts @ [''https://registry.start9.com/'']) (JObject []) ui) (\<lambda>ui.
     let ui = json_adjust ''marketplace'' (json_remove ''selected-id'') ui in
     if json_index (json_index ui ''marketplace'') ''selected-url'' = JNull
     then json_put [''marketplace'', ''selected-url''] (JString default_url) ui
     else Ok ui)))))"

text \<open>\<open>down\<close> of version 0.3.3; \<open>uuids\<close> are the ids drawn at random.\<close>

definition ui_0_3_3_down :: "(nat \<Rightarrow> string) \<Rightarrow> package_id list \<Rightarrow> json \<Rightarrow> ('e, json) res" where
  "ui_0_3_3_down uuids packages ui =
     (let selected_url = as_string (json_index (json_index ui ''marketplace'') ''selected-url'');
          hosts = json_index (json_index ui ''marketplace'') ''known-hosts'' in
     rbind (json_put known_hosts JNull ui) (\<lambda>ui.
     rbind (json_put known_hosts (JObject []) ui) (\<lambda>ui.
     rbind (rfold (\<lambda>(j, url, obj) ui. let i = uuids j in
              case as_string (json_index obj ''name'') of
                None \<Rightarrow> Ok ui
              | Some name \<Rightarrow>
                  rbind (if Some name = selected_url then json_put [''marketplace'', ''selected-id''] (JString i) ui else Ok ui)
                    (json_put (known_hosts @ [i]) (JObject [(''name'', JString name), (''url'', JString url)])))
            (enumerate 0 (object_entries hosts)) ui) (\<lambda>ui.
     rbind (json_put [''auto-check-updates''] (JBool True) ui) (\<lambda>ui.
     rbind (json_put [''pkg-order''] (JArray (map JString packages)) ui) (\<lambda>ui.
     Ok (json_adjust ''marketplace'' (json_remove ''selected-url'') ui)))))))"

definition COMMUNITY_URL :: string where
  "COMMUNITY_URL = ''https://community-registry.start9.com/''"

definition MAIN_REGISTRY :: string where
  "MAIN_REGISTRY = ''https://registry.start9.com/''"

definition COMMUNITY_SERVICES :: "string list" where
  "COMMUNITY_SERVICES = [''ipfs'', ''agora'', ''lightning-jet'', ''balanceofsatoshis'', ''mastodon'', ''lndg'', ''robosats'',
     ''thunderhub'', ''syncthing'', ''sphinx-relay'']"

definition ui_0_3_4_hosts :: "json \<Rightarrow> ('e, json) res" where
  "ui_0_3_4_hosts ui =
     rbind (json_put (known_hosts @ [COMMUNITY_URL]) (JObject []) ui) (json_put (known_hosts @ [MAIN_REGISTRY]) (JObject []))"

definition ui_0_3_4_theme :: "json \<Rightarrow> ('e, json) res" where
  "ui_0_3_4_theme ui =
     rbind (json_put [''theme''] (JString ''Dark'') ui) (json_put [''widgets''] (JArray []))"

definition ui_0_3_4_down :: "json \<Rightarrow> ('e, json) res" where
  "ui_0_3_4_down ui =
     (let ui = json_remove ''widgets'' (json_remove ''theme'' ui) in
      rbind (json_put (known_hosts @ [COMMUNITY_URL]) JNull ui) (json_put (known_hosts @ [MAIN_REGISTRY]) JNull))"

section \<open>What the migrations work on\<close>

type_synonym emver = "nat \<times> nat \<times> nat \<times> nat"

text \<open>
  The row of the account in the secret store; the parts of the database that migrations touch, where of a package only
  its id and, when it has installed data, the address of its marketplace counts; and the host name of the machine.
\<close>

record account_row =
  ac_server_id :: "string option"
  ac_hostname :: "string option"
  ac_key :: string
  ac_root_ca_cert :: string

record mig_state =
  mg_version :: emver
  mg_compat :: "emver \<times> emver"
  mg_ui :: json
  mg_hostname :: "string option"
  mg_id :: string
  mg_pubkey :: string
  mg_ca_fingerprint :: string
  mg_tor_address :: string
  mg_packages :: "(package_id, string option option) btmap"
  mg_account :: account_row
  mg_machine_name :: string

text \<open>The outside: the secret store, keys and digests, the commands that set the host name, random names, addresses.\<close>

record mig_env =
  mv_load :: "(error, unit) res"
  mv_save :: "(error, unit) res"
  mv_openssh :: "string \<Rightarrow> (error, string) res"
  mv_sha256 :: "string \<Rightarrow> nat list"
  mv_hostnamectl :: "string \<Rightarrow> (error, unit) res"
  mv_avahi :: "(error, unit) res"
  mv_adjective_noun :: string
  mv_random_id :: string
  mv_uuids :: "nat \<Rightarrow> string"
  mv_set_scheme :: "string \<Rightarrow> string \<Rightarrow> string option"

type_synonym mig = "mig_env \<Rightarrow> (mig_state, error, unit) st"

definition no_migration :: mig where
  "no_migration env = st_return ()"

definition with_ui :: "(json \<Rightarrow> (error, json) res) \<Rightarrow> (mig_state, error, unit) st" where
  "with_ui f = st_bind (st_get mg_ui) (\<lambda>ui. st_bind (st_lift (f ui)) (\<lambda>ui. st_modify (\<lambda>s. s\<lparr>mg_ui := ui\<rparr>)))"

subsection \<open>Version 0.3.2\<close>

definition legacy_get_hostname :: "mig_env \<Rightarrow> mig_state \<Rightarrow> string" where
  "legacy_get_hostname env s =
     (case mg_hostname s of
        Some h \<Rightarrow> h
      | None \<Rightarrow>
          if length (mg_id s) \<noteq> 8 then ''embassy-'' @ mv_adjective_noun env else ''embassy-'' @ mg_id s)"

definition set_machine_name :: "mig_env \<Rightarrow> string \<Rightarrow> (mig_state, error, unit) st" where
  "set_machine_name env h =
     st_bind (st_lift (mv_hostnamectl env h)) (\<lambda>_.
     st_bind (st_modify (\<lambda>s. s\<lparr>mg_machine_name := h\<rparr>)) (\<lambda>_.
     st_lift (mv_avahi env)))"

definition v0_3_2_up :: mig where
  "v0_3_2_up env =
     st_bind (st_get (legacy_get_hostname env)) (\<lambda>h.
     st_bind (st_modify (\<lambda>s. s\<lparr>mg_hostname := Some h\<rparr>)) (\<lambda>_.
     st_bind (st_modify (\<lambda>s. s\<lparr>mg_id := mv_random_id env\<rparr>)) (\<lambda>_.
     st_bind (st_get (legacy_get_hostname env)) (set_machine_name env))))"

subsection \<open>Version 0.3.3\<close>

definition v0_3_3_up :: mig where
  "v0_3_3_up env = with_ui ui_0_3_3_up"

definition v0_3_3_down :: mig where
  "v0_3_3_down env = st_bind (st_get (bt_keys \<circ> mg_packages)) (\<lambda>ps. with_ui (ui_0_3_3_down (mv_uuids env) ps))"

subsection \<open>Version 0.3.4\<close>

definition hex_digit :: "nat \<Rightarrow> char" where
  "hex_digit n = ''0123456789ABCDEF'' ! n"

definition hex_upper :: "nat \<Rightarrow> string" where
  "hex_upper n = (if n < 16 then [hex_digit n] else [hex_digit (n div 16), hex_digit (n mod 16)])"

definition fingerprint :: "nat list \<Rightarrow> string" where
  "fingerprint bs = concat (map2 (@) ('''' # replicate (length bs - 1) '':'') (map hex_upper bs))"

text \<open>Every community package gets another marketplace; one without installed data ends the migration.\<close>

definition move_one :: "string option \<Rightarrow> package_id \<Rightarrow> (mig_state, error, unit) st" where
  "move_one url p s =
     (if p \<notin> set COMMUNITY_SERVICES then (Ok (), s)
      else case bt_get (mg_packages s) p of
        Some (Some _) \<Rightarrow> (Ok (), s\<lparr>mg_packages := bt_insert p (Some url) (mg_packages s)\<rparr>)
      | _ \<Rightarrow> (Err (Error Database (Msg ''Node Does Not Exist'')), s))"

definition move_community :: "string option \<Rightarrow> (mig_state, error, unit) st" where
  "move_community url = st_bind (st_get (bt_keys \<circ> mg_packages)) (st_for (move_one url))"

definition v0_3_4_up :: mig where
  "v0_3_4_up env =
     st_bind (st_lift (mv_load env)) (\<lambda>_.
     st_bind (st_get mg_account) (\<lambda>account.
     st_bind (st_lift (mv_openssh env (ac_key account))) (\<lambda>pubkey.
     st_bind (st_modify (\<lambda>s. s\<lparr>mg_pubkey := pubkey\<rparr>)) (\<lambda>_.
     st_bind (st_modify (\<lambda>s. s\<lparr>mg_ca_fingerprint := fingerprint (mv_sha256 env (ac_root_ca_cert account))\<rparr>)) (\<lambda>_.
     st_bind (st_get mg_hostname) (\<lambda>h.
     st_bind (st_get mg_id) (\<lambda>i.
     let hostname = (case h of Some h \<Rightarrow> h | None \<Rightarrow> mv_adjective_noun env) in
     st_bind (st_lift (mv_save env)) (\<lambda>_.
     st_bind (st_modify (\<lambda>s. s\<lparr>mg_account := account\<lparr>ac_hostname := Some hostname, ac_server_id := Some i\<rparr>\<rparr>)) (\<lambda>_.
     st_bind (set_machine_name env hostname) (\<lambda>_.
     st_bind (st_get mg_ui) (\<lambda>ui.
     st_bind (st_lift (ui_0_3_4_hosts ui)) (\<lambda>ui.
     st_bind (move_community (Some COMMUNITY_URL)) (\<lambda>_.
     st_bind (st_lift (ui_0_3_4_theme ui)) (\<lambda>ui.
     st_modify (\<lambda>s. s\<lparr>mg_ui := ui\<rparr>)))))))))))))))"

definition v0_3_4_down :: mig where
  "v0_3_4_down env =
     st_bind (move_community (Some MAIN_REGISTRY)) (\<lambda>_. with_ui ui_0_3_4_down)"

subsection \<open>Versions 0.3.4.3 and 0.3.4.4\<close>

text \<open>Reading and saving the server info writes the default values of new fields; none of the parts above is new.\<close>

definition v0_3_4_3_up :: mig where
  "v0_3_4_3_up env = st_return ()"

definition v0_3_4_4_up :: mig where
  "v0_3_4_4_up env =
     st_bind (st_get mg_tor_address) (\<lambda>url.
     st_bind (st_lift (ok_or (mv_set_scheme env ''https'' url) (Error ParseUrl (Msg ''unable to update url scheme to https'')))) (\<lambda>url.
     st_modify (\<lambda>s. s\<lparr>mg_tor_address := url\<rparr>)))"

section \<open>Versions\<close>

datatype known_version =
    V0_3_0 | V0_3_0_1 | V0_3_0_2 | V0_3_0_3 | V0_3_1 | V0_3_1_1 | V0_3_1_2 | V0_3_2 | V0_3_2_1 | V0_3_3
  | V0_3_4 | V0_3_4_1 | V0_3_4_2 | V0_3_4_3 | V0_3_4_4

text \<open>An implementation of \<open>VersionT\<close>. The oldest version is its own predecessor. All have the same \<open>compat\<close>.\<close>

record version_t =
  vt_previous :: known_version
  vt_semver :: emver
  vt_up :: mig
  vt_down :: mig

definition v0_3_0 :: version_t where
  "v0_3_0 = \<lparr>vt_previous = V0_3_0, vt_semver = (0, 3, 0, 0), vt_up = no_migration, vt_down = no_migration\<rparr>"

definition v0_3_0_1 :: version_t where
  "v0_3_0_1 = \<lparr>vt_previous = V0_3_0, vt_semver = (0, 3, 0, 1), vt_up = no_migration, vt_down = no_migration\<rparr>"

definition v0_3_0_2 :: version_t where
  "v0_3_0_2 = \<lparr>vt_previous = V0_3_0_1, vt_semver = (0, 3, 0, 2), vt_up = no_migration, vt_down = no_migration\<rparr>"

definition v0_3_0_3 :: version_t where
  "v0_3_0_3 = \<lparr>vt_previous = V0_3_0_2, vt_semver = (0, 3, 0, 3), vt_up = no_migration, vt_down = no_migration\<rparr>"

definition v0_3_1 :: version_t where
  "v0_3_1 = \<lparr>vt_previous = V0_3_0_3, vt_semver = (0, 3, 1, 0), vt_up = no_migration, vt_down = no_migration\<rparr>"

definition v0_3_1_1 :: version_t where
  "v0_3_1_1 = \<lparr>vt_previous = V0_3_1, vt_semver = (0, 3, 1, 1), vt_up = no_migration, vt_down = no_migration\<rparr>"

definition v0_3_1_2 :: version_t where
  "v0_3_1_2 = \<lparr>vt_previous = V0_3_1_1, vt_semver = (0, 3, 1, 2), vt_up = no_migration, vt_down = no_migration\<rparr>"

definition v0_3_2 :: version_t where
  "v0_3_2 = \<lparr>vt_previous = V0_3_1_2, vt_semver = (0, 3, 2, 0), vt_up = v0_3_2_up, vt_down = no_migration\<rparr>"

definition v0_3_2_1 :: version_t where
  "v0_3_2_1 = \<lparr>vt_previous = V0_3_2, vt_semver = (0, 3, 2, 1), vt_up = no_migration, vt_down = no_migration\<rparr>"

definition v0_3_3 :: version_t where
  "v0_3_3 = \<lparr>vt_previous = V0_3_2_1, vt_semver = (0, 3, 3, 0), vt_up = v0_3_3_up, vt_down = v0_3_3_down\<rparr>"

definition v0_3_4 :: version_t where
  "v0_3_4 = \<lparr>vt_previous = V0_3_3, vt_semver = (0, 3, 4, 0), vt_up = v0_3_4_up, vt_down = v0_3_4_down\<rparr>"

definition v0_3_4_1 :: version_t where
  "v0_3_4_1 = \<lparr>vt_previous = V0_3_4, vt_semver = (0, 3, 4, 1), vt_up = no_migration, vt_down = no_migration\<rparr>"

definition v0_3_4_2 :: version_t where
  "v0_3_4_2 = \<lparr>vt_previous = V0_3_4_1, vt_semver = (0, 3, 4, 2), vt_up = no_migration, vt_down = no_migration\<rparr>"

definition v0_3_4_3 :: version_t where
  "v0_3_4_3 = \<lparr>vt_previous = V0_3_4_2, vt_semver = (0, 3, 4, 3), vt_up = v0_3_4_3_up, vt_down = no_migration\<rparr>"

definition v0_3_4_4 :: version_t where
  "v0_3_4_4 = \<lparr>vt_previous = V0_3_4_3, vt_semver = (0, 3, 4, 4), vt_up = v0_3_4_4_up, vt_down = no_migration\<rparr>"

fun impl :: "known_version \<Rightarrow> version_t" where
  "impl V0_3_0 = v0_3_0"
| "impl V0_3_0_1 = v0_3_0_1"
| "impl V0_3_0_2 = v0_3_0_2"
| "impl V0_3_0_3 = v0_3_0_3"
| "impl V0_3_1 = v0_3_1"
| "impl V0_3_1_1 = v0_3_1_1"
| "impl V0_3_1_2 = v0_3_1_2"
| "impl V0_3_2 = v0_3_2"
| "impl V0_3_2_1 = v0_3_2_1"
| "impl V0_3_3 = v0_3_3"
| "impl V0_3_4 = v0_3_4"
| "impl V0_3_4_1 = v0_3_4_1"
| "impl V0_3_4_2 = v0_3_4_2"
| "impl V0_3_4_3 = v0_3_4_3"
| "impl V0_3_4_4 = v0_3_4_4"

abbreviation semver :: "known_version \<Rightarrow> emver" where
  "semver v \<equiv> vt_semver (impl v)"

abbreviation previous :: "known_version \<Rightarrow> known_version" where
  "previous v \<equiv> vt_previous (impl v)"

abbreviation Current :: known_version where
  "Current \<equiv> V0_3_4_4"

text \<open>The order of \<open>emver::Version\<close> is that of its four numbers.\<close>

definition emver_lt :: "emver \<Rightarrow> emver \<Rightarrow> bool" where
  "emver_lt a b = (case (a, b) of ((a1, a2, a3, a4), (b1, b2, b3, b4)) \<Rightarrow>
     a1 < b1 \<or> a1 = b1 \<and> (a2 < b2 \<or> a2 = b2 \<and> (a3 < b3 \<or> a3 = b3 \<and> a4 < b4)))"

lemmas impl_defs = v0_3_0_def v0_3_0_1_def v0_3_0_2_def v0_3_0_3_def v0_3_1_def v0_3_1_1_def v0_3_1_2_def v0_3_2_def
  v0_3_2_1_def v0_3_3_def v0_3_4_def v0_3_4_1_def v0_3_4_2_def v0_3_4_3_def v0_3_4_4_def

definition commit :: "known_version \<Rightarrow> (mig_state, error, unit) st" where
  "commit v =
     st_bind (st_modify (\<lambda>s. s\<lparr>mg_compat := ((0, 3, 0, 0), semver Current)\<rparr>)) (\<lambda>_.
     st_modify (\<lambda>s. s\<lparr>mg_version := semver v\<rparr>))"

text \<open>Its place in the chain of predecessors.\<close>

fun version_rank :: "known_version \<Rightarrow> nat" where
  "version_rank V0_3_0 = 0" | "version_rank V0_3_0_1 = 1" | "version_rank V0_3_0_2 = 2" | "version_rank V0_3_0_3 = 3" | "version_rank V0_3_1 = 4"
| "version_rank V0_3_1_1 = 5" | "version_rank V0_3_1_2 = 6" | "version_rank V0_3_2 = 7" | "version_rank V0_3_2_1 = 8" | "version_rank V0_3_3 = 9"
| "version_rank V0_3_4 = 10" | "version_rank V0_3_4_1 = 11" | "version_rank V0_3_4_2 = 12" | "version_rank V0_3_4_3 = 13" | "version_rank V0_3_4_4 = 14"

lemma semver_less: "emver_lt (semver v) (semver w) \<longleftrightarrow> version_rank v < version_rank w"
  by (cases v; cases w) (simp_all add: impl_defs emver_lt_def)

lemma semver_inj: "semver v = semver w \<longleftrightarrow> v = w"
  by (cases v; cases w) (simp_all add: impl_defs)

lemma rank_inj: "version_rank v = version_rank w \<longleftrightarrow> v = w"
  by (cases v; cases w) simp_all

lemma rank_previous: "version_rank (previous v) = version_rank v - 1"
  by (cases v) (simp_all add: impl_defs)

definition no_path :: "string \<Rightarrow> error" where
  "no_path t = Error MigrationFailed (Msg (''NO PATH '' @ t))"

function migrate_from_unchecked :: "known_version \<Rightarrow> known_version \<Rightarrow> mig" where
  "migrate_from_unchecked self v env =
     st_bind
       (if emver_lt (semver v) (semver (previous self)) then migrate_from_unchecked (previous self) v env
        else if emver_lt (semver (previous self)) (semver v) then st_lift (Err (no_path ''FROM''))
        else st_return ()) (\<lambda>_.
     st_bind (vt_up (impl self) env) (\<lambda>_. commit self))"
  by pat_completeness auto
termination
  by (relation "measure (\<lambda>(self, v, env). version_rank self)") (auto simp: semver_less rank_previous)

function rollback_to_unchecked :: "known_version \<Rightarrow> known_version \<Rightarrow> mig" where
  "rollback_to_unchecked self v env =
     st_bind (vt_down (impl self) env) (\<lambda>_.
     st_bind (commit (previous self)) (\<lambda>_.
     if emver_lt (semver v) (semver (previous self)) then rollback_to_unchecked (previous self) v env
     else if emver_lt (semver (previous self)) (semver v) then st_lift (Err (no_path ''TO''))
     else st_return ()))"
  by pat_completeness auto
termination
  by (relation "measure (\<lambda>(self, v, env). version_rank self)") (auto simp: semver_less rank_previous)

declare migrate_from_unchecked.simps [simp del] rollback_to_unchecked.simps [simp del]

definition migrate_to :: "known_version \<Rightarrow> known_version \<Rightarrow> mig" where
  "migrate_to self v env =
     (if emver_lt (semver v) (semver self) then rollback_to_unchecked self v env
      else if emver_lt (semver self) (semver v) then migrate_from_unchecked v self env
      else st_return ())"

text \<open>\<open>from_util_version\<close> tries the variants in their order; \<open>None\<close> stands for \<open>Other\<close>.\<close>

definition all_versions :: "known_version list" where
  "all_versions = [V0_3_0, V0_3_0_1, V0_3_0_2, V0_3_0_3, V0_3_1, V0_3_1_1, V0_3_1_2, V0_3_2, V0_3_2_1, V0_3_3,
     V0_3_4, V0_3_4_1, V0_3_4_2, V0_3_4_3, V0_3_4_4]"

datatype any_version = Known known_version | Other emver

definition from_util_version :: "emver \<Rightarrow> any_version" where
  "from_util_version x = (case find (\<lambda>v. x = semver v) all_versions of Some v \<Rightarrow> Known v | None \<Rightarrow> Other x)"

fun as_sem_ver :: "any_version \<Rightarrow> emver" where
  "as_sem_ver (Known v) = semver v"
| "as_sem_ver (Other x) = x"

definition version_init :: mig where
  "version_init env =
     st_bind (st_get mg_version) (\<lambda>x.
     case from_util_version x of
       Known v \<Rightarrow> migrate_to v Current env
     | Other _ \<Rightarrow> st_lift (Err (Error InvalidRequest (Msg ''Cannot downgrade''))))"
section \<open>The steps of a migration\<close>

definition run_step :: "mig_env \<Rightarrow> known_version \<Rightarrow> (mig_state, error, unit) st" where
  "run_step env v = st_bind (vt_up (impl v) env) (\<lambda>_. commit v)"

text \<open>The versions behind a version, in the order of their release.\<close>

definition later :: "known_version \<Rightarrow> known_version list" where
  "later v = filter (\<lambda>w. emver_lt (semver v) (semver w)) all_versions"

definition between :: "known_version \<Rightarrow> known_version \<Rightarrow> known_version list" where
  "between v self = filter (\<lambda>w. version_rank v < version_rank w \<and> version_rank w \<le> version_rank self) all_versions"

lemma all_versions_all: "v \<in> set all_versions"
  by (cases v) (simp_all add: all_versions_def)

lemma rank_le_current: "version_rank v \<le> version_rank Current"
  by (cases v) simp_all

lemma later_between: "later v = between v Current"
  using rank_le_current by (simp add: later_def between_def semver_less)

lemma between_snoc: "version_rank v < version_rank self \<Longrightarrow> between v self = between v (previous self) @ [self]"
  by (cases self; cases v) (simp_all add: between_def all_versions_def impl_defs)

lemma between_self: "between v v = []"
  by (simp add: between_def)

lemma later_unfold: "later v = [] \<or> later v = hd (later v) # later (hd (later v))"
  by (cases v) (simp_all add: later_def all_versions_def impl_defs emver_lt_def)

lemma migrate_from_steps: "version_rank v < version_rank self \<Longrightarrow> migrate_from_unchecked self v env = st_for (run_step env) (between v self)"
proof (induction self v env rule: migrate_from_unchecked.induct)
  case (1 self v env)
  have prev: "version_rank (previous self) = version_rank self - 1" by (rule rank_previous)
  have rest: "st_bind (vt_up (impl self) env) (\<lambda>_. commit self) = run_step env self" by (simp add: run_step_def)
  have one: "st_bind m (\<lambda>_. st_for (run_step env) [self]) = st_bind m (\<lambda>_. run_step env self)" for m :: "(mig_state, error, unit) st"
    by (simp add: fun_eq_iff st_bind_def st_simps split: prod.splits res.splits)
  show ?case
  proof (cases "version_rank v < version_rank (previous self)")
    case True
    then show ?thesis
      using 1 by (subst migrate_from_unchecked.simps) (simp add: semver_less between_snoc [OF 1(2)] st_for_append one rest del: st_for.simps)
  next
    case False
    then have v: "v = previous self" using 1(2) prev by (simp flip: rank_inj)
    have "between v self = [self]" using between_snoc [OF 1(2)] by (simp add: v between_self)
    then show ?thesis
      by (subst migrate_from_unchecked.simps)
        (simp add: v semver_less run_step_def fun_eq_iff st_bind_def st_simps split: prod.splits res.splits)
  qed
qed

lemma from_util_known: "from_util_version (semver v) = Known v"
  by (cases v) (simp_all add: from_util_version_def all_versions_def impl_defs)

lemma from_util_KnownD: "from_util_version x = Known v \<Longrightarrow> x = semver v"
  unfolding from_util_version_def by (auto simp: find_Some_iff split: option.splits)

text \<open>
  Reading the recorded version and writing it back gives the same version, whether the system knows it or not, and
  every version of the system is recognized.
\<close>

theorem version_roundtrip:
  "as_sem_ver (from_util_version x) = x \<and> from_util_version (as_sem_ver (Known v)) = Known v"
proof
  show "as_sem_ver (from_util_version x) = x"
    by (auto simp: from_util_version_def find_Some_iff split: option.splits)
  show "from_util_version (as_sem_ver (Known v)) = Known v" by (simp add: from_util_known)
qed

text \<open>
  C12. At the start the database of a known version is migrated by exactly the steps of all later versions, each once and in
  the order of their release, every one followed by recording its version.
\<close>

theorem init_runs_later_steps:
  assumes "from_util_version (mg_version s) = Known v"
  shows "version_init env s = st_for (run_step env) (later v) s"
proof (cases "v = Current")
  case True
  then have "later v = []" by (simp add: later_between between_self)
  then show ?thesis using True assms by (simp add: version_init_def st_eval migrate_to_def impl_defs emver_lt_def)
next
  case False
  then have "version_rank v < version_rank Current" using rank_le_current [of v] rank_inj [of v Current] by linarith
  then show ?thesis
    using assms by (simp add: version_init_def st_eval migrate_to_def semver_less migrate_from_steps later_between del: version_rank.simps impl.simps)
qed

interpretation same_version: state_rel "\<lambda>s t. mg_version s = mg_version t"
  by unfold_locales simp_all

lemma same_version_ui: "same_version.keeps (with_ui f)"
  unfolding with_ui_def by (intro same_version.keeps_rules) simp

lemma same_version_name: "same_version.keeps (set_machine_name env h)"
  unfolding set_machine_name_def by (intro same_version.keeps_rules) simp

lemma same_version_move: "same_version.keeps (move_community url)"
  unfolding move_community_def
  by (intro same_version.keeps_rules) (auto simp: move_one_def same_version.keeps_def split: option.splits)

lemma up_keeps_version: "same_version.keeps (vt_up (impl v) env)"
proof -
  have "same_version.keeps (v0_3_2_up env)" "same_version.keeps (v0_3_4_4_up env)"
    unfolding v0_3_2_up_def v0_3_4_4_up_def by (intro same_version.keeps_rules same_version_name; simp)+
  moreover have "same_version.keeps (v0_3_4_up env)"
    unfolding v0_3_4_up_def Let_def by (intro same_version.keeps_rules same_version_name same_version_move) simp_all
  ultimately show ?thesis
    by (cases v) (simp_all add: impl_defs no_migration_def v0_3_3_up_def v0_3_4_3_up_def same_version.keeps_basic same_version_ui)
qed

lemma run_step_version:
  assumes "run_step env v s = (r, t)"
  shows "mg_version t = (if r = Ok () then semver v else mg_version s)"
proof -
  obtain r1 s1 where up: "vt_up (impl v) env s = (r1, s1)" by (cases "vt_up (impl v) env s")
  have "mg_version s1 = mg_version s" using same_version.keepsD [OF up_keeps_version up] by simp
  then show ?thesis using assms up by (cases r1) (auto simp: run_step_def commit_def st_eval)
qed

lemma steps_recorded:
  assumes "st_for (run_step env) vs s = (r, t)" and "mg_version s = semver v"
  shows "\<exists>run rest. vs = run @ rest \<and> mg_version t = semver (last (v # run)) \<and> (r = Ok () \<longleftrightarrow> rest = [])"
  using assms
proof (induction vs arbitrary: s v)
  case (Cons w vs)
  obtain r1 s1 where step: "run_step env w s = (r1, s1)" by (cases "run_step env w s")
  show ?case
  proof (cases "r1 = Ok ()")
    case True
    then have "st_for (run_step env) vs s1 = (r, t)" "mg_version s1 = semver w"
      using Cons.prems(1) step run_step_version [OF step] by auto
    from Cons.IH [OF this] obtain run rest where
      "vs = run @ rest" "mg_version t = semver (last (w # run))" "r = Ok () \<longleftrightarrow> rest = []" by blast
    then show ?thesis by (intro exI [of _ "w # run"] exI [of _ rest]) auto
  next
    case False
    then have "r \<noteq> Ok ()" "t = s1" using Cons.prems(1) step by (cases r1; auto)+
    then show ?thesis using Cons.prems(2) run_step_version [OF step] False by (intro exI [of _ "[]"] exI [of _ "w # vs"]) auto
  qed
qed (simp add: st_simps)

lemma later_rest: "later v = run @ rest \<Longrightarrow> rest = later (last (v # run))"
proof (induction run arbitrary: v)
  case (Cons w run)
  then have "later v = w # later w" using later_unfold [of v] by auto
  with Cons show ?case by simp
qed simp

text \<open>
  C13. Migration is resumed where it stopped: whatever the outcome of a start, the recorded version is the last one whose step
  was completed, and the next start runs exactly the steps that are left; it is done when all steps were completed.
\<close>

theorem init_resumes:
  assumes "from_util_version (mg_version s) = Known v" and "version_init env s = (r, t)"
  shows "\<exists>run rest. later v = run @ rest \<and> mg_version t = semver (last (v # run)) \<and> (r = Ok () \<longleftrightarrow> rest = []) \<and>
    version_init env' t = st_for (run_step env') rest t"
proof -
  have "st_for (run_step env) (later v) s = (r, t)" "mg_version s = semver v"
    using assms init_runs_later_steps [OF assms(1)] from_util_KnownD by auto
  from steps_recorded [OF this] obtain run rest where
    run: "later v = run @ rest" "mg_version t = semver (last (v # run))" "r = Ok () \<longleftrightarrow> rest = []" by blast
  have "version_init env' t = st_for (run_step env') (later (last (v # run))) t"
    using run(2) by (intro init_runs_later_steps) (simp only: from_util_known)
  then show ?thesis using run later_rest [OF run(1)] by metis
qed
section \<open>What happens to the marketplace\<close>

text \<open>The shape in which the user interface keeps its marketplace, with no address selected.\<close>

definition market :: "(string, json) imap \<Rightarrow> (string, json) imap \<Rightarrow> (string, json) imap \<Rightarrow> json" where
  "market u m h = JObject (im_insert ''marketplace'' (JObject (im_insert ''known-hosts'' (JObject h) m)) u)"

lemma im_insert_twice: "im_insert k v (im_insert k w m) = im_insert k v m"
  unfolding im_insert_def by (induction m) auto

lemma market_put_host: "json_put (known_hosts @ [x]) w (market u m h) = Ok (market u m (im_insert x w h))"
  by (simp add: json_put_def market_def im_insert_twice)

definition host_urls :: "(string, json) imap \<Rightarrow> string list" where
  "host_urls hosts = map ensure_trailing_slashes (List.map_filter (\<lambda>e. as_string (json_index (snd e) ''url'')) hosts)"

lemma keep_hosts:
  "rfold (\<lambda>e ui. case as_string (json_index (snd e) ''url'') of
        Some url \<Rightarrow> json_put (known_hosts @ [ensure_trailing_slashes url]) (JObject []) ui
      | None \<Rightarrow> Ok ui) hosts (market u m h) = Ok (market u m (fold (\<lambda>x. im_insert x (JObject [])) (host_urls hosts) h))"
proof (induction hosts arbitrary: h)
  case (Cons e hosts)
  then show ?case
    by (cases "as_string (json_index (snd e) ''url'')") (simp_all add: host_urls_def map_filter_simps market_put_host del: append.simps)
qed (simp add: host_urls_def map_filter_simps)

lemma get_inserted_all: "im_get (fold (\<lambda>x. im_insert x w) xs h) k = (if k \<in> set xs then Some w else im_get h k)"
  by (induction xs arbitrary: h) auto

text \<open>
  Migrating the interface to version 0.3.3 keeps every known host under its address, but never the choice among them:
  the hosts are objects while the code looks for an address as a plain string, so that the selected address is the
  default one afterwards, whatever was selected before.
\<close>

theorem marketplace_choice_lost:
  assumes "im_ok m" and "im_get u ''marketplace'' = Some (JObject m)" and "im_get m ''selected-url'' = None"
    and hosts: "im_get m ''known-hosts'' = Some (JObject hosts)" and "list_all (\<lambda>e. type_of (snd e) = ''object'') hosts"
    and "im_ok u"
  shows "\<exists>ui. ui_0_3_3_up (JObject u) = (Ok ui :: (error, json) res) \<and>
    json_index (json_index ui ''marketplace'') ''selected-url'' = JString default_url \<and>
    list_all (\<lambda>url. json_index (json_index (json_index ui ''marketplace'') ''known-hosts'') url = JObject []) (host_urls hosts)"
proof -
  let ?u = "im_remove ''auto-check-updates'' (im_remove ''pkg-order'' u)"
  let ?h = "im_insert ''https://registry.start9.com/'' (JObject []) (fold (\<lambda>x. im_insert x (JObject [])) (host_urls hosts) [])"
  let ?m = "im_remove ''selected-id'' (im_insert ''known-hosts'' (JObject ?h) m)"
  have u: "im_get ?u ''marketplace'' = Some (JObject m)" using assms(2,6) by (simp add: im.lookup_del im.ok_del)
  have sel: "selected_host (JObject u) \<noteq> Some (JString x)" for x
    using assms(2,5) hosts by (auto simp: selected_host_def json_index_def list_all_iff split: option.splits json.splits dest!: im_get_SomeD)
  then have first: "(case selected_host (JObject u) of Some (JString url) \<Rightarrow> json_put [''marketplace'', ''selected-url''] (JString url) (JObject u)
      | _ \<Rightarrow> Ok (JObject u)) = (Ok (JObject u) :: (error, json) res)"
    by (auto split: option.split json.split)
  have "(json_put known_hosts JNull (JObject ?u) :: (error, json) res) = Ok (JObject (im_insert ''marketplace'' (JObject (im_insert ''known-hosts'' JNull m)) ?u))"
    using u by (simp add: json_put_def)
  moreover have "(json_put known_hosts (JObject []) (JObject (im_insert ''marketplace'' (JObject (im_insert ''known-hosts'' JNull m)) ?u)) :: (error, json) res) =
      Ok (market ?u m [])"
    by (simp add: json_put_def market_def im_insert_twice)
  moreover have "json_index (json_index (JObject ?u) ''marketplace'') ''known-hosts'' = JObject hosts"
    using u hosts by (simp add: json_index_def)
  ultimately have "(ui_0_3_3_up (JObject u) :: (error, json) res) =
      (let ui = json_adjust ''marketplace'' (json_remove ''selected-id'') (market ?u m ?h) in
       if json_index (json_index ui ''marketplace'') ''selected-url'' = JNull
       then json_put [''marketplace'', ''selected-url''] (JString default_url) ui else Ok ui)"
    unfolding ui_0_3_3_up_def first
    by (simp add: keep_hosts market_put_host del: append.simps)
  moreover have "json_adjust ''marketplace'' (json_remove ''selected-id'') (market ?u m ?h) = JObject (im_insert ''marketplace'' (JObject ?m) ?u)"
    by (simp add: market_def im_insert_twice)
  moreover have m: "im_get ?m ''selected-url'' = None" "im_get ?m ''known-hosts'' = Some (JObject ?h)"
    using assms(1,3) by (simp_all add: im.lookup_del im.ok_put)
  ultimately have "(ui_0_3_3_up (JObject u) :: (error, json) res) = Ok (JObject (im_insert ''marketplace''
      (JObject (im_insert ''selected-url'' (JString default_url) ?m)) ?u))"
    by (simp add: json_index_def json_put_def im_insert_twice)
  then show ?thesis
    using m by (intro exI conjI) (auto simp: json_index_def list_all_iff get_inserted_all)
qed
section \<open>Packages that are not installed\<close>

lemma st_for_reaches:
  assumes "st_for f xs s = (Ok u, t)" and "x \<in> set xs" and "P s"
    and "\<And>y s s'. y \<in> set xs \<Longrightarrow> P s \<Longrightarrow> f y s = (Ok (), s') \<Longrightarrow> P s'"
  shows "\<exists>s' t'. P s' \<and> f x s' = (Ok (), t')"
  using assms
proof (induction xs arbitrary: s)
  case (Cons y xs)
  obtain s1 where f: "f y s = (Ok (), s1)" and rest: "st_for f xs s1 = (Ok u, t)"
    using Cons.prems(1) by (auto simp: st_bind_eq_Ok)
  show ?case
  proof (cases "x = y")
    case False
    then show ?thesis using Cons.IH [OF rest] Cons.prems f by (metis list.set_intros set_ConsD)
  qed (use f Cons.prems(3) in blast)
qed simp

interpretation unready: state_rel "\<lambda>s t. bt_get (mg_packages s) p = Some None \<longrightarrow> bt_get (mg_packages t) p = Some None" for p
  by unfold_locales simp_all

lemma unready_move_one: "unready.keeps p (move_one url q)"
  by (auto simp: unready.keeps_def move_one_def split: option.splits)

lemma unready_parts:
  "unready.keeps p (with_ui f)" "unready.keeps p (set_machine_name env h)" "unready.keeps p (move_community url)" "unready.keeps p (commit v)"
  unfolding with_ui_def set_machine_name_def move_community_def commit_def
  by (intro unready.keeps_rules unready_move_one; simp)+

lemma unready_step: "unready.keeps p (run_step env v)"
proof -
  have "unready.keeps p (v0_3_2_up env)" "unready.keeps p (v0_3_4_4_up env)"
    unfolding v0_3_2_up_def v0_3_4_4_up_def by (intro unready.keeps_rules unready_parts; simp)+
  moreover have "unready.keeps p (v0_3_4_up env)"
    unfolding v0_3_4_up_def Let_def by (intro unready.keeps_rules unready_parts) simp_all
  ultimately have "unready.keeps p (vt_up (impl v) env)"
    by (cases v) (simp_all add: impl_defs no_migration_def v0_3_3_up_def v0_3_4_3_up_def unready.keeps_basic unready_parts)
  then show ?thesis unfolding run_step_def by (intro unready.keeps_bind unready_parts)
qed

lemma move_community_stuck:
  assumes "bt_get (mg_packages s) p = Some None" and "p \<in> set COMMUNITY_SERVICES"
  shows "fst (move_community url s) \<noteq> Ok ()"
proof
  assume "fst (move_community url s) = Ok ()"
  then obtain t where run: "st_for (move_one url) (bt_keys (mg_packages s)) s = (Ok (), t)"
    by (cases "move_community url s") (auto simp: move_community_def st_eval)
  have "p \<in> set (bt_keys (mg_packages s))" using assms(1) bt_get_None [of "mg_packages s" p] by auto
  from st_for_reaches [OF run this, where P = "\<lambda>s. bt_get (mg_packages s) p = Some None", OF assms(1)]
  obtain s' t' where "bt_get (mg_packages s') p = Some None" "move_one url p s' = (Ok (), t')"
    using unready.keepsD [OF unready_move_one] by blast
  then show False using assms(2) by (simp add: move_one_def)
qed

text \<open>
  A community package that is being installed, restored or removed when the system is updated from before 0.3.4 keeps
  the system from starting: no start can complete the migrations, although what would clean up the package runs only
  behind them.
\<close>

theorem unfinished_package_blocks_migration:
  assumes "from_util_version (mg_version s) = Known v" and "emver_lt (semver v) (0, 3, 4, 0)"
    and "p \<in> set COMMUNITY_SERVICES" and "bt_get (mg_packages s) p = Some None"
  shows "fst (version_init env s) \<noteq> Ok () \<and> bt_get (mg_packages (snd (version_init env s))) p = Some None"
proof
  have init: "version_init env s = st_for (run_step env) (later v) s" using assms(1) by (rule init_runs_later_steps)
  have "unready.keeps p (st_for (run_step env) (later v))" by (intro unready.keeps_for unready_step)
  then show "bt_get (mg_packages (snd (version_init env s))) p = Some None"
    using assms(4) unfolding init unready.keeps_def by blast
  show "fst (version_init env s) \<noteq> Ok ()"
  proof
    assume "fst (version_init env s) = Ok ()"
    then obtain t where run: "st_for (run_step env) (later v) s = (Ok (), t)" unfolding init
      by (cases "st_for (run_step env) (later v) s") auto
    have "semver V0_3_4 = (0, 3, 4, 0)" by (simp add: impl_defs)
    then have "V0_3_4 \<in> set (later v)" using assms(2) all_versions_all by (simp add: later_def del: impl.simps)
    from st_for_reaches [OF run this, where P = "\<lambda>s. bt_get (mg_packages s) p = Some None", OF assms(4)]
    obtain s' t' where s': "bt_get (mg_packages s') p = Some None" and "run_step env V0_3_4 s' = (Ok (), t')"
      using unready.keepsD [OF unready_step] by blast
    then obtain s1 where up: "v0_3_4_up env s' = (Ok (), s1)" by (auto simp: run_step_def impl_defs st_bind_eq_Ok)
    have "move_community (Some COMMUNITY_URL) s2 \<noteq> (Ok (), t2)" if "mg_packages s2 = mg_packages s'" for s2 t2
      using move_community_stuck [of s2 p "Some COMMUNITY_URL"] s' assms(3) that by auto
    then show False
      using up by (auto simp: v0_3_4_up_def set_machine_name_def st_bind_eq_Ok st_simps Let_def)
  qed
qed

definition quiet_mig_env :: mig_env where
  "quiet_mig_env = \<lparr>mv_load = Ok (), mv_save = Ok (), mv_openssh = \<lambda>k. Ok k, mv_sha256 = \<lambda>_. [10, 255], mv_hostnamectl = \<lambda>_. Ok (),
     mv_avahi = Ok (), mv_adjective_noun = ''calm-otter'', mv_random_id = ''00000000-0000'', mv_uuids = \<lambda>_. ''id'',
     mv_set_scheme = \<lambda>s u. Some (s @ u)\<rparr>"

definition old_state :: "emver \<Rightarrow> (package_id, string option option) btmap \<Rightarrow> mig_state" where
  "old_state v ps = \<lparr>mg_version = v, mg_compat = ((0, 3, 0, 0), v), mg_ui = JObject [], mg_hostname = None, mg_id = ''abcdefgh'',
     mg_pubkey = '''', mg_ca_fingerprint = '''', mg_tor_address = ''://x.onion'', mg_packages = ps,
     mg_account = \<lparr>ac_server_id = None, ac_hostname = None, ac_key = ''k'', ac_root_ca_cert = ''c''\<rparr>, mg_machine_name = ''''\<rparr>"

theorem init_runs_later_steps_witness:
  "mg_version (snd (version_init quiet_mig_env (old_state (0, 3, 4, 3) []))) = (0, 3, 4, 4)"
proof -
  have "from_util_version (mg_version (old_state (0, 3, 4, 3) [])) = Known V0_3_4_3" by code_simp
  from init_runs_later_steps [OF this, of quiet_mig_env] show ?thesis
    by (simp add: later_def all_versions_def impl_defs emver_lt_def run_step_def v0_3_4_4_up_def commit_def quiet_mig_env_def
      old_state_def st_eval ok_or_def)
qed

theorem init_resumes_witness:
  "\<exists>run rest. later V0_3_4_3 = run @ rest \<and>
     mg_version (snd (version_init (quiet_mig_env\<lparr>mv_set_scheme := \<lambda>_ _. None\<rparr>) (old_state (0, 3, 4, 3) []))) = semver (last (V0_3_4_3 # run)) \<and>
     rest = [V0_3_4_4]"
proof -
  let ?env = "quiet_mig_env\<lparr>mv_set_scheme := \<lambda>_ _. None\<rparr>"
  let ?s = "old_state (0, 3, 4, 3) []"
  have known: "from_util_version (mg_version ?s) = Known V0_3_4_3" by code_simp
  have later: "later V0_3_4_3 = [V0_3_4_4]" by code_simp
  have "version_init ?env ?s = (fst (version_init ?env ?s), snd (version_init ?env ?s))" by simp
  from init_resumes [OF known this, of quiet_mig_env] obtain run rest where
    "later V0_3_4_3 = run @ rest" "mg_version (snd (version_init ?env ?s)) = semver (last (V0_3_4_3 # run))"
    "fst (version_init ?env ?s) = Ok () \<longleftrightarrow> rest = []" by blast
  moreover have "fst (version_init ?env ?s) \<noteq> Ok ()" by code_simp
  moreover from calculation have "rest = [V0_3_4_4]" unfolding later by (cases run) auto
  ultimately show ?thesis by blast
qed

theorem marketplace_choice_lost_witness:
  "\<exists>ui. ui_0_3_3_up (JObject [(''marketplace'', JObject [(''selected-id'', JString ''a''), (''known-hosts'',
       JObject [(''a'', JObject [(''name'', JString ''mine''), (''url'', JString ''https://mine.org'')])])])]) = (Ok ui :: (error, json) res) \<and>
     json_index (json_index ui ''marketplace'') ''selected-url'' = JString default_url"
proof -
  let ?hosts = "[(''a'', JObject [(''name'', JString ''mine''), (''url'', JString ''https://mine.org'')])]"
  let ?m = "[(''selected-id'', JString ''a''), (''known-hosts'', JObject ?hosts)]"
  have "im_ok ?m" "im_get [(''marketplace'', JObject ?m)] ''marketplace'' = Some (JObject ?m)" "im_get ?m ''selected-url'' = None"
    "im_get ?m ''known-hosts'' = Some (JObject ?hosts)" "list_all (\<lambda>e. type_of (snd e) = ''object'') ?hosts" "im_ok [(''marketplace'', JObject ?m)]"
    by simp_all
  from marketplace_choice_lost [OF this] show ?thesis by blast
qed

theorem unfinished_package_blocks_migration_witness:
  "fst (version_init quiet_mig_env (old_state (0, 3, 3, 0) [(''agora'', None)])) \<noteq> Ok ()"
proof -
  have "from_util_version (mg_version (old_state (0, 3, 3, 0) [(''agora'', None)])) = Known V0_3_3"
    "emver_lt (semver V0_3_3) (0, 3, 4, 0)" "''agora'' \<in> set COMMUNITY_SERVICES"
    "bt_get (mg_packages (old_state (0, 3, 3, 0) [(''agora'', None)])) ''agora'' = Some None"
    by (code_simp, code_simp, simp add: COMMUNITY_SERVICES_def, simp add: old_state_def)
  from unfinished_package_blocks_migration [OF this] show ?thesis by blast
qed

end
