(* ===== verification/Http_Reader.thy ===== *)
theory Http_Reader
  imports Prelude Config_Types
begin

text \<open>
  Reading a file over HTTP in ranges (\<^verbatim>\<open>util/http_reader.rs\<close>): what a package archive is read through when it is
  installed from an address. The server is a parameter. Waiting is left out: a call of \<open>http_poll_read\<close> stands for the calls
  until one is ready.
\<close>

section \<open>The reader\<close>

text \<open>\<open>usize\<close> and \<open>i64\<close>, whose operations wrap around.\<close>

definition usize :: "int \<Rightarrow> nat" where
  "usize n = nat (n mod 2 ^ 64)"

definition i64 :: "int \<Rightarrow> int" where
  "i64 n = (n + 2 ^ 63) mod 2 ^ 64 - 2 ^ 63"

text \<open>What a body yields: bytes or an error.\<close>

datatype item = Chunk "nat list" | Broken string

datatype read_in_progress = NoRead | Body "item list"

record http_reader =
  cursor_pos :: nat
  total_bytes :: nat
  read_in_progress :: read_in_progress

text \<open>Headers of the answer to a \<open>HEAD\<close> request: absent, or bytes that are text or not.\<close>

datatype header_value = Text string | NotText

definition header_text :: "header_value \<Rightarrow> (error, string) res" where
  "header_text h = (case h of Text t \<Rightarrow> Ok t | NotText \<Rightarrow> Err (Error Utf8 (Msg ''failed to convert header to a str'')))"

definition http_new :: "(string \<Rightarrow> (error, nat) res) \<Rightarrow> header_value option \<Rightarrow> header_value option \<Rightarrow> (error, http_reader) res" where
  "http_new parse accept_ranges content_length =
     rbind (case accept_ranges of
         Some h \<Rightarrow>
           rbind (header_text h) (\<lambda>t.
             if t = ''bytes'' then Ok ()
             else Err (Error MissingHeader (Msg (''HTTP range downloading not supported with this unit '' @ t))))
       | None \<Rightarrow> Err (Error MissingHeader (Msg ''HTTP range downloading not supported with this url''))) (\<lambda>_.
     rbind (case content_length of
         Some h \<Rightarrow> rbind (header_text h) parse
       | None \<Rightarrow> Err (Error MissingHeader (Msg ''No content length headers''))) (\<lambda>n.
     Ok \<lparr>cursor_pos = 0, total_bytes = n, read_in_progress = NoRead\<rparr>))"

text \<open>The server: the first and the last byte of a range to what it answers, an error or a body.\<close>

type_synonym 'w server = "nat \<Rightarrow> nat \<Rightarrow> 'w \<Rightarrow> (string, item list) res \<times> 'w"

definition get_range :: "'w server \<Rightarrow> nat \<Rightarrow> nat \<Rightarrow> nat \<Rightarrow> 'w \<Rightarrow> (string, item list) res \<times> 'w" where
  "get_range server start len bytes w =
     (let last = usize (int (min (usize (int start + int len)) bytes) - 1) in
      if last < start then (Ok [], w) else server start last w)"

text \<open>
  \<open>http_poll_read\<close> into a buffer with room for \<open>n\<close> bytes: the bytes it put there or an error. An end or an error of the body
  makes it try again from where it is, unless it is at the end of the file. No value means that it does not return.
\<close>

partial_function (option) http_poll_read :: "'w server \<Rightarrow> nat \<Rightarrow> http_reader \<Rightarrow> 'w \<Rightarrow> ((string, nat list) res \<times> http_reader \<times> 'w) option" where
  "http_poll_read server n r w =
     (case read_in_progress r of
        Body items \<Rightarrow>
          (case items of
             Chunk bs # rest \<Rightarrow>
               if n < length bs then
                 if cursor_pos r = total_bytes r then Some (Ok [], r\<lparr>read_in_progress := NoRead\<rparr>, w)
                 else http_poll_read server n (r\<lparr>read_in_progress := NoRead\<rparr>) w
               else Some (Ok bs, r\<lparr>read_in_progress := Body rest, cursor_pos := usize (int (cursor_pos r) + int (length bs))\<rparr>, w)
           | _ \<Rightarrow>
               if cursor_pos r = total_bytes r then Some (Ok [], r\<lparr>read_in_progress := NoRead\<rparr>, w)
               else http_poll_read server n (r\<lparr>read_in_progress := NoRead\<rparr>) w)
      | NoRead \<Rightarrow>
          (case get_range server (cursor_pos r) n (total_bytes r) w of
             (Ok body, w) \<Rightarrow> http_poll_read server n (r\<lparr>read_in_progress := Body body\<rparr>) w
           | (Err e, w) \<Rightarrow> Some (Err e, r, w)
           | (_, w) \<Rightarrow> None))"

declare http_poll_read.simps [code]

datatype http_seek_from = Start nat | Current int | End int

definition seek_relative :: "nat \<Rightarrow> int \<Rightarrow> http_reader \<Rightarrow> (string, unit) res \<times> http_reader" where
  "seek_relative base offset r =
     (if 2 ^ 63 \<le> base then (Err ''out of range integral type conversion attempted'', r)
      else let new_pos = i64 (int base + offset) in
        if new_pos < 0 then (Err ''Can't read before byte 0'', r)
        else (Ok (), r\<lparr>cursor_pos := nat new_pos\<rparr>))"

text \<open>Reads in progress are given up. An offset behind the end makes an error that nobody returns.\<close>

fun http_start_seek :: "http_seek_from \<Rightarrow> http_reader \<Rightarrow> (string, unit) res \<times> http_reader" where
  "http_start_seek (Start offset) r = (Ok (), r\<lparr>read_in_progress := NoRead, cursor_pos := offset\<rparr>)"
| "http_start_seek (Current offset) r = seek_relative (cursor_pos r) offset (r\<lparr>read_in_progress := NoRead\<rparr>)"
| "http_start_seek (End offset) r = seek_relative (total_bytes r) offset (r\<lparr>read_in_progress := NoRead\<rparr>)"

section \<open>What is read\<close>

text \<open>A body that gives the bytes of the file from a position on, in pieces that are not empty.\<close>

fun good :: "nat list \<Rightarrow> nat \<Rightarrow> item list \<Rightarrow> bool" where
  "good content s (Chunk bs # rest) = (bs \<noteq> [] \<and> bs = take (length bs) (drop s content) \<and> good content (s + length bs) rest)"
| "good content s _ = True"

text \<open>
  A server whose bodies hold the content of the file, and one from which sooner or later something of every range comes, after
  any number of bodies that end or break before their first byte.
\<close>

definition serves :: "nat list \<Rightarrow> 'w server \<Rightarrow> bool" where
  "serves content server \<longleftrightarrow> (\<forall>a b w items w'. server a b w = (Ok items, w') \<longrightarrow> good content a items)"

inductive answers :: "'w server \<Rightarrow> nat \<Rightarrow> nat \<Rightarrow> 'w \<Rightarrow> bool" for server a b where
  sends: "server a b w = (Ok (Chunk bs # rest), w') \<Longrightarrow> length bs \<le> Suc b - a \<Longrightarrow> answers server a b w"
| ends: "server a b w = (Ok [], w') \<Longrightarrow> answers server a b w' \<Longrightarrow> answers server a b w"
| breaks: "server a b w = (Ok (Broken e # rest), w') \<Longrightarrow> answers server a b w' \<Longrightarrow> answers server a b w"

definition responsive :: "nat list \<Rightarrow> 'w server \<Rightarrow> bool" where
  "responsive content server \<longleftrightarrow> (\<forall>a b w. a \<le> b \<longrightarrow> b < length content \<longrightarrow> answers server a b w)"

definition reader_ok :: "nat list \<Rightarrow> http_reader \<Rightarrow> bool" where
  "reader_ok content r \<longleftrightarrow> total_bytes r = length content \<and> length content < 2 ^ 64 \<and>
     (case read_in_progress r of Body items \<Rightarrow> good content (cursor_pos r) items | NoRead \<Rightarrow> True)"

lemma usize_id: "n < 2 ^ 64 \<Longrightarrow> usize (int n) = n"
  by (simp add: usize_def)

lemma piece_length: "bs \<noteq> [] \<Longrightarrow> bs = take (length bs) (drop s content) \<Longrightarrow> s + length bs \<le> length content"
  by (metis add.commute le_diff_conv2 length_drop length_greater_0_conv length_take less_imp_le_nat min.bounded_iff not_less
      order_refl zero_less_diff diff_is_0_eq)

text \<open>The bytes are the next ones of the file, there are none only at its end, and the reader is behind them afterwards.\<close>

fun delivers :: "nat list \<Rightarrow> nat \<Rightarrow> http_reader \<Rightarrow> (string, nat list) res \<times> http_reader \<times> 'w \<Rightarrow> bool" where
  "delivers content n r (Ok bs, r', w) \<longleftrightarrow>
     bs = take (length bs) (drop (cursor_pos r) content) \<and> length bs \<le> n \<and> cursor_pos r' = cursor_pos r + length bs \<and>
     reader_ok content r' \<and> (bs = [] \<longrightarrow> cursor_pos r = length content)"
| "delivers content n r _ \<longleftrightarrow> True"

lemma delivers_retry: "delivers content n (r\<lparr>read_in_progress := p\<rparr>) y = delivers content n r y"
  by (cases "(content, n, r, y)" rule: delivers.cases) simp_all

lemma get_range_good: "serves content server \<Longrightarrow> get_range server a n t w = (Ok body, w') \<Longrightarrow> good content a body"
  unfolding get_range_def serves_def Let_def by (metis Pair_inject good.simps(2) res.inject(1))

lemma reader_ok_step:
  assumes "reader_ok content r" and "read_in_progress r = Body (Chunk bs # rest)"
  shows "reader_ok content (r\<lparr>read_in_progress := Body rest, cursor_pos := usize (int (cursor_pos r) + int (length bs))\<rparr>)"
    and "usize (int (cursor_pos r) + int (length bs)) = cursor_pos r + length bs"
proof -
  have "cursor_pos r + length bs \<le> length content" using assms piece_length [of bs "cursor_pos r" content] by (simp add: reader_ok_def)
  then show u: "usize (int (cursor_pos r) + int (length bs)) = cursor_pos r + length bs"
    using assms(1) usize_id [of "cursor_pos r + length bs"] by (simp add: reader_ok_def)
  then show "reader_ok content (r\<lparr>read_in_progress := Body rest, cursor_pos := usize (int (cursor_pos r) + int (length bs))\<rparr>)"
    using assms by (simp add: reader_ok_def)
qed

lemma poll_read_delivers:
  assumes "http_poll_read server n r w = Some y" and "serves content server" and "reader_ok content r"
  shows "delivers content n r y"
proof -
  have "serves content server \<longrightarrow> reader_ok content r \<longrightarrow> delivers content n r y"
  proof (rule http_poll_read.raw_induct [OF _ assms(1), where P = "\<lambda>server n r w y. serves content server \<longrightarrow> reader_ok content r \<longrightarrow> delivers content n r y"],
      intro impI)
    fix rec :: "'a server \<Rightarrow> nat \<Rightarrow> http_reader \<Rightarrow> 'a \<Rightarrow> ((string, nat list) res \<times> http_reader \<times> 'a) option"
      and server :: "'a server" and n and r and w and y
    assume IH: "\<And>server n r w y. rec server n r w = Some y \<Longrightarrow> serves content server \<longrightarrow> reader_ok content r \<longrightarrow> delivers content n r y"
      and run: "(case read_in_progress r of
        NoRead \<Rightarrow> (case get_range server (cursor_pos r) n (total_bytes r) w of
             (Ok body, w) \<Rightarrow> rec server n (r\<lparr>read_in_progress := Body body\<rparr>) w
           | (Err e, w) \<Rightarrow> Some (Err e, r, w) | (Panic, w) \<Rightarrow> None | (Diverge, w) \<Rightarrow> None)
      | Body items \<Rightarrow> (case items of
             [] \<Rightarrow> if cursor_pos r = total_bytes r then Some (Ok [], r\<lparr>read_in_progress := NoRead\<rparr>, w)
               else rec server n (r\<lparr>read_in_progress := NoRead\<rparr>) w
           | Chunk bs # rest \<Rightarrow> if n < length bs then
                 if cursor_pos r = total_bytes r then Some (Ok [], r\<lparr>read_in_progress := NoRead\<rparr>, w)
                 else rec server n (r\<lparr>read_in_progress := NoRead\<rparr>) w
               else Some (Ok bs, r\<lparr>read_in_progress := Body rest, cursor_pos := usize (int (cursor_pos r) + int (length bs))\<rparr>, w)
           | Broken e # rest \<Rightarrow> if cursor_pos r = total_bytes r then Some (Ok [], r\<lparr>read_in_progress := NoRead\<rparr>, w)
               else rec server n (r\<lparr>read_in_progress := NoRead\<rparr>) w)) = Some y"
      and s: "serves content server" and r: "reader_ok content r"
    have again: "delivers content n r y" if "rec server n (r\<lparr>read_in_progress := NoRead\<rparr>) w = Some y"
      using IH [OF that] s r by (simp add: reader_ok_def delivers_retry)
    show "delivers content n r y"
    proof (cases "read_in_progress r")
      case NoRead
      show ?thesis
      proof (cases "get_range server (cursor_pos r) n (total_bytes r) w")
        case (Pair a w1)
        show ?thesis
        proof (cases a)
          case (Ok body)
          then have "rec server n (r\<lparr>read_in_progress := Body body\<rparr>) w1 = Some y" using run NoRead Pair by simp
          from IH [OF this] show ?thesis
            using s r get_range_good [OF s] Pair Ok by (auto simp: reader_ok_def delivers_retry)
        qed (use run NoRead Pair in auto)
      qed
    next
      case (Body items)
      then show ?thesis
        using run again r reader_ok_step [OF r]
        by (auto simp: reader_ok_def split: list.splits item.splits if_splits)
    qed
  qed
  then show ?thesis using assms by blast
qed

section \<open>Reading to the end\<close>

text \<open>A client that reads into a buffer of \<open>n\<close> bytes until nothing comes; the first number bounds its calls.\<close>

fun read_to_end :: "nat \<Rightarrow> 'w server \<Rightarrow> nat \<Rightarrow> http_reader \<Rightarrow> 'w \<Rightarrow> nat list option" where
  "read_to_end 0 server n r w = None"
| "read_to_end (Suc k) server n r w =
     (case http_poll_read server n r w of
        Some (Ok bs, r, w) \<Rightarrow> if bs = [] then Some [] else map_option ((@) bs) (read_to_end k server n r w)
      | _ \<Rightarrow> None)"

lemma get_range_within:
  assumes "a < t" and "0 < n" and "a + n < 2 ^ 64" and "t < 2 ^ 64"
  shows "get_range server a n t w = server a (min (a + n) t - 1) w"
proof -
  have "usize (int a + int n) = a + n" using usize_id [of "a + n"] assms(3) by simp
  moreover have "usize (int (min (a + n) t) - 1) = min (a + n) t - 1"
  proof -
    have "int (min (a + n) t) - 1 = int (min (a + n) t - 1)" using assms(1,2) by linarith
    moreover have "min (a + n) t - 1 < 2 ^ 64" using assms(4) by linarith
    ultimately show ?thesis using usize_id by presburger
  qed
  moreover have "\<not> min (a + n) t - 1 < a" using assms by simp
  ultimately show ?thesis by (simp add: get_range_def)
qed

lemma get_range_behind:
  assumes "t \<le> a" and "0 < t" and "a + n < 2 ^ 64"
  shows "get_range server a n t w = (Ok [], w)"
proof -
  have "usize (int a + int n) = a + n" using usize_id [of "a + n"] assms(3) by simp
  moreover have "usize (int t - 1) = t - 1"
  proof -
    have "int t - 1 = int (t - 1)" using assms(2) by linarith
    moreover have "t - 1 < 2 ^ 64" using assms(1,3) by linarith
    ultimately show ?thesis using usize_id by presburger
  qed
  moreover have "min (a + n) t = t" "t - 1 < a" using assms(1,2) by auto
  ultimately show ?thesis using assms(1,2) by (simp add: get_range_def Let_def)
qed

lemma poll_NoRead:
  assumes "read_in_progress r = NoRead" and "get_range server (cursor_pos r) n (total_bytes r) w = (Ok body, w1)"
  shows "http_poll_read server n r w = http_poll_read server n (r\<lparr>read_in_progress := Body body\<rparr>) w1"
  by (subst http_poll_read.simps) (simp only: assms read_in_progress.case prod.case res.case)

lemma poll_Chunk:
  assumes "read_in_progress r = Body (Chunk bs # rest)" and "length bs \<le> n"
  shows "http_poll_read server n r w = Some (Ok bs, r\<lparr>read_in_progress := Body rest, cursor_pos := usize (int (cursor_pos r) + int (length bs))\<rparr>, w)"
  by (subst http_poll_read.simps) (use assms in simp)

lemma poll_end:
  assumes "read_in_progress r = Body []" and "cursor_pos r = total_bytes r"
  shows "http_poll_read server n r w = Some (Ok [], r\<lparr>read_in_progress := NoRead\<rparr>, w)"
  by (subst http_poll_read.simps) (use assms in simp)

lemma poll_again:
  assumes "read_in_progress r = Body items" and "items = [] \<or> (\<exists>e rest. items = Broken e # rest)" and "cursor_pos r \<noteq> total_bytes r"
  shows "http_poll_read server n r w = http_poll_read server n (r\<lparr>read_in_progress := NoRead\<rparr>) w"
  by (subst http_poll_read.simps) (use assms in auto)

text \<open>A fresh request yields bytes before the end of the file and none at its end.\<close>

lemma poll_fresh:
  assumes s: "serves content server" "responsive content server" and n: "0 < n" "length content + n < 2 ^ 64"
    and r: "reader_ok content r" "read_in_progress r = NoRead" "cursor_pos r \<le> length content" "content \<noteq> []"
  shows "\<exists>bs r' w'. http_poll_read server n r w = Some (Ok bs, r', w')"
proof (cases "cursor_pos r = length content")
  case True
  have "get_range server (cursor_pos r) n (total_bytes r) w = (Ok [], w)"
    using r n True by (intro get_range_behind) (auto simp: reader_ok_def)
  then show ?thesis
    using r True by (simp add: poll_NoRead poll_end reader_ok_def)
next
  case False
  let ?b = "min (cursor_pos r + n) (length content) - 1"
  have g': "get_range server (cursor_pos r) n (total_bytes r) w = server (cursor_pos r) ?b w" for w
    using r n False by (subst get_range_within) (auto simp: reader_ok_def)
  have pos: "cursor_pos r \<noteq> total_bytes r" using r(1) False by (simp add: reader_ok_def)
  have retry: "http_poll_read server n r w = http_poll_read server n r w'"
    if "server (cursor_pos r) ?b w = (Ok items, w')" "items = [] \<or> (\<exists>e rest. items = Broken e # rest)" for w items w'
  proof -
    have "http_poll_read server n r w = http_poll_read server n (r\<lparr>read_in_progress := Body items\<rparr>) w'"
      using that(1) g' by (intro poll_NoRead [OF r(2)]) simp
    also have "\<dots> = http_poll_read server n (r\<lparr>read_in_progress := NoRead\<rparr>) w'"
      using poll_again [of "r\<lparr>read_in_progress := Body items\<rparr>" items] that(2) pos by simp
    also have "r\<lparr>read_in_progress := NoRead\<rparr> = r" using r(2) by simp
    finally show ?thesis .
  qed
  have "cursor_pos r \<le> ?b" "?b < length content" using r(3) n(1) False by auto
  then have "answers server (cursor_pos r) ?b w" using s(2) by (simp add: responsive_def)
  then show ?thesis
  proof (induction rule: answers.induct)
    case (sends w bs rest w')
    then have "length bs \<le> n" using n(1) by linarith
    then show ?case using r(2) g' sends(1) by (simp add: poll_NoRead poll_Chunk)
  next
    case (ends w w')
    then show ?case using retry by simp
  next
    case (breaks w e rest w')
    then show ?case using retry by simp
  qed
qed

lemma poll_returns:
  assumes s: "serves content server" "responsive content server" and n: "0 < n" "length content + n < 2 ^ 64"
    and r: "reader_ok content r" "cursor_pos r \<le> length content" "content \<noteq> []"
  shows "\<exists>bs r' w'. http_poll_read server n r w = Some (Ok bs, r', w')"
proof (cases "read_in_progress r")
  case (Body items)
  have fresh: "\<exists>bs r' w'. http_poll_read server n (r\<lparr>read_in_progress := NoRead\<rparr>) w = Some (Ok bs, r', w')"
    using poll_fresh [OF s n, of "r\<lparr>read_in_progress := NoRead\<rparr>"] r by (simp add: reader_ok_def)
  show ?thesis using Body fresh by (subst http_poll_read.simps) (auto split: list.splits item.splits)
qed (use poll_fresh [OF s n] r in blast)

lemma read_rest:
  assumes s: "serves content server" "responsive content server" and n: "0 < n" "length content + n < 2 ^ 64" and c: "content \<noteq> []"
  shows "reader_ok content r \<Longrightarrow> cursor_pos r \<le> length content \<Longrightarrow> length content - cursor_pos r < k \<Longrightarrow>
    read_to_end k server n r w = Some (drop (cursor_pos r) content)"
proof (induction k arbitrary: r w)
  case (Suc k)
  obtain bs r' w' where p: "http_poll_read server n r w = Some (Ok bs, r', w')" using poll_returns [OF s n Suc.prems(1,2) c] by blast
  have d: "bs = take (length bs) (drop (cursor_pos r) content)" "cursor_pos r' = cursor_pos r + length bs"
    "reader_ok content r'" "bs = [] \<longrightarrow> cursor_pos r = length content"
    using poll_read_delivers [OF p s(1) Suc.prems(1)] by simp_all
  show ?case
  proof (cases "bs = []")
    case False
    then have "cursor_pos r' \<le> length content" using piece_length [OF False d(1)] d(2) by simp
    moreover have "length content - cursor_pos r' < k" using False d(2) Suc.prems(2,3) calculation by (cases bs) auto
    ultimately have "read_to_end k server n r' w' = Some (drop (cursor_pos r') content)" by (rule Suc.IH [OF d(3)])
    then show ?thesis using p False d(1,2) by (simp add: add.commute flip: drop_drop) (metis append_take_drop_id drop_drop add.commute)
  qed (use p d in simp)
qed simp

text \<open>Whatever the server does: what a client has read when it comes to an end is the rest of the file.\<close>

lemma read_to_end_exact:
  assumes "serves content server"
  shows "reader_ok content r \<Longrightarrow> read_to_end k server n r w = Some bs \<Longrightarrow> bs = drop (cursor_pos r) content"
proof (induction k arbitrary: r w bs)
  case (Suc k)
  obtain cs r' w' where p: "http_poll_read server n r w = Some (Ok cs, r', w')"
    using Suc.prems(2) by (auto split: option.splits res.splits)
  have d: "cs = take (length cs) (drop (cursor_pos r) content)" "cursor_pos r' = cursor_pos r + length cs"
    "reader_ok content r'" "cs = [] \<longrightarrow> cursor_pos r = length content"
    using poll_read_delivers [OF p assms Suc.prems(1)] by simp_all
  show ?case
  proof (cases "cs = []")
    case False
    then obtain ds where ds: "read_to_end k server n r' w' = Some ds" "bs = cs @ ds" using Suc.prems(2) p by auto
    then have "ds = drop (length cs) (drop (cursor_pos r) content)" using Suc.IH [OF d(3)] d(2) by (simp add: add.commute)
    then show ?thesis using ds(2) d(1) by (metis append_take_drop_id)
  qed (use Suc.prems(2) p d in auto)
qed simp

text \<open>
  C15. From a server whose bodies hold the bytes of the file, however it cuts them and wherever they end or break, a client that reads
  to the end gets the file and nothing else, whenever it comes to an end. It does come to an end, with every read, when the file
  is not empty, the requests themselves do not fail and each range yields something after finitely many attempts.
\<close>

theorem download_is_the_file:
  assumes "serves content server" and "0 < n" and "length content + n < 2 ^ 64"
    and "http_new parse (Some (Text ''bytes'')) (Some (Text len)) = Ok r" and "parse len = Ok (length content)"
  shows "(\<forall>k bs. read_to_end k server n r w = Some bs \<longrightarrow> bs = content) \<and>
    (content \<noteq> [] \<longrightarrow> responsive content server \<longrightarrow> read_to_end (Suc (length content)) server n r w = Some content)"
proof -
  have r: "reader_ok content r" "cursor_pos r = 0" using assms(3-5) by (auto simp: http_new_def header_text_def reader_ok_def)
  have "bs = content" if "read_to_end k server n r w = Some bs" for k bs using read_to_end_exact [OF assms(1) r(1) that] r(2) by simp
  moreover have "read_to_end (Suc (length content)) server n r w = Some content" if "content \<noteq> []" "responsive content server"
    using read_rest [OF assms(1) that(2) assms(2,3) that(1) r(1), of "Suc (length content)"] r(2) by simp
  ultimately show ?thesis by blast
qed

text \<open>
  A seek behind the end of the file is accepted, since the error for it is made but not returned, and the next read does not
  come to an end: it asks for nothing and tries again forever.
\<close>

theorem seek_behind_end_hangs:
  assumes "total_bytes r < p" and "0 < total_bytes r" and "p + n < 2 ^ 64"
  shows "fst (http_start_seek (Start p) r) = Ok () \<and> http_poll_read server n (snd (http_start_seek (Start p) r)) w = None"
proof
  let ?r = "\<lambda>q. r\<lparr>read_in_progress := q, cursor_pos := p\<rparr>"
  let ?P = "\<lambda>r'. total_bytes r' = total_bytes r \<and> cursor_pos r' = p \<and> read_in_progress r' \<in> {NoRead, Body []}"
  have "\<not> ?P r'" if "http_poll_read server m r' w = Some y" and "m = n" for r' w y m
  proof -
    have "m = n \<longrightarrow> \<not> ?P r'"
      apply (rule http_poll_read.raw_induct [OF _ that(1), where P = "\<lambda>server m r' w y. m = n \<longrightarrow> \<not> ?P r'"])
      subgoal premises prems for rec server m r' w y
        using prems(2) prems(1) [of server m "r'\<lparr>read_in_progress := Body []\<rparr>" w y] prems(1) [of server m "r'\<lparr>read_in_progress := NoRead\<rparr>" w y]
          assms by (auto simp: get_range_behind)
      done
    then show ?thesis using that(2) by blast
  qed
  from this [of n "?r NoRead" w] show "http_poll_read server n (snd (http_start_seek (Start p) r)) w = None"
    by (cases "http_poll_read server n (?r NoRead) w") auto
qed simp

text \<open>A server that breaks every second connection at once and sends one byte on the others.\<close>

definition slow_server :: "nat server" where
  "slow_server a b k = (Ok (if a < 3 \<and> even k then [Chunk [[1, 2, 3] ! a], Broken ''reset''] else [Broken ''reset'']), Suc k)"

lemma slow_server_serves: "serves [1, 2, 3] slow_server"
  by (auto simp: serves_def slow_server_def less_Suc_eq numeral_3_eq_3 nth_Cons split: nat.splits if_splits)

lemma slow_server_responsive: "responsive [1, 2, 3] slow_server"
proof -
  have here: "answers slow_server a b k" if "a \<le> b" "b < 3" "even k" for a b k
    using that by (intro answers.sends [of slow_server a b k "[[1, 2, 3] ! a]" "[Broken ''reset'']" "Suc k"]) (auto simp: slow_server_def)
  have "answers slow_server a b k" if "a \<le> b" "b < 3" for a b k
  proof (cases "even k")
    case False
    then show ?thesis using here [OF that, of "Suc k"]
      by (intro answers.breaks [of slow_server a b k "''reset''" "[]" "Suc k"]) (auto simp: slow_server_def)
  qed (use here that in blast)
  then show ?thesis by (simp add: responsive_def)
qed

theorem download_is_the_file_witness:
  "read_to_end 4 slow_server 8 \<lparr>cursor_pos = 0, total_bytes = 3, read_in_progress = NoRead\<rparr> 1 = Some [1, 2, 3]"
proof -
  let ?r = "\<lparr>cursor_pos = 0, total_bytes = 3, read_in_progress = NoRead\<rparr>"
  have new: "http_new (\<lambda>_. Ok 3) (Some (Text ''bytes'')) (Some (Text ''3'')) = Ok ?r"
    by (simp add: http_new_def header_text_def)
  have "read_to_end (Suc (length [1, 2, 3 :: nat])) slow_server 8 ?r 1 = Some [1, 2, 3]"
    using download_is_the_file [OF slow_server_serves _ _ new, of 8 1] slow_server_responsive by simp
  then show ?thesis by (simp add: numeral_nat)
qed

theorem seek_behind_end_hangs_witness:
  "http_poll_read (\<lambda>_ _ w. (Ok [Chunk [7]], w)) 4 (snd (http_start_seek (Start 5) \<lparr>cursor_pos = 0, total_bytes = 3, read_in_progress = NoRead\<rparr>)) () = None"
  using seek_behind_end_hangs [of "\<lparr>cursor_pos = 0, total_bytes = 3, read_in_progress = NoRead\<rparr>" 5 4] by simp

end
