(* ===== verification/Notifications.thy ===== *)
theory Notifications
  imports Json State_Res Config_Types
begin

text \<open>
  Notifications (\<^verbatim>\<open>notifications.rs\<close>): a table in the secret store, the number of unread ones in the database, and the times
  at which notifications were issued, by which the manager keeps from repeating itself.
\<close>

section \<open>Levels\<close>

datatype notification_level = LSuccess | LInfo | LWarning | LError

fun level_str :: "notification_level \<Rightarrow> string" where
  "level_str LSuccess = ''success''"
| "level_str LInfo = ''info''"
| "level_str LWarning = ''warning''"
| "level_str LError = ''error''"

definition level_from_str :: "string \<Rightarrow> (error, notification_level) res" where
  "level_from_str s =
     (if s = ''success'' then Ok LSuccess
      else if s = ''info'' then Ok LInfo
      else if s = ''warning'' then Ok LWarning
      else if s = ''error'' then Ok LError
      else Err (Error ParseDbField (Msg (''Invalid Notification Level: '' @ s))))"

lemma level_roundtrip: "level_from_str (level_str l) = Ok l"
  by (cases l) (simp_all add: level_from_str_def)

section \<open>The table\<close>

record notification_row =
  nr_id :: int
  nr_package_id :: "string option"
  nr_created_at :: int
  nr_code :: int
  nr_level :: string
  nr_title :: string
  nr_message :: string
  nr_data :: "string option"

record notification =
  n_id :: nat
  n_package_id :: "package_id option"
  n_created_at :: int
  n_code :: nat
  n_level :: notification_level
  n_title :: string
  n_message :: string
  n_data :: json

type_synonym cache_key = "package_id option \<times> notification_level \<times> string"

text \<open>The rows in the order of their ids, the next id, the count of unread notifications and the cache of the manager.\<close>

record notif_state =
  ns_rows :: "notification_row list"
  ns_next_id :: int
  ns_unread :: nat
  ns_cache :: "cache_key \<Rightarrow> int option"

text \<open>The outside: parsers of ids and values, whether the store takes a row, the clock.\<close>

record notif_env =
  nv_parse_id :: "string \<Rightarrow> package_id option"
  nv_parse_json :: "string \<Rightarrow> json option"
  nv_insert :: "(error, unit) res"
  nv_now :: int

definition as_u32 :: "int \<Rightarrow> nat" where
  "as_u32 n = nat (n mod 2 ^ 32)"

definition from_row :: "notif_env \<Rightarrow> notification_row \<Rightarrow> (error, notification) res" where
  "from_row env r =
     rbind (level_from_str (nr_level r)) (\<lambda>level.
     rbind (case nr_data r of
         None \<Rightarrow> Ok JNull
       | Some v \<Rightarrow> ok_or (nv_parse_json env v) (Error ParseDbField (Msg ''Invalid Notification Data''))) (\<lambda>data.
     Ok \<lparr>n_id = as_u32 (nr_id r), n_package_id = Option.bind (nr_package_id r) (nv_parse_id env), n_created_at = nr_created_at r,
         n_code = as_u32 (nr_code r), n_level = level, n_title = nr_title r, n_message = nr_message r, n_data = data\<rparr>))"

fun from_rows :: "notif_env \<Rightarrow> notification_row list \<Rightarrow> (error, notification list) res" where
  "from_rows env [] = Ok []"
| "from_rows env (r # rs) = rbind (from_row env r) (\<lambda>n. rmap ((#) n) (from_rows env rs))"

text \<open>\<open>list\<close>: the newest first; without a bound everything counts as read.\<close>

definition select_rows :: "int option \<Rightarrow> nat \<Rightarrow> notification_row list \<Rightarrow> notification_row list" where
  "select_rows before limit rows = take limit (rev (case before of None \<Rightarrow> rows | Some b \<Rightarrow> filter (\<lambda>r. nr_id r < b) rows))"

definition notif_list :: "notif_env \<Rightarrow> int option \<Rightarrow> nat option \<Rightarrow> (notif_state, error, notification list) st" where
  "notif_list env before limit s =
     (let limit = (case limit of Some n \<Rightarrow> n | None \<Rightarrow> 40) in
      case from_rows env (select_rows before limit (ns_rows s)) of
        Ok ns \<Rightarrow> (Ok ns, if before = None then s\<lparr>ns_unread := 0\<rparr> else s)
      | r \<Rightarrow> (r, s))"

definition notif_delete :: "int \<Rightarrow> (notif_state, error, unit) st" where
  "notif_delete i = st_modify (\<lambda>s. s\<lparr>ns_rows := filter (\<lambda>r. nr_id r \<noteq> i) (ns_rows s)\<rparr>)"

definition notif_delete_before :: "int \<Rightarrow> (notif_state, error, unit) st" where
  "notif_delete_before b = st_modify (\<lambda>s. s\<lparr>ns_rows := filter (\<lambda>r. \<not> nr_id r < b) (ns_rows s)\<rparr>)"

section \<open>Issuing\<close>

definition should_notify :: "notif_env \<Rightarrow> cache_key \<Rightarrow> nat option \<Rightarrow> notif_state \<Rightarrow> bool \<times> notif_state" where
  "should_notify env k debounce_interval s =
     (let issue = (True, s\<lparr>ns_cache := (ns_cache s)(k \<mapsto> nv_now env)\<rparr>) in
      case ns_cache s k of
        None \<Rightarrow> issue
      | Some last_issued \<Rightarrow>
          (case debounce_interval of
             None \<Rightarrow> issue
           | Some interval \<Rightarrow> if nv_now env < last_issued + int interval then (False, s) else issue))"

definition notify :: "notif_env \<Rightarrow> package_id option \<Rightarrow> notification_level \<Rightarrow> string \<Rightarrow> string \<Rightarrow> int \<Rightarrow> string \<Rightarrow> nat option \<Rightarrow>
    (notif_state, error, unit) st" where
  "notify env package level title message code data debounce_interval s =
     (let (go, s) = should_notify env (package, level, title) debounce_interval s in
      if \<not> go then (Ok (), s)
      else
        st_bind (st_lift (nv_insert env)) (\<lambda>_.
        st_bind (st_modify (\<lambda>s. s\<lparr>ns_rows := ns_rows s @ [\<lparr>nr_id = ns_next_id s, nr_package_id = package, nr_created_at = nv_now env,
            nr_code = code, nr_level = level_str level, nr_title = title, nr_message = message, nr_data = Some data\<rparr>],
            ns_next_id := ns_next_id s + 1\<rparr>)) (\<lambda>_.
        st_modify (\<lambda>s. s\<lparr>ns_unread := ns_unread s + 1\<rparr>))) s)"

definition notif_create :: "notif_env \<Rightarrow> package_id option \<Rightarrow> notification_level \<Rightarrow> string \<Rightarrow> string \<Rightarrow> (notif_state, error, unit) st" where
  "notif_create env package level title message = notify env package level title message 0 ''null'' None"

section \<open>Properties\<close>

text \<open>Ids are given out in order and fit into 31 bits.\<close>

definition notif_ok :: "notif_state \<Rightarrow> bool" where
  "notif_ok s \<longleftrightarrow> sorted_wrt (<) (map nr_id (ns_rows s)) \<and>
     (\<forall>r \<in> set (ns_rows s). 0 \<le> nr_id r \<and> nr_id r < ns_next_id s) \<and> ns_next_id s \<le> 2 ^ 31 \<and>
     (\<forall>r \<in> set (ns_rows s). \<exists>l. nr_level r = level_str l)"

lemma notif_ok_delete:
  "notif_ok s \<Longrightarrow> notif_ok (snd (notif_delete i s))" "notif_ok s \<Longrightarrow> notif_ok (snd (notif_delete_before b s))"
  by (auto simp: notif_ok_def notif_delete_def notif_delete_before_def st_simps sorted_wrt_filter filter_map comp_def sorted_wrt_map)

lemma notif_ok_notify:
  assumes "notif_ok s" and "0 \<le> ns_next_id s" and "ns_next_id s < 2 ^ 31"
  shows "notif_ok (snd (notify env p l t m c d i s)) \<and> 0 \<le> ns_next_id (snd (notify env p l t m c d i s))"
proof -
  obtain go s1 where n: "should_notify env (p, l, t) i s = (go, s1)" by (cases "should_notify env (p, l, t) i s")
  have s1: "ns_rows s1 = ns_rows s" "ns_next_id s1 = ns_next_id s"
    using n by (auto simp: should_notify_def Let_def split: option.splits if_splits)
  then have "notif_ok s1" using assms(1) by (simp add: notif_ok_def)
  then show ?thesis
    using n s1 assms by (cases "nv_insert env") (auto simp: notify_def st_eval st_bind_def notif_ok_def sorted_wrt_append)
qed

lemma from_rows_append: "from_rows env (xs @ ys) = rbind (from_rows env xs) (\<lambda>a. rmap ((@) a) (from_rows env ys))"
proof (induction xs)
  case Nil
  then show ?case by (cases "from_rows env ys") simp_all
next
  case (Cons x xs)
  then show ?case by (cases "from_row env x"; cases "from_rows env xs"; cases "from_rows env ys") simp_all
qed

lemma from_rows_map: "from_rows env xs = Ok ns \<Longrightarrow> list_all2 (\<lambda>r n. from_row env r = Ok n) xs ns"
proof (induction xs arbitrary: ns)
  case (Cons x xs)
  then show ?case by (cases "from_row env x"; cases "from_rows env xs") auto
qed simp

lemma from_row_id: "from_row env r = Ok n \<Longrightarrow> n_id n = as_u32 (nr_id r)"
  by (auto simp: from_row_def rbind_eq_Ok split: option.splits)

lemma select_rows_resume:
  assumes "sorted_wrt (<) (map nr_id rows)" and "select_rows None k rows \<noteq> []"
  shows "select_rows (Some (nr_id (last (select_rows None k rows)))) m rows = take m (drop k (rev rows))"
proof -
  let ?xs = "take k (rev rows)" and ?ys = "drop k (rev rows)"
  let ?b = "nr_id (last ?xs)"
  have sorted: "sorted_wrt (\<lambda>a b. nr_id b < nr_id a) (?xs @ ?ys)" using assms(1) by (simp add: sorted_wrt_map sorted_wrt_rev)
  have xs: "?xs \<noteq> []" using assms(2) by (simp add: select_rows_def)
  then have "?b \<le> nr_id r" if "r \<in> set ?xs" for r
  proof -
    have "sorted_wrt (\<lambda>a b. nr_id b < nr_id a) ?xs" using sorted by (simp only: sorted_wrt_append)
    then have "sorted_wrt (\<lambda>a b. nr_id b < nr_id a) (butlast ?xs @ [last ?xs])"
      unfolding append_butlast_last_id [OF xs] .
    then have "\<forall>a \<in> set (butlast ?xs). ?b < nr_id a" by (simp add: sorted_wrt_append)
    moreover have "set ?xs = insert (last ?xs) (set (butlast ?xs))" using xs by (metis append_butlast_last_id list.simps(15) rotate1.simps(2) set_rotate1)
    ultimately show ?thesis using that by auto
  qed
  moreover have "nr_id r < ?b" if "r \<in> set ?ys" for r
    using sorted that last_in_set [OF xs] unfolding sorted_wrt_append by blast
  ultimately have "filter (\<lambda>r. nr_id r < ?b) (?xs @ ?ys) = ?ys"
    unfolding filter_append by (metis (no_types, lifting) append_Nil filter_False filter_True not_le)
  then have "filter (\<lambda>r. nr_id r < ?b) (rev rows) = ?ys" by (simp only: append_take_drop_id)
  then show ?thesis by (simp add: select_rows_def rev_filter)
qed

text \<open>
  C30. Paging is seamless: when a page was read and the next one is asked for before the last notification of the first, the
  two together are what one larger page would have been, so that nothing is skipped or shown twice.
\<close>

theorem paging_is_seamless:
  assumes "notif_ok s" and "notif_list env None (Some k) s = (Ok ns, s1)" and "ns \<noteq> []"
    and "notif_list env (Some (int (n_id (last ns)))) (Some m) s1 = (Ok ms, s2)"
  shows "fst (notif_list env None (Some (k + m)) s) = Ok (ns @ ms)"
proof -
  let ?rows = "ns_rows s"
  have first: "from_rows env (select_rows None k ?rows) = Ok ns" and s1: "ns_rows s1 = ?rows"
    using assms(2) by (auto simp: notif_list_def split: res.splits)
  have all2: "list_all2 (\<lambda>r n. from_row env r = Ok n) (select_rows None k ?rows) ns" using first by (rule from_rows_map)
  then have ne: "select_rows None k ?rows \<noteq> []" using assms(3) by auto
  let ?r = "last (select_rows None k ?rows)"
  have "from_row env ?r = Ok (last ns)"
  proof -
    have len: "length (select_rows None k ?rows) = length ns" using all2 by (rule list_all2_lengthD)
    have "length ns - 1 < length ns" using assms(3) by (cases ns) simp_all
    with list_all2_nthD2 [OF all2 this] show ?thesis using ne assms(3) by (simp add: last_conv_nth len)
  qed
  then have "n_id (last ns) = as_u32 (nr_id ?r)" by (rule from_row_id)
  moreover have "?r \<in> set ?rows" using last_in_set [OF ne] by (auto simp: select_rows_def dest: in_set_takeD)
  then have "0 \<le> nr_id ?r \<and> nr_id ?r < ns_next_id s" "ns_next_id s \<le> 2 ^ 31" using assms(1) unfolding notif_ok_def by blast+
  then have "0 \<le> nr_id ?r" "nr_id ?r < 2 ^ 32" by simp_all
  ultimately have idr: "int (n_id (last ns)) = nr_id ?r" by (simp add: as_u32_def)
  have "from_rows env (select_rows (Some (nr_id ?r)) m ?rows) = Ok ms"
    using assms(4) by (auto simp: notif_list_def idr s1 split: res.splits)
  then have second: "from_rows env (take m (drop k (rev ?rows))) = Ok ms"
    using select_rows_resume [OF _ ne, of m] assms(1) by (simp add: notif_ok_def)
  have "from_rows env (take (k + m) (rev ?rows)) = Ok (ns @ ms)"
    using first second by (simp add: take_add from_rows_append select_rows_def)
  then show ?thesis by (simp add: notif_list_def select_rows_def)
qed

text \<open>
  A notification that could not be stored still counts as issued: the time is recorded before the row is inserted, so
  that the same notification is dropped silently for the rest of the interval although it is in no list.
\<close>

theorem failed_notification_silences:
  assumes "nv_insert env = Err e" and "ns_cache s (p, l, t) = None"
    and "nv_now env \<le> nv_now env'" and "nv_now env' < nv_now env + int d"
  shows "fst (notify env p l t m c x (Some d) s) = Err e \<and>
    notify env' p l t m c x (Some d) (snd (notify env p l t m c x (Some d) s)) = (Ok (), snd (notify env p l t m c x (Some d) s)) \<and>
    ns_rows (snd (notify env p l t m c x (Some d) s)) = ns_rows s"
  using assms by (simp add: notify_def should_notify_def st_eval)

definition sample_notif_env :: notif_env where
  "sample_notif_env = \<lparr>nv_parse_id = Some, nv_parse_json = \<lambda>_. Some JNull, nv_insert = Ok (), nv_now = 100\<rparr>"

definition sample_rows :: "notification_row list" where
  "sample_rows = map (\<lambda>i. \<lparr>nr_id = i, nr_package_id = None, nr_created_at = 0, nr_code = 0, nr_level = ''info'', nr_title = ''t'',
     nr_message = ''m'', nr_data = None\<rparr>) [1, 2, 3, 4]"

definition sample_notifs :: notif_state where
  "sample_notifs = \<lparr>ns_rows = sample_rows, ns_next_id = 5, ns_unread = 2, ns_cache = \<lambda>_. None\<rparr>"

theorem paging_is_seamless_witness:
  "fst (notif_list sample_notif_env None (Some (2 + 1)) sample_notifs) =
     Ok (map (\<lambda>i. \<lparr>n_id = i, n_package_id = None, n_created_at = 0, n_code = 0, n_level = LInfo, n_title = ''t'', n_message = ''m'', n_data = JNull\<rparr>) [4, 3] @
       map (\<lambda>i. \<lparr>n_id = i, n_package_id = None, n_created_at = 0, n_code = 0, n_level = LInfo, n_title = ''t'', n_message = ''m'', n_data = JNull\<rparr>) [2])"
proof -
  let ?n = "map (\<lambda>i. \<lparr>n_id = i, n_package_id = None, n_created_at = 0, n_code = 0, n_level = LInfo, n_title = ''t'', n_message = ''m'', n_data = JNull\<rparr>)"
  have ok: "notif_ok sample_notifs"
    by (auto simp: notif_ok_def sample_notifs_def sample_rows_def intro: exI [of _ LInfo])
  have one: "notif_list sample_notif_env None (Some 2) sample_notifs = (Ok (?n [4, 3]), sample_notifs\<lparr>ns_unread := 0\<rparr>)"
    by (simp add: notif_list_def select_rows_def sample_notifs_def sample_rows_def sample_notif_env_def from_row_def level_from_str_def as_u32_def)
  moreover have "notif_list sample_notif_env (Some (int (n_id (last (?n [4, 3]))))) (Some 1) (sample_notifs\<lparr>ns_unread := 0\<rparr>) =
      (Ok (?n [2]), sample_notifs\<lparr>ns_unread := 0\<rparr>)"
    by (simp add: notif_list_def select_rows_def sample_notifs_def sample_rows_def sample_notif_env_def from_row_def level_from_str_def as_u32_def)
  ultimately show ?thesis by (intro paging_is_seamless [OF ok]) simp_all
qed

theorem failed_notification_silences_witness:
  "fst (notify sample_notif_env None LWarning ''t'' ''m'' 0 ''null'' (Some 60)
     (snd (notify (sample_notif_env\<lparr>nv_insert := Err (Error Database (Msg ''down''))\<rparr>) None LWarning ''t'' ''m'' 0 ''null'' (Some 60) sample_notifs))) = Ok () \<and>
   ns_rows (snd (notify (sample_notif_env\<lparr>nv_insert := Err (Error Database (Msg ''down''))\<rparr>) None LWarning ''t'' ''m'' 0 ''null'' (Some 60) sample_notifs)) = sample_rows"
  using failed_notification_silences [of "sample_notif_env\<lparr>nv_insert := Err (Error Database (Msg ''down''))\<rparr>" "Error Database (Msg ''down'')"
      sample_notifs None LWarning "''t''" sample_notif_env 60 "''m''" 0 "''null''"]
  by (simp add: sample_notif_env_def sample_notifs_def)

end
