(* ===== verification/Backup_Bulk.thy ===== *)
theory Backup_Bulk
  imports Notifications Configure_Laws
begin

text \<open>
  Backing up packages (\<^verbatim>\<open>backup/backup_bulk.rs\<close>): the request that claims the backup, the task that goes through the
  packages, and the notification at its end.
\<close>

section \<open>Operations\<close>

text \<open>The outside: managers, mounts, the procedures of packages, and the files of the system's own backup.\<close>

record 'w backup_host =
  bh_manager :: "package_id \<times> version \<Rightarrow> 'w \<Rightarrow> bool"
  bh_synchronize :: "package_id \<Rightarrow> 'w \<Rightarrow> 'w"
  bh_mount :: "package_id \<Rightarrow> 'w \<Rightarrow> (error, unit) res \<times> 'w"
  bh_create :: "package_id \<Rightarrow> manifest \<Rightarrow> 'w \<Rightarrow> (error, string) res \<times> 'w"
  bh_unmount :: "package_id \<Rightarrow> 'w \<Rightarrow> (error, unit) res \<times> 'w"
  bh_os :: "'w \<Rightarrow> (error, unit) res \<times> 'w"
  bh_save :: "(package_id, string) btmap \<Rightarrow> 'w \<Rightarrow> (error, unit) res \<times> 'w"
  bh_now :: "'w \<Rightarrow> string"
  bh_display :: "error \<Rightarrow> string"

record 'w backup_state =
  bk_db :: db
  bk_progress :: "(package_id, bool) btmap option"
  bk_last_backup :: "(package_id, string) btmap"
  bk_metadata :: "(package_id, string) btmap"
  bk_server_last :: "string option"
  bk_notifs :: notif_state
  bk_world :: 'w

type_synonym ('w, 'a) bk = "('w backup_state, error, 'a) st"
type_synonym backup_report = "(package_id, string option) btmap"

definition bk_call :: "('w \<Rightarrow> (error, 'a) res \<times> 'w) \<Rightarrow> ('w, 'a) bk" where
  "bk_call f s = (case f (bk_world s) of (r, w) \<Rightarrow> (r, s\<lparr>bk_world := w\<rparr>))"

text \<open>A call whose error is kept as a value.\<close>

definition bk_try :: "('w \<Rightarrow> (error, 'a) res \<times> 'w) \<Rightarrow> ('w, error + 'a) bk" where
  "bk_try f s =
     (case f (bk_world s) of
        (Ok a, w) \<Rightarrow> (Ok (Inr a), s\<lparr>bk_world := w\<rparr>)
      | (Err e, w) \<Rightarrow> (Ok (Inl e), s\<lparr>bk_world := w\<rparr>)
      | (Panic, w) \<Rightarrow> (Panic, s\<lparr>bk_world := w\<rparr>)
      | (Diverge, w) \<Rightarrow> (Diverge, s\<lparr>bk_world := w\<rparr>))"

text \<open>The request fails while a package of an earlier backup is not complete.\<close>

definition assure_backing_up :: "package_id list \<Rightarrow> ('w, unit) bk" where
  "assure_backing_up packages s =
     (if (case bk_progress s of Some ps \<Rightarrow> fold (\<lambda>e acc. if \<not> snd e then True else acc) ps False | None \<Rightarrow> False)
      then (Err (Error InvalidRequest (Msg ''Server is already backing up!'')), s)
      else (Ok (), s\<lparr>bk_progress := Some (bt_of_list (map (\<lambda>p. (p, False)) packages))\<rparr>))"

text \<open>The first transaction for a package: it is not installed, it is backed up already, or it becomes \<open>BackingUp\<close>.\<close>

datatype begun = NotThere | Busy | Begun "string option" health

definition backup_begin :: "'w backup_host \<Rightarrow> package_id \<Rightarrow> 'w backup_state \<Rightarrow> begun \<times> 'w backup_state" where
  "backup_begin host pid s =
     (let go = (\<lambda>since health. (Begun since health, s\<lparr>bk_db := main_set (BackingUp since health) pid (bk_db s)\<rparr>)) in
      case installed_get (bk_db s) pid of
        None \<Rightarrow> (NotThere, s)
      | Some i \<Rightarrow>
          (case main (ip_status i) of
             Starting _ \<Rightarrow> go (Some (bh_now host (bk_world s))) []
           | Running since health \<Rightarrow> go (Some since) health
           | Stopped \<Rightarrow> go None []
           | Stopping \<Rightarrow> go None []
           | Restarting \<Rightarrow> go None []
           | BackingUp _ _ \<Rightarrow> (Busy, s)))"

definition complete_package :: "package_id \<Rightarrow> (package_id, bool) btmap option \<Rightarrow> (package_id, bool) btmap option" where
  "complete_package pid progress =
     (let ps = (case progress of Some ps \<Rightarrow> ps | None \<Rightarrow> []) in
      Some (if bt_get ps pid \<noteq> None then bt_insert pid True ps else ps))"

definition record_backup :: "package_id \<Rightarrow> error + string \<Rightarrow> 'w backup_state \<Rightarrow> 'w backup_state" where
  "record_backup pid res s =
     (case res of
        Inl e \<Rightarrow> s
      | Inr t \<Rightarrow> s\<lparr>bk_last_backup := bt_insert pid t (bk_last_backup s), bk_metadata := bt_insert pid t (bk_metadata s)\<rparr>)"

text \<open>
  What follows: the manager pauses the service, the procedure of the package runs, and a second transaction records the
  result and puts back the status that the first one found. An early return leaves the package \<open>BackingUp\<close>.
\<close>

definition backup_finish :: "'w backup_host \<Rightarrow> package_id \<Rightarrow> string option \<Rightarrow> health \<Rightarrow> backup_report \<Rightarrow> ('w, backup_report) bk" where
  "backup_finish host pid since health report =
     st_bind (st_get (\<lambda>s. installed_get (bk_db s) pid)) (\<lambda>i.
     st_bind (st_lift (ok_or (map_option ip_manifest i) (not_found ''manifest''))) (\<lambda>man.
     st_bind (st_get (\<lambda>s. bh_manager host (m_id man, m_version man) (bk_world s))) (\<lambda>found.
     st_bind (st_lift (if found then Ok () else Err (Error InvalidRequest (Msg ''Manager not found'')))) (\<lambda>_.
     st_bind (st_modify (\<lambda>s. s\<lparr>bk_world := bh_synchronize host (m_id man) (bk_world s)\<rparr>)) (\<lambda>_.
     st_bind (bk_call (bh_mount host pid)) (\<lambda>_.
     st_bind (bk_try (bh_create host pid man)) (\<lambda>res.
     st_bind (bk_call (bh_unmount host pid)) (\<lambda>_.
     st_bind (st_modify (record_backup pid res)) (\<lambda>_.
     st_bind (st_modify (\<lambda>s. s\<lparr>bk_db := main_set (case since of Some t \<Rightarrow> Running t health | None \<Rightarrow> Stopped) pid (bk_db s),
         bk_progress := complete_package pid (bk_progress s)\<rparr>)) (\<lambda>_.
     st_return (bt_insert pid (case res of Inl e \<Rightarrow> Some (bh_display host e) | Inr _ \<Rightarrow> None) report)))))))))))"

definition busy_report :: "string option" where
  "busy_report = Some ''Can't do backup because service is in a backing up state''"

definition backup_package :: "'w backup_host \<Rightarrow> package_id \<Rightarrow> backup_report \<Rightarrow> ('w, backup_report) bk" where
  "backup_package host pid report s =
     (case backup_begin host pid s of
        (NotThere, s) \<Rightarrow> (Ok report, s)
      | (Busy, s) \<Rightarrow> (Ok (bt_insert pid busy_report report), s)
      | (Begun since health, s) \<Rightarrow> backup_finish host pid since health report s)"

definition backup_packages :: "'w backup_host \<Rightarrow> package_id list \<Rightarrow> ('w, backup_report) bk" where
  "backup_packages host package_ids =
     st_bind (st_get (\<lambda>s. filter (\<lambda>p. p \<in> set package_ids) (bt_keys (bk_db s)))) (\<lambda>ps. st_fold (backup_package host) ps [])"

definition perform_backup :: "'w backup_host \<Rightarrow> package_id list \<Rightarrow> ('w, backup_report) bk" where
  "perform_backup host package_ids =
     st_bind (backup_packages host package_ids) (\<lambda>report.
     st_bind (bk_call (bh_os host)) (\<lambda>_.
     st_bind (st_get (\<lambda>s. bh_now host (bk_world s))) (\<lambda>timestamp.
     st_bind (st_get bk_metadata) (\<lambda>meta.
     st_bind (bk_call (bh_save host meta)) (\<lambda>_.
     st_bind (st_modify (\<lambda>s. s\<lparr>bk_server_last := Some timestamp\<rparr>)) (\<lambda>_.
     st_return report))))))"

text \<open>The task: a notification about the outcome, and the end of the claim. A notification that cannot be sent is a panic.\<close>

definition bk_notify :: "notif_env \<Rightarrow> notification_level \<Rightarrow> string \<Rightarrow> string \<Rightarrow> string \<Rightarrow> ('w, unit) bk" where
  "bk_notify nv level title message data s =
     (case notify nv None level title message 1 data None (bk_notifs s) of
        (Ok (), n) \<Rightarrow> (Ok (), s\<lparr>bk_notifs := n\<rparr>)
      | (Diverge, n) \<Rightarrow> (Diverge, s\<lparr>bk_notifs := n\<rparr>)
      | (_, n) \<Rightarrow> (Panic, s\<lparr>bk_notifs := n\<rparr>))"

definition backup_task :: "notif_env \<Rightarrow> (backup_report + string \<Rightarrow> string) \<Rightarrow> 'w backup_host \<Rightarrow> package_id list \<Rightarrow> ('w, unit) bk" where
  "backup_task nv print host package_ids s =
     (case perform_backup host package_ids s of
        (Ok report, s) \<Rightarrow>
          st_bind
            (if list_all (\<lambda>e. snd e = None) report
             then bk_notify nv LSuccess ''Backup Complete'' ''Your backup has completed'' (print (Inl report))
             else bk_notify nv LWarning ''Backup Complete'' ''Your backup has completed, but some package(s) failed to backup''
               (print (Inl report))) (\<lambda>_.
          st_modify (\<lambda>s. s\<lparr>bk_progress := None\<rparr>)) s
      | (Err e, s) \<Rightarrow>
          st_bind (bk_notify nv LError ''Backup Failed'' ''Your backup failed to complete.'' (print (Inr (bh_display host e)))) (\<lambda>_.
          st_modify (\<lambda>s. s\<lparr>bk_progress := None\<rparr>)) s
      | (Panic, s) \<Rightarrow> (Panic, s)
      | (Diverge, s) \<Rightarrow> (Diverge, s))"

section \<open>What happens to a package\<close>

definition main_get :: "db \<Rightarrow> package_id \<Rightarrow> main_status option" where
  "main_get d pid = map_option (main \<circ> ip_status) (installed_get d pid)"

lemma main_get_set: "main_get (main_set m pid d) q = (if q = pid then map_option (\<lambda>_. m) (main_get d q) else main_get d q)"
  by (cases "installed_get d q") (auto simp: main_get_def main_set_def)

lemma main_get_keys: "main_get d q \<noteq> None \<Longrightarrow> q \<in> set (bt_keys d)"
  using bt_get_None [of d q] by (auto simp: main_get_def installed_get_def)

lemma bt_keys_main_set [simp]: "bt_keys (main_set m pid d) = bt_keys d"
  by (simp add: main_set_def)

text \<open>The status that a backup leaves behind.\<close>

fun backed_up :: "main_status \<Rightarrow> main_status \<Rightarrow> bool" where
  "backed_up (Starting _) m = (\<exists>t. m = Running t [])"
| "backed_up (Running t h) m = (m = Running t h)"
| "backed_up (BackingUp t h) m = (m = BackingUp t h)"
| "backed_up _ m = (m = Stopped)"

lemma backup_begin_cases:
  assumes "backup_begin host pid s = (b, s')"
  obtains (absent) "b = NotThere" "s' = s" "main_get (bk_db s) pid = None"
    | (busy) t h where "b = Busy" "s' = s" "main_get (bk_db s) pid = Some (BackingUp t h)"
    | (begun) since health m where "b = Begun since health" "main_get (bk_db s) pid = Some m"
        "s' = s\<lparr>bk_db := main_set (BackingUp since health) pid (bk_db s)\<rparr>"
        "backed_up m (case since of Some t \<Rightarrow> Running t health | None \<Rightarrow> Stopped)" "\<not> (\<exists>t h. m = BackingUp t h)"
  using assms by (auto simp: backup_begin_def main_get_def Let_def split: option.splits main_status.splits)

text \<open>The calls in \<open>backup_finish\<close> leave the database alone.\<close>

lemma bk_call_db: "bk_call f s = (r, s') \<Longrightarrow> bk_db s' = bk_db s \<and> bk_progress s' = bk_progress s"
  by (auto simp: bk_call_def split: prod.splits)

lemma bk_try_db:
  "bk_try f s = (Ok r, s') \<Longrightarrow> bk_db s' = bk_db s \<and> bk_progress s' = bk_progress s" "bk_try f s \<noteq> (Err e, s')"
  by (auto simp: bk_try_def split: prod.splits res.splits)

lemma record_backup_db [simp]: "bk_db (record_backup pid r s) = bk_db s" "bk_progress (record_backup pid r s) = bk_progress s"
  by (simp_all add: record_backup_def split: sum.split)

lemma backup_finish_Ok:
  assumes "backup_finish host pid since health report s = (Ok report', s')"
  shows "bk_db s' = main_set (case since of Some t \<Rightarrow> Running t health | None \<Rightarrow> Stopped) pid (bk_db s)"
    and "bk_progress s' = complete_package pid (bk_progress s)"
    and "\<exists>e. report' = bt_insert pid e report"
  using assms unfolding backup_finish_def
  by (auto simp: st_bind_eq_Ok st_simps dest!: bk_call_db bk_try_db(1))

lemma st_bind_Err: "st_bind m f s = (Err e, t) \<longleftrightarrow> m s = (Err e, t) \<or> (\<exists>a s'. m s = (Ok a, s') \<and> f a s' = (Err e, t))"
  by (auto simp: st_bind_def split: prod.splits res.splits)

lemma backup_finish_Err:
  assumes "backup_finish host pid since health report s = (Err e, s')"
  shows "bk_db s' = bk_db s"
  using assms unfolding backup_finish_def
  by (auto simp: st_bind_Err st_simps bk_try_db(2) dest!: bk_call_db bk_try_db(1))

lemma backup_package_Ok:
  assumes "backup_package host pid report s = (Ok report', s')"
  shows "q \<noteq> pid \<Longrightarrow> main_get (bk_db s') q = main_get (bk_db s) q"
    and "main_get (bk_db s) pid = Some m \<Longrightarrow> \<exists>m'. main_get (bk_db s') pid = Some m' \<and> backed_up m m'"
    and "bt_keys (bk_db s') = bt_keys (bk_db s)"
    and "bt_get report' q = None \<longleftrightarrow> bt_get report q = None \<and> \<not> (q = pid \<and> main_get (bk_db s) q \<noteq> None)"
    and "main_get (bk_db s) pid = Some m \<Longrightarrow> \<not> (\<exists>t h. m = BackingUp t h) \<Longrightarrow> bk_progress s' = complete_package pid (bk_progress s)"
    and "bk_progress s' = bk_progress s \<or> bk_progress s' = complete_package pid (bk_progress s)"
proof -
  obtain b s1 where b: "backup_begin host pid s = (b, s1)" by (cases "backup_begin host pid s")
  have "(q \<noteq> pid \<longrightarrow> main_get (bk_db s') q = main_get (bk_db s) q) \<and>
      (\<forall>m. main_get (bk_db s) pid = Some m \<longrightarrow> (\<exists>m'. main_get (bk_db s') pid = Some m' \<and> backed_up m m')) \<and>
      bt_keys (bk_db s') = bt_keys (bk_db s) \<and>
      (bt_get report' q = None \<longleftrightarrow> bt_get report q = None \<and> \<not> (q = pid \<and> main_get (bk_db s) q \<noteq> None)) \<and>
      (\<forall>m. main_get (bk_db s) pid = Some m \<longrightarrow> \<not> (\<exists>t h. m = BackingUp t h) \<longrightarrow> bk_progress s' = complete_package pid (bk_progress s)) \<and>
      (bk_progress s' = bk_progress s \<or> bk_progress s' = complete_package pid (bk_progress s))"
    using b
  proof (cases rule: backup_begin_cases)
    case (begun since health m)
    then have "backup_finish host pid since health report s1 = (Ok report', s')" using assms b by (simp add: backup_package_def)
    from backup_finish_Ok [OF this] begun show ?thesis by (auto simp: main_get_set split: if_splits)
  qed (use assms b in \<open>auto simp: backup_package_def split: if_splits\<close>)
  then show "q \<noteq> pid \<Longrightarrow> main_get (bk_db s') q = main_get (bk_db s) q"
    and "main_get (bk_db s) pid = Some m \<Longrightarrow> \<exists>m'. main_get (bk_db s') pid = Some m' \<and> backed_up m m'"
    and "bt_keys (bk_db s') = bt_keys (bk_db s)"
    and "bt_get report' q = None \<longleftrightarrow> bt_get report q = None \<and> \<not> (q = pid \<and> main_get (bk_db s) q \<noteq> None)"
    and "main_get (bk_db s) pid = Some m \<Longrightarrow> \<not> (\<exists>t h. m = BackingUp t h) \<Longrightarrow> bk_progress s' = complete_package pid (bk_progress s)"
    and "bk_progress s' = bk_progress s \<or> bk_progress s' = complete_package pid (bk_progress s)"
    by blast+
qed

lemma backup_package_absent: "main_get (bk_db s) pid = None \<Longrightarrow> backup_package host pid report s = (Ok report, s)"
  by (simp add: backup_package_def backup_begin_def main_get_def)

lemma backup_loop_Ok:
  assumes "st_fold (backup_package host) ps report s = (Ok report', s')" and "distinct ps"
  shows "(q \<notin> set ps \<longrightarrow> main_get (bk_db s') q = main_get (bk_db s) q) \<and>
    (\<forall>m. q \<in> set ps \<longrightarrow> main_get (bk_db s) q = Some m \<longrightarrow> (\<exists>m'. main_get (bk_db s') q = Some m' \<and> backed_up m m')) \<and>
    (main_get (bk_db s) q = None \<longrightarrow> main_get (bk_db s') q = None) \<and>
    (bt_get report' q = None \<longleftrightarrow> bt_get report q = None \<and> \<not> (q \<in> set ps \<and> main_get (bk_db s) q \<noteq> None))"
  using assms
proof (induction ps arbitrary: report s)
  case (Cons p ps)
  obtain report1 s1 where p: "backup_package host p report s = (Ok report1, s1)"
    and rest: "st_fold (backup_package host) ps report1 s1 = (Ok report', s')"
    using Cons.prems(1) by (auto simp: st_bind_eq_Ok)
  note IH = Cons.IH [OF rest]
  show ?case
  proof (cases "q = p")
    case True
    then have "q \<notin> set ps" using Cons.prems(2) by simp
    then show ?thesis
      using IH Cons.prems(2) True backup_package_Ok(2) [OF p] backup_package_Ok(4) [OF p, of q] p backup_package_absent [of s p] by auto
  next
    case False
    then show ?thesis
      using IH Cons.prems(2) backup_package_Ok(1) [OF p False] backup_package_Ok(4) [OF p, of q] by auto
  qed
qed (simp add: st_simps)

lemma perform_backup_packages:
  assumes "perform_backup host ids s = (Ok report, s')"
  obtains s1 where "backup_packages host ids s = (Ok report, s1)" "bk_db s' = bk_db s1"
  using assms unfolding perform_backup_def
  by (auto simp: st_bind_eq_Ok st_simps dest!: bk_call_db)

text \<open>
  C14. A backup that is carried out leaves every package as it found it: a service that ran goes on with its start time and
  health, one that was starting is recorded as running, others are stopped, packages that were not selected and those that are
  not installed are not touched. The report has an entry for a package if and only if it was selected and is installed.
\<close>

theorem backup_restores_status:
  assumes "perform_backup host ids s = (Ok report, s')" and "bt_ok (bk_db s)"
  shows "(bt_get report q \<noteq> None \<longleftrightarrow> q \<in> set ids \<and> main_get (bk_db s) q \<noteq> None) \<and>
    (case main_get (bk_db s) q of
       None \<Rightarrow> main_get (bk_db s') q = None
     | Some m \<Rightarrow> (\<exists>m'. main_get (bk_db s') q = Some m' \<and> (if q \<in> set ids then backed_up m m' else m' = m)))"
proof -
  let ?ps = "filter (\<lambda>p. p \<in> set ids) (bt_keys (bk_db s))"
  obtain s1 where p: "backup_packages host ids s = (Ok report, s1)" and same: "bk_db s' = bk_db s1"
    using assms(1) by (rule perform_backup_packages)
  from p have "st_fold (backup_package host) ?ps [] s = (Ok report, s1)" by (simp add: backup_packages_def st_eval)
  moreover have "distinct ?ps" using bt_ok_distinct [OF assms(2)] by (simp add: bt_keys_def)
  moreover have "q \<in> set (bt_keys (bk_db s))" if "main_get (bk_db s) q \<noteq> None" using that main_get_keys [of "bk_db s" q] by auto
  ultimately show ?thesis
    using backup_loop_Ok [of host ?ps "[]" s report s1 q] same
    by (cases "main_get (bk_db s) q"; cases "q \<in> set ids") auto
qed

text \<open>
  An error in the middle of a backup leaves the package it was at in the state \<open>BackingUp\<close>, and from then on every backup
  skips the package with the report that it is being backed up.
\<close>

theorem failed_backup_blocks_package:
  assumes "backup_package host pid report s = (Err e, s')"
  shows "(\<exists>t h. main_get (bk_db s') pid = Some (BackingUp t h)) \<and>
    backup_package host' pid report' s' = (Ok (bt_insert pid busy_report report'), s')"
proof -
  obtain b s1 where b: "backup_begin host pid s = (b, s1)" by (cases "backup_begin host pid s")
  have "\<exists>t h. main_get (bk_db s') pid = Some (BackingUp t h)"
    using b
  proof (cases rule: backup_begin_cases)
    case (begun since health m)
    then have "backup_finish host pid since health report s1 = (Err e, s')" using assms b by (simp add: backup_package_def)
    from backup_finish_Err [OF this] begun show ?thesis by (auto simp: main_get_set)
  qed (use assms b in \<open>auto simp: backup_package_def\<close>)
  then obtain t h where m: "main_get (bk_db s') pid = Some (BackingUp t h)" by blast
  then have "backup_begin host' pid s' = (Busy, s')"
    by (auto simp: backup_begin_def main_get_def split: option.splits)
  then show ?thesis using m by (simp add: backup_package_def)
qed

section \<open>What happens meanwhile\<close>

lemma fold_incomplete: "fold (\<lambda>e. (\<longrightarrow>) (snd e)) ps b \<longleftrightarrow> b \<or> (\<exists>e \<in> set ps. \<not> snd e)"
  by (induction ps arbitrary: b) auto

lemma assure_admits: "fst (assure_backing_up ids s) = Ok () \<longleftrightarrow> (case bk_progress s of Some ps \<Rightarrow> \<forall>e \<in> set ps. snd e | None \<Rightarrow> True)"
  by (auto simp: assure_backing_up_def fold_incomplete split: option.splits)

lemma bt_insert_mem: "bt_ok m \<Longrightarrow> e \<in> set (bt_insert k v m) \<longleftrightarrow> e = (k, v) \<or> e \<in> set m \<and> fst e \<noteq> k"
proof -
  assume ok: "bt_ok m"
  then have ok': "bt_ok (bt_insert k v m)" by (rule bt_ok_insert)
  have iff: "e \<in> set n \<longleftrightarrow> bt_get n (fst e) = Some (snd e)" if "bt_ok n" for n :: "('a, 'b) btmap"
    using bt_get_mem [OF that, of "fst e" "snd e"] bt_get_SomeD [of n "fst e" "snd e"] by auto
  show ?thesis using iff [OF ok] iff [OF ok'] by (cases e) auto
qed

text \<open>The packages that are not complete.\<close>

definition pending :: "(package_id, bool) btmap option \<Rightarrow> package_id set" where
  "pending progress = (case progress of Some ps \<Rightarrow> {p. (p, False) \<in> set ps} | None \<Rightarrow> {})"

lemma pending_complete:
  assumes "case progress of Some ps \<Rightarrow> bt_ok ps | None \<Rightarrow> True"
  shows "pending (complete_package pid progress) = pending progress - {pid}"
    and "case complete_package pid progress of Some ps \<Rightarrow> bt_ok ps | None \<Rightarrow> True"
proof -
  obtain ps where ps: "ps = (case progress of Some ps \<Rightarrow> ps | None \<Rightarrow> [])" by blast
  then have ok: "bt_ok ps" using assms by (auto split: option.splits)
  have "(pid, False) \<notin> set ps" if "bt_get ps pid = None" using that by (force simp: bt_get_None bt_keys_def)
  then show "pending (complete_package pid progress) = pending progress - {pid}"
    using ps by (auto simp: pending_def complete_package_def bt_insert_mem [OF ok] split: option.splits)
  show "case complete_package pid progress of Some ps \<Rightarrow> bt_ok ps | None \<Rightarrow> True"
    using ok ps by (auto simp: complete_package_def intro: bt_ok_insert split: option.splits)
qed

lemma backup_loop_pending:
  assumes "st_fold (backup_package host) ps report s = (Ok report', s')" and "distinct ps"
    and "case bk_progress s of Some ps \<Rightarrow> bt_ok ps | None \<Rightarrow> True"
    and "\<And>p. p \<in> set ps \<Longrightarrow> \<exists>m. main_get (bk_db s) p = Some m \<and> \<not> (\<exists>t h. m = BackingUp t h)"
  shows "pending (bk_progress s') = pending (bk_progress s) - set ps"
  using assms
proof (induction ps arbitrary: report s)
  case (Cons p ps)
  obtain report1 s1 where p: "backup_package host p report s = (Ok report1, s1)"
    and rest: "st_fold (backup_package host) ps report1 s1 = (Ok report', s')"
    using Cons.prems(1) by (auto simp: st_bind_eq_Ok)
  obtain m where "main_get (bk_db s) p = Some m" "\<not> (\<exists>t h. m = BackingUp t h)" using Cons.prems(4) [of p] by auto
  then have s1: "bk_progress s1 = complete_package p (bk_progress s)" by (rule backup_package_Ok(5) [OF p])
  have "main_get (bk_db s1) q = main_get (bk_db s) q" if "q \<in> set ps" for q
    using backup_package_Ok(1) [OF p, of q] that Cons.prems(2) by auto
  then have "pending (bk_progress s') = pending (bk_progress s1) - set ps"
    using Cons.prems(2,4) pending_complete(2) [OF Cons.prems(3), of p] by (intro Cons.IH [OF rest]) (simp_all add: s1)
  then show ?case using pending_complete(1) [OF Cons.prems(3), of p] by (auto simp: s1)
qed (simp add: st_simps)

text \<open>
  The claim of a backup ends too early: once its packages are done, a second backup is admitted while the first still has
  to write the backup of the system itself and to save the metadata.
\<close>

theorem second_backup_admitted:
  assumes "assure_backing_up ids s = (Ok (), s0)" and "backup_packages host ids s0 = (Ok report, s1)" and "bt_ok (bk_db s)"
    and "\<And>p. p \<in> set ids \<Longrightarrow> \<exists>m. main_get (bk_db s) p = Some m \<and> \<not> (\<exists>t h. m = BackingUp t h)"
  shows "fst (assure_backing_up ids' s1) = Ok ()"
proof -
  let ?ps = "filter (\<lambda>p. p \<in> set ids) (bt_keys (bk_db s))"
  have s0: "bk_db s0 = bk_db s" "bk_progress s0 = Some (bt_of_list (map (\<lambda>p. (p, False)) ids))"
    using assms(1) by (auto simp: assure_backing_up_def split: if_splits)
  have ok: "bt_ok (bt_of_list (map (\<lambda>p. (p, False)) ids))" by (rule bt_ok_of_list)
  have "st_fold (backup_package host) ?ps [] s0 = (Ok report, s1)" using assms(2) by (simp add: backup_packages_def st_eval s0)
  then have "pending (bk_progress s1) = pending (bk_progress s0) - set ?ps"
    using bt_ok_distinct [OF assms(3)] ok assms(4) by (intro backup_loop_pending) (simp_all add: s0 bt_keys_def)
  moreover have "pending (bk_progress s0) \<subseteq> set ids"
    using bt_get_of_list [of "map (\<lambda>p. (p, False)) ids"] by (force simp: s0 pending_def bt_get_None bt_keys_def)
  moreover have "set ids \<subseteq> set ?ps" using assms(4) main_get_keys [of "bk_db s"] by fastforce
  ultimately have "pending (bk_progress s1) = {}" by blast
  then have "case bk_progress s1 of Some ps \<Rightarrow> \<forall>e \<in> set ps. snd e | None \<Rightarrow> True"
    by (auto simp: pending_def split: option.splits) (metis (full_types))
  then show ?thesis by (simp only: assure_admits)
qed

text \<open>
  Stopping a service between the two transactions of its backup has no effect: whatever other commands made of the
  database meanwhile, the second transaction puts back the status that the first one found, so that a service that was
  told to stop is recorded as running.
\<close>

theorem stop_during_backup_lost:
  assumes "main_get (bk_db s) pid = Some (Running t h)" and "backup_begin host pid s = (Begun since health, s1)"
    and "main_get d pid = Some Stopping" and "backup_finish host pid since health report (s1\<lparr>bk_db := d\<rparr>) = (Ok report', s2)"
  shows "main_get (bk_db s2) pid = Some (Running t h)"
proof -
  have "since = Some t" "health = h" using assms(1,2) by (auto simp: backup_begin_def main_get_def split: option.splits)
  then show ?thesis using backup_finish_Ok(1) [OF assms(4)] assms(3) by (simp add: main_get_set)
qed

section \<open>Examples\<close>

definition sample_backup_host :: "unit backup_host" where
  "sample_backup_host = \<lparr>bh_manager = \<lambda>_ _. True, bh_synchronize = \<lambda>_ w. w, bh_mount = \<lambda>_ w. (Ok (), w), bh_create = \<lambda>_ _ w. (Ok ''now'', w),
     bh_unmount = \<lambda>_ w. (Ok (), w), bh_os = \<lambda>w. (Ok (), w), bh_save = \<lambda>_ w. (Ok (), w), bh_now = \<lambda>_. ''now'', bh_display = \<lambda>_. ''''\<rparr>"

definition sample_backup_state :: "unit backup_state" where
  "sample_backup_state = \<lparr>bk_db = main_set (Running ''t'' []) ''a'' [(''a'', sample_installed ''a'' []), (''b'', sample_installed ''b'' [])],
     bk_progress = None, bk_last_backup = [], bk_metadata = [], bk_server_last = None, bk_notifs = sample_notifs, bk_world = ()\<rparr>"

lemmas sample_backup = Let_def sample_backup_host_def sample_backup_state_def sample_installed_def main_get_def installed_get_def main_set_def installed_map_def

lemma sample_backup_main: "main_get (bk_db sample_backup_state) ''a'' = Some (Running ''t'' [])"
  by (simp add: sample_backup)

lemma sample_backup_ok: "bt_ok (bk_db sample_backup_state)"
  by (simp add: sample_backup less_list_code)

theorem backup_restores_status_witness:
  "\<exists>m. main_get (bk_db (snd (perform_backup sample_backup_host [''a''] sample_backup_state))) ''a'' = Some m \<and> m = Running ''t'' []"
proof -
  let ?m = "perform_backup sample_backup_host [''a''] sample_backup_state"
  have "fst ?m = Ok [(''a'', None)]" by code_simp
  then have "?m = (Ok [(''a'', None)], snd ?m)" by (metis prod.collapse)
  from backup_restores_status [OF this sample_backup_ok, of "''a''"] show ?thesis by (simp add: sample_backup_main)
qed

theorem failed_backup_blocks_package_witness:
  "\<exists>t h. main_get (bk_db (snd (backup_package (sample_backup_host\<lparr>bh_manager := \<lambda>_ _. False\<rparr>) ''a'' [] sample_backup_state))) ''a'' = Some (BackingUp t h)"
proof -
  let ?m = "backup_package (sample_backup_host\<lparr>bh_manager := \<lambda>_ _. False\<rparr>) ''a'' [] sample_backup_state"
  have "fst ?m = Err (Error InvalidRequest (Msg ''Manager not found''))"
    by (simp add: backup_package_def backup_begin_def backup_finish_def st_eval sample_backup ok_or_def)
  then have "?m = (Err (Error InvalidRequest (Msg ''Manager not found'')), snd ?m)" by (metis prod.collapse)
  from failed_backup_blocks_package [OF this] show ?thesis by blast
qed

theorem second_backup_admitted_witness:
  "fst (assure_backing_up [''b''] (snd (backup_packages sample_backup_host [''a''] (snd (assure_backing_up [''a''] sample_backup_state))))) = Ok ()"
proof -
  let ?s0 = "snd (assure_backing_up [''a''] sample_backup_state)"
  let ?m = "backup_packages sample_backup_host [''a''] ?s0"
  have "assure_backing_up [''a''] sample_backup_state = (Ok (), ?s0)"
    by (simp add: assure_backing_up_def sample_backup_state_def)
  moreover have "fst ?m = Ok [(''a'', None)]" by code_simp
  then have "?m = (Ok [(''a'', None)], snd ?m)" by (metis prod.collapse)
  ultimately show ?thesis
    using sample_backup_ok by (rule second_backup_admitted) (simp add: sample_backup_main)
qed

theorem stop_during_backup_lost_witness:
  "let s1 = snd (backup_begin sample_backup_host ''a'' sample_backup_state) in
   main_get (bk_db (snd (backup_finish sample_backup_host ''a'' (Some ''t'') [] []
     (s1\<lparr>bk_db := main_set Stopping ''a'' (bk_db s1)\<rparr>)))) ''a'' = Some (Running ''t'' [])"
proof -
  let ?s1 = "snd (backup_begin sample_backup_host ''a'' sample_backup_state)"
  let ?f = "backup_finish sample_backup_host ''a'' (Some ''t'') [] [] (?s1\<lparr>bk_db := main_set Stopping ''a'' (bk_db ?s1)\<rparr>)"
  have b: "backup_begin sample_backup_host ''a'' sample_backup_state = (Begun (Some ''t'') [], ?s1)"
    by (simp add: backup_begin_def sample_backup)
  have d: "main_get (main_set Stopping ''a'' (bk_db ?s1)) ''a'' = Some Stopping"
    by (simp add: backup_begin_def sample_backup)
  have "fst ?f = Ok [(''a'', None)]" by code_simp
  then have "?f = (Ok [(''a'', None)], snd ?f)" by (metis prod.collapse)
  from stop_during_backup_lost [OF sample_backup_main b d this] show ?thesis by (simp only: Let_def)
qed

end
