(* ===== verification/Auth.thy ===== *)
theory Auth
  imports State_Res Config_Types
begin

text \<open>
  Authentication (\<^verbatim>\<open>auth.rs\<close>, \<^verbatim>\<open>middleware/auth.rs\<close>, \<^verbatim>\<open>account.rs\<close>, \<^verbatim>\<open>db/mod.rs\<close>): passwords, sessions, the web sockets that
  end with their session, and the limit on login attempts. Hashes, encryption and the parser of cookies are fields of
  \<open>auth_host\<close>; the clock, random values and the outcome of queries are those of one call, \<open>call_env\<close>.
\<close>

section \<open>Operations\<close>

record auth_host =
  ah_verify :: "string \<Rightarrow> string \<Rightarrow> bool option"
  ah_hash_password :: "string \<Rightarrow> string \<Rightarrow> (string, string) res"
  ah_hash :: "string \<Rightarrow> string"
  ah_decrypt :: "string \<Rightarrow> string option"
  ah_cookies :: "string \<Rightarrow> (string \<times> string) list option"
  ah_json :: "string \<Rightarrow> bool"

record call_env =
  ce_now :: int
  ce_token :: string
  ce_salt :: string
  ce_local :: "(error, string) res"
  ce_query :: "nat \<Rightarrow> (error, unit) res"

record session_row =
  sr_id :: string
  sr_logged_in :: int
  sr_last_active :: int
  sr_logged_out :: "int option"
  sr_user_agent :: "string option"
  sr_metadata :: string

record auth_state =
  au_sessions :: "session_row list"
  au_sockets :: "(string, nat list) btmap"
  au_closed :: "nat list"
  au_stored :: string
  au_account :: string
  au_password_hash :: string

record request_parts =
  rq_cookie :: "string option option"
  rq_user_agent :: "string option"

datatype password_type = EncryptedWire string | PlainText string

type_synonym 'a auth_op = "(auth_state, error, 'a) st"

definition unauthorized :: error where
  "unauthorized = Error Authorization (Msg ''UNAUTHORIZED'')"

definition password_incorrect :: error where
  "password_incorrect = Error IncorrectPassword (Msg ''Password Incorrect'')"

fun password_decrypt :: "auth_host \<Rightarrow> password_type option \<Rightarrow> (error, string) res" where
  "password_decrypt host (Some (PlainText x)) = Ok x"
| "password_decrypt host (Some (EncryptedWire x)) = ok_or (ah_decrypt host x) (Error Unknown (Msg ''Couldn't decode password''))"
| "password_decrypt host None = Ok ''''"

subsection \<open>Sessions\<close>

record hash_session_token =
  ht_hashed :: string
  ht_token :: string

definition token_of :: "auth_host \<Rightarrow> string \<Rightarrow> hash_session_token" where
  "token_of host token = \<lparr>ht_hashed = ah_hash host token, ht_token = token\<rparr>"

definition cookies_of :: "auth_host \<Rightarrow> request_parts \<Rightarrow> (error, (string \<times> string) list option) res" where
  "cookies_of host req =
     (case rq_cookie req of
        None \<Rightarrow> Ok None
      | Some None \<Rightarrow> Err (Error Authorization (Msg ''failed to convert header to a str''))
      | Some (Some h) \<Rightarrow> rmap Some (ok_or (ah_cookies host h) (Error Authorization (Msg ''cookie''))))"

definition cookie_named :: "string \<Rightarrow> (string \<times> string) list \<Rightarrow> string option" where
  "cookie_named name cookies = map_option snd (find (\<lambda>c. fst c = name) cookies)"

definition token_from_request_parts :: "auth_host \<Rightarrow> request_parts \<Rightarrow> (error, hash_session_token) res" where
  "token_from_request_parts host req =
     rbind (cookies_of host req) (\<lambda>cookies.
     case Option.bind cookies (cookie_named ''session'') of
       Some v \<Rightarrow> Ok (token_of host v)
     | None \<Rightarrow> Err unauthorized)"

definition set_cookie_header :: "hash_session_token \<Rightarrow> (error, string) res" where
  "set_cookie_header tok =
     (let h = ''session='' @ ht_token tok @ ''; Path=/; SameSite=Lax; Expires=Fri, 31 Dec 9999 23:59:59 GMT;'' in
      if list_all (\<lambda>c. 32 \<le> (of_char c :: nat) \<and> of_char c \<noteq> (127 :: nat) \<or> of_char c = (9 :: nat)) h then Ok h
      else Err (Error Unknown (Msg ''failed to parse header value'')))"

text \<open>
  The condition of the query in \<open>from_session\<close> as SQL reads it: \<open>AND\<close> binds stronger than \<open>OR\<close>, and a comparison with
  \<open>NULL\<close> does not hold.
\<close>

definition session_matches :: "string \<Rightarrow> int \<Rightarrow> session_row \<Rightarrow> bool" where
  "session_matches h now r \<longleftrightarrow>
     (sr_id r = h \<and> sr_logged_out r = None) \<or> (case sr_logged_out r of Some t \<Rightarrow> t > now | None \<Rightarrow> False)"

definition from_session :: "call_env \<Rightarrow> string \<Rightarrow> unit auth_op" where
  "from_session env h =
     st_bind (st_lift (ce_query env 0)) (\<lambda>_.
     st_bind (st_get (\<lambda>s. list_ex (session_matches h (ce_now env)) (au_sessions s))) (\<lambda>affected.
     st_bind (st_modify (\<lambda>s. s\<lparr>au_sessions :=
       map (\<lambda>r. if session_matches h (ce_now env) r then r\<lparr>sr_last_active := ce_now env\<rparr> else r) (au_sessions s)\<rparr>)) (\<lambda>_.
     st_lift (if affected then Ok () else Err unauthorized))))"

definition from_local :: "call_env \<Rightarrow> string \<Rightarrow> (error, unit) res" where
  "from_local env v = rbind (ce_local env) (\<lambda>token. if v = token then Ok () else Err unauthorized)"

text \<open>\<open>HasValidSession::from_request_parts\<close>: the local cookie first, then the session; their errors are not passed on.\<close>

definition has_valid_session :: "auth_host \<Rightarrow> call_env \<Rightarrow> request_parts \<Rightarrow> unit auth_op" where
  "has_valid_session host env req =
     st_bind (st_lift (cookies_of host req)) (\<lambda>cookies.
     case cookies of
       None \<Rightarrow> st_lift (Err unauthorized)
     | Some cs \<Rightarrow>
         if (case cookie_named ''local'' cs of Some v \<Rightarrow> from_local env v = Ok () | None \<Rightarrow> False) then st_return ()
         else (case cookie_named ''session'' cs of
           Some v \<Rightarrow> st_catch (from_session env (ht_hashed (token_of host v))) (\<lambda>_. st_lift (Err unauthorized))
         | None \<Rightarrow> st_lift (Err unauthorized)))"

text \<open>\<open>HasLoggedOutSessions::new\<close>: the first query is the one that gets a connection, the \<open>k\<close>-th session takes the \<open>k\<close>-th after it.\<close>

definition log_out_session :: "call_env \<Rightarrow> nat \<times> string \<Rightarrow> unit auth_op" where
  "log_out_session env ks =
     st_bind (st_lift (ce_query env (fst ks))) (\<lambda>_.
     st_modify (\<lambda>s. s\<lparr>
       au_sessions := map (\<lambda>r. if sr_id r = snd ks then r\<lparr>sr_logged_out := Some (ce_now env)\<rparr> else r) (au_sessions s),
       au_closed := au_closed s @ (case bt_get (au_sockets s) (snd ks) of Some xs \<Rightarrow> xs | None \<Rightarrow> []),
       au_sockets := bt_remove (snd ks) (au_sockets s)\<rparr>))"

definition log_out_sessions :: "call_env \<Rightarrow> string list \<Rightarrow> unit auth_op" where
  "log_out_sessions env ids =
     st_bind (st_lift (ce_query env 0)) (\<lambda>_. st_for (log_out_session env) (enumerate 1 ids))"

subsection \<open>Commands\<close>

definition check_password :: "auth_host \<Rightarrow> string \<Rightarrow> string \<Rightarrow> (error, unit) res" where
  "check_password host hash password =
     (case ah_verify host hash password of
        None \<Rightarrow> Err password_incorrect
      | Some ok \<Rightarrow> if ok then Ok () else Err password_incorrect)"

definition login :: "auth_host \<Rightarrow> call_env \<Rightarrow> request_parts \<Rightarrow> password_type option \<Rightarrow> string \<Rightarrow> string auth_op" where
  "login host env req password metadata =
     st_bind (st_lift (password_decrypt host password)) (\<lambda>password.
     st_bind (st_lift (ce_query env 0)) (\<lambda>_.
     st_bind (st_lift (ce_query env 1)) (\<lambda>_.
     st_bind (st_get au_stored) (\<lambda>hash.
     st_bind (st_lift (check_password host hash password)) (\<lambda>_.
     let tok = token_of host (ce_token env) in
     st_bind (st_lift (ce_query env 2)) (\<lambda>_.
     st_bind (st_get (\<lambda>s. ht_hashed tok \<in> sr_id ` set (au_sessions s))) (\<lambda>taken.
     st_bind (st_lift (if taken then Err (Error Database (Msg ''duplicate key value violates unique constraint'')) else Ok ())) (\<lambda>_.
     st_bind (st_modify (\<lambda>s. s\<lparr>au_sessions := au_sessions s @ [\<lparr>sr_id = ht_hashed tok, sr_logged_in = ce_now env,
       sr_last_active = ce_now env, sr_logged_out = None, sr_user_agent = rq_user_agent req, sr_metadata = metadata\<rparr>]\<rparr>)) (\<lambda>_.
     st_lift (set_cookie_header tok))))))))))"

definition logout :: "auth_host \<Rightarrow> call_env \<Rightarrow> request_parts \<Rightarrow> unit option auth_op" where
  "logout host env req =
     (case token_from_request_parts host req of
        Ok tok \<Rightarrow> st_bind (log_out_sessions env [ht_hashed tok]) (\<lambda>_. st_return (Some ()))
      | Err _ \<Rightarrow> st_return None
      | Panic \<Rightarrow> st_lift Panic
      | Diverge \<Rightarrow> st_lift Diverge)"

definition kill :: "call_env \<Rightarrow> string list \<Rightarrow> unit auth_op" where
  "kill env ids = log_out_sessions env ids"

fun list_row :: "auth_host \<Rightarrow> session_row \<Rightarrow> (error, string \<times> session_row) res" where
  "list_row host r = (if ah_json host (sr_metadata r) then Ok (sr_id r, r) else Err (Error Database (Msg ''metadata'')))"

fun list_rows :: "auth_host \<Rightarrow> session_row list \<Rightarrow> (error, (string \<times> session_row) list) res" where
  "list_rows host [] = Ok []"
| "list_rows host (r # rs) = rbind (list_row host r) (\<lambda>x. rmap ((#) x) (list_rows host rs))"

definition session_list :: "auth_host \<Rightarrow> call_env \<Rightarrow> request_parts \<Rightarrow> (string \<times> (string, session_row) btmap) auth_op" where
  "session_list host env req =
     st_bind (st_lift (token_from_request_parts host req)) (\<lambda>tok.
     st_bind (st_lift (ce_query env 0)) (\<lambda>_.
     st_bind (st_get (\<lambda>s. filter (\<lambda>r. case sr_logged_out r of None \<Rightarrow> True | Some t \<Rightarrow> t > ce_now env) (au_sessions s))) (\<lambda>rows.
     st_bind (st_lift (list_rows host rows)) (\<lambda>xs. st_return (ht_hashed tok, bt_of_list xs)))))"

text \<open>The password is replaced in memory first, then in the secret store, then in the database.\<close>

definition reset_password :: "auth_host \<Rightarrow> call_env \<Rightarrow> password_type option \<Rightarrow> password_type option \<Rightarrow> unit auth_op" where
  "reset_password host env old_password new_password =
     st_bind (st_lift (password_decrypt host old_password)) (\<lambda>old.
     st_bind (st_lift (password_decrypt host new_password)) (\<lambda>new.
     st_bind (st_get au_account) (\<lambda>account.
     st_bind (st_lift (case ah_verify host account old of
         None \<Rightarrow> Err (Error IncorrectPassword (Msg ''argon2''))
       | Some ok \<Rightarrow> if ok then Ok () else Err (Error IncorrectPassword (Msg ''Incorrect Password'')))) (\<lambda>_.
     st_bind (st_lift (map_err (\<lambda>e. Error PasswordHashGeneration (Msg e)) (ah_hash_password host (ce_salt env) new))) (\<lambda>hash.
     st_bind (st_modify (\<lambda>s. s\<lparr>au_account := hash\<rparr>)) (\<lambda>_.
     st_bind (st_lift (ce_query env 0)) (\<lambda>_.
     st_bind (st_modify (\<lambda>s. s\<lparr>au_stored := au_account s\<rparr>)) (\<lambda>_.
     st_bind (st_lift (ce_query env 1)) (\<lambda>_.
     st_modify (\<lambda>s. s\<lparr>au_password_hash := au_account s\<rparr>))))))))))"

subsection \<open>Web sockets\<close>

text \<open>A socket is let in by its request and is registered under its session later, when the connection is up.\<close>

definition ws_admit :: "auth_host \<Rightarrow> call_env \<Rightarrow> request_parts \<Rightarrow> hash_session_token option auth_op" where
  "ws_admit host env req =
     st_catch
       (st_bind (st_lift (token_from_request_parts host req)) (\<lambda>tok.
        st_bind (has_valid_session host env req) (\<lambda>_. st_return (Some tok))))
       (\<lambda>_. st_return None)"

definition subscribe_to_session_kill :: "string \<Rightarrow> nat \<Rightarrow> auth_state \<Rightarrow> auth_state" where
  "subscribe_to_session_kill h socket s =
     s\<lparr>au_sockets := bt_insert h
       (case bt_get (au_sockets s) h of None \<Rightarrow> [socket] | Some xs \<Rightarrow> xs @ [socket]) (au_sockets s)\<rparr>"

subsection \<open>The limit on login attempts\<close>

text \<open>The number of failed calls and the time of the last call; times in nanoseconds.\<close>

type_synonym rate_limiter = "nat \<times> int"

definition login_window :: int where
  "login_window = 20 * 10 ^ 9"

definition rate_limited :: error where
  "rate_limited = Error RateLimited (Msg ''Please limit login attempts to 3 per 20 seconds.'')"

text \<open>Before the call; \<open>authenticated\<close> is the metadata of the methods.\<close>

definition admit_call :: "(string \<Rightarrow> bool option) \<Rightarrow> string \<Rightarrow> (error, unit) res \<Rightarrow> int \<Rightarrow> rate_limiter \<Rightarrow> (error, unit) res" where
  "admit_call authenticated name valid now guard =
     (case valid of
        Err e \<Rightarrow>
          if (case authenticated name of Some b \<Rightarrow> b | None \<Rightarrow> True) then Err e
          else if name = ''auth.login'' \<and> now - snd guard < login_window \<and> 3 \<le> fst guard then Err rate_limited
          else Ok ()
      | _ \<Rightarrow> valid)"

definition auth_stage2 :: "auth_host \<Rightarrow> call_env \<Rightarrow> (string \<Rightarrow> bool option) \<Rightarrow> string \<Rightarrow> request_parts \<Rightarrow> int \<Rightarrow> rate_limiter \<Rightarrow> unit auth_op" where
  "auth_stage2 host env authenticated name req now guard s =
     (case has_valid_session host env req s of (valid, t) \<Rightarrow> (admit_call authenticated name valid now guard, t))"

text \<open>After the call.\<close>

definition auth_stage3 :: "bool \<Rightarrow> int \<Rightarrow> rate_limiter \<Rightarrow> rate_limiter" where
  "auth_stage3 failed now guard =
     (if now - snd guard < login_window then if failed then fst guard + 1 else fst guard else 0, now)"

section \<open>Sessions over time\<close>

text \<open>What happened so far, the latest first, and the sessions that are open by it.\<close>

datatype auth_event = LoggedIn string | LoggedOut "string list"

fun live :: "auth_event list \<Rightarrow> string set" where
  "live [] = {}"
| "live (LoggedIn h # tr) = insert h (live tr)"
| "live (LoggedOut hs # tr) = live tr - set hs"

text \<open>The sessions that \<open>log_out_sessions\<close> reached.\<close>

definition reached :: "call_env \<Rightarrow> string list \<Rightarrow> string list" where
  "reached env ids =
     (if ce_query env 0 = Ok () then map snd (takeWhile (\<lambda>ks. ce_query env (fst ks) = Ok ()) (enumerate 1 ids)) else [])"

text \<open>Commands and requests in any order, while the clock does not go back. Tokens are printable.\<close>

inductive auth_trace :: "auth_host \<Rightarrow> int \<Rightarrow> auth_event list \<Rightarrow> auth_state \<Rightarrow> bool" for host where
  at_init: "au_sessions s = [] \<Longrightarrow> auth_trace host n [] s"
| at_login: "auth_trace host n tr s \<Longrightarrow> n \<le> ce_now env \<Longrightarrow> login host env req password metadata s = (Ok cookie, t) \<Longrightarrow>
    auth_trace host (ce_now env) (LoggedIn (ah_hash host (ce_token env)) # tr) t"
| at_login_failed: "auth_trace host n tr s \<Longrightarrow> n \<le> ce_now env \<Longrightarrow> is_ok (set_cookie_header (token_of host (ce_token env))) \<Longrightarrow>
    login host env req password metadata s = (Err e, t) \<Longrightarrow> auth_trace host (ce_now env) tr t"
| at_logout: "auth_trace host n tr s \<Longrightarrow> n \<le> ce_now env \<Longrightarrow> token_from_request_parts host req = Ok tok \<Longrightarrow>
    logout host env req s = (r, t) \<Longrightarrow> auth_trace host (ce_now env) (LoggedOut (reached env [ht_hashed tok]) # tr) t"
| at_kill: "auth_trace host n tr s \<Longrightarrow> n \<le> ce_now env \<Longrightarrow> kill env ids s = (r, t) \<Longrightarrow>
    auth_trace host (ce_now env) (LoggedOut (reached env ids) # tr) t"
| at_request: "auth_trace host n tr s \<Longrightarrow> n \<le> ce_now env \<Longrightarrow> has_valid_session host env req s = (r, t) \<Longrightarrow>
    auth_trace host (ce_now env) tr t"
| at_list: "auth_trace host n tr s \<Longrightarrow> n \<le> ce_now env \<Longrightarrow> session_list host env req s = (r', t) \<Longrightarrow>
    auth_trace host (ce_now env) tr t"
| at_reset: "auth_trace host n tr s \<Longrightarrow> n \<le> ce_now env \<Longrightarrow> reset_password host env old new s = (r, t) \<Longrightarrow>
    auth_trace host (ce_now env) tr t"
| at_admit: "auth_trace host n tr s \<Longrightarrow> n \<le> ce_now env \<Longrightarrow> ws_admit host env req s = (r'', t) \<Longrightarrow>
    auth_trace host (ce_now env) tr t"
| at_subscribe: "auth_trace host n tr s \<Longrightarrow> auth_trace host n tr (subscribe_to_session_kill h socket s)"

text \<open>The rows without their times of activity, which requests change.\<close>

definition rows_of :: "auth_state \<Rightarrow> (string \<times> int option) list" where
  "rows_of s = map (\<lambda>r. (sr_id r, sr_logged_out r)) (au_sessions s)"

definition rows_ok :: "int \<Rightarrow> auth_event list \<Rightarrow> (string \<times> int option) list \<Rightarrow> bool" where
  "rows_ok n tr rows \<longleftrightarrow> {h. (h, None) \<in> set rows} = live tr \<and> (\<forall>h t. (h, Some t) \<in> set rows \<longrightarrow> t \<le> n)"

interpretation same_rows: state_rel "\<lambda>s t. rows_of s = rows_of t"
  by unfold_locales auto

lemma rows_ok_mono: "rows_ok n tr rows \<Longrightarrow> n \<le> m \<Longrightarrow> rows_ok m tr rows"
  by (auto simp: rows_ok_def intro: order_trans)

lemma same_rows_session: "same_rows.keeps (from_session env h)"
  unfolding from_session_def by (intro same_rows.keeps_rules allI) (simp add: rows_of_def)

lemma same_rows_valid: "same_rows.keeps (has_valid_session host env req)"
  unfolding has_valid_session_def
  by (auto intro!: same_rows.keeps_bind same_rows.keeps_basic same_rows.keeps_catch same_rows_session split: option.split)

lemma same_rows_list: "same_rows.keeps (session_list host env req)"
  unfolding session_list_def by (intro same_rows.keeps_rules allI)

lemma same_rows_reset: "same_rows.keeps (reset_password host env old new)"
  unfolding reset_password_def by (intro same_rows.keeps_rules allI) (simp_all add: rows_of_def)

lemma same_rows_admit: "same_rows.keeps (ws_admit host env req)"
  unfolding ws_admit_def by (intro same_rows.keeps_rules same_rows_valid allI)

lemmas rows_kept = same_rows.keepsD [OF same_rows_valid] same_rows.keepsD [OF same_rows_list]
  same_rows.keepsD [OF same_rows_reset] same_rows.keepsD [OF same_rows_admit]

lemma login_rows:
  assumes "login host env req password metadata s = (r, t)" and "\<not> is_ok r \<longrightarrow> is_ok (set_cookie_header (token_of host (ce_token env)))"
  shows "rows_of t = (if is_ok r then rows_of s @ [(ah_hash host (ce_token env), None)] else rows_of s)"
  using assms
  by (auto simp: login_def Let_def st_bind_def st_lift_def st_get_def st_modify_def rows_of_def token_of_def is_ok_def
      split: prod.splits res.splits if_splits)

text \<open>Logging out one session after another.\<close>

definition mark_out :: "int \<Rightarrow> string list \<Rightarrow> (string \<times> int option) list \<Rightarrow> (string \<times> int option) list" where
  "mark_out now hs rows = map (\<lambda>(h, out). (h, if h \<in> set hs then Some now else out)) rows"

lemma mark_out_more: "mark_out now hs (mark_out now [h] rows) = mark_out now (h # hs) rows"
  by (auto simp: mark_out_def)

lemma log_out_session_rows:
  "ce_query env (fst ks) = Ok () \<Longrightarrow> \<exists>t. log_out_session env ks s = (Ok (), t) \<and> rows_of t = mark_out (ce_now env) [snd ks] (rows_of s)"
  by (auto simp: log_out_session_def st_eval rows_of_def mark_out_def)

lemma log_out_loop_rows:
  "rows_of (snd (st_for (log_out_session env) kss s)) =
     mark_out (ce_now env) (map snd (takeWhile (\<lambda>ks. ce_query env (fst ks) = Ok ()) kss)) (rows_of s)"
proof (induction kss arbitrary: s)
  case Nil
  then show ?case by (simp add: st_eval mark_out_def case_prod_unfold)
next
  case (Cons ks kss)
  show ?case
  proof (cases "ce_query env (fst ks)")
    case (Ok u)
    then obtain t where t: "log_out_session env ks s = (Ok (), t)" "rows_of t = mark_out (ce_now env) [snd ks] (rows_of s)"
      using log_out_session_rows [of env ks s] by auto
    show ?thesis using Cons.IH [of t] t Ok by (simp add: st_eval mark_out_more)
  qed (simp_all add: log_out_session_def st_eval mark_out_def case_prod_unfold)
qed

lemma log_out_rows: "rows_of (snd (log_out_sessions env ids s)) = mark_out (ce_now env) (reached env ids) (rows_of s)"
  by (cases "ce_query env 0")
    (simp_all add: log_out_sessions_def reached_def st_eval log_out_loop_rows mark_out_def case_prod_unfold)

lemma set_mark_out: "(h, out) \<in> set (mark_out now hs rows) \<longleftrightarrow>
   (if h \<in> set hs then out = Some now \<and> h \<in> fst ` set rows else (h, out) \<in> set rows)"
  by (force simp: mark_out_def)

lemma rows_ok_out:
  assumes "rows_ok n tr rows" and "n \<le> now"
  shows "rows_ok now (LoggedOut hs # tr) (mark_out now hs rows)"
proof -
  have "rows_ok now tr rows" using assms by (rule rows_ok_mono)
  then show ?thesis by (auto simp: rows_ok_def set_mark_out split: if_splits)
qed

lemma rows_ok_in: "rows_ok n tr rows \<Longrightarrow> n \<le> now \<Longrightarrow> rows_ok now (LoggedIn h # tr) (rows @ [(h, None)])"
  by (auto simp: rows_ok_def intro: order_trans)

lemma logout_rows:
  "token_from_request_parts host req = Ok tok \<Longrightarrow> logout host env req s = (r, t) \<Longrightarrow>
   rows_of t = mark_out (ce_now env) (reached env [ht_hashed tok]) (rows_of s)"
  using log_out_rows [of env "[ht_hashed tok]" s]
  by (auto simp: logout_def st_bind_def st_return_def split: prod.splits res.splits)

lemma trace_rows_ok: "auth_trace host n tr s \<Longrightarrow> rows_ok n tr (rows_of s)"
proof (induction rule: auth_trace.induct)
  case (at_init s n)
  then show ?case by (simp add: rows_ok_def rows_of_def)
next
  case (at_login n tr s env req password metadata cookie t)
  then show ?case using login_rows [OF at_login.hyps(3)] by (simp add: rows_ok_in)
next
  case (at_login_failed n tr s env req password metadata e t)
  then show ?case using login_rows [OF at_login_failed.hyps(4)] by (simp add: rows_ok_mono)
next
  case (at_logout n tr s env req tok r t)
  then show ?case using logout_rows [OF at_logout.hyps(3,4)] by (simp add: rows_ok_out)
next
  case (at_kill n tr s env ids r t)
  then show ?case using log_out_rows [of env ids s] by (simp add: rows_ok_out kill_def)
next
  case (at_subscribe n tr s h socket)
  then show ?case by (simp add: rows_of_def subscribe_to_session_kill_def)
qed (metis rows_kept rows_ok_mono)+

lemma is_ok_catch: "is_ok (fst (st_catch m (\<lambda>_. st_lift (Err e)) s)) \<longleftrightarrow> is_ok (fst (m s))"
  by (auto simp: st_catch_def st_eval split: prod.splits res.splits)

lemma from_session_ok: "is_ok (fst (from_session env h s)) \<longleftrightarrow>
   ce_query env 0 = Ok () \<and> list_ex (session_matches h (ce_now env)) (au_sessions s)"
  by (cases "ce_query env 0") (auto simp: from_session_def st_eval)

lemma session_matches_trace:
  assumes "auth_trace host n tr s" and "n \<le> now"
  shows "list_ex (session_matches h now) (au_sessions s) \<longleftrightarrow> h \<in> live tr"
proof -
  have ok: "rows_ok n tr (rows_of s)" using assms(1) by (rule trace_rows_ok)
  have "session_matches h now r \<longleftrightarrow> (sr_id r, sr_logged_out r) = (h, None)" if "r \<in> set (au_sessions s)" for r
  proof -
    have "(sr_id r, sr_logged_out r) \<in> set (rows_of s)" using that by (auto simp: rows_of_def)
    then have "t \<le> n" if "sr_logged_out r = Some t" for t using ok that by (auto simp: rows_ok_def)
    then show ?thesis using assms(2) by (cases "sr_logged_out r") (auto simp: session_matches_def)
  qed
  then have "list_ex (session_matches h now) (au_sessions s) \<longleftrightarrow> (h, None) \<in> set (rows_of s)"
    by (auto simp: list_ex_iff rows_of_def)
  also have "\<dots> \<longleftrightarrow> h \<in> live tr" using ok by (auto simp: rows_ok_def)
  finally show ?thesis .
qed

text \<open>
  C10. While the clock does not go back, a request is let in exactly when it has the local cookie or a session whose last event was a
  login: sessions open by logging in and stay open until they are logged out or killed, whatever other requests there
  were and whichever queries failed.
\<close>

theorem request_authorized_iff:
  assumes "auth_trace host n tr s" and "n \<le> ce_now env" and "ce_query env 0 = Ok ()" and "cookies_of host req = Ok (Some cs)"
  shows "is_ok (fst (has_valid_session host env req s)) \<longleftrightarrow>
    (\<exists>v. cookie_named ''local'' cs = Some v \<and> ce_local env = Ok v) \<or>
    (\<exists>v. cookie_named ''session'' cs = Some v \<and> ah_hash host v \<in> live tr)"
proof -
  have local: "from_local env v = Ok () \<longleftrightarrow> ce_local env = Ok v" for v
    by (cases "ce_local env") (auto simp: from_local_def)
  show ?thesis
    using assms(3,4) session_matches_trace [OF assms(1,2)]
    by (auto simp: has_valid_session_def st_eval is_ok_catch from_session_ok local token_of_def split: option.splits)
qed

text \<open>
  C28. When the clock is set back behind the time of some logout, every request with any session cookie is let in: the condition of the
  query lacks parentheses, so that the row of the session that is logged out at a time to come matches whatever the token is.
\<close>

theorem clock_set_back_admits_all:
  assumes "token_from_request_parts host bye = Ok tok" and "ht_hashed tok \<in> sr_id ` set (au_sessions s)"
    and "logout host env bye s = (Ok r, t)"
    and "ce_now env' < ce_now env" and "ce_query env' 0 = Ok ()"
    and "cookies_of host req = Ok (Some cs)" and "cookie_named ''session'' cs = Some v"
  shows "is_ok (fst (has_valid_session host env' req t))"
proof -
  have "ce_query env 0 = Ok ()" "ce_query env 1 = Ok ()" using assms(1,3)
    by (auto simp: logout_def log_out_sessions_def log_out_session_def st_bind_def st_lift_def split: prod.splits res.splits)
  then have "reached env [ht_hashed tok] = [ht_hashed tok]" by (simp add: reached_def)
  then have "rows_of t = mark_out (ce_now env) [ht_hashed tok] (rows_of s)"
    using logout_rows [OF assms(1,3)] by simp
  then have "(ht_hashed tok, Some (ce_now env)) \<in> set (rows_of t)"
    using assms(2) by (force simp: set_mark_out rows_of_def)
  then have "list_ex (session_matches h (ce_now env')) (au_sessions t)" for h
    using assms(4) by (force simp: rows_of_def list_ex_iff session_matches_def split: option.splits)
  then have "is_ok (fst (from_session env' h t))" for h using assms(5) by (simp add: from_session_ok)
  then show ?thesis using assms(6,7)
    by (auto simp: has_valid_session_def st_eval is_ok_catch split: option.splits)
qed

text \<open>Sockets end with their session; one that is registered only after the logout does not.\<close>

lemma logout_closes_sockets:
  assumes "log_out_session env ks s = (Ok (), t)" and "bt_get (au_sockets s) (snd ks) = Some xs"
  shows "set xs \<subseteq> set (au_closed t) \<and> bt_get (au_sockets t) (snd ks) = None"
  using assms by (auto simp: log_out_session_def st_bind_def st_lift_def st_modify_def split: res.splits)

section \<open>Login attempts\<close>

text \<open>Calls that are served one after the other, each with its begin and its end.\<close>

record rpc_call =
  cl_begin :: int
  cl_end :: int
  cl_name :: string
  cl_valid :: "(error, unit) res"
  cl_failed :: bool

fun admitted :: "(string \<Rightarrow> bool option) \<Rightarrow> rpc_call list \<Rightarrow> rate_limiter \<Rightarrow> rpc_call list" where
  "admitted meta [] guard = []"
| "admitted meta (c # cs) guard =
     (if admit_call meta (cl_name c) (cl_valid c) (cl_begin c) guard = Ok ()
      then c # admitted meta cs (auth_stage3 (cl_failed c) (cl_end c) guard)
      else admitted meta cs guard)"

fun in_order :: "int \<Rightarrow> rpc_call list \<Rightarrow> bool" where
  "in_order t [] = True"
| "in_order t (c # cs) \<longleftrightarrow> t \<le> cl_begin c \<and> cl_begin c \<le> cl_end c \<and> in_order (cl_end c) cs"

lemma in_order_earlier: "in_order t cs \<Longrightarrow> u \<le> t \<Longrightarrow> in_order u cs"
  by (cases cs) auto

definition guess :: "rpc_call \<Rightarrow> bool" where
  "guess c \<longleftrightarrow> cl_name c = ''auth.login'' \<and> \<not> is_ok (cl_valid c) \<and> cl_failed c"

lemma guess_admitted:
  "guess c \<Longrightarrow> admit_call meta (cl_name c) (cl_valid c) now guard = Ok () \<Longrightarrow> now - snd guard < login_window \<Longrightarrow> fst guard < 3"
  by (auto simp: guess_def admit_call_def split: res.splits if_splits)

text \<open>Once a call was served in the window, the counter is not reset any more.\<close>

lemma attempts_left:
  assumes "in_order (snd guard) cs" and "\<forall>c\<in>set cs. cl_end c < a + login_window" and "a \<le> snd guard"
  shows "length (filter guess (admitted meta cs guard)) \<le> 3 - fst guard"
  using assms
proof (induction cs arbitrary: guard)
  case (Cons c cs)
  show ?case
  proof (cases "admit_call meta (cl_name c) (cl_valid c) (cl_begin c) guard = Ok ()")
    case True
    let ?g = "auth_stage3 (cl_failed c) (cl_end c) guard"
    have window: "cl_end c - snd guard < login_window" "cl_begin c - snd guard < login_window" using Cons.prems by auto
    then have g: "?g = (if cl_failed c then fst guard + 1 else fst guard, cl_end c)" by (simp add: auth_stage3_def)
    have IH: "length (filter guess (admitted meta cs ?g)) \<le> 3 - fst ?g"
      using Cons.prems g by (intro Cons.IH) auto
    show ?thesis
    proof (cases "guess c")
      case True
      then have "fst guard < 3" "fst ?g = fst guard + 1"
        using guess_admitted [OF True \<open>admit_call _ _ _ _ _ = _\<close> window(2)] g by (auto simp: guess_def)
      then show ?thesis using IH True \<open>admit_call _ _ _ _ _ = _\<close> by simp
    next
      case False
      then show ?thesis using IH g \<open>admit_call _ _ _ _ _ = _\<close> by (auto split: if_splits)
    qed
  next
    case False
    have "in_order (snd guard) cs" using Cons.prems(1) by (auto intro: in_order_earlier)
    then show ?thesis using False Cons by simp
  qed
qed simp

text \<open>
  C11. Of the calls that are served one after the other, at most four in any twenty seconds are login attempts that fail, whatever
  calls there were before and between them: one more than the message says, since the attempt that starts a new interval
  is not counted.
\<close>

theorem login_attempts_limited:
  assumes "in_order (snd guard) cs" and "\<forall>c\<in>set cs. a \<le> cl_begin c \<and> cl_end c < a + login_window"
  shows "length (filter guess (admitted meta cs guard)) \<le> 4"
  using assms
proof (induction cs arbitrary: guard)
  case (Cons c cs)
  show ?case
  proof (cases "admit_call meta (cl_name c) (cl_valid c) (cl_begin c) guard = Ok ()")
    case True
    let ?g = "auth_stage3 (cl_failed c) (cl_end c) guard"
    have "length (filter guess (admitted meta cs ?g)) \<le> 3 - fst ?g"
      using Cons.prems by (intro attempts_left [where a = a]) (auto simp: auth_stage3_def)
    then show ?thesis using True by auto
  next
    case False
    have "in_order (snd guard) cs" using Cons.prems(1) by (auto intro: in_order_earlier)
    then show ?thesis using False Cons by simp
  qed
qed simp

text \<open>
  While other calls are served with less than twenty seconds between them nobody can log in once three calls have failed: failures
  of any method count, and every call starts the interval anew.
\<close>

fun busy :: "int \<Rightarrow> rpc_call list \<Rightarrow> bool" where
  "busy t [] = True"
| "busy t (c # cs) \<longleftrightarrow> cl_end c - t < login_window \<and> busy (cl_end c) cs"

lemma activity_locks_out:
  assumes "3 \<le> fst guard" and "\<forall>c\<in>set cs. cl_valid c = Ok ()" and "busy (snd guard) cs"
    and "now - cl_end (last cs) < login_window" and "cs \<noteq> []" and "meta ''auth.login'' = Some False"
  shows "admit_call meta ''auth.login'' (Err e) now (fold (\<lambda>c. auth_stage3 (cl_failed c) (cl_end c)) cs guard) = Err rate_limited"
  using assms
proof (induction cs arbitrary: guard)
  case (Cons c cs)
  have "3 \<le> fst (auth_stage3 (cl_failed c) (cl_end c) guard)" "snd (auth_stage3 (cl_failed c) (cl_end c) guard) = cl_end c"
    using Cons.prems(1,3) by (auto simp: auth_stage3_def)
  then show ?case using Cons by (cases "cs = []") (auto simp: admit_call_def)
qed simp

section \<open>Passwords\<close>

text \<open>A password is accepted by \<open>login\<close> and by \<open>reset_password\<close>, respectively.\<close>

definition logs_in :: "auth_host \<Rightarrow> auth_state \<Rightarrow> string \<Rightarrow> bool" where
  "logs_in host s p \<longleftrightarrow> check_password host (au_stored s) p = Ok ()"

lemma login_needs_password:
  "login host env req (Some (PlainText p)) metadata s = (Ok cookie, t) \<Longrightarrow> logs_in host s p"
  by (auto simp: login_def logs_in_def st_bind_def st_lift_def st_get_def split: res.splits)

definition argon2_sound :: "auth_host \<Rightarrow> bool" where
  "argon2_sound host \<longleftrightarrow> (\<forall>salt p h q. ah_hash_password host salt p = Ok h \<longrightarrow> ah_verify host h q = Some (p = q))"

lemma reset_password_run:
  "reset_password host env (Some (PlainText old)) (Some (PlainText new)) s =
     (if ah_verify host (au_account s) old \<noteq> Some True
      then (Err (Error IncorrectPassword (Msg (if ah_verify host (au_account s) old = None then ''argon2'' else ''Incorrect Password''))), s)
      else case ah_hash_password host (ce_salt env) new of
        Ok h \<Rightarrow>
          (case ce_query env 0 of
             Ok _ \<Rightarrow>
               (case ce_query env 1 of
                  Ok _ \<Rightarrow> (Ok (), s\<lparr>au_account := h, au_stored := h, au_password_hash := h\<rparr>)
                | Err e \<Rightarrow> (Err e, s\<lparr>au_account := h, au_stored := h\<rparr>)
                | Panic \<Rightarrow> (Panic, s\<lparr>au_account := h, au_stored := h\<rparr>)
                | Diverge \<Rightarrow> (Diverge, s\<lparr>au_account := h, au_stored := h\<rparr>))
           | Err e \<Rightarrow> (Err e, s\<lparr>au_account := h\<rparr>)
           | Panic \<Rightarrow> (Panic, s\<lparr>au_account := h\<rparr>)
           | Diverge \<Rightarrow> (Diverge, s\<lparr>au_account := h\<rparr>))
      | Err e \<Rightarrow> (Err (Error PasswordHashGeneration (Msg e)), s)
      | Panic \<Rightarrow> (Panic, s)
      | Diverge \<Rightarrow> (Diverge, s))"
  by (auto simp: reset_password_def st_bind_def st_lift_def st_get_def st_modify_def split: res.splits option.splits)

text \<open>
  C16. After a successful change of the password exactly the new one logs in, exactly the new one is accepted by the next change, and
  the sessions are as before; a change that fails before the secret store is written leaves what logs in as it was.
\<close>

theorem password_change:
  assumes "argon2_sound host" and "reset_password host env (Some (PlainText old)) (Some (PlainText new)) s = (r, t)"
  shows "(r = Ok () \<longrightarrow> logs_in host t p = (p = new) \<and> (ah_verify host (au_account t) p = Some True) = (p = new)) \<and>
    (ce_query env 0 \<noteq> Ok () \<longrightarrow> r \<noteq> Ok () \<and> logs_in host t p = logs_in host s p) \<and>
    au_sessions t = au_sessions s"
proof -
  have verify: "ah_verify host h q = Some (new = q)" if "ah_hash_password host (ce_salt env) new = Ok h" for h q
    using assms(1) that by (auto simp: argon2_sound_def)
  show ?thesis using assms(2)
    by (auto simp: reset_password_run logs_in_def check_password_def verify split: res.splits if_splits dest: sym)
qed

text \<open>
  When the secret store cannot be written, the old password still logs in while the next change asks for the new one: the copy in
  memory was replaced before.
\<close>

lemma failed_change_splits_password:
  assumes "argon2_sound host" and "logs_in host s old" and "ah_verify host (au_account s) old = Some True"
    and "ah_hash_password host (ce_salt env) new = Ok h" and "ce_query env 0 = Err e" and "old \<noteq> new"
  shows "\<exists>t. reset_password host env (Some (PlainText old)) (Some (PlainText new)) s = (Err e, t) \<and> logs_in host t old \<and>
    fst (reset_password host env' (Some (PlainText old)) (Some (PlainText new)) t)
      = Err (Error IncorrectPassword (Msg ''Incorrect Password''))"
  using assms by (auto simp: reset_password_run argon2_sound_def logs_in_def)

section \<open>Witnesses\<close>

definition sample_auth_host :: auth_host where
  "sample_auth_host = \<lparr>ah_verify = (\<lambda>h p. Some (h = p)), ah_hash_password = (\<lambda>salt p. Ok p), ah_hash = (\<lambda>t. t), ah_decrypt = Some,
     ah_cookies = (\<lambda>h. Some [(''session'', h)]), ah_json = (\<lambda>_. True)\<rparr>"

definition call_at :: "int \<Rightarrow> string \<Rightarrow> call_env" where
  "call_at now token = \<lparr>ce_now = now, ce_token = token, ce_salt = '''', ce_local = Err unauthorized, ce_query = (\<lambda>_. Ok ())\<rparr>"

definition with_cookie :: "string \<Rightarrow> request_parts" where
  "with_cookie h = \<lparr>rq_cookie = Some (Some h), rq_user_agent = None\<rparr>"

definition new_auth_state :: auth_state where
  "new_auth_state = \<lparr>au_sessions = [], au_sockets = [], au_closed = [], au_stored = ''pw'', au_account = ''pw'', au_password_hash = ''pw''\<rparr>"

definition logged_in_state :: auth_state where
  "logged_in_state = snd (login sample_auth_host (call_at 1 ''tok'') (with_cookie '''') (Some (PlainText ''pw'')) '''' new_auth_state)"

lemmas auth_samples = sample_auth_host_def call_at_def with_cookie_def new_auth_state_def

lemma sample_login: "\<exists>c. login sample_auth_host (call_at 1 ''tok'') (with_cookie '''') (Some (PlainText ''pw'')) '''' new_auth_state = (Ok c, logged_in_state)"
  by (simp add: logged_in_state_def login_def check_password_def set_cookie_header_def token_of_def auth_samples st_eval)

lemma sample_auth_trace: "auth_trace sample_auth_host 1 [LoggedIn ''tok''] logged_in_state"
proof -
  obtain c where "login sample_auth_host (call_at 1 ''tok'') (with_cookie '''') (Some (PlainText ''pw'')) '''' new_auth_state = (Ok c, logged_in_state)"
    using sample_login by blast
  then show ?thesis using at_login [OF at_init, of new_auth_state 1 "call_at 1 ''tok''"]
    by (fastforce simp: auth_samples)
qed

theorem request_authorized_iff_witness:
  "auth_trace sample_auth_host 1 [LoggedIn ''tok''] logged_in_state \<and>
   is_ok (fst (has_valid_session sample_auth_host (call_at 2 '''') (with_cookie ''tok'') logged_in_state)) \<and>
   \<not> is_ok (fst (has_valid_session sample_auth_host (call_at 2 '''') (with_cookie ''other'') logged_in_state))"
  using sample_auth_trace
    request_authorized_iff [OF sample_auth_trace, of "call_at 2 ''''" "with_cookie ''tok''" "[(''session'', ''tok'')]"]
    request_authorized_iff [OF sample_auth_trace, of "call_at 2 ''''" "with_cookie ''other''" "[(''session'', ''other'')]"]
  by (simp add: auth_samples cookies_of_def cookie_named_def)

theorem clock_set_back_admits_all_witness:
  "is_ok (fst (has_valid_session sample_auth_host (call_at 2 '''') (with_cookie ''other'')
     (snd (logout sample_auth_host (call_at 3 '''') (with_cookie ''tok'') logged_in_state))))"
proof -
  have tok: "token_from_request_parts sample_auth_host (with_cookie ''tok'') = Ok \<lparr>ht_hashed = ''tok'', ht_token = ''tok''\<rparr>"
    by (simp add: token_from_request_parts_def cookies_of_def cookie_named_def token_of_def auth_samples)
  have row: "''tok'' \<in> sr_id ` set (au_sessions logged_in_state)"
    by (simp add: logged_in_state_def login_def check_password_def token_of_def auth_samples st_eval)
  obtain r t where out: "logout sample_auth_host (call_at 3 '''') (with_cookie ''tok'') logged_in_state = (Ok r, t)"
    by (simp add: logout_def tok log_out_sessions_def log_out_session_def call_at_def st_eval)
  then show ?thesis
    using clock_set_back_admits_all [OF tok _ out, of "call_at 2 ''''" "with_cookie ''other''" "[(''session'', ''other'')]" "''other''"] row
    by (simp add: auth_samples cookies_of_def cookie_named_def)
qed

definition attempt_at :: "int \<Rightarrow> rpc_call" where
  "attempt_at t = \<lparr>cl_begin = t, cl_end = t, cl_name = ''auth.login'', cl_valid = Err unauthorized, cl_failed = True\<rparr>"

theorem login_attempts_limited_witness:
  "in_order 0 (map attempt_at [30000000000, 30000000001, 30000000002, 30000000003, 30000000004]) \<and>
   length (filter guess (admitted (\<lambda>_. Some False) (map attempt_at [30000000000, 30000000001, 30000000002, 30000000003, 30000000004]) (0, 0))) = 4 \<and>
   length (filter guess (admitted (\<lambda>_. Some False) (map attempt_at [30000000000, 30000000001, 30000000002, 30000000003, 30000000004]) (0, 0))) \<le> 4"
  using login_attempts_limited [of "(0, 0)" "map attempt_at [30000000000, 30000000001, 30000000002, 30000000003, 30000000004]" 30000000000 "\<lambda>_. Some False"]
  by (simp add: attempt_at_def login_window_def guess_def admit_call_def auth_stage3_def)

theorem password_change_witness:
  "argon2_sound sample_auth_host \<and>
   logs_in sample_auth_host (snd (reset_password sample_auth_host (call_at 1 '''') (Some (PlainText ''pw'')) (Some (PlainText ''new'')) new_auth_state)) ''new'' \<and>
   \<not> logs_in sample_auth_host (snd (reset_password sample_auth_host (call_at 1 '''') (Some (PlainText ''pw'')) (Some (PlainText ''new'')) new_auth_state)) ''pw''"
proof -
  have sound: "argon2_sound sample_auth_host" by (simp add: argon2_sound_def auth_samples)
  obtain t where t: "reset_password sample_auth_host (call_at 1 '''') (Some (PlainText ''pw'')) (Some (PlainText ''new'')) new_auth_state = (Ok (), t)"
    by (simp add: reset_password_run auth_samples)
  show ?thesis using sound t password_change [OF sound t, of "''new''"] password_change [OF sound t, of "''pw''"] by simp
qed

end
