(* ===== verification/Mounts.thy ===== *)
theory Mounts
  imports Auth Net_Registry "HOL-Library.Word"
begin

text \<open>
  Mounts (\<^verbatim>\<open>disk/mount\<close>): temporary mounts that are shared by everybody who holds a guard of them, as steps that may interleave,
  and the guard of a backup with the key that is wrapped with the password (\<^verbatim>\<open>disk/mount/backup.rs\<close>, \<^verbatim>\<open>middleware/encrypt.rs\<close>).
\<close>

unbundle bit_operations_syntax

section \<open>Temporary mounts\<close>

datatype mount_type = ReadOnly | ReadWrite

text \<open>
  What is left to do for a guard that nobody holds any more: to unmount, and to remove the directory afterwards when the
  guard was unmounted and not just dropped.
\<close>

datatype leaving_guard = Unmounting bool | Removing

text \<open>
  \<open>TMP_MOUNTS\<close> with weak pointers into the cells, and for every mount point what is mounted there, the latest on top.
\<close>

record mount_state =
  ms_tmp :: "(string, mount_type \<times> nat option) btmap"
  ms_cells :: cells
  ms_stack :: "string \<Rightarrow> mount_type list"
  ms_leaving :: "(string \<times> leaving_guard) list"

definition mount_anew :: "(error, unit) res \<Rightarrow> string \<Rightarrow> mount_type \<Rightarrow> (mount_state, error, string \<times> nat) st" where
  "mount_anew run mp mt s =
     (case run of
        Ok _ \<Rightarrow>
          (case arc_new (ms_cells s) of (w, c) \<Rightarrow>
             (Ok (mp, w), s\<lparr>ms_cells := c, ms_tmp := bt_insert mp (mt, Some w) (ms_tmp s),
               ms_stack := (ms_stack s)(mp := mt # ms_stack s mp)\<rparr>))
      | Err e \<Rightarrow> (Err e, s) | Panic \<Rightarrow> (Panic, s) | Diverge \<Rightarrow> (Diverge, s))"

text \<open>Another guard of a mount in use, which becomes writable when that is asked for. Only what is mounted can be mounted anew.\<close>

definition mount_again :: "(error, unit) res \<Rightarrow> string \<Rightarrow> mount_type \<Rightarrow> mount_type \<Rightarrow> nat \<Rightarrow> (mount_state, error, string \<times> nat) st" where
  "mount_again run mp mt prev w s =
     (let kept = s\<lparr>ms_cells := snd (acquire (Some w) (ms_cells s))\<rparr> in
      if prev = ReadOnly \<and> mt = ReadWrite then
        (case (if ms_stack s mp = [] then Err (Error Filesystem (Msg ''mount point not mounted'')) else run) of
           Ok _ \<Rightarrow> (Ok (mp, w), kept\<lparr>ms_tmp := bt_insert mp (ReadWrite, Some w) (ms_tmp s),
             ms_stack := (ms_stack s)(mp := ReadWrite # tl (ms_stack s mp))\<rparr>)
         | Err e \<Rightarrow> (Err e, s) | Panic \<Rightarrow> (Panic, s) | Diverge \<Rightarrow> (Diverge, s))
      else (Ok (mp, w), kept))"

text \<open>\<open>TmpMountGuard::mount\<close>; \<open>run\<close> is the outcome of the command that mounts or remounts.\<close>

definition tmp_mount :: "(error, unit) res \<Rightarrow> string \<Rightarrow> mount_type \<Rightarrow> (mount_state, error, string \<times> nat) st" where
  "tmp_mount run mp mt s =
     (let s = (if bt_get (ms_tmp s) mp = None then s\<lparr>ms_tmp := bt_insert mp (mt, None) (ms_tmp s)\<rparr> else s) in
      case bt_get (ms_tmp s) mp of
        Some (prev, Some w) \<Rightarrow> if alive (ms_cells s) w then mount_again run mp mt prev w s else mount_anew run mp mt s
      | _ \<Rightarrow> mount_anew run mp mt s)"

text \<open>A guard is unmounted (\<open>explicit\<close>) or dropped. Nothing happens unless it was the last one of its mount.\<close>

definition tmp_release :: "bool \<Rightarrow> string \<times> nat \<Rightarrow> mount_state \<Rightarrow> mount_state" where
  "tmp_release explicit g s =
     (let c = arc_drop (snd g) (ms_cells s) in
      s\<lparr>ms_cells := c, ms_leaving := (if alive c (snd g) then ms_leaving s else (fst g, Unmounting explicit) # ms_leaving s)\<rparr>)"

text \<open>
  The command that unmounts. When it fails the guard is still marked as mounted: dropping it starts another attempt, and a
  failure of that is a panic of its task.
\<close>

definition unmount_step :: "bool \<Rightarrow> string \<Rightarrow> bool \<Rightarrow> mount_state \<Rightarrow> mount_state" where
  "unmount_step ok mp delete s =
     (let rest = remove1 (mp, Unmounting delete) (ms_leaving s) in
      if ok \<and> ms_stack s mp \<noteq> []
      then s\<lparr>ms_stack := (ms_stack s)(mp := tl (ms_stack s mp)), ms_leaving := (if delete then (mp, Removing) # rest else rest)\<rparr>
      else s\<lparr>ms_leaving := (if delete then (mp, Unmounting False) # rest else rest)\<rparr>)"

text \<open>Removing the directory fails when something is mounted there. Then the guard counts as mounted, too.\<close>

definition remove_step :: "bool \<Rightarrow> string \<Rightarrow> mount_state \<Rightarrow> mount_state" where
  "remove_step ok mp s =
     (let rest = remove1 (mp, Removing) (ms_leaving s) in
      s\<lparr>ms_leaving := (if ok \<and> ms_stack s mp = [] then rest else (mp, Unmounting False) # rest)\<rparr>)"

subsection \<open>Runs\<close>

text \<open>
  The guards in use, and for every mount point how many mounts were given up because a task panicked, and how many removals of
  the directory failed.
\<close>

definition no_mounts :: mount_state where
  "no_mounts = \<lparr>ms_tmp = [], ms_cells = no_cells, ms_stack = \<lambda>_. [], ms_leaving = []\<rparr>"

inductive mount_run :: "(string \<times> nat) list \<Rightarrow> (string \<Rightarrow> nat) \<Rightarrow> (string \<Rightarrow> nat) \<Rightarrow> mount_state \<Rightarrow> bool" where
  run_init: "mount_run [] (\<lambda>_. 0) (\<lambda>_. 0) no_mounts"
| run_mount: "mount_run G F E s \<Longrightarrow> tmp_mount run mp mt s = (r, t) \<Longrightarrow> mount_run (case r of Ok g \<Rightarrow> g # G | _ \<Rightarrow> G) F E t"
| run_release: "mount_run G F E s \<Longrightarrow> g \<in> set G \<Longrightarrow> mount_run (remove1 g G) F E (tmp_release explicit g s)"
| run_unmount: "mount_run G F E s \<Longrightarrow> (mp, Unmounting delete) \<in> set (ms_leaving s) \<Longrightarrow>
    mount_run G (if delete \<or> ok \<and> ms_stack s mp \<noteq> [] then F else F(mp := Suc (F mp))) E (unmount_step ok mp delete s)"
| run_remove: "mount_run G F E s \<Longrightarrow> (mp, Removing) \<in> set (ms_leaving s) \<Longrightarrow>
    mount_run G F (if ok \<and> ms_stack s mp = [] then E else E(mp := Suc (E mp))) (remove_step ok mp s)"

definition cell_of :: "mount_state \<Rightarrow> string \<Rightarrow> nat option" where
  "cell_of s mp = Option.bind (bt_get (ms_tmp s) mp) snd"

definition unmounts_due :: "(string \<times> leaving_guard) list \<Rightarrow> string \<Rightarrow> nat" where
  "unmounts_due xs mp = length (filter (\<lambda>x. x = (mp, Unmounting True) \<or> x = (mp, Unmounting False)) xs)"

definition guards_of :: "(string \<times> nat) list \<Rightarrow> nat \<Rightarrow> nat" where
  "guards_of G w = length (filter (\<lambda>g. snd g = w) G)"

definition held :: "(string \<times> nat) list \<Rightarrow> string \<Rightarrow> bool" where
  "held G mp \<longleftrightarrow> mp \<in> fst ` set G"

text \<open>Every guard is one of the cell of its mount point, cells are counted right, and no cell has two mount points.\<close>

definition cells_ok :: "(string \<times> nat) list \<Rightarrow> mount_state \<Rightarrow> bool" where
  "cells_ok G s \<longleftrightarrow> bt_ok (ms_tmp s) \<and> (\<forall>g\<in>set G. cell_of s (fst g) = Some (snd g)) \<and>
     (\<forall>w. cl_count (ms_cells s) w = guards_of G w) \<and> (\<forall>mp w. cell_of s mp = Some w \<longrightarrow> w < cl_next (ms_cells s)) \<and>
     (\<forall>mp mq w. cell_of s mp = Some w \<longrightarrow> cell_of s mq = Some w \<longrightarrow> mp = mq)"

text \<open>A removal that fails makes one unmount too many due, which takes a mount away or is given up.\<close>

definition stacks_ok :: "(string \<times> nat) list \<Rightarrow> (string \<Rightarrow> nat) \<Rightarrow> (string \<Rightarrow> nat) \<Rightarrow> mount_state \<Rightarrow> bool" where
  "stacks_ok G F E s \<longleftrightarrow>
     (\<forall>mp. length (ms_stack s mp) + E mp = (if held G mp then 1 else 0) + unmounts_due (ms_leaving s) mp + F mp)"

lemma guards_of_Cons [simp]: "guards_of (g # G) w = (if snd g = w then Suc (guards_of G w) else guards_of G w)"
  by (simp add: guards_of_def)

lemma guards_of_pos: "0 < guards_of G w \<longleftrightarrow> (\<exists>mp. (mp, w) \<in> set G)"
  by (induction G) (auto simp: guards_of_def)

lemma guards_of_remove1: "g \<in> set G \<Longrightarrow> guards_of (remove1 g G) w = (if snd g = w then guards_of G w - 1 else guards_of G w)"
proof (induction G)
  case (Cons x G)
  then show ?case using guards_of_pos [of G "snd g"] by (cases g) auto
qed simp

lemma held_Cons [simp]: "held (g # G) mp \<longleftrightarrow> mp = fst g \<or> held G mp"
  by (auto simp: held_def)

lemma held_iff_alive:
  assumes "cells_ok G s"
  shows "held G mp \<longleftrightarrow> (\<exists>w. cell_of s mp = Some w \<and> alive (ms_cells s) w)"
proof
  assume "held G mp"
  then obtain w where w: "(mp, w) \<in> set G" by (auto simp: held_def)
  then have "0 < guards_of G w" by (auto simp: guards_of_pos)
  then show "\<exists>w. cell_of s mp = Some w \<and> alive (ms_cells s) w" using assms w by (auto simp: cells_ok_def alive_def)
next
  assume "\<exists>w. cell_of s mp = Some w \<and> alive (ms_cells s) w"
  then obtain w where w: "cell_of s mp = Some w" "0 < guards_of G w" using assms by (auto simp: cells_ok_def alive_def)
  then obtain mq where mq: "(mq, w) \<in> set G" by (auto simp: guards_of_pos)
  then have "cell_of s mq = Some w" using assms by (auto simp: cells_ok_def)
  then have "mp = mq" using assms w(1) by (auto simp: cells_ok_def)
  then show "held G mp" using mq by (force simp: held_def)
qed

lemma cell_of_insert:
  "bt_ok (ms_tmp s) \<Longrightarrow> cell_of (s\<lparr>ms_tmp := bt_insert mp (mt, w) (ms_tmp s)\<rparr>) mq = (if mq = mp then w else cell_of s mq)"
  by (simp add: cell_of_def)

text \<open>The first entry of a mount point.\<close>

lemma enter_ok:
  assumes "cells_ok G s" and "stacks_ok G F E s" and "bt_get (ms_tmp s) mp = None"
  shows "cells_ok G (s\<lparr>ms_tmp := bt_insert mp (mt, None) (ms_tmp s)\<rparr>)"
    and "stacks_ok G F E (s\<lparr>ms_tmp := bt_insert mp (mt, None) (ms_tmp s)\<rparr>)"
proof -
  have ok: "bt_ok (ms_tmp s)" using assms(1) by (simp add: cells_ok_def)
  then have "cell_of (s\<lparr>ms_tmp := bt_insert mp (mt, None) (ms_tmp s)\<rparr>) = cell_of s"
    using assms(3) by (auto simp: cell_of_insert fun_eq_iff) (simp add: cell_of_def)
  then show "cells_ok G (s\<lparr>ms_tmp := bt_insert mp (mt, None) (ms_tmp s)\<rparr>)"
    using assms(1) ok by (auto simp: cells_ok_def bt_ok_insert)
  show "stacks_ok G F E (s\<lparr>ms_tmp := bt_insert mp (mt, None) (ms_tmp s)\<rparr>)"
    using assms(2) by (simp add: stacks_ok_def)
qed

lemma mount_anew_ok:
  assumes c: "cells_ok G s" and s: "stacks_ok G F E s" and free: "\<not> held G mp" and m: "mount_anew run mp mt s = (r, t)"
  shows "cells_ok (case r of Ok g \<Rightarrow> g # G | _ \<Rightarrow> G) t \<and> stacks_ok (case r of Ok g \<Rightarrow> g # G | _ \<Rightarrow> G) F E t"
proof (cases run)
  case (Ok u)
  let ?w = "cl_next (ms_cells s)"
  have r: "r = Ok (mp, ?w)" and t: "t = s\<lparr>ms_cells := snd (arc_new (ms_cells s)), ms_tmp := bt_insert mp (mt, Some ?w) (ms_tmp s),
      ms_stack := (ms_stack s)(mp := mt # ms_stack s mp)\<rparr>"
    using m Ok by (auto simp: mount_anew_def arc_new_def)
  have ok: "bt_ok (ms_tmp s)" using c by (simp add: cells_ok_def)
  have cell: "cell_of t mq = (if mq = mp then Some ?w else cell_of s mq)" for mq
    using ok by (simp add: t cell_of_def)
  have fresh: "guards_of G ?w = 0"
  proof (rule ccontr)
    assume "guards_of G ?w \<noteq> 0"
    then obtain mq where "(mq, ?w) \<in> set G" using guards_of_pos [of G ?w] by auto
    then have "cell_of s mq = Some ?w" using c by (auto simp: cells_ok_def)
    then show False using c by (auto simp: cells_ok_def)
  qed
  have "cells_ok ((mp, ?w) # G) t"
    unfolding cells_ok_def
  proof (intro conjI allI ballI impI)
    show "bt_ok (ms_tmp t)" using ok by (simp add: t bt_ok_insert)
    show "cell_of t (fst g) = Some (snd g)" if "g \<in> set ((mp, ?w) # G)" for g
      using that c free cell by (auto simp: cells_ok_def held_def)
    show "cl_count (ms_cells t) w = guards_of ((mp, ?w) # G) w" for w
      using c fresh by (auto simp: t arc_new_def cells_ok_def)
    show "w < cl_next (ms_cells t)" if "cell_of t mq = Some w" for mq w
      using that c cell by (auto simp: t arc_new_def cells_ok_def less_SucI split: if_splits)
    show "mq = mr" if "cell_of t mq = Some w" "cell_of t mr = Some w" for mq mr w
    proof -
      have old: "v < ?w" if "cell_of s m = Some v" for m v using c that by (auto simp: cells_ok_def)
      have inj: "m = n" if "cell_of s m = Some v" "cell_of s n = Some v" for m n v using c that by (auto simp: cells_ok_def)
      show ?thesis using that cell inj by (auto split: if_splits dest: old)
    qed
  qed
  moreover have "stacks_ok ((mp, ?w) # G) F E t" using s free by (auto simp: stacks_ok_def t)
  ultimately show ?thesis using r by simp
qed (use assms in \<open>auto simp: mount_anew_def\<close>)

lemma mount_again_ok:
  assumes c: "cells_ok G s" and s: "stacks_ok G F E s" and cell: "bt_get (ms_tmp s) mp = Some (prev, Some w)"
    and al: "alive (ms_cells s) w" and m: "mount_again run mp mt prev w s = (r, t)"
  shows "cells_ok (case r of Ok g \<Rightarrow> g # G | _ \<Rightarrow> G) t \<and> stacks_ok (case r of Ok g \<Rightarrow> g # G | _ \<Rightarrow> G) F E t"
proof -
  have ok: "bt_ok (ms_tmp s)" using c by (simp add: cells_ok_def)
  have w: "cell_of s mp = Some w" using cell by (simp add: cell_of_def)
  then have h: "held G mp" using held_iff_alive [OF c] al by blast
  have kept: "cells_ok ((mp, w) # G) t" "stacks_ok ((mp, w) # G) F E t"
    if "ms_cells t = snd (acquire (Some w) (ms_cells s))" "bt_ok (ms_tmp t)" "cell_of t = cell_of s"
      "\<And>mq. length (ms_stack t mq) = length (ms_stack s mq)" "ms_leaving t = ms_leaving s"
    using that c s w h al by (auto simp: cells_ok_def stacks_ok_def acquire_def)
  have same: "cell_of (s\<lparr>ms_tmp := bt_insert mp (mt', Some w) (ms_tmp s)\<rparr>) = cell_of s" for mt'
    using ok w by (auto simp: cell_of_insert fun_eq_iff)
  show ?thesis
  proof (cases "prev = ReadOnly \<and> mt = ReadWrite")
    case True
    show ?thesis
    proof (cases "if ms_stack s mp = [] then Err (Error Filesystem (Msg ''mount point not mounted'')) else run")
      case (Ok u)
      then have full: "0 < length (ms_stack s mp)" by (auto split: if_splits)
      have "r = Ok (mp, w)" and t: "t = s\<lparr>ms_cells := snd (acquire (Some w) (ms_cells s)), ms_tmp := bt_insert mp (ReadWrite, Some w) (ms_tmp s),
          ms_stack := (ms_stack s)(mp := ReadWrite # tl (ms_stack s mp))\<rparr>"
        using m True Ok by (auto simp: mount_again_def Let_def)
      moreover have "cell_of t = cell_of s" using same [of ReadWrite] by (simp add: t cell_of_def fun_eq_iff)
      ultimately show ?thesis using kept ok full by (simp add: bt_ok_insert)
    qed (use True m c s in \<open>auto simp: mount_again_def Let_def\<close>)
  next
    case False
    then have "r = Ok (mp, w)" and t: "t = s\<lparr>ms_cells := snd (acquire (Some w) (ms_cells s))\<rparr>"
      using m by (auto simp: mount_again_def Let_def)
    then show ?thesis using kept ok by (simp add: cell_of_def fun_eq_iff)
  qed
qed

lemma tmp_mount_ok:
  assumes "cells_ok G s" and "stacks_ok G F E s" and "tmp_mount run mp mt s = (r, t)"
  shows "cells_ok (case r of Ok g \<Rightarrow> g # G | _ \<Rightarrow> G) t \<and> stacks_ok (case r of Ok g \<Rightarrow> g # G | _ \<Rightarrow> G) F E t"
proof -
  define u where "u = (if bt_get (ms_tmp s) mp = None then s\<lparr>ms_tmp := bt_insert mp (mt, None) (ms_tmp s)\<rparr> else s)"
  have u: "cells_ok G u" "stacks_ok G F E u" using assms(1,2) enter_ok by (auto simp: u_def)
  have m: "(case bt_get (ms_tmp u) mp of
        Some (prev, Some w) \<Rightarrow> if alive (ms_cells u) w then mount_again run mp mt prev w u else mount_anew run mp mt u
      | _ \<Rightarrow> mount_anew run mp mt u) = (r, t)"
    using assms(3) by (simp only: tmp_mount_def u_def Let_def)
  show ?thesis
  proof (cases "\<exists>prev w. bt_get (ms_tmp u) mp = Some (prev, Some w) \<and> alive (ms_cells u) w")
    case True
    then show ?thesis using m mount_again_ok [OF u] by fastforce
  next
    case False
    then have "\<not> held G mp" unfolding held_iff_alive [OF u(1)]
      by (auto simp: cell_of_def bind_eq_Some_conv)
    moreover have "mount_anew run mp mt u = (r, t)" using m False by (auto split: option.splits prod.splits if_splits)
    ultimately show ?thesis using mount_anew_ok [OF u] by blast
  qed
qed

lemma release_ok:
  assumes c: "cells_ok G s" and s: "stacks_ok G F E s" and g: "g \<in> set G"
  shows "cells_ok (remove1 g G) (tmp_release explicit g s) \<and> stacks_ok (remove1 g G) F E (tmp_release explicit g s)"
proof -
  let ?t = "tmp_release explicit g s"
  have cells: "ms_cells ?t = arc_drop (snd g) (ms_cells s)" "ms_tmp ?t = ms_tmp s" "cell_of ?t = cell_of s" "ms_stack ?t = ms_stack s"
    by (simp_all add: tmp_release_def Let_def cell_of_def fun_eq_iff)
  have ok: "cells_ok (remove1 g G) ?t"
    using c guards_of_remove1 [OF g] notin_set_remove1 [of _ G g]
    by (auto simp: cells_ok_def cells arc_drop_def)
  have cell: "cell_of s (fst g) = Some (snd g)" using c g by (simp add: cells_ok_def)
  have held: "held (remove1 g G) mp \<longleftrightarrow> held G mp \<and> (mp = fst g \<longrightarrow> alive (ms_cells ?t) (snd g))" for mp
  proof (cases "mp = fst g")
    case True
    have "held G mp" using g True by (auto simp: held_def)
    then show ?thesis using held_iff_alive [OF ok, of mp] cell True by (simp add: cells(3))
  next
    case False
    have other: "alive (ms_cells ?t) w \<longleftrightarrow> alive (ms_cells s) w" if "cell_of s mp = Some w" for w
    proof -
      have "w \<noteq> snd g" using c that cell False by (auto simp: cells_ok_def)
      then show ?thesis by (simp add: cells alive_def arc_drop_def)
    qed
    then show ?thesis using held_iff_alive [OF ok, of mp] held_iff_alive [OF c, of mp] False by (auto simp: cells(3))
  qed
  have "held G (fst g)" using g by (auto simp: held_def)
  then have "stacks_ok (remove1 g G) F E ?t"
    using s held by (auto simp: stacks_ok_def unmounts_due_def tmp_release_def Let_def)
  then show ?thesis using ok by simp
qed

lemma due_remove1:
  "unmounts_due (remove1 x xs) mp = unmounts_due xs mp - (if x \<in> set xs \<and> (x = (mp, Unmounting True) \<or> x = (mp, Unmounting False)) then 1 else 0)"
  by (auto simp: unmounts_due_def filter_remove1 length_remove1)

lemma due_pos: "(mp, Unmounting d) \<in> set xs \<Longrightarrow> 0 < unmounts_due xs mp"
  by (cases d) (auto simp: unmounts_due_def filter_empty_conv)

lemma due_Cons: "unmounts_due (x # xs) mp = (if x = (mp, Unmounting True) \<or> x = (mp, Unmounting False) then Suc (unmounts_due xs mp) else unmounts_due xs mp)"
  by (simp add: unmounts_due_def)

lemma unmount_ok:
  assumes c: "cells_ok G s" and s: "stacks_ok G F E s" and l: "(mp, Unmounting delete) \<in> set (ms_leaving s)"
  shows "cells_ok G (unmount_step ok mp delete s) \<and>
    stacks_ok G (if delete \<or> ok \<and> ms_stack s mp \<noteq> [] then F else F(mp := Suc (F mp))) E (unmount_step ok mp delete s)"
proof
  show "cells_ok G (unmount_step ok mp delete s)"
    using c by (auto simp: cells_ok_def unmount_step_def Let_def cell_of_def)
  have eq: "length (ms_stack s mq) + E mq = (if held G mq then 1 else 0) + unmounts_due (ms_leaving s) mq + F mq" for mq
    using s by (simp add: stacks_ok_def)
  have full: "length (tl (ms_stack s mp)) + 1 = length (ms_stack s mp)" if "ms_stack s mp \<noteq> []"
    using that by (cases "ms_stack s mp") auto
  show "stacks_ok G (if delete \<or> ok \<and> ms_stack s mp \<noteq> [] then F else F(mp := Suc (F mp))) E (unmount_step ok mp delete s)"
    unfolding stacks_ok_def
  proof
    fix mq
    show "length (ms_stack (unmount_step ok mp delete s) mq) + E mq = (if held G mq then 1 else 0) +
      unmounts_due (ms_leaving (unmount_step ok mp delete s)) mq + (if delete \<or> ok \<and> ms_stack s mp \<noteq> [] then F else F(mp := Suc (F mp))) mq"
      using eq [of mq] l due_pos [OF l] full
      by (cases delete; cases "mq = mp"; cases "ok \<and> ms_stack s mp \<noteq> []")
        (auto simp: unmount_step_def Let_def due_remove1 due_Cons simp del: length_tl)
  qed
qed

lemma remove_ok:
  assumes "cells_ok G s" and "stacks_ok G F E s"
  shows "cells_ok G (remove_step ok mp s) \<and> stacks_ok G F (if ok \<and> ms_stack s mp = [] then E else E(mp := Suc (E mp))) (remove_step ok mp s)"
  using assms by (auto simp: cells_ok_def stacks_ok_def remove_step_def Let_def cell_of_def due_remove1 due_Cons)

lemma run_ok: "mount_run G F E s \<Longrightarrow> cells_ok G s \<and> stacks_ok G F E s"
proof (induction rule: mount_run.induct)
  case run_init
  then show ?case by (simp add: cells_ok_def stacks_ok_def no_mounts_def no_cells_def cell_of_def guards_of_def held_def unmounts_due_def)
next
  case (run_mount G F E s run mp mt r t)
  then show ?case using tmp_mount_ok by blast
next
  case (run_release G F E s g explicit)
  then show ?case using release_ok by blast
next
  case (run_unmount G F E s mp delete ok)
  then show ?case using unmount_ok by blast
next
  case (run_remove G F E s mp ok)
  then show ?case using remove_ok by blast
qed

text \<open>
  C17. Whatever is mounted, shared, unmounted and dropped, in whatever order the commands take effect and whichever of them fail, the mounts
  at a mount point, together with the failed removals of its directory, are as many as they should be: one when somebody holds a guard of
  it, one for every unmount that is still to take effect, and those that were given up. So as long as no removal of its directory has
  failed, a guard is one of something that is mounted; and at rest nothing is left unless an unmount was given up.
\<close>

theorem mounted_while_held:
  assumes "mount_run G F E s"
  shows "length (ms_stack s mp) + E mp = (if held G mp then 1 else 0) + unmounts_due (ms_leaving s) mp + F mp \<and>
    ((mp, w) \<in> set G \<longrightarrow> E mp = 0 \<longrightarrow> ms_stack s mp \<noteq> []) \<and>
    (ms_leaving s = [] \<longrightarrow> F mp = 0 \<longrightarrow> \<not> held G mp \<longrightarrow> ms_stack s mp = [])"
proof -
  have l: "length (ms_stack s mp) + E mp = (if held G mp then 1 else 0) + unmounts_due (ms_leaving s) mp + F mp"
    using run_ok [OF assms] by (simp add: stacks_ok_def)
  moreover have "held G mp" if "(mp, w) \<in> set G" using that by (force simp: held_def)
  ultimately show ?thesis by (auto simp: unmounts_due_def)
qed

text \<open>
  C29. When a mount point is mounted anew before its directory was removed, removing it fails, the old guard counts as mounted because of
  that and unmounts once more, which takes away the new mount while its guard is held.
\<close>

theorem unmounted_twice:
  assumes "mount_run G F E s" and "(mp, w) \<in> set G" and "(mp, Removing) \<in> set (ms_leaving s)"
    and "unmounts_due (ms_leaving s) mp = 0" and "F mp = 0" and "E mp = 0"
  shows "(mp, Unmounting False) \<in> set (ms_leaving (remove_step ok mp s)) \<and>
    ms_stack (unmount_step True mp False (remove_step ok mp s)) mp = []"
proof -
  have "held G mp" using assms(2) by (force simp: held_def)
  moreover have "length (ms_stack s mp) + E mp = (if held G mp then 1 else 0) + unmounts_due (ms_leaving s) mp + F mp"
    using run_ok [OF assms(1)] by (simp add: stacks_ok_def)
  ultimately have l: "length (ms_stack s mp) = 1" using assms(4-6) by simp
  then show ?thesis
    by (cases "ms_stack s mp") (auto simp: unmount_step_def remove_step_def Let_def)
qed

section \<open>The key of a backup\<close>

subsection \<open>Encryption with a password\<close>

text \<open>Strings are kept as their bytes here. The derivation of a key and the stream of AES in counter mode are parameters.\<close>

record cipher =
  cp_pbkdf2 :: "8 word list \<Rightarrow> 8 word list \<Rightarrow> 8 word list"
  cp_stream :: "8 word list \<Rightarrow> 8 word list \<Rightarrow> nat \<Rightarrow> 8 word"
  cp_base32 :: "bool \<Rightarrow> 8 word list \<Rightarrow> string"
  cp_unbase32 :: "bool \<Rightarrow> string \<Rightarrow> 8 word list option"
  cp_utf8 :: "8 word list \<Rightarrow> bool"

definition as_bytes :: "string \<Rightarrow> 8 word list" where
  "as_bytes s = map of_char s"

definition apply_keystream :: "(nat \<Rightarrow> 8 word) \<Rightarrow> 8 word list \<Rightarrow> 8 word list" where
  "apply_keystream ks bs = map2 (XOR) bs (map ks [0..<length bs])"

definition encrypt_slice :: "cipher \<Rightarrow> 8 word list \<Rightarrow> 8 word list \<Rightarrow> string \<Rightarrow> 8 word list" where
  "encrypt_slice cp prefix input password =
     prefix @ apply_keystream (cp_stream cp (cp_pbkdf2 cp (as_bytes password) (drop 16 prefix)) (take 16 prefix)) input"

definition decrypt_slice :: "cipher \<Rightarrow> 8 word list \<Rightarrow> string \<Rightarrow> 8 word list" where
  "decrypt_slice cp input password =
     (if length input < 32 then []
      else let prefix = take 32 input in
        apply_keystream (cp_stream cp (cp_pbkdf2 cp (as_bytes password) (drop 16 prefix)) (take 16 prefix)) (drop 32 input))"

lemma length_keystream [simp]: "length (apply_keystream ks bs) = length bs"
  by (simp add: apply_keystream_def)

lemma keystream_involution [simp]: "apply_keystream ks (apply_keystream ks bs) = bs"
  by (rule nth_equalityI) (simp_all add: apply_keystream_def xor.assoc)

lemma decrypt_encrypt: "length prefix = 32 \<Longrightarrow> decrypt_slice cp (encrypt_slice cp prefix input password) password = input"
  by (simp add: decrypt_slice_def encrypt_slice_def)

subsection \<open>The guard of a backup\<close>

record recovery_info =
  ri_version :: string
  ri_full :: bool
  ri_password_hash :: "string option"
  ri_wrapped_key :: "string option"

definition no_recovery_info :: recovery_info where
  "no_recovery_info = \<lparr>ri_version = ''0.0.0'', ri_full = False, ri_password_hash = None, ri_wrapped_key = None\<rparr>"

record 'm backup_guard =
  bg_enc_key :: "8 word list"
  bg_unencrypted :: recovery_info
  bg_metadata :: 'm

text \<open>
  The disk: the metadata in the open, if they can be read, and those in the encrypted directory as they are seen with a key.
\<close>

record 'm backup_disk =
  bd_unencrypted :: "(error, recovery_info) res option"
  bd_encrypted :: "8 word list \<Rightarrow> (error, 'm) res option"

record backup_env =
  be_key :: "8 word list"
  be_salt :: string
  be_prefix :: "8 word list"
  be_mount :: "(error, unit) res"
  be_write :: "nat \<Rightarrow> (error, unit) res"

definition hash_backup_password :: "auth_host \<Rightarrow> backup_env \<Rightarrow> string \<Rightarrow> (error, string) res" where
  "hash_backup_password host env password =
     map_err (\<lambda>e. Error PasswordHashGeneration (Msg e)) (ah_hash_password host (be_salt env) password)"

text \<open>The key of the backup: unwrapped with the password, or a new one.\<close>

definition unwrap_key :: "auth_host \<Rightarrow> cipher \<Rightarrow> backup_env \<Rightarrow> string \<Rightarrow> recovery_info \<Rightarrow> (error, 8 word list) res" where
  "unwrap_key host cp env password u =
     (case (ri_password_hash u, ri_wrapped_key u) of
        (Some hash, Some wrapped) \<Rightarrow>
          rbind (ok_or (cp_unbase32 cp True wrapped) (Error Backup (Msg ''failed to decode wrapped key''))) (\<lambda>wrapped.
          rbind (check_password host hash password) (\<lambda>_.
          let key = decrypt_slice cp wrapped password in
          if cp_utf8 cp key then Ok key else Err (Error Utf8 (Msg ''invalid utf-8 sequence''))))
      | _ \<Rightarrow> Ok (as_bytes (cp_base32 cp False (be_key env))))"

definition backup_mount :: "auth_host \<Rightarrow> cipher \<Rightarrow> 'm \<Rightarrow> backup_env \<Rightarrow> string \<Rightarrow> 'm backup_disk \<Rightarrow> (error, 'm backup_guard) res" where
  "backup_mount host cp nometa env password disk =
     rbind (case bd_unencrypted disk of Some f \<Rightarrow> f | None \<Rightarrow> Ok no_recovery_info) (\<lambda>u.
     rbind (unwrap_key host cp env password u) (\<lambda>enc_key.
     rbind (case ri_password_hash u of
         Some _ \<Rightarrow> Ok u
       | None \<Rightarrow> rmap (\<lambda>h. u\<lparr>ri_password_hash := Some h\<rparr>) (hash_backup_password host env password)) (\<lambda>u.
     let u = (if ri_wrapped_key u = None
              then u\<lparr>ri_wrapped_key := Some (cp_base32 cp True (encrypt_slice cp (be_prefix env) enc_key password))\<rparr> else u) in
     rbind (be_mount env) (\<lambda>_.
     rbind (case bd_encrypted disk enc_key of Some f \<Rightarrow> f | None \<Rightarrow> Ok nometa) (\<lambda>m.
     Ok \<lparr>bg_enc_key = enc_key, bg_unencrypted = u, bg_metadata = m\<rparr>)))))"

definition change_password :: "auth_host \<Rightarrow> cipher \<Rightarrow> backup_env \<Rightarrow> string \<Rightarrow> 'm backup_guard \<Rightarrow> (error, 'm backup_guard) res" where
  "change_password host cp env new_password g =
     rmap (\<lambda>h. g\<lparr>bg_unencrypted := (bg_unencrypted g)\<lparr>ri_password_hash := Some h,
         ri_wrapped_key := Some (cp_base32 cp False (encrypt_slice cp (be_prefix env) (bg_enc_key g) new_password))\<rparr>\<rparr>)
       (hash_backup_password host env new_password)"

definition backup_save :: "backup_env \<Rightarrow> 'm backup_guard \<Rightarrow> ('m backup_disk, error, unit) st" where
  "backup_save env g =
     st_bind (st_lift (be_write env 0)) (\<lambda>_.
     st_bind (st_modify (\<lambda>d. d\<lparr>bd_encrypted := (bd_encrypted d)(bg_enc_key g := Some (Ok (bg_metadata g)))\<rparr>)) (\<lambda>_.
     st_bind (st_lift (be_write env 1)) (\<lambda>_.
     st_modify (\<lambda>d. d\<lparr>bd_unencrypted := Some (Ok (bg_unencrypted g))\<rparr>))))"

subsection \<open>Opening it again\<close>

text \<open>
  What is relied on: base 32 can be decoded whether it was padded or not and is text, and random prefixes have 32 bytes.
\<close>

definition cipher_sound :: "cipher \<Rightarrow> bool" where
  "cipher_sound cp \<longleftrightarrow> (\<forall>pad bs. cp_unbase32 cp True (cp_base32 cp pad bs) = Some bs) \<and>
     (\<forall>bs. cp_utf8 cp (as_bytes (cp_base32 cp False bs)))"

text \<open>The open metadata let exactly this password in, and give the key.\<close>

definition locked_with :: "auth_host \<Rightarrow> cipher \<Rightarrow> string \<Rightarrow> 8 word list \<Rightarrow> recovery_info \<Rightarrow> bool" where
  "locked_with host cp p key u \<longleftrightarrow> cp_utf8 cp key \<and> (\<exists>h w bs. ri_password_hash u = Some h \<and> ri_wrapped_key u = Some w \<and>
     (\<forall>q. ah_verify host h q = Some (p = q)) \<and> cp_unbase32 cp True w = Some bs \<and> decrypt_slice cp bs p = key)"

lemma hashed_verifies:
  "argon2_sound host \<Longrightarrow> hash_backup_password host env p = Ok h \<Longrightarrow> ah_verify host h q = Some (p = q)"
  by (cases "ah_hash_password host (be_salt env) p") (auto simp: hash_backup_password_def argon2_sound_def)

lemma change_password_locks:
  assumes "argon2_sound host" and "cipher_sound cp" and "length (be_prefix env) = 32" and "cp_utf8 cp (bg_enc_key g)"
    and "change_password host cp env p g = Ok g'"
  shows "locked_with host cp p (bg_enc_key g') (bg_unencrypted g') \<and> bg_enc_key g' = bg_enc_key g \<and> bg_metadata g' = bg_metadata g"
  using assms
  by (auto simp: change_password_def rmap_eq_Ok locked_with_def cipher_sound_def decrypt_encrypt hashed_verifies)

lemma unwrap_key_locked:
  assumes "locked_with host cp p key u"
  shows "unwrap_key host cp env q u = (if q = p then Ok key else Err password_incorrect)"
  using assms by (auto simp: locked_with_def unwrap_key_def check_password_def)

text \<open>A backup that was opened is locked with the password: a new one gets the password, another one was opened with it.\<close>

lemma mount_locks:
  assumes "argon2_sound host" and "cipher_sound cp" and "length (be_prefix env) = 32"
    and "bd_unencrypted disk = None" and "backup_mount host cp nometa env p disk = Ok g"
  shows "locked_with host cp p (bg_enc_key g) (bg_unencrypted g)"
  using assms
  by (auto simp: backup_mount_def rbind_eq_Ok rmap_eq_Ok unwrap_key_def no_recovery_info_def Let_def locked_with_def cipher_sound_def
      decrypt_encrypt hashed_verifies)

lemma mount_key_text:
  "cipher_sound cp \<Longrightarrow> backup_mount host cp nometa env p disk = Ok g \<Longrightarrow> cp_utf8 cp (bg_enc_key g)"
  by (auto simp: backup_mount_def rbind_eq_Ok unwrap_key_def Let_def cipher_sound_def split: option.splits if_splits)

lemma saved_opens:
  assumes "locked_with host cp p (bg_enc_key g) (bg_unencrypted g)" and "backup_save env g disk = (Ok (), disk')" and "be_mount env' = Ok ()"
  shows "backup_mount host cp nometa env' q disk' = (if q = p then Ok g else Err password_incorrect)"
proof -
  have "bd_unencrypted disk' = Some (Ok (bg_unencrypted g))" "bd_encrypted disk' (bg_enc_key g) = Some (Ok (bg_metadata g))"
    using assms(2) by (auto simp: backup_save_def st_bind_def st_lift_def st_modify_def split: res.splits)
  then show ?thesis using assms(1,3) unwrap_key_locked [OF assms(1)]
    by (auto simp: backup_mount_def locked_with_def Let_def)
qed

text \<open>
  C18. A backup whose password was changed can be opened with the new password and with no other, and shows the same metadata under the same
  key as before the change.
\<close>

theorem backup_password_changed:
  assumes "argon2_sound host" and "cipher_sound cp" and "length (be_prefix env') = 32"
    and "backup_mount host cp nometa env p disk = Ok g" and "change_password host cp env' new g = Ok g'"
    and "backup_save env'' g' disk = (Ok (), disk')" and "be_mount env''' = Ok ()"
  shows "bg_enc_key g' = bg_enc_key g \<and> bg_metadata g' = bg_metadata g \<and>
    backup_mount host cp nometa env''' q disk' = (if q = new then Ok g' else Err password_incorrect)"
proof -
  have "cp_utf8 cp (bg_enc_key g)" using assms(2,4) by (rule mount_key_text)
  then have "locked_with host cp new (bg_enc_key g') (bg_unencrypted g')" "bg_enc_key g' = bg_enc_key g" "bg_metadata g' = bg_metadata g"
    using change_password_locks [OF assms(1-3) _ assms(5)] by auto
  then show ?thesis using saved_opens [OF _ assms(6,7)] by auto
qed

section \<open>Witnesses\<close>

definition mounted_once :: mount_state where
  "mounted_once = snd (tmp_mount (Ok ()) ''m'' ReadOnly no_mounts)"

definition unmounted_once :: mount_state where
  "unmounted_once = unmount_step True ''m'' True (tmp_release True (''m'', 0) mounted_once)"

definition mounted_again :: mount_state where
  "mounted_again = snd (tmp_mount (Ok ()) ''m'' ReadWrite unmounted_once)"

lemmas mount_evals = mounted_once_def unmounted_once_def mounted_again_def tmp_mount_def mount_anew_def arc_new_def no_mounts_def
  no_cells_def tmp_release_def arc_drop_def alive_def unmount_step_def Let_def

lemma mounted_once_run: "mount_run [(''m'', 0)] (\<lambda>_. 0) (\<lambda>_. 0) mounted_once"
proof -
  have "tmp_mount (Ok ()) ''m'' ReadOnly no_mounts = (Ok (''m'', 0), mounted_once)" by (simp add: mount_evals)
  from run_mount [OF run_init this] show ?thesis by simp
qed

lemma mounted_again_run: "mount_run [(''m'', 1)] (\<lambda>_. 0) (\<lambda>_. 0) mounted_again"
proof -
  have "mount_run (remove1 (''m'', 0) [(''m'', 0)]) (\<lambda>_. 0) (\<lambda>_. 0) (tmp_release True (''m'', 0) mounted_once)"
    using mounted_once_run by (rule run_release) simp
  then have "mount_run [] (\<lambda>_. 0) (\<lambda>_. 0) (tmp_release True (''m'', 0) mounted_once)" by simp
  from run_unmount [OF this, of "''m''" True True] have "mount_run [] (\<lambda>_. 0) (\<lambda>_. 0) unmounted_once"
    by (simp add: mount_evals)
  moreover have "tmp_mount (Ok ()) ''m'' ReadWrite unmounted_once = (Ok (''m'', 1), mounted_again)" by (simp add: mount_evals)
  ultimately show ?thesis using run_mount by force
qed

theorem mounted_while_held_witness:
  "mount_run [(''m'', 0)] (\<lambda>_. 0) (\<lambda>_. 0) mounted_once \<and> ms_stack mounted_once ''m'' \<noteq> [] \<and> length (ms_stack mounted_once ''m'') = 1"
  using mounted_once_run mounted_while_held [OF mounted_once_run, of "''m''" 0] by (simp add: held_def unmounts_due_def mount_evals)

theorem unmounted_twice_witness:
  "mount_run [(''m'', 1)] (\<lambda>_. 0) (\<lambda>_. 0) mounted_again \<and>
   ms_stack (unmount_step True ''m'' False (remove_step True ''m'' mounted_again)) ''m'' = []"
  using mounted_again_run unmounted_twice [OF mounted_again_run, of "''m''" 1 True] by (simp add: unmounts_due_def mount_evals)

definition sample_cipher :: cipher where
  "sample_cipher = \<lparr>cp_pbkdf2 = (\<lambda>p s. p), cp_stream = (\<lambda>k n i. 1), cp_base32 = (\<lambda>pad bs. map (\<lambda>b. char_of (unat b)) bs),
     cp_unbase32 = (\<lambda>pad s. Some (map (\<lambda>c. word_of_nat (of_char c)) s)), cp_utf8 = (\<lambda>_. True)\<rparr>"

lemma sample_cipher_sound: "cipher_sound sample_cipher"
proof -
  have "unat x < 2 ^ LENGTH(8)" for x :: "8 word" by (rule unsigned_less)
  then have "unat x mod 256 = unat x" for x :: "8 word" by simp
  then show ?thesis by (auto simp: cipher_sound_def sample_cipher_def comp_def intro!: map_idI)
qed

definition sample_backup_env :: backup_env where
  "sample_backup_env = \<lparr>be_key = [1, 2, 3], be_salt = '''', be_prefix = replicate 32 0, be_mount = Ok (), be_write = \<lambda>_. Ok ()\<rparr>"

definition new_disk :: "nat backup_disk" where
  "new_disk = \<lparr>bd_unencrypted = None, bd_encrypted = \<lambda>_. None\<rparr>"

theorem backup_password_changed_witness:
  "cipher_sound sample_cipher \<and> argon2_sound sample_auth_host \<and>
   (\<exists>g g' disk'. backup_mount sample_auth_host sample_cipher 7 sample_backup_env ''old'' new_disk = Ok g \<and>
     change_password sample_auth_host sample_cipher sample_backup_env ''new'' g = Ok g' \<and>
     backup_save sample_backup_env g' new_disk = (Ok (), disk') \<and>
     backup_mount sample_auth_host sample_cipher 7 sample_backup_env ''new'' disk' = Ok g' \<and>
     backup_mount sample_auth_host sample_cipher 7 sample_backup_env ''old'' disk' = Err password_incorrect)"
proof -
  have sound: "argon2_sound sample_auth_host" by (simp add: argon2_sound_def sample_auth_host_def)
  obtain g where g: "backup_mount sample_auth_host sample_cipher (7 :: nat) sample_backup_env ''old'' new_disk = Ok g"
    by (simp add: backup_mount_def new_disk_def no_recovery_info_def unwrap_key_def hash_backup_password_def sample_auth_host_def
        sample_backup_env_def Let_def)
  obtain g' where g': "change_password sample_auth_host sample_cipher sample_backup_env ''new'' g = Ok g'"
    by (simp add: change_password_def hash_backup_password_def sample_auth_host_def)
  obtain disk' where d: "backup_save sample_backup_env g' new_disk = (Ok (), disk')"
    by (simp add: backup_save_def st_eval sample_backup_env_def)
  have e: "length (be_prefix sample_backup_env) = 32" "be_mount sample_backup_env = Ok ()" by (simp_all add: sample_backup_env_def)
  note changed = backup_password_changed [OF sound sample_cipher_sound e(1) g g' d e(2)]
  show ?thesis using sound sample_cipher_sound g g' d changed [of "''new''"] changed [of "''old''"] by auto
qed

end
