(* ===== verification/Docker_Procedure.thy ===== *)
theory Docker_Procedure
  imports Volumes Json State_Res Num_Range
begin

text \<open>
  Running the procedures of packages in containers (\<^verbatim>\<open>procedure/docker.rs\<close>, \<^verbatim>\<open>libs/models/src/procedure_name.rs\<close>): names of containers,
  arguments of docker, and what becomes of the exit status and the output. Docker and the file system are a parameter, with a
  state of their own.
\<close>

section \<open>Data\<close>

datatype io_format = Json | JsonPretty | Yaml | Cbor | Toml | TomlPretty

record docker_container =
  dc_image :: string
  dc_mounts :: "(string, string) btmap"
  dc_shm_size_mb :: "nat option"
  dc_sigterm_timeout :: "nat option"
  dc_system :: bool
  dc_gpu_acceleration :: bool

record docker_procedure =
  dp_image :: string
  dp_system :: bool
  dp_entrypoint :: string
  dp_args :: "string list"
  dp_inject :: bool
  dp_mounts :: "(string, string) btmap"
  dp_io_format :: "io_format option"
  dp_sigterm_timeout :: "nat option"
  dp_shm_size_mb :: "nat option"
  dp_gpu_acceleration :: bool

record docker_inject =
  di_system :: bool
  di_entrypoint :: string
  di_args :: "string list"
  di_io_format :: "io_format option"
  di_sigterm_timeout :: "nat option"

definition main_docker_procedure :: "docker_container \<Rightarrow> docker_inject \<Rightarrow> docker_procedure" where
  "main_docker_procedure container injectable =
     \<lparr>dp_image = dc_image container, dp_system = di_system injectable, dp_entrypoint = di_entrypoint injectable,
      dp_args = di_args injectable, dp_inject = False, dp_mounts = dc_mounts container, dp_io_format = di_io_format injectable,
      dp_sigterm_timeout = di_sigterm_timeout injectable, dp_shm_size_mb = dc_shm_size_mb container,
      dp_gpu_acceleration = dc_gpu_acceleration container\<rparr>"

definition SYSTEM_IMAGES :: "string list" where
  "SYSTEM_IMAGES = [''compat'', ''utils'']"

definition docker_validate :: "docker_procedure \<Rightarrow> volumes \<Rightarrow> string list \<Rightarrow> bool \<Rightarrow> (string, unit) res" where
  "docker_validate p volumes image_ids expected_io =
     rbind (rfor (\<lambda>m. if bt_get volumes (fst m) = None \<and> fst m \<noteq> ''BACKUP'' then Err (''unknown volume: '' @ fst m) else Ok ()) (dp_mounts p)) (\<lambda>_.
     rbind (if dp_system p then if dp_image p \<in> set SYSTEM_IMAGES then Ok () else Err (''unknown system image: '' @ dp_image p)
            else if dp_image p \<in> set image_ids then Ok () else Err (''image for '' @ dp_image p @ '' not contained in package'')) (\<lambda>_.
     if expected_io \<and> dp_io_format p = None then Err ''expected io-format'' else Ok ()))"

section \<open>Names\<close>

datatype procedure_name = PMain | CreateBackup | RestoreBackup | GetConfig | SetConfig | PMigration | Properties | PLongRunning
  | Check string | AutoConfig string | Health string | Action string | Signal

text \<open>\<open>r\<close> is the text of a random number.\<close>

fun docker_name :: "string \<Rightarrow> procedure_name \<Rightarrow> string option" where
  "docker_name r CreateBackup = Some ''CreateBackup''"
| "docker_name r RestoreBackup = Some ''RestoreBackup''"
| "docker_name r GetConfig = Some ''GetConfig''"
| "docker_name r SetConfig = Some ''SetConfig''"
| "docker_name r PMigration = Some ''Migration''"
| "docker_name r Properties = Some (''Properties-'' @ r)"
| "docker_name r (Health i) = Some (i @ ''Health'')"
| "docker_name r (Action i) = Some (i @ ''Action'')"
| "docker_name r _ = None"

fun js_function_name :: "procedure_name \<Rightarrow> string option" where
  "js_function_name PMain = Some ''/main''"
| "js_function_name PLongRunning = None"
| "js_function_name CreateBackup = Some ''/createBackup''"
| "js_function_name RestoreBackup = Some ''/restoreBackup''"
| "js_function_name GetConfig = Some ''/getConfig''"
| "js_function_name SetConfig = Some ''/setConfig''"
| "js_function_name PMigration = Some ''/migration''"
| "js_function_name Properties = Some ''/properties''"
| "js_function_name (Health i) = Some (''/health/'' @ i)"
| "js_function_name (Action i) = Some (''/action/'' @ i)"
| "js_function_name (Check i) = Some (''/dependencies/'' @ i @ ''/check'')"
| "js_function_name (AutoConfig i) = Some (''/dependencies/'' @ i @ ''/autoConfigure'')"
| "js_function_name Signal = Some ''/handleSignal''"

definition container_name :: "package_id \<Rightarrow> string option \<Rightarrow> string" where
  "container_name pkg name = (case name of Some n \<Rightarrow> pkg @ ''_'' @ n @ ''.embassy'' | None \<Rightarrow> pkg @ ''.embassy'')"

definition split_once :: "char \<Rightarrow> string \<Rightarrow> (string \<times> string) option" where
  "split_once c s = (if c \<in> set s then Some (takeWhile (\<lambda>x. x \<noteq> c) s, tl (dropWhile (\<lambda>x. x \<noteq> c) s)) else None)"

text \<open>The pattern of ids: groups of small letters with single dashes between them.\<close>

definition valid_id :: "string \<Rightarrow> bool" where
  "valid_id s \<longleftrightarrow> list_all (\<lambda>g. g \<noteq> [] \<and> list_all (\<lambda>c. CHR ''a'' \<le> c \<and> c \<le> CHR ''z'') g) (split_on (CHR ''-'') s)"

definition uncontainer_name :: "string \<Rightarrow> (package_id \<times> string option) option" where
  "uncontainer_name name =
     Option.bind (split_once (CHR ''.'') name) (\<lambda>(pre_tld, _).
       if CHR ''_'' \<in> set pre_tld
       then Option.bind (split_once (CHR ''_'') name) (\<lambda>(pkg, name). if valid_id pkg then Some (pkg, Some name) else None)
       else if valid_id pre_tld then Some (pre_tld, None) else None)"

definition image_for_package :: "string \<Rightarrow> package_id \<Rightarrow> version option \<Rightarrow> string" where
  "image_for_package img pkg ver = ''start9/'' @ pkg @ ''/'' @ img @ '':'' @ (case ver of Some v \<Rightarrow> v | None \<Rightarrow> ''latest'')"

section \<open>Output\<close>

text \<open>The lines of a stream, and the error that ended it, if any.\<close>

type_synonym lines = "string list \<times> error option"

record 'a ring_vec =
  rv_value :: "'a list"
  rv_capacity :: nat

definition ring_new :: "nat \<Rightarrow> 'a ring_vec" where
  "ring_new capacity = \<lparr>rv_value = [], rv_capacity = capacity\<rparr>"

definition ring_push :: "'a \<Rightarrow> 'a ring_vec \<Rightarrow> 'a option \<times> 'a ring_vec" where
  "ring_push x r =
     (if length (rv_value r) = rv_capacity r
      then (case rv_value r of [] \<Rightarrow> (None, r\<lparr>rv_value := [x]\<rparr>) | y # ys \<Rightarrow> (Some y, r\<lparr>rv_value := ys @ [x]\<rparr>))
      else (None, r\<lparr>rv_value := rv_value r @ [x]\<rparr>))"

definition buf_reader_to_lines :: "nat option \<Rightarrow> lines \<Rightarrow> (error, string list) res" where
  "buf_reader_to_lines limit ls =
     (let acc = fold (\<lambda>l acc. snd (ring_push l acc)) (fst ls) (ring_new (case limit of Some n \<Rightarrow> n | None \<Rightarrow> 1000)) in
      case snd ls of Some e \<Rightarrow> Err e | None \<Rightarrow> Ok (rv_value acc))"

datatype max_by_lines_result = MaxDone string | MaxOverflow string | MaxError error

fun collect_lines :: "nat \<Rightarrow> string \<Rightarrow> bool \<Rightarrow> string list \<Rightarrow> string \<times> bool" where
  "collect_lines max_items answer blown [] = (answer, blown)"
| "collect_lines max_items answer blown (l # ls) =
     (if blown then collect_lines max_items answer blown ls
      else let answer = (if answer \<noteq> [] then answer @ [CHR 0x0A] else answer) @ l in
        collect_lines max_items answer (max_items \<le> length answer) ls)"

definition max_by_lines :: "nat option \<Rightarrow> lines \<Rightarrow> max_by_lines_result" where
  "max_by_lines max_items ls =
     (case snd ls of
        Some e \<Rightarrow> MaxError e
      | None \<Rightarrow>
          (case collect_lines (case max_items of Some n \<Rightarrow> n | None \<Rightarrow> 10000000) [] False (fst ls) of
             (answer, True) \<Rightarrow> MaxOverflow answer
           | (answer, False) \<Rightarrow> MaxDone answer))"

fun join_lines :: "string list \<Rightarrow> string" where
  "join_lines [] = []"
| "join_lines [l] = l"
| "join_lines (l # ls) = l @ [CHR 0x0A] @ join_lines ls"

section \<open>Running a procedure\<close>

text \<open>
  What a process does once it is started: when it ends, with which status (none when a signal ended it), and what it writes. One that
  ends just at its time limit may be seen to end first, or the limit may.
\<close>

record process =
  pr_stdin :: "(error, unit) res"
  pr_end :: "nat option"
  pr_first :: bool
  pr_status :: "(error, int option) res"
  pr_stdout :: lines
  pr_stderr :: lines
  pr_kill :: "(error, unit) res"

datatype device = Device string | Folder "device list" | NoDevice

record 'w docker_host =
  dh_datadir :: path
  dh_remove :: "string \<Rightarrow> 'w \<Rightarrow> (nat option, unit) res \<times> 'w"
  dh_exists :: "path \<Rightarrow> 'w \<Rightarrow> bool"
  dh_mkdir :: "path \<Rightarrow> 'w \<Rightarrow> (error, unit) res \<times> 'w"
  dh_rmdir :: "path \<Rightarrow> 'w \<Rightarrow> (error, unit) res \<times> 'w"
  dh_inspect :: "string list \<Rightarrow> 'w \<Rightarrow> (error, string) res \<times> 'w"
  dh_dri :: "'w \<Rightarrow> (error, device list) res"
  dh_spawn :: "string list \<Rightarrow> string option \<Rightarrow> 'w \<Rightarrow> (error, process) res \<times> 'w"
  dh_print :: "io_format \<Rightarrow> json \<Rightarrow> (error, string) res"
  dh_parse :: "io_format \<Rightarrow> string \<Rightarrow> json option"

fun get_devices :: "device \<Rightarrow> string list" where
  "get_devices (Device d) = [d]"
| "get_devices (Folder ds) = concat (map get_devices ds)"
| "get_devices NoDevice = []"

definition show_path :: "path \<Rightarrow> string" where
  "show_path p = concat (map (\<lambda>c. ''/'' @ c) p)"

definition show_mb :: "nat \<Rightarrow> string" where
  "show_mb n = map char_of (show_usize n)"

definition mount_option :: "path \<Rightarrow> string \<Rightarrow> bool \<Rightarrow> string" where
  "mount_option src dst ro = ''type=bind,src='' @ show_path src @ '',dst='' @ dst @ (if ro then '',readonly'' else '''')"

text \<open>The mounts of a container; those of unknown volumes are left out, and directories that are missing are made.\<close>

definition mount_step :: "'w docker_host \<Rightarrow> package_id \<Rightarrow> version \<Rightarrow> volumes \<Rightarrow> string \<times> string \<Rightarrow> string list \<Rightarrow> ('w, error, string list) st" where
  "mount_step host pkg ver volumes m acc =
     (case bt_get volumes (fst m) of
        None \<Rightarrow> st_return acc
      | Some volume \<Rightarrow>
          let src = path_for (dh_datadir host) pkg ver (fst m) volume in
          st_bind (\<lambda>w. if dh_exists host src w then (Ok (), w) else dh_mkdir host src w) (\<lambda>_.
          st_return (acc @ [mount_option src (snd m) (volume_readonly volume)])))"

definition mount_args :: "'w docker_host \<Rightarrow> package_id \<Rightarrow> version \<Rightarrow> volumes \<Rightarrow> (string, string) btmap \<Rightarrow> ('w, error, string list) st" where
  "mount_args host pkg ver volumes mounts = st_fold (mount_step host pkg ver volumes) mounts []"

definition shm_args :: "nat option \<Rightarrow> string list" where
  "shm_args mb = (case mb of Some n \<Rightarrow> [''--shm-size'', show_mb n @ ''m''] | None \<Rightarrow> [])"

definition docker_args :: "'w docker_host \<Rightarrow> package_id \<Rightarrow> version \<Rightarrow> volumes \<Rightarrow> docker_procedure \<Rightarrow> ('w, error, string list) st" where
  "docker_args host pkg ver volumes p =
     st_bind (mount_args host pkg ver volumes (dp_mounts p)) (\<lambda>mounts.
     st_bind (\<lambda>w. (if dp_gpu_acceleration p then rmap (\<lambda>ds. concat (map get_devices ds)) (dh_dri host w) else Ok [], w)) (\<lambda>devices.
     st_return
       (concat (map (\<lambda>m. [''--mount'', m]) mounts) @ shm_args (dp_shm_size_mb p) @ concat (map (\<lambda>d. [''--device'', d]) devices) @
        [''--interactive'', ''--log-driver=journald'', ''--entrypoint'', dp_entrypoint p,
         if dp_system p then image_for_package (dp_image p) ''x_system'' None else image_for_package (dp_image p) pkg (Some ver)] @
        dp_args p)))"

definition docker_args_inject :: "package_id \<Rightarrow> docker_procedure \<Rightarrow> string list" where
  "docker_args_inject pkg p = shm_args (dp_shm_size_mb p) @ [''--interactive'', container_name pkg None, dp_entrypoint p] @ dp_args p"

definition input_buf :: "'w docker_host \<Rightarrow> docker_procedure \<Rightarrow> json option \<Rightarrow> (error, string option) res" where
  "input_buf host p input =
     (case (input, dp_io_format p) of (Some v, Some f) \<Rightarrow> rmap Some (dh_print host f v) | _ \<Rightarrow> Ok None)"

definition read_output :: "'w docker_host \<Rightarrow> io_format option \<Rightarrow> lines \<Rightarrow> (error, json) res" where
  "read_output host fmt out =
     (case fmt of
        Some f \<Rightarrow>
          (case max_by_lines None out of
             MaxDone buffer \<Rightarrow> Ok (case dh_parse host f buffer of Some v \<Rightarrow> v | None \<Rightarrow> JString buffer)
           | MaxError e \<Rightarrow> Err e
           | MaxOverflow buffer \<Rightarrow> Ok (JString buffer))
      | None \<Rightarrow> rmap (\<lambda>ls. if ls = [] then JNull else JString (join_lines ls)) (buf_reader_to_lines (Some 1000) out))"

text \<open>The result of a procedure: its output, or a code with the text of the error.\<close>

type_synonym 'o outcome = "int \<times> string + 'o"

definition exit_result :: "'w docker_host \<Rightarrow> (json \<Rightarrow> (error, 'o) res) \<Rightarrow> io_format option \<Rightarrow> process \<Rightarrow> (error, 'o outcome) res" where
  "exit_result host decode fmt pr =
     rbind (pr_status pr) (\<lambda>status.
       if status = Some 0 \<or> status = Some 143
       then rmap Inr (decode (case read_output host fmt (pr_stdout pr) of Ok v \<Rightarrow> v | _ \<Rightarrow> JNull))
       else rmap (\<lambda>ls. Inl (case status of Some c \<Rightarrow> c | None \<Rightarrow> 0, join_lines ls)) (buf_reader_to_lines (Some 1000) (pr_stderr pr)))"

text \<open>Waiting for the end of a process or for the time limit, whichever comes first; \<open>select!\<close> takes either of two that come together.\<close>

definition wait_process :: "'w docker_host \<Rightarrow> (json \<Rightarrow> (error, 'o) res) \<Rightarrow> io_format option \<Rightarrow> nat option \<Rightarrow> process \<Rightarrow> (error, 'o outcome) res" where
  "wait_process host decode fmt limit pr =
     (case (pr_end pr, limit) of
        (Some t, Some l) \<Rightarrow>
          if t < l \<or> t = l \<and> pr_first pr then exit_result host decode fmt pr
          else rmap (\<lambda>_. Inl (143, ''Timed out. Retrying soon...'')) (pr_kill pr)
      | (Some t, None) \<Rightarrow> exit_result host decode fmt pr
      | (None, Some l) \<Rightarrow> rmap (\<lambda>_. Inl (143, ''Timed out. Retrying soon...'')) (pr_kill pr)
      | (None, None) \<Rightarrow> Diverge)"

definition run_docker :: "'w docker_host \<Rightarrow> (json \<Rightarrow> (error, 'o) res) \<Rightarrow> docker_procedure \<Rightarrow> string list \<Rightarrow> json option \<Rightarrow> nat option \<Rightarrow>
    ('w, error, 'o outcome) st" where
  "run_docker host decode p argv input limit =
     st_bind (st_lift (input_buf host p input)) (\<lambda>buf.
     st_bind (dh_spawn host argv buf) (\<lambda>pr.
     st_bind (st_lift (if buf = None then Ok () else pr_stdin pr)) (\<lambda>_.
     st_lift (wait_process host decode (dp_io_format p) limit pr))))"

text \<open>Removing by force the container that has the name of the next one; it is no error when there is none (status 404).\<close>

definition cleanup_previous_container :: "'w docker_host \<Rightarrow> string \<Rightarrow> ('w, error, unit) st" where
  "cleanup_previous_container host container w =
     (case dh_remove host container w of
        (Err e, w) \<Rightarrow> if e = Some 404 then (Ok (), w) else (Err (Error Docker (Msg ''remove_container'')), w)
      | (Ok u, w) \<Rightarrow> (Ok u, w)
      | (Panic, w) \<Rightarrow> (Panic, w)
      | (Diverge, w) \<Rightarrow> (Diverge, w))"

definition execute :: "'w docker_host \<Rightarrow> (json \<Rightarrow> (error, 'o) res) \<Rightarrow> package_id \<Rightarrow> version \<Rightarrow> string \<Rightarrow> procedure_name \<Rightarrow> volumes \<Rightarrow>
    docker_procedure \<Rightarrow> json option \<Rightarrow> nat option \<Rightarrow> ('w, error, 'o outcome) st" where
  "execute host decode pkg ver r name volumes p input timeout =
     (let container = container_name pkg (docker_name r name) in
      st_bind (cleanup_previous_container host container) (\<lambda>_.
      st_bind (docker_args host pkg ver volumes p) (\<lambda>args.
      run_docker host decode p
        ([''run'', ''--rm'', ''--network=start9'', ''--add-host=embassy:172.18.0.1'', ''--name'', container, ''--hostname='' @ container,
          ''--no-healthcheck''] @ args) input timeout)))"

text \<open>
  The container of a service with a main script: an init process that takes orders over a socket. Devices for graphics are not
  passed on to it.
\<close>

definition container_image :: "docker_container \<Rightarrow> package_id \<Rightarrow> version \<Rightarrow> string" where
  "container_image c pkg ver = (if dc_system c then image_for_package (dc_image c) ''x_system'' None else image_for_package (dc_image c) pkg (Some ver))"

definition architecture :: "string \<Rightarrow> string" where
  "architecture out = map char_of (trim (map of_char (filter (\<lambda>c. c \<noteq> CHR 0x27) out)))"

definition setup_long_running_docker_cmd :: "docker_container \<Rightarrow> 'w docker_host \<Rightarrow> string \<Rightarrow> volumes \<Rightarrow> package_id \<Rightarrow> version \<Rightarrow> path \<Rightarrow>
    ('w, error, string list) st" where
  "setup_long_running_docker_cmd docker host container volumes pkg ver socket_path =
     st_bind (cleanup_previous_container host container) (\<lambda>_.
     st_bind (dh_inspect host [''image'', ''inspect'', ''--format'', [CHR 0x27] @ ''{{.Architecture}}'' @ [CHR 0x27], container_image docker pkg ver]) (\<lambda>out.
     st_bind (mount_args host pkg ver volumes (dc_mounts docker)) (\<lambda>mounts.
     st_return
       ([''run'', ''--network=start9'', ''--add-host=embassy:172.18.0.1'',
         ''--mount'', ''type=bind,src=/usr/lib/embassy/container/,dst=/start9/bin/,readonly'',
         ''--mount'', ''type=bind,src='' @ show_path socket_path @ '',dst=/start9/sockets/'',
         ''--name'', container, ''--hostname='' @ container,
         ''--entrypoint'', ''/start9/bin/embassy_container_init.'' @ architecture out, ''-i'', ''--rm''] @
        concat (map (\<lambda>m. [''--mount'', m]) mounts) @ shm_args (dc_shm_size_mb docker) @
        [''--log-driver=journald'', container_image docker pkg ver]))))"

text \<open>Starting it; the result is the path of the socket. A socket that does not appear within a second is only logged.\<close>

definition long_running_execute :: "docker_container \<Rightarrow> 'w docker_host \<Rightarrow> package_id \<Rightarrow> version \<Rightarrow> volumes \<Rightarrow> ('w, error, path) st" where
  "long_running_execute docker host pkg ver volumes =
     (let container = container_name pkg None;
          socket_path = [''tmp'', ''embassy'', ''containers'', pkg @ ''_'' @ ver] in
      st_bind (\<lambda>w. if dh_exists host socket_path w then dh_rmdir host socket_path w else (Ok (), w)) (\<lambda>_.
      st_bind (dh_mkdir host socket_path) (\<lambda>_.
      st_bind (setup_long_running_docker_cmd docker host container volumes pkg ver socket_path) (\<lambda>argv.
      st_bind (dh_spawn host argv None) (\<lambda>_.
      st_return (socket_path @ [''rpc.sock'']))))))"

definition inject :: "'w docker_host \<Rightarrow> (json \<Rightarrow> (error, 'o) res) \<Rightarrow> package_id \<Rightarrow> docker_procedure \<Rightarrow> json option \<Rightarrow> nat option \<Rightarrow>
    ('w, error, 'o outcome) st" where
  "inject host decode pkg p input timeout = run_docker host decode p (''exec'' # docker_args_inject pkg p) input timeout"

text \<open>The sandbox has no network and volumes that can only be read. It takes a time limit but does not look at it.\<close>

definition sandboxed :: "'w docker_host \<Rightarrow> (json \<Rightarrow> (error, 'o) res) \<Rightarrow> package_id \<Rightarrow> version \<Rightarrow> volumes \<Rightarrow>
    docker_procedure \<Rightarrow> json option \<Rightarrow> nat option \<Rightarrow> ('w, error, 'o outcome) st" where
  "sandboxed host decode pkg ver volumes p input timeout =
     st_bind (docker_args host pkg ver (to_readonly volumes) p) (\<lambda>args.
     run_docker host decode p ([''run'', ''--rm'', ''--network=none''] @ args) input None)"

text \<open>
  \<open>PackageProcedure::execute\<close> and \<open>PackageProcedure::sandboxed\<close>; scripts are run by the engine, a parameter. The manager of the package, if
  there is one, gives the next group for the main process and for the others.
\<close>

datatype package_procedure = DockerProcedure docker_procedure | JsProcedure

definition procedure_execute where
  "procedure_execute host manager js decode pkg ver r name volumes proc input timeout =
     (case proc of
        DockerProcedure p \<Rightarrow> if dp_inject p then inject host decode pkg p input timeout
                     else execute host decode pkg ver r name volumes p input timeout
      | JsProcedure \<Rightarrow>
          (case manager of
             None \<Rightarrow> st_lift (Err (Error NotFound (Msg (''No manager found for '' @ pkg))))
           | Some gids \<Rightarrow> js pkg ver name volumes input timeout (if name = PMain then fst gids else snd gids)))"

definition procedure_sandboxed where
  "procedure_sandboxed host js decode pkg ver volumes proc input timeout name =
     (case proc of
        DockerProcedure p \<Rightarrow> sandboxed host decode pkg ver volumes p input timeout
      | JsProcedure \<Rightarrow> js pkg ver name volumes input timeout)"

section \<open>Names are unique\<close>

lemma valid_id_chars: "valid_id s \<Longrightarrow> c \<in> set s \<Longrightarrow> CHR ''a'' \<le> c \<and> c \<le> CHR ''z'' \<or> c = CHR ''-''"
proof -
  have "set s \<subseteq> insert x (\<Union>g\<in>set (split_on x s). set g)" for x
    by (induction s) (auto split: list.splits, blast)
  then have sub: "set s \<subseteq> insert (CHR ''-'') (\<Union>g\<in>set (split_on (CHR ''-'') s). set g)" .
  assume v: "valid_id s" and c: "c \<in> set s"
  show "CHR ''a'' \<le> c \<and> c \<le> CHR ''z'' \<or> c = CHR ''-''"
  proof (cases "c = CHR ''-''")
    case False
    then obtain g where g: "g \<in> set (split_on (CHR ''-'') s)" and cg: "c \<in> set g" using sub c by blast
    from v g have "list_all (\<lambda>c. CHR ''a'' \<le> c \<and> c \<le> CHR ''z'') g" unfolding valid_id_def list_all_iff by blast
    with cg show ?thesis unfolding list_all_iff by blast
  qed simp
qed

lemma valid_id_plain: "valid_id s \<Longrightarrow> CHR ''_'' \<notin> set s \<and> CHR ''.'' \<notin> set s"
  using valid_id_chars [of s "CHR ''_''"] valid_id_chars [of s "CHR ''.''"] by (auto simp: less_eq_char_def)

text \<open>A text up to a character that is not in it.\<close>

lemma takeWhile_cut: "c \<notin> set a \<Longrightarrow> takeWhile (\<lambda>z. z \<noteq> c) (a @ c # x) = a"
  by (induction a) auto

lemma dropWhile_cut: "c \<notin> set a \<Longrightarrow> dropWhile (\<lambda>z. z \<noteq> c) (a @ c # x) = c # x"
  by (induction a) auto

lemma split_once_cut: "c \<notin> set a \<Longrightarrow> split_once c (a @ c # x) = Some (a, x)"
  by (simp add: split_once_def takeWhile_cut dropWhile_cut)

lemma cut_unique: "c \<notin> set a \<Longrightarrow> c \<notin> set b \<Longrightarrow> a @ c # x = b @ c # y \<Longrightarrow> a = b \<and> x = y"
  by (metis takeWhile_cut same_append_eq list.inject)

lemma container_name_inj:
  assumes "valid_id p" and "valid_id q" and "container_name p n = container_name q m"
  shows "p = q \<and> n = m"
proof -
  note plain = valid_id_plain [OF assms(1)] valid_id_plain [OF assms(2)]
  have mixed: False if "valid_id a" "valid_id b" "a @ CHR ''_'' # x = b @ ''.embassy''" for a b x
  proof -
    have "CHR ''_'' \<in> set (b @ ''.embassy'')" using that(3) by (metis in_set_conv_decomp)
    then show False using valid_id_plain [OF that(2)] by simp
  qed
  consider (some) x y where "n = Some x" "m = Some y" | (none) "n = None" "m = None"
    | (left) x where "n = Some x" "m = None" | (right) y where "n = None" "m = Some y"
    by (cases n; cases m) auto
  then show ?thesis
  proof cases
    case some
    then have "p @ CHR ''_'' # x @ ''.embassy'' = q @ CHR ''_'' # y @ ''.embassy''" using assms(3) by (simp add: container_name_def)
    from cut_unique [OF conjunct1 [OF plain(1)] conjunct1 [OF plain(2)] this] some show ?thesis by simp
  next
    case none
    then show ?thesis using assms(3) by (simp add: container_name_def)
  next
    case left
    then have "p @ CHR ''_'' # x @ ''.embassy'' = q @ ''.embassy''" using assms(3) by (simp add: container_name_def)
    from mixed [OF assms(1,2) this] show ?thesis ..
  next
    case right
    then have "q @ CHR ''_'' # y @ ''.embassy'' = p @ ''.embassy''" using assms(3) by (simp add: container_name_def)
    from mixed [OF assms(2,1) this] show ?thesis ..
  qed
qed

text \<open>The ids in the name of a procedure, and the procedures whose containers have no name of their own but that of the service.\<close>

definition ids_ok :: "procedure_name \<Rightarrow> bool" where
  "ids_ok n \<longleftrightarrow> (case n of Health i \<Rightarrow> valid_id i | Action i \<Rightarrow> valid_id i | _ \<Rightarrow> True)"

fun as_service :: "procedure_name \<Rightarrow> bool" where
  "as_service PMain = True"
| "as_service PLongRunning = True"
| "as_service Signal = True"
| "as_service (Check i) = True"
| "as_service (AutoConfig i) = True"
| "as_service _ = False"

lemma id_lower:
  assumes "valid_id i" and "c \<in> {CHR ''C'', CHR ''R'', CHR ''G'', CHR ''S'', CHR ''M'', CHR ''P''}"
  shows "i @ x \<noteq> c # y" and "c # y \<noteq> i @ x"
proof -
  have "i \<noteq> []" using assms(1) by (auto simp: valid_id_def)
  then have "hd i \<noteq> c" using valid_id_chars [OF assms(1), of "hd i"] assms(2) by (auto simp: less_eq_char_def)
  then show "i @ x \<noteq> c # y" "c # y \<noteq> i @ x" using \<open>i \<noteq> []\<close> by (auto simp: Cons_eq_append_conv append_eq_Cons_conv)
qed

lemma docker_name_eq:
  assumes "ids_ok n" and "ids_ok m"
  shows "docker_name r n = docker_name r' m \<longleftrightarrow> as_service n \<and> as_service m \<or> n = m \<and> (n = Properties \<longrightarrow> r = r')"
proof -
  have suffixes: "i @ ''Health'' \<noteq> j @ ''Action''" for i j :: string
  proof
    assume "i @ ''Health'' = j @ ''Action''"
    then have "last (i @ ''Health'') = last (j @ ''Action'')" by (rule arg_cong)
    then show False by simp
  qed
  show ?thesis using assms suffixes suffixes [symmetric]
    by (cases n; cases m) (simp_all add: ids_ok_def id_lower)
qed

text \<open>
  C38. Docker removes by force what has the name of the container it starts. Two containers have the same name just when they are of the same
  package and of the same procedure, and for the properties with the same random number; or both are of procedures without a name of their
  own, which the checks and the automatic configuration of dependencies and the signals are too: these have the name of the service itself.
  So a backup, a configuration, a migration, a health check, an action or the reading of the properties never removes the service nor
  a container of another procedure or package.
\<close>

theorem container_names_unique:
  assumes "valid_id p" and "valid_id q" and "ids_ok n" and "ids_ok m"
  shows "container_name p (docker_name r n) = container_name q (docker_name r' m) \<longleftrightarrow>
    p = q \<and> (as_service n \<and> as_service m \<or> n = m \<and> (n = Properties \<longrightarrow> r = r'))"
  using container_name_inj [OF assms(1,2)] docker_name_eq [OF assms(3,4), of r r'] by metis

text \<open>Different procedures call different functions of a script.\<close>

lemma js_function_name_inj: "js_function_name n = Some f \<Longrightarrow> js_function_name m = Some f \<Longrightarrow> n = m"
proof -
  have suffixes: "i @ ''/check'' \<noteq> j @ ''/autoConfigure''" for i j :: string
  proof
    assume "i @ ''/check'' = j @ ''/autoConfigure''"
    then have "last (i @ ''/check'') = last (j @ ''/autoConfigure'')" by (rule arg_cong)
    then show False by simp
  qed
  show "js_function_name n = Some f \<Longrightarrow> js_function_name m = Some f \<Longrightarrow> n = m"
    using suffixes suffixes [symmetric] by (cases n; cases m) auto
qed

text \<open>Taking the name apart again gives the name of the procedure with the domain still attached to it.\<close>

lemma uncontainer_container:
  assumes "valid_id p" and "\<forall>n. name = Some n \<longrightarrow> CHR ''.'' \<notin> set n"
  shows "uncontainer_name (container_name p name) = Some (p, map_option (\<lambda>n. n @ ''.embassy'') name)"
proof (cases name)
  case None
  then show ?thesis using valid_id_plain [OF assms(1)] assms(1)
    by (simp add: uncontainer_name_def container_name_def split_once_cut)
next
  case (Some n)
  from split_once_cut [of "CHR ''.''" "p @ CHR ''_'' # n" "''embassy''"] split_once_cut [of "CHR ''_''" p "n @ ''.embassy''"]
  show ?thesis using Some assms valid_id_plain [OF assms(1)] by (simp add: uncontainer_name_def container_name_def)
qed

section \<open>Results\<close>

lemma ring_push_value:
  "0 < rv_capacity r \<Longrightarrow> length (rv_value r) \<le> rv_capacity r \<Longrightarrow>
   rv_value (snd (ring_push x r)) = drop (Suc (length (rv_value r)) - rv_capacity r) (rv_value r @ [x])"
  "rv_capacity (snd (ring_push x r)) = rv_capacity r"
  by (auto simp: ring_push_def split: list.splits)

lemma ring_fold:
  assumes "0 < rv_capacity r" and "length (rv_value r) \<le> rv_capacity r"
  shows "rv_value (fold (\<lambda>l acc. snd (ring_push l acc)) ls r) =
    drop (length (rv_value r) + length ls - rv_capacity r) (rv_value r @ ls)"
  using assms
proof (induction ls arbitrary: r)
  case Nil
  then show ?case by simp
next
  case (Cons l ls)
  define r' where "r' = snd (ring_push l r)"
  have r': "rv_value r' = drop (Suc (length (rv_value r)) - rv_capacity r) (rv_value r @ [l])" "rv_capacity r' = rv_capacity r"
    unfolding r'_def by (rule ring_push_value(1) [OF Cons.prems], rule ring_push_value(2))
  have "rv_value (fold (\<lambda>l acc. snd (ring_push l acc)) ls r') = drop (length (rv_value r') + length ls - rv_capacity r') (rv_value r' @ ls)"
    by (rule Cons.IH) (use r' Cons.prems in auto)
  also have "\<dots> = drop (length (rv_value r) + length (l # ls) - rv_capacity r) (rv_value r @ l # ls)"
  proof (cases "length (rv_value r) = rv_capacity r")
    case True
    then obtain y ys where "rv_value r = y # ys" using Cons.prems by (cases "rv_value r") auto
    then show ?thesis using r' True by (auto simp: Suc_diff_le)
  next
    case False
    then show ?thesis using r' Cons.prems by simp
  qed
  finally show ?case by (simp add: r'_def)
qed

text \<open>Of a stream the last lines are kept.\<close>

lemma last_lines: "0 < n \<Longrightarrow> buf_reader_to_lines (Some n) (ls, None) = Ok (drop (length ls - n) ls)"
  using ring_fold [of "ring_new n" ls] by (simp add: buf_reader_to_lines_def ring_new_def)

text \<open>Without the limit nothing of the text is lost but empty lines at its start.\<close>

lemma collect_lines_all:
  "length answer + length (join_lines ls) + 1 < n \<Longrightarrow> answer \<noteq> [] \<Longrightarrow> ls \<noteq> [] \<Longrightarrow>
   collect_lines n answer False ls = (answer @ [CHR 0x0A] @ join_lines ls, False)"
proof (induction ls arbitrary: answer rule: join_lines.induct)
  case (3 l v va)
  have "collect_lines n (answer @ [CHR 0x0A] @ l) False (v # va) = ((answer @ [CHR 0x0A] @ l) @ [CHR 0x0A] @ join_lines (v # va), False)"
    by (rule "3.IH") (use "3.prems" in auto)
  then show ?case using "3.prems" by (subst collect_lines.simps) (auto simp: Let_def simp del: collect_lines.simps)
qed (auto simp: Let_def)

lemma collect_lines_start:
  "length (join_lines (dropWhile (\<lambda>l. l = []) ls)) < n \<Longrightarrow>
   collect_lines n [] False ls = (join_lines (dropWhile (\<lambda>l. l = []) ls), False)"
proof (induction ls)
  case (Cons l ls)
  show ?case
  proof (cases "l = []")
    case True
    then show ?thesis using Cons by simp
  next
    case False
    then show ?thesis using Cons.prems collect_lines_all [of l ls n] by (cases ls) (auto simp: Let_def)
  qed
qed simp

lemma max_by_lines_small:
  assumes "length (join_lines (dropWhile (\<lambda>l. l = []) ls)) < 10000000"
  shows "max_by_lines None (ls, None) = MaxDone (join_lines (dropWhile (\<lambda>l. l = []) ls))"
  using collect_lines_start [OF assms] by (simp add: max_by_lines_def)

text \<open>What a procedure means to return for the lines it writes.\<close>

definition output_value :: "'w docker_host \<Rightarrow> io_format option \<Rightarrow> string list \<Rightarrow> json" where
  "output_value host fmt ls =
     (case fmt of
        Some f \<Rightarrow> let text = join_lines (dropWhile (\<lambda>l. l = []) ls) in
          (case dh_parse host f text of Some v \<Rightarrow> v | None \<Rightarrow> JString text)
      | None \<Rightarrow> if ls = [] then JNull else JString (join_lines (drop (length ls - 1000) ls)))"

lemma read_output_value:
  "length (join_lines (dropWhile (\<lambda>l. l = []) ls)) < 10000000 \<Longrightarrow> read_output host fmt (ls, None) = Ok (output_value host fmt ls)"
proof -
  have "length ls \<le> length ls - 1000 \<longleftrightarrow> ls = []" by (cases ls) auto
  then show "length (join_lines (dropWhile (\<lambda>l. l = []) ls)) < 10000000 \<Longrightarrow> ?thesis"
    by (cases fmt) (auto simp: read_output_def output_value_def max_by_lines_small last_lines Let_def)
qed

text \<open>A process that ends in time.\<close>

definition ends_in_time :: "process \<Rightarrow> nat option \<Rightarrow> bool" where
  "ends_in_time pr limit \<longleftrightarrow> (case pr_end pr of None \<Rightarrow> False | Some t \<Rightarrow> (case limit of None \<Rightarrow> True | Some l \<Rightarrow> t < l \<or> t = l \<and> pr_first pr))"

lemma wait_process_late: "\<not> ends_in_time pr (Some l) \<Longrightarrow> pr_kill pr = Ok u \<Longrightarrow>
  wait_process host decode fmt (Some l) pr = Ok (Inl (143, ''Timed out. Retrying soon...''))"
  by (auto simp: wait_process_def ends_in_time_def split: option.splits)

lemma wait_process_ends: "ends_in_time pr limit \<Longrightarrow> wait_process host decode fmt limit pr = exit_result host decode fmt pr"
  by (auto simp: wait_process_def ends_in_time_def split: option.splits)

text \<open>
  C37. The result of a procedure that is started and fed with its input: a process that ends in time with status 0, or 143 as after a request to
  stop, gives the value it wrote, whole as long as it stays under ten megabytes; one that ends with another status gives this status and
  the last thousand lines of its errors; one that does not end in time is killed and gives the code 143 and a text of its own.
\<close>

theorem procedure_result:
  assumes "input_buf host p input = Ok buf" and "dh_spawn host argv buf w = (Ok pr, w')" and "pr_stdin pr = Ok ()"
    and "pr_status pr = Ok status" and "pr_kill pr = Ok ()"
    and "pr_stdout pr = (out, None)" and "pr_stderr pr = (err, None)"
    and "length (join_lines (dropWhile (\<lambda>l. l = []) out)) < 10000000"
    and "ends_in_time pr limit \<or> limit = Some l"
  shows "run_docker host decode p argv input limit w =
    (if ends_in_time pr limit
     then if status = Some 0 \<or> status = Some 143 then rmap Inr (decode (output_value host (dp_io_format p) out))
          else Ok (Inl (case status of Some c \<Rightarrow> c | None \<Rightarrow> 0, join_lines (drop (length err - 1000) err)))
     else Ok (Inl (143, ''Timed out. Retrying soon...'')), w')"
proof -
  have "exit_result host decode (dp_io_format p) pr =
    (if status = Some 0 \<or> status = Some 143 then rmap Inr (decode (output_value host (dp_io_format p) out))
     else Ok (Inl (case status of Some c \<Rightarrow> c | None \<Rightarrow> 0, join_lines (drop (length err - 1000) err))))"
    using assms(4,6,7) read_output_value [OF assms(8), of host] by (simp add: exit_result_def last_lines)
  moreover have "run_docker host decode p argv input limit w = (wait_process host decode (dp_io_format p) limit pr, w')"
    using assms(1-3) by (simp add: run_docker_def st_eval)
  ultimately show ?thesis
    using assms(5,9) wait_process_ends [of pr limit host decode] wait_process_late [of pr l] by auto
qed

section \<open>The sandbox\<close>

text \<open>
  Calls of docker that start a container without network, whose options are mounts that can only be read, devices and the size of
  the shared memory; after them come the command and the image.
\<close>

fun sandbox_options :: "string list \<Rightarrow> bool" where
  "sandbox_options (a # v # as) =
     (if a = ''--interactive''
      then v = ''--log-driver=journald'' \<and> (case as of e # _ # img # _ \<Rightarrow> e = ''--entrypoint'' \<and> take 7 img = ''start9/'' | _ \<Rightarrow> False)
      else (a = ''--mount'' \<and> drop (length v - 9) v = '',readonly'' \<or> a = ''--shm-size'' \<or> a = ''--device'') \<and> sandbox_options as)"
| "sandbox_options _ = False"

definition sandbox_argv :: "string list \<Rightarrow> bool" where
  "sandbox_argv argv \<longleftrightarrow> take 3 argv = [''run'', ''--rm'', ''--network=none''] \<and> sandbox_options (drop 3 argv)"

lemma readonly_option: "drop (length (x @ '',readonly'') - 9) (x @ '',readonly'') = '',readonly''"
  by simp

lemma mount_step_readonly:
  assumes "mount_step host pkg ver (to_readonly volumes) m acc w = (Ok ms, w')"
    and "list_all (\<lambda>m. drop (length m - 9) m = '',readonly'') acc"
  shows "list_all (\<lambda>m. drop (length m - 9) m = '',readonly'') ms"
proof (cases "bt_get (to_readonly volumes) (fst m)")
  case None
  then show ?thesis using assms by (simp add: mount_step_def st_eval)
next
  case (Some v)
  then have "volume_readonly v" by (auto intro: to_readonly_readonly dest: bt_get_SomeD)
  then obtain x where "ms = acc @ [x @ '',readonly'']"
    using assms(1) Some by (auto simp: mount_step_def mount_option_def Let_def st_bind_eq_Ok st_simps)
  then show ?thesis using assms(2) readonly_option [of x] by (simp del: length_append drop_append)
qed

lemma mount_args_readonly:
  assumes "mount_args host pkg ver (to_readonly volumes) mounts w = (Ok ms, w')"
  shows "list_all (\<lambda>m. drop (length m - 9) m = '',readonly'') ms"
proof -
  have "list_all (\<lambda>m. drop (length m - 9) m = '',readonly'') ms"
    if "st_fold (mount_step host pkg ver (to_readonly volumes)) mounts acc w = (Ok ms, w')"
      and "list_all (\<lambda>m. drop (length m - 9) m = '',readonly'') acc" for acc
    using that
  proof (induction mounts arbitrary: acc w)
    case Nil
    then show ?case by (simp add: st_eval)
  next
    case (Cons m mounts)
    then obtain b u where "mount_step host pkg ver (to_readonly volumes) m acc w = (Ok b, u)"
      and "st_fold (mount_step host pkg ver (to_readonly volumes)) mounts b u = (Ok ms, w')" by (auto simp: st_bind_eq_Ok)
    from Cons.IH [OF this(2) mount_step_readonly [OF this(1) Cons.prems(2)]] show ?case .
  qed
  then show ?thesis using assms by (simp add: mount_args_def)
qed

lemma sandbox_options_mounts:
  "list_all (\<lambda>m. drop (length m - 9) m = '',readonly'') ms \<Longrightarrow>
   sandbox_options (concat (map (\<lambda>m. [''--mount'', m]) ms) @ rest) = sandbox_options rest"
  by (induction ms) auto

lemma sandbox_options_devices: "sandbox_options (concat (map (\<lambda>d. [''--device'', d]) ds) @ rest) = sandbox_options rest"
  by (induction ds) auto

lemma sandbox_options_shm: "sandbox_options (shm_args mb @ rest) = sandbox_options rest"
  by (cases mb) (auto simp: shm_args_def)

lemma docker_args_sandbox:
  assumes "docker_args host pkg ver (to_readonly volumes) p w = (Ok args, w')"
  shows "sandbox_argv ([''run'', ''--rm'', ''--network=none''] @ args)"
proof -
  obtain ms ds where ms: "list_all (\<lambda>m. drop (length m - 9) m = '',readonly'') ms"
    and args: "args = concat (map (\<lambda>m. [''--mount'', m]) ms) @ shm_args (dp_shm_size_mb p) @ concat (map (\<lambda>d. [''--device'', d]) ds) @
        [''--interactive'', ''--log-driver=journald'', ''--entrypoint'', dp_entrypoint p,
         if dp_system p then image_for_package (dp_image p) ''x_system'' None else image_for_package (dp_image p) pkg (Some ver)] @
        dp_args p"
    using assms mount_args_readonly by (force simp: docker_args_def st_bind_eq_Ok st_simps)
  have "take 7 (image_for_package i q v) = ''start9/''" for i q v by (simp add: image_for_package_def)
  then show ?thesis unfolding args sandbox_argv_def
    by (simp add: sandbox_options_mounts [OF ms] sandbox_options_devices sandbox_options_shm)
qed

text \<open>Only starting a container asks the host to start one.\<close>

lemma host_fields:
  "dh_datadir (host\<lparr>dh_spawn := s\<rparr>) = dh_datadir host" "dh_exists (host\<lparr>dh_spawn := s\<rparr>) = dh_exists host"
  "dh_mkdir (host\<lparr>dh_spawn := s\<rparr>) = dh_mkdir host" "dh_dri (host\<lparr>dh_spawn := s\<rparr>) = dh_dri host"
  "dh_parse (host\<lparr>dh_spawn := s\<rparr>) = dh_parse host" "dh_print (host\<lparr>dh_spawn := s\<rparr>) = dh_print host"
  by simp_all

lemma mount_args_spawn: "mount_args (host\<lparr>dh_spawn := s\<rparr>) = mount_args host"
proof -
  have "mount_step (host\<lparr>dh_spawn := s\<rparr>) pkg ver volumes m acc = mount_step host pkg ver volumes m acc" for pkg ver volumes m acc
    unfolding mount_step_def host_fields ..
  then have "mount_step (host\<lparr>dh_spawn := s\<rparr>) = mount_step host" by (simp add: fun_eq_iff)
  then show ?thesis by (intro ext) (simp only: mount_args_def)
qed

lemma docker_args_spawn: "docker_args (host\<lparr>dh_spawn := s\<rparr>) pkg ver volumes p = docker_args host pkg ver volumes p"
  unfolding docker_args_def mount_args_spawn host_fields ..

lemma wait_process_spawn: "wait_process (host\<lparr>dh_spawn := s\<rparr>) decode fmt limit pr = wait_process host decode fmt limit pr"
proof -
  have out: "read_output (host\<lparr>dh_spawn := s\<rparr>) fmt ls = read_output host fmt ls" for ls
    unfolding read_output_def host_fields ..
  have exit: "exit_result (host\<lparr>dh_spawn := s\<rparr>) decode fmt pr = exit_result host decode fmt pr" unfolding exit_result_def out ..
  show ?thesis unfolding wait_process_def exit ..
qed

lemma input_buf_spawn: "input_buf (host\<lparr>dh_spawn := s\<rparr>) p input = input_buf host p input"
  unfolding input_buf_def host_fields ..

text \<open>
  C36. The checks and the automatic configurations that a package has for its dependencies run in a sandbox. Whatever a package asks for, its procedure starts no
  other containers there than ones without network whose volumes can only be read: the result does not depend on what docker does on other
  calls. Nor does it depend on the time limit.
\<close>

theorem sandboxed_isolated:
  assumes "\<forall>argv inp w. sandbox_argv argv \<longrightarrow> s argv inp w = dh_spawn host argv inp w"
  shows "sandboxed (host\<lparr>dh_spawn := s\<rparr>) decode pkg ver volumes p input limit = sandboxed host decode pkg ver volumes p input limit'"
proof
  fix w
  show "sandboxed (host\<lparr>dh_spawn := s\<rparr>) decode pkg ver volumes p input limit w = sandboxed host decode pkg ver volumes p input limit' w"
  proof (cases "docker_args host pkg ver (to_readonly volumes) p w")
    case (Pair r w')
    show ?thesis
    proof (cases r)
      case (Ok args)
      have "s ([''run'', ''--rm'', ''--network=none''] @ args) = dh_spawn host ([''run'', ''--rm'', ''--network=none''] @ args)"
        using assms docker_args_sandbox [OF Pair [unfolded Ok]] by (intro ext) blast
      then have "run_docker (host\<lparr>dh_spawn := s\<rparr>) decode p ([''run'', ''--rm'', ''--network=none''] @ args) input None =
        run_docker host decode p ([''run'', ''--rm'', ''--network=none''] @ args) input None"
        unfolding run_docker_def input_buf_spawn wait_process_spawn by simp
      then show ?thesis using Pair Ok by (simp add: sandboxed_def docker_args_spawn)
    qed (use Pair in \<open>simp_all add: sandboxed_def docker_args_spawn\<close>)
  qed
qed

section \<open>Witnesses\<close>

text \<open>A host without packages whose processes print their arguments and end at time 3 with status 7.\<close>

definition sample_docker :: "unit docker_host" where
  "sample_docker =
     \<lparr>dh_datadir = [''data''], dh_remove = \<lambda>_ w. (Ok (), w), dh_exists = \<lambda>_ _. True, dh_mkdir = \<lambda>_ w. (Ok (), w), dh_rmdir = \<lambda>_ w. (Ok (), w),
      dh_inspect = \<lambda>_ w. (Ok ''aarch64'', w), dh_dri = \<lambda>_. Ok [],
      dh_spawn = \<lambda>argv _ w. (Ok \<lparr>pr_stdin = Ok (), pr_end = Some 3, pr_first = True, pr_status = Ok (Some 7), pr_stdout = (argv, None), pr_stderr = ([''bad'', ''input''], None), pr_kill = Ok ()\<rparr>, w),
      dh_print = \<lambda>_ _. Ok '''', dh_parse = \<lambda>_ _. None\<rparr>"

definition sample_procedure :: docker_procedure where
  "sample_procedure =
     \<lparr>dp_image = ''main'', dp_system = False, dp_entrypoint = ''check'', dp_args = [''a''], dp_inject = False, dp_mounts = [(''main'', ''/root'')],
      dp_io_format = None, dp_sigterm_timeout = None, dp_shm_size_mb = None, dp_gpu_acceleration = False\<rparr>"

theorem container_names_unique_witness:
  "container_name ''btc'' (docker_name ''1'' Properties) \<noteq> container_name ''btc'' (docker_name ''2'' Properties) \<and>
   container_name ''btc'' (docker_name ''1'' (Health ''rpc'')) \<noteq> container_name ''btc'' (docker_name ''2'' PMain) \<and>
   container_name ''btc'' (docker_name ''1'' (Check ''tor'')) = container_name ''btc'' (docker_name ''2'' PMain)"
proof -
  have v: "valid_id ''btc''" "ids_ok Properties" "ids_ok (Health ''rpc'')" "ids_ok (Check ''tor'')" "ids_ok PMain" by code_simp+
  show ?thesis
    using container_names_unique [OF v(1,1,2,2), of "''1''" "''2''"] container_names_unique [OF v(1,1,3,5), of "''1''" "''2''"]
      container_names_unique [OF v(1,1,4,5), of "''1''" "''2''"] by simp
qed

theorem procedure_result_witness:
  "run_docker sample_docker (\<lambda>v. Ok v) sample_procedure [''run''] None (Some 5) () = (Ok (Inl (7, ''bad'' @ [CHR 0x0A] @ ''input'')), ()) \<and>
   run_docker sample_docker (\<lambda>v. Ok v) sample_procedure [''run''] None (Some 2) () = (Ok (Inl (143, ''Timed out. Retrying soon...'')), ())"
proof
  show "run_docker sample_docker (\<lambda>v. Ok v) sample_procedure [''run''] None (Some 5) () = (Ok (Inl (7, ''bad'' @ [CHR 0x0A] @ ''input'')), ())"
    by (subst procedure_result [where buf = None and l = 5])
      (auto simp: sample_docker_def sample_procedure_def input_buf_def ends_in_time_def)
  show "run_docker sample_docker (\<lambda>v. Ok v) sample_procedure [''run''] None (Some 2) () = (Ok (Inl (143, ''Timed out. Retrying soon...'')), ())"
    by (subst procedure_result [where buf = None and l = 2])
      (auto simp: sample_docker_def sample_procedure_def input_buf_def ends_in_time_def)
qed

theorem sandboxed_isolated_witness:
  "sandboxed (sample_docker\<lparr>dh_spawn := \<lambda>argv inp w. if sandbox_argv argv then dh_spawn sample_docker argv inp w else (Panic, w)\<rparr>) (\<lambda>v. Ok v)
     ''btc'' ''1'' [(''main'', VData False)] sample_procedure None None () = (Ok (Inl (7, ''bad'' @ [CHR 0x0A] @ ''input'')), ())"
proof -
  have "sandboxed sample_docker (\<lambda>v. Ok v) ''btc'' ''1'' [(''main'', VData False)] sample_procedure None (Some 0) () =
    (Ok (Inl (7, ''bad'' @ [CHR 0x0A] @ ''input'')), ())" by code_simp
  then show ?thesis by (subst sandboxed_isolated [where limit' = "Some 0"]) auto
qed

end
