(* ===== verification/Io_Readers.thy ===== *)
theory Io_Readers
  imports State_Res Config_Types
begin

text \<open>
  Readers (\<^verbatim>\<open>util/io.rs\<close>): the reader that can go back, by which the virtual hosts look at the beginning of a connection.
\<close>

section \<open>Going back\<close>

text \<open>What a connection will do: keep the reader waiting, give bytes, fail. At its end it gives no more bytes.\<close>

datatype event = Wait | Piece "nat list" | Fail string

datatype poll = Pending | Ready "(string, nat list) res"

text \<open>\<open>poll_read\<close> of the connection into a buffer with room for \<open>n\<close> bytes.\<close>

fun conn_read :: "nat \<Rightarrow> event list \<Rightarrow> poll \<times> event list" where
  "conn_read n [] = (Ready (Ok []), [])"
| "conn_read n (Wait # es) = (Pending, es)"
| "conn_read n (Fail e # es) = (Ready (Err e), es)"
| "conn_read n (Piece bs # es) =
     (if length bs \<le> n then (Ready (Ok bs), es) else (Ready (Ok (take n bs)), Piece (drop n bs) # es))"

record back_tracking_reader =
  br_reader :: "event list"
  br_buffer :: "nat list"
  br_position :: nat
  br_buffering :: bool

definition br_new :: "event list \<Rightarrow> back_tracking_reader" where
  "br_new r = \<lparr>br_reader = r, br_buffer = [], br_position = 0, br_buffering = False\<rparr>"

definition start_buffering :: "back_tracking_reader \<Rightarrow> back_tracking_reader" where
  "start_buffering b = b\<lparr>br_buffer := [], br_position := 0, br_buffering := True\<rparr>"

definition stop_buffering :: "back_tracking_reader \<Rightarrow> back_tracking_reader" where
  "stop_buffering b = b\<lparr>br_buffer := [], br_position := 0, br_buffering := False\<rparr>"

definition rewind :: "back_tracking_reader \<Rightarrow> back_tracking_reader" where
  "rewind b = b\<lparr>br_buffering := False\<rparr>"

text \<open>\<open>CursorExt::pure_read\<close>: the bytes and the new position.\<close>

definition pure_read :: "nat \<Rightarrow> back_tracking_reader \<Rightarrow> nat list \<times> back_tracking_reader" where
  "pure_read n b =
     (let stop = br_position b + min n (length (br_buffer b) - br_position b) in
      (take (stop - br_position b) (drop (br_position b) (br_buffer b)), b\<lparr>br_position := stop\<rparr>))"

text \<open>What the caller gets; on an error it does not look at its buffer.\<close>

definition br_read :: "nat \<Rightarrow> back_tracking_reader \<Rightarrow> poll \<times> back_tracking_reader" where
  "br_read n b =
     (if br_buffering b then
        (case conn_read n (br_reader b) of (p, es) \<Rightarrow>
          (p, b\<lparr>br_reader := es, br_buffer := br_buffer b @ (case p of Ready (Ok bs) \<Rightarrow> bs | _ \<Rightarrow> [])\<rparr>))
      else
        let ready = br_position b < length (br_buffer b);
            (bs, b) = (if ready then pure_read n b else ([], b))
        in if 0 < n - length bs then
             (case conn_read (n - length bs) (br_reader b) of
                (Pending, es) \<Rightarrow> (if ready then Ready (Ok bs) else Pending, b\<lparr>br_reader := es\<rparr>)
              | (Ready (Ok cs), es) \<Rightarrow> (Ready (Ok (bs @ cs)), b\<lparr>br_reader := es\<rparr>)
              | (Ready r, es) \<Rightarrow> (Ready r, b\<lparr>br_reader := es\<rparr>))
           else (Ready (Ok bs), b))"

text \<open>Several reads: all the bytes, and whether there was no error.\<close>

fun br_reads :: "nat list \<Rightarrow> back_tracking_reader \<Rightarrow> (nat list \<times> bool) \<times> back_tracking_reader" where
  "br_reads [] b = (([], True), b)"
| "br_reads (n # ns) b =
     (case br_read n b of (p, b) \<Rightarrow>
      case br_reads ns b of ((bs, ok), b) \<Rightarrow>
        (case p of Pending \<Rightarrow> ((bs, ok), b) | Ready (Ok cs) \<Rightarrow> ((cs @ bs, ok), b) | Ready _ \<Rightarrow> ((bs, False), b)))"

text \<open>What a connection has in store, up to its first failure.\<close>

fun content :: "event list \<Rightarrow> nat list" where
  "content [] = []"
| "content (Wait # es) = content es"
| "content (Piece bs # es) = bs @ content es"
| "content (Fail e # es) = []"

lemma conn_read_content:
  "conn_read n es = (p, es') \<Longrightarrow> (case p of Pending \<Rightarrow> content es = content es' | Ready (Ok bs) \<Rightarrow> content es = bs @ content es' \<and> length bs \<le> n
    | Ready _ \<Rightarrow> True)"
  by (cases "(n, es)" rule: conn_read.cases) (auto split: if_splits)

text \<open>The bytes that are still to come, and those that can be read again.\<close>

definition to_come :: "back_tracking_reader \<Rightarrow> nat list" where
  "to_come b = (if br_buffering b then [] else drop (br_position b) (br_buffer b)) @ content (br_reader b)"

lemma pure_read_parts:
  assumes "br_position b < length (br_buffer b)" and "pure_read n b = (bs, b')"
  shows "drop (br_position b) (br_buffer b) = bs @ drop (br_position b') (br_buffer b')" and "length bs \<le> n"
    and "br_reader b' = br_reader b" and "br_buffering b' = br_buffering b"
    and "length bs < n \<Longrightarrow> drop (br_position b') (br_buffer b') = []"
proof -
  define k where "k = min n (length (br_buffer b) - br_position b)"
  have "bs = take k (drop (br_position b) (br_buffer b))" "b' = b\<lparr>br_position := br_position b + k\<rparr>"
    using assms(2) by (auto simp: pure_read_def Let_def k_def)
  moreover have "drop (br_position b + k) (br_buffer b) = drop k (drop (br_position b) (br_buffer b))" by (simp add: add.commute)
  ultimately show "drop (br_position b) (br_buffer b) = bs @ drop (br_position b') (br_buffer b')" and "length bs \<le> n"
    and "br_reader b' = br_reader b" and "br_buffering b' = br_buffering b"
    and "length bs < n \<Longrightarrow> drop (br_position b') (br_buffer b') = []"
    by (simp_all del: drop_drop) (auto simp: k_def min_def split: if_splits)
qed

lemma replay_read:
  assumes "\<not> br_buffering b" and "br_read n b = (p, b')"
  shows "\<not> br_buffering b' \<and> (case p of Pending \<Rightarrow> to_come b' = to_come b | Ready (Ok bs) \<Rightarrow> to_come b = bs @ to_come b' | Ready _ \<Rightarrow> True)"
proof -
  define r where "r = (if br_position b < length (br_buffer b) then pure_read n b else ([], b))"
  obtain bs c where rc: "r = (bs, c)" by (cases r)
  have front: "drop (br_position b) (br_buffer b) = bs @ drop (br_position c) (br_buffer c)" "length bs \<le> n"
      "br_reader c = br_reader b" "\<not> br_buffering c" "length bs < n \<Longrightarrow> drop (br_position c) (br_buffer c) = []"
    using rc assms(1) pure_read_parts [of b n bs c] by (auto simp: r_def split: if_splits)
  have ready: "\<not> br_position b < length (br_buffer b) \<Longrightarrow> bs = []" using rc by (simp add: r_def)
  obtain q es where i: "conn_read (n - length bs) (br_reader b) = (q, es)" by fastforce
  have step: "br_read n b =
      (if 0 < n - length bs then
         (case q of
            Pending \<Rightarrow> (if br_position b < length (br_buffer b) then Ready (Ok bs) else Pending, c\<lparr>br_reader := es\<rparr>)
          | Ready (Ok cs) \<Rightarrow> (Ready (Ok (bs @ cs)), c\<lparr>br_reader := es\<rparr>)
          | Ready r \<Rightarrow> (Ready r, c\<lparr>br_reader := es\<rparr>))
       else (Ready (Ok bs), c))"
    using assms(1) rc i front(3) by (simp add: br_read_def r_def [symmetric] Let_def split: poll.split res.split)
  show ?thesis
  proof (cases "0 < n - length bs")
    case True
    then have "drop (br_position c) (br_buffer c) = []" using front(5) by simp
    then show ?thesis using step assms front(1,4) ready True conn_read_content [OF i]
      by (auto simp: to_come_def split: poll.splits res.splits if_splits)
  next
    case False
    then show ?thesis using step assms front(1,3,4) by (auto simp: to_come_def)
  qed
qed

lemma replay_reads:
  "\<not> br_buffering b \<Longrightarrow> br_reads ns b = ((bs, True), b') \<Longrightarrow> to_come b = bs @ to_come b'"
proof (induction ns arbitrary: b bs)
  case (Cons n ns)
  obtain p c where p: "br_read n b = (p, c)" by fastforce
  obtain cs ok d where r: "br_reads ns c = ((cs, ok), d)" by (metis surj_pair)
  note step = replay_read [OF Cons.prems(1) p]
  show ?case using Cons.prems(2) Cons.IH [of c cs] step p r by (auto split: poll.splits res.splits)
qed simp

text \<open>While buffering, what was read is kept.\<close>

lemma buffered_read:
  assumes "br_buffering b" and "br_read n b = (p, b')"
  shows "br_buffering b' \<and> br_position b' = br_position b \<and>
    (case p of Ready (Ok bs) \<Rightarrow> br_buffer b' = br_buffer b @ bs \<and> content (br_reader b) = bs @ content (br_reader b')
     | Pending \<Rightarrow> br_buffer b' = br_buffer b \<and> content (br_reader b) = content (br_reader b') | _ \<Rightarrow> True)"
  using assms conn_read_content [of n "br_reader b"] by (auto simp: br_read_def split: prod.splits poll.splits res.splits)

lemma buffered_reads:
  "br_buffering b \<Longrightarrow> br_reads ns b = ((bs, True), b') \<Longrightarrow>
   br_position b' = br_position b \<and> br_buffer b' = br_buffer b @ bs \<and> content (br_reader b) = bs @ content (br_reader b')"
proof (induction ns arbitrary: b bs)
  case (Cons n ns)
  obtain p c where p: "br_read n b = (p, c)" by fastforce
  obtain cs ok d where r: "br_reads ns c = ((cs, ok), d)" by (metis surj_pair)
  note step = buffered_read [OF Cons.prems(1) p]
  show ?case using Cons.prems(2) Cons.IH [of c cs] step p r by (auto split: poll.splits res.splits)
qed simp

text \<open>
  C39. Looking at the beginning of a connection is without effect: what is read with buffering and then rewound is delivered again,
  followed by the rest, however the connection and the reader cut it, so that the bytes read behind the rewind are the beginning
  of what the connection sent.
\<close>

theorem rewind_replays:
  assumes "br_reads ns (start_buffering (br_new es)) = ((bs, True), b)" and "br_reads ms (rewind b) = ((cs, True), c)"
  shows "content es = bs @ content (br_reader b) \<and> content es = cs @ to_come c"
proof -
  have b: "br_position b = 0" "br_buffer b = bs" "content es = bs @ content (br_reader b)"
    using buffered_reads [OF _ assms(1)] by (simp_all add: start_buffering_def br_new_def)
  moreover have "to_come (rewind b) = cs @ to_come c"
    using replay_reads [OF _ assms(2)] by (simp add: rewind_def)
  ultimately show ?thesis by (simp add: to_come_def rewind_def)
qed

text \<open>A failure of the connection takes with it the bytes that the same read had taken from the buffer.\<close>

lemma failure_loses_replayed:
  assumes "\<not> br_buffering b" and "br_position b < length (br_buffer b)" and "length (br_buffer b) - br_position b < n"
    and "br_reader b = Fail e # es" and "br_read n b = (p, b')"
  shows "p = Ready (Err e) \<and> br_position b' = length (br_buffer b)"
  using assms by (auto simp: br_read_def pure_read_def Let_def)

theorem rewind_replays_witness:
  "\<exists>bs b cs c. br_reads [2, 2] (start_buffering (br_new [Piece [1, 2, 3], Wait, Piece [4]])) = ((bs, True), b) \<and>
     br_reads [1, 4, 4] (rewind b) = ((cs, True), c) \<and> bs = [1, 2, 3] \<and> cs = [1, 2, 3, 4] \<and>
     content [Piece [1, 2, 3], Wait, Piece [4]] = cs @ to_come c"
proof -
  let ?es = "[Piece [1, 2, 3], Wait, Piece [4]]"
  obtain b where b: "br_reads [2, 2] (start_buffering (br_new ?es)) = (([1, 2, 3], True), b)"
    and bb: "b = \<lparr>br_reader = [Wait, Piece [4]], br_buffer = [1, 2, 3], br_position = 0, br_buffering = True\<rparr>"
    by (simp add: br_read_def start_buffering_def br_new_def numeral_2_eq_2)
  obtain c where c: "br_reads [1, 4, 4] (rewind b) = (([1, 2, 3, 4], True), c)"
    by (simp add: bb rewind_def br_read_def pure_read_def Let_def eval_nat_numeral)
  show ?thesis using b c rewind_replays [OF b c] by blast
qed

end
