(* ===== verification/Durations.thy ===== *)
theory Durations
  imports Num_Range Config_Types
begin

text \<open>
  Durations as text (\<^verbatim>\<open>util/serde.rs\<close>): \<open>Duration\<close> with its parser and its printer, used by the time limits of commands and of health
  checks. A duration is its number of nanoseconds. Decimal fractions go through \<open>f64\<close> and are a parameter.
\<close>

section \<open>Parsing and printing\<close>

text \<open>\<open>char::is_alphabetic\<close>, for the code points above Latin 1 given by \<open>other\<close>.\<close>

definition is_alphabetic :: "(codepoint \<Rightarrow> bool) \<Rightarrow> codepoint \<Rightarrow> bool" where
  "is_alphabetic other c \<longleftrightarrow>
     (if c < 256
      then 65 \<le> c \<and> c \<le> 90 \<or> 97 \<le> c \<and> c \<le> 122 \<or> c = 0xAA \<or> c = 0xB5 \<or> c = 0xBA \<or> 0xC0 \<le> c \<and> c \<noteq> 0xD7 \<and> c \<noteq> 0xF7
      else other c)"

fun digits_below :: "nat \<Rightarrow> nat \<Rightarrow> utext \<Rightarrow> nat option" where
  "digits_below limit acc [] = Some acc"
| "digits_below limit acc (c # cs) =
     (if 48 \<le> c \<and> c \<le> 57 \<and> acc * 10 + (c - 48) < limit
      then digits_below limit (acc * 10 + (c - 48)) cs else None)"

text \<open>\<open>from_str\<close> of the unsigned type with \<open>w\<close> bits.\<close>

definition parse_uint :: "nat \<Rightarrow> utext \<Rightarrow> (error, nat) res" where
  "parse_uint w s =
     (let ds = (if s \<noteq> [] \<and> hd s = 43 then tl s else s) in
      ok_or (if ds = [] then None else digits_below (2 ^ w) 0 ds) (Error ParseNumber (Msg ''invalid digit'')))"

definition units_d :: utext where "units_d = [100]"
definition units_h :: utext where "units_h = [104]"
definition units_m :: utext where "units_m = [109]"
definition units_s :: utext where "units_s = [115]"
definition units_ms :: utext where "units_ms = [109, 115]"
definition units_us :: utext where "units_us = [117, 115]"
definition units_mus :: utext where "units_mus = [0xB5, 115]"
definition units_ns :: utext where "units_ns = [110, 115]"

lemmas units_defs = units_d_def units_h_def units_m_def units_s_def units_ms_def units_us_def units_mus_def units_ns_def

text \<open>\<open>from_secs\<close> and \<open>new\<close>, as nanoseconds. The product with the length of the unit wraps around.\<close>

definition from_secs :: "nat \<Rightarrow> nat" where
  "from_secs n = n * 10 ^ 9"

definition whole_units :: "nat \<Rightarrow> utext \<Rightarrow> (error, nat) res" where
  "whole_units k num = rmap (\<lambda>n. from_secs (n * k mod 2 ^ 64)) (parse_uint 64 num)"

text \<open>The part below a second is the remainder of the number by \<open>k\<close>, taken as nanoseconds.\<close>

definition parts_of_second :: "nat \<Rightarrow> utext \<Rightarrow> (error, nat) res" where
  "parts_of_second k num =
     rmap (\<lambda>n. from_secs (n div k mod 2 ^ 64) + n mod k mod 2 ^ 32) (parse_uint 128 num)"

definition duration_from_str :: "(codepoint \<Rightarrow> bool) \<Rightarrow> (utext \<Rightarrow> utext \<Rightarrow> (error, nat) res) \<Rightarrow> utext \<Rightarrow> (error, nat) res" where
  "duration_from_str other fraction s =
     (let num = takeWhile (\<lambda>c. \<not> is_alphabetic other c) s; units = dropWhile (\<lambda>c. \<not> is_alphabetic other c) s in
      if units = [] then Err (Error Deserialization (Msg ''Must specify units for duration''))
      else if units \<in> {units_d, units_h, units_m, units_s, units_ms, units_us, units_mus, units_ns} then
        if 46 \<in> set num then fraction units num
        else if units = units_d then whole_units 86400 num
        else if units = units_h then whole_units 3600 num
        else if units = units_m then whole_units 60 num
        else if units = units_s then whole_units 1 num
        else if units = units_ms then parts_of_second 1000 num
        else if units = units_ns then parts_of_second 1000000000 num
        else parts_of_second 1000000 num
      else Err (Error Deserialization (Msg ''Invalid units for duration'')))"

definition duration_display :: "nat \<Rightarrow> utext" where
  "duration_display nanos =
     (if nanos mod 86400000000000 = 0 then show_usize (nanos div 86400000000000) @ units_d
      else if nanos mod 3600000000000 = 0 then show_usize (nanos div 3600000000000) @ units_h
      else if nanos mod 60000000000 = 0 then show_usize (nanos div 60000000000) @ units_m
      else if nanos mod 1000000000 = 0 then show_usize (nanos div 1000000000) @ units_s
      else if nanos mod 1000000 = 0 then show_usize (nanos div 1000000) @ units_ms
      else if nanos mod 1000 = 0 then show_usize (nanos div 1000) @ units_mus
      else show_usize nanos @ units_ns)"

section \<open>Reading what was printed\<close>

lemma digits_below_snoc:
  "digits_below limit acc (s @ [c]) =
     Option.bind (digits_below limit acc s)
       (\<lambda>a. if 48 \<le> c \<and> c \<le> 57 \<and> a * 10 + (c - 48) < limit then Some (a * 10 + (c - 48)) else None)"
  by (induction s arbitrary: acc) auto

lemma digits_below_show: "n < limit \<Longrightarrow> digits_below limit 0 (show_usize n) = Some n"
proof (induction n rule: less_induct)
  case (less n)
  show ?case
  proof (cases "n < 10")
    case False
    then have "digits_below limit 0 (show_usize (n div 10)) = Some (n div 10)" using less by (simp add: less.IH)
    then show ?thesis using False less.prems by (subst show_usize.simps) (simp add: digits_below_snoc)
  qed (use less.prems in \<open>simp add: show_usize.simps\<close>)
qed

lemma parse_uint_show: "n < 2 ^ w \<Longrightarrow> parse_uint w (show_usize n) = Ok n"
  using digits_below_show [of n "2 ^ w"] show_usize_digits [of "hd (show_usize n)" n]
  by (simp add: parse_uint_def Let_def)

lemma split_units:
  assumes "units \<in> {units_d, units_h, units_m, units_s, units_ms, units_us, units_mus, units_ns}"
  shows "takeWhile (\<lambda>c. \<not> is_alphabetic other c) (show_usize n @ units) = show_usize n"
    and "dropWhile (\<lambda>c. \<not> is_alphabetic other c) (show_usize n @ units) = units"
    and "46 \<notin> set (show_usize n)"
proof -
  have "\<forall>c\<in>set (show_usize n). \<not> is_alphabetic other c" by (auto simp: is_alphabetic_def dest!: show_usize_digits)
  moreover have "units \<noteq> []" "is_alphabetic other (hd units)" using assms by (auto simp: units_defs is_alphabetic_def)
  ultimately show "takeWhile (\<lambda>c. \<not> is_alphabetic other c) (show_usize n @ units) = show_usize n"
    and "dropWhile (\<lambda>c. \<not> is_alphabetic other c) (show_usize n @ units) = units"
    by (auto simp: neq_Nil_conv)
  show "46 \<notin> set (show_usize n)" by (auto dest: show_usize_digits)
qed

lemma from_str_printed:
  assumes "units \<in> {units_d, units_h, units_m, units_s, units_ms, units_us, units_mus, units_ns}"
  shows "duration_from_str other fraction (show_usize n @ units) =
    (if units = units_d then whole_units 86400 (show_usize n)
     else if units = units_h then whole_units 3600 (show_usize n)
     else if units = units_m then whole_units 60 (show_usize n)
     else if units = units_s then whole_units 1 (show_usize n)
     else if units = units_ms then parts_of_second 1000 (show_usize n)
     else if units = units_ns then parts_of_second 1000000000 (show_usize n)
     else parts_of_second 1000000 (show_usize n))"
proof -
  have "units \<noteq> []" using assms by (auto simp: units_defs)
  then show ?thesis using assms split_units(3) [OF assms, of n]
    unfolding duration_from_str_def Let_def split_units(1,2) [OF assms] by (simp only: if_True if_False)
qed

lemma whole_units_show: "n * k < 2 ^ 64 \<Longrightarrow> 0 < k \<Longrightarrow> whole_units k (show_usize n) = Ok (n * k * 10 ^ 9)"
proof -
  assume a: "n * k < 2 ^ 64" "0 < k"
  then have "n \<le> n * k" by simp
  then have "n < 2 ^ 64" using a(1) by (rule le_less_trans)
  then show ?thesis using a by (simp add: whole_units_def from_secs_def parse_uint_show)
qed

lemma parts_show:
  assumes "n < 2 ^ 64 * k" and "0 < k" and "k \<le> 10 ^ 9"
  shows "parts_of_second k (show_usize n) = Ok (n div k * 10 ^ 9 + n mod k)"
proof -
  have "n < 2 ^ 64 * 10 ^ 9" using assms by (meson le_trans less_le_trans mult_le_mono2)
  then have "n < 2 ^ 128" by simp
  moreover have "n div k < 2 ^ 64" using assms(1,2) by (simp add: div_less_iff_less_mult)
  moreover have "n mod k < 2 ^ 32" using mod_less_divisor [OF assms(2), of n] assms(3) by simp
  ultimately show ?thesis by (simp add: parts_of_second_def from_secs_def parse_uint_show)
qed

text \<open>
  C40. What is read for a printed duration: whole seconds and odd nanoseconds come back as they were, but what is printed in milliseconds
  or microseconds loses its scale: the part below a second is read as that many nanoseconds, so that 1500ms is one second and
  500 nanoseconds.
\<close>

theorem duration_reread:
  assumes "n < 2 ^ 64 * 10 ^ 9"
  shows "duration_from_str other fraction (duration_display n) =
    Ok (if n mod 10 ^ 9 = 0 \<or> n mod 1000 \<noteq> 0 then n
        else if n mod 10 ^ 6 = 0 then n div 10 ^ 9 * 10 ^ 9 + n div 10 ^ 6 mod 1000
        else n div 10 ^ 9 * 10 ^ 9 + n div 1000 mod 10 ^ 6)"
proof -
  have scaled: "whole_units k (show_usize (n div (k * 10 ^ 9))) = Ok n" if "n mod (k * 10 ^ 9) = 0" "0 < k" for k
  proof -
    have eq: "n div (k * 10 ^ 9) * k * 10 ^ 9 = n" using that(1) by (metis mult.assoc div_mod_decomp add.right_neutral)
    then have "n div (k * 10 ^ 9) * k < 2 ^ 64" using assms by (metis mult_less_cancel2)
    then show ?thesis using whole_units_show that(2) eq by metis
  qed
  have units: "n mod 1000000000 = 0" if "n mod 86400000000000 = 0 \<or> n mod 3600000000000 = 0 \<or> n mod 60000000000 = 0"
    using that mod_mod_cancel [of 1000000000 86400000000000 n] mod_mod_cancel [of 1000000000 3600000000000 n]
      mod_mod_cancel [of 1000000000 60000000000 n] by auto
  have thousand: "n mod 1000 = 0" if "n mod 1000000 = 0" using that mod_mod_cancel [of 1000 1000000 n] by simp
  consider (whole) "n mod 1000000000 = 0"
    | (millis) "n mod 1000000000 \<noteq> 0" "n mod 1000000 = 0" "n mod 1000 = 0"
    | (micros) "n mod 1000000000 \<noteq> 0" "n mod 1000000 \<noteq> 0" "n mod 1000 = 0"
    | (nanos) "n mod 1000000000 \<noteq> 0" "n mod 1000000 \<noteq> 0" "n mod 1000 \<noteq> 0"
    using thousand by metis
  then show ?thesis
  proof cases
    case whole
    then show ?thesis using scaled [of 86400] scaled [of 3600]
        scaled [of 60] scaled [of 1]
      by (simp add: duration_display_def from_str_printed units_defs)
  next
    case millis
    then have "duration_display n = show_usize (n div 1000000) @ units_ms" using units by (auto simp: duration_display_def)
    moreover have "n div 1000000 < 2 ^ 64 * 1000" using assms by (simp add: div_less_iff_less_mult)
    ultimately show ?thesis using millis parts_show [of "n div 1000000" 1000]
      by (simp add: from_str_printed) (simp add: units_defs div_mult2_eq [symmetric])
  next
    case micros
    then have "duration_display n = show_usize (n div 1000) @ units_mus" using units by (auto simp: duration_display_def)
    moreover have "n div 1000 < 2 ^ 64 * 1000000" using assms by (simp add: div_less_iff_less_mult)
    ultimately show ?thesis using micros parts_show [of "n div 1000" 1000000]
      by (simp add: from_str_printed) (simp add: units_defs div_mult2_eq [symmetric])
  next
    case nanos
    then have "duration_display n = show_usize n @ units_ns" using units by (auto simp: duration_display_def)
    then show ?thesis using nanos assms parts_show [of n 1000000000]
      by (simp add: from_str_printed) (simp add: units_defs)
  qed
qed

theorem duration_reread_witness:
  "duration_from_str (\<lambda>_. False) (\<lambda>_ _. Panic) (duration_display 1500000000) = Ok 1000000500 \<and>
   duration_from_str (\<lambda>_. False) (\<lambda>_ _. Panic) (duration_display 7200000000000) = Ok 7200000000000"
  using duration_reread [of 1500000000 "\<lambda>_. False" "\<lambda>_ _. Panic"] duration_reread [of 7200000000000 "\<lambda>_. False" "\<lambda>_ _. Panic"]
  by simp

end
