(* ===== verification/Spec2Isabelle.thy ===== *)
theory Spec2Isabelle
  imports Configure_Dry Rule_Laws Lan_Ports Boot S9pk_Archive Manager Net_Service Versions Http_Reader Backup_Bulk Auth Mounts Docker_Procedure Io_Readers Durations
begin

text \<open>
  StartOS: configuration, dependencies and the life cycle of packages.

  \<^bold>\<open>The program.\<close> The backend (\<^verbatim>\<open>src/backend/src\<close>) runs packages, each described by a manifest, as services on a
  server. A package has a configuration that must match a spec the package itself provides, it depends on other packages,
  and the database records for every package its stage, its status, which packages it currently depends on, which depend
  on it, and an error for every dependency that is not in order. Commands (configure, start, stop, install, remove) and
  background tasks (health checks, the tasks that install and remove) change these data in transactions. What one package
  does reaches its dependents: errors spread along the lists of dependents and are healed along them, a new configuration
  is checked against what the dependents require, and pointers in configurations are filled in from other packages. The
  container image \<^verbatim>\<open>src/system-images/compat\<close> evaluates rules by which older packages check and adapt the
  configurations of their dependencies.

  \<^bold>\<open>How the code is modelled.\<close> A fallible function returns \<open>Ok\<close>, \<open>Err\<close>, \<open>Panic\<close> or \<open>Diverge\<close> (\<open>Prelude\<close>); one
  that works on the database takes and returns a state (\<open>State_Res\<close>), which comes back on every outcome because Rust
  keeps what was written before an early return. The state \<open>sys\<close> holds the package data, the maps of breakages and
  configuration overrides that the functions pass along, and an outside world of any type, on which procedures of
  packages, the secret store, containers and files act. These are fields of the records \<open>ctx_ops\<close> and \<open>host\<close>, arguments
  of the definitions that use them; regular expressions, version ranges, JSON paths and floating point arithmetic are
  arguments as well. A \<^verbatim>\<open>BTreeMap\<close> is a sorted association list, an \<^verbatim>\<open>IndexMap\<close> one in order of insertion with swap
  removal, ports are 16 bit words.

  \<^bold>\<open>Theories, in the order of their imports.\<close>

  \<^item> \<open>Prelude\<close>, \<open>Json\<close>, \<open>State_Res\<close>, \<open>Errors\<close>: outcomes, maps, JSON values and their equality, computations with state
    and the rules by which they keep a relation (\<open>state_rel\<close>) or end (\<open>tame\<close>); the kinds of errors
    (\<^verbatim>\<open>libs/models/src/errors.rs\<close>).
  \<^item> \<open>Char_Set\<close>, \<open>Num_Range\<close> (\<^verbatim>\<open>config/util.rs\<close>): character sets and number ranges with their parsers and printers; round
    trips, and that choosing a character stays in the set.
  \<^item> \<open>Config_Types\<close>, \<open>Manifest\<close>, \<open>Status\<close>, \<open>Db_Model\<close> (\<^verbatim>\<open>config/mod.rs\<close>, \<^verbatim>\<open>s9pk/manifest.rs\<close>, \<^verbatim>\<open>status\<close>, \<^verbatim>\<open>db/model.rs\<close>): the
    data; the locale \<open>receipt\<close> is the contract of a typed access path into the package data, interpreted for every field.
  \<^item> \<open>Config_Spec\<close>, \<open>Config_Spec_Laws\<close>, \<open>Config_Gen\<close>, \<open>Config_Update\<close> (\<^verbatim>\<open>config/spec.rs\<close>): the spec language with matches,
    validate, pointers, requires, gen and update; what is accepted, that generated values are accepted, that generation
    ends, that filling in pointers keeps a configuration valid.
  \<^item> \<open>Config_Action\<close>, \<open>Dependencies\<close>, \<open>Dependency_Spread\<close>, \<open>Dependency_Heal\<close>, \<open>Dependency_Lists\<close> (\<^verbatim>\<open>config/action.rs\<close>,
    \<^verbatim>\<open>dependencies.rs\<close>, \<^verbatim>\<open>install/cleanup.rs\<close>): running the procedures of packages, spreading and healing of errors, the lists
    of dependents.
  \<^item> \<open>Configure\<close>, \<open>Configure_Laws\<close>, \<open>Configure_Ends\<close>, \<open>Configure_Dry\<close> (\<^verbatim>\<open>config/mod.rs\<close>): configuring a package with everything
    it does to dependents; the invariant \<open>db_ok\<close> of the package data and that configuring keeps it (the locales
    \<open>configure_inv\<close> and \<open>configure_rel\<close>), that it ends, that commands are atomic and dry runs without effect.
  \<^item> \<open>Rules\<close>, \<open>Rule_Actions\<close>, \<open>Rule_Laws\<close> (\<^verbatim>\<open>compat/src/config\<close>): evaluation of rules, suggestions, automatic configuration.
  \<^item> \<open>Control\<close> (\<^verbatim>\<open>control.rs\<close>), \<open>Volumes\<close> (\<^verbatim>\<open>volume.rs\<close>, \<^verbatim>\<open>net/interface.rs\<close>): starting and stopping, paths and files.
  \<^item> \<open>Lifecycle\<close>, \<open>Lifecycle_Laws\<close>, \<open>Lifecycle_Steps\<close>, \<open>Install_Task\<close>, \<open>Lifecycle_Props\<close>, \<open>Lan_Ports\<close> (\<^verbatim>\<open>install/mod.rs\<close>,
    \<^verbatim>\<open>install/cleanup.rs\<close>, \<^verbatim>\<open>migration.rs\<close>, \<^verbatim>\<open>backup\<close>, \<^verbatim>\<open>manager/health.rs\<close>): installing, updating, restoring and removing; the
    transition system whose steps are the transactions of all commands and tasks, its reachable states, the installation
    task as a run of it, and the check for conflicting ports. Reachable data are consistent as long as the archives hold the packages
    they were announced as, which the code does not check.
  \<^item> \<open>Boot\<close> (\<^verbatim>\<open>context/rpc.rs\<close>): the cleanup at start-up, which rebuilds the lists of dependents and finishes what was
    interrupted; that it restores the invariant, and that no transient package is left when the cleanup of files works.
  \<^item> \<open>S9pk_Header\<close>, \<open>S9pk_Archive\<close> (\<^verbatim>\<open>s9pk\<close>): the header of a package archive as bytes, packing and the reader; that an archive
    survives packing, what the signature covers, what a read returns after a reset.
  \<^item> \<open>Manager\<close> (\<^verbatim>\<open>manager/mod.rs\<close>, \<^verbatim>\<open>manager/sync.rs\<close>): the thread that runs a service and the synchronizer that follows the
    recorded status, as a step system over their shared state; that a stopped service stays stopped and when the
    two reach what the recorded status asks for.
  \<^item> \<open>Net_Registry\<close>, \<open>Net_Controllers\<close>, \<open>Net_Service\<close> (\<^verbatim>\<open>net\<close>): registrations that last as long as somebody holds them, with
    the locale \<open>weak_registry\<close> interpreted for the four controllers, and the bindings of services; that a removed service
    leaves nothing behind.
  \<^item> \<open>Versions\<close> (\<^verbatim>\<open>version\<close>): the chain of versions with the steps that migrate the database; that a start runs exactly the
    steps that are left, and what single steps do to the recorded marketplaces.
  \<^item> \<open>Http_Reader\<close> (\<^verbatim>\<open>util/http_reader.rs\<close>): reading a file by ranges; that what is read is the file, wherever connections break, and when reading ends.
  \<^item> \<open>Notifications\<close>, \<open>Backup_Bulk\<close> (\<^verbatim>\<open>notifications.rs\<close>, \<^verbatim>\<open>backup/backup_bulk.rs\<close>): the list of notifications with its pages; the
    backup of all packages, what it does to their status on every outcome, and what is lost when other commands interfere.
  \<^item> \<open>Auth\<close> (\<^verbatim>\<open>auth.rs\<close>, \<^verbatim>\<open>middleware/auth.rs\<close>, \<^verbatim>\<open>db/mod.rs\<close>): passwords, sessions and the limit on login attempts; who is let in,
    by what happened before, how many attempts there can be, and what a change of the password changes.
  \<^item> \<open>Mounts\<close> (\<^verbatim>\<open>disk/mount\<close>, \<^verbatim>\<open>middleware/encrypt.rs\<close>): temporary mounts with reference-counted guards, as steps that interleave, and
    the key of a backup behind its password; what is mounted when, and that a backup opens with its password only.
  \<^item> \<open>Docker_Procedure\<close> (\<^verbatim>\<open>procedure/docker.rs\<close>, \<^verbatim>\<open>procedure/mod.rs\<close>, \<^verbatim>\<open>libs/models\<close>): procedures in containers; what becomes of their
    exit status and output, which containers share a name, and that the sandbox is one.
  \<^item> \<open>Io_Readers\<close>, \<open>Durations\<close> (\<^verbatim>\<open>util/io.rs\<close>, \<^verbatim>\<open>util/serde.rs\<close>): the reader that can go back, and durations as text.

  \<^bold>\<open>The invariant.\<close> \<open>db_ok\<close> says that entries are sorted by key and stored under the id of their manifest, that the list
  of dependents of an installed package holds exactly the installed packages that have it as a current dependency, with
  the same data, apart from packages that are being removed, and that current dependencies are declared ones.

  \<^bold>\<open>Fuel.\<close> Recursions without an evident measure carry fuel and return \<open>Diverge\<close> without it. Spreading an error ends
  with fuel above \<open>6 (n + 1) n\<close> for \<open>n\<close> packages, since every call raises one of the severities, of which there are six
  levels; healing ends with more fuel than there are recorded errors; configuring needs the height of the graph of
  declared dependencies plus two when that graph is acyclic (on a cycle the code recurses forever); generation of values
  without a timeout needs no more than one.

  \<^bold>\<open>Not modelled.\<close> Locks and lock receipts (a transaction is atomic here), the progress of downloads,
  command line parsing and serde derivations. What happens inside containers, the V8 engine, the
  protocols of Tor and TLS, NetworkManager, disks and the start-up of the system are input and
  output on the machine or bindings of libraries. For the commands and tasks the manager is represented by its calls.
\<close>

end
